(* ===== verification/Py_Prelude.thy ===== *)
theory Py_Prelude
  imports Main "HOL-Library.Sublist" "HOL-Library.Code_Target_Numeral"
begin

text \<open>
  The part of Python the program is written in: strings as lists of code points, the
  string methods the sources call, decimal integers, the exceptions they raise, and
  the generic lemmas on them that the component theories share.

  A Python \<open>str\<close> is a list of code points (\<open>pstr\<close>); \<open>u ''abc''\<close> is the literal
  \<open>"abc"\<close> and \<open>ch CHR ''a''\<close> one character of it. Character classes and case mappings are
  Python's on U+0000 to U+00FF; code points above are caseless and neither letters nor
  blanks, except as results of \<open>upper\<close> (U+00FF and U+00B5 have their upper case outside that
  range). Exceptions are values of \<open>exn\<close>: their class is kept, their message only where the
  program computes with it.
\<close>

section \<open>Strings, results\<close>

type_synonym pstr = "nat list"

abbreviation u :: "string \<Rightarrow> pstr" where
  "u s \<equiv> map of_char s"

abbreviation ch :: "char \<Rightarrow> nat" where
  "ch c \<equiv> of_char c"

datatype exn =
    LexError nat
  | ParseError
  | ValueError
  | TypeError
  | IndexError
  | KeyError
  | AttributeError
  | OverflowError
  | NotImplementedError
  | AssertionError
  | RuntimeError
  | RecursionError
  | ZeroDivisionError

type_synonym 'a result = "exn + 'a"

definition bindr :: "'e + 'a \<Rightarrow> ('a \<Rightarrow> 'e + 'b) \<Rightarrow> 'e + 'b" where
  "bindr m f = (case m of Inl e \<Rightarrow> Inl e | Inr x \<Rightarrow> f x)"

lemma bindr_simps [simp]:
  "bindr (Inl e) f = Inl e"
  "bindr (Inr x) f = f x"
  by (simp_all add: bindr_def)

lemma bindr_Inr_iff: "bindr m f = Inr y \<longleftrightarrow> (\<exists>x. m = Inr x \<and> f x = Inr y)"
  by (cases m) auto

lemma bindr_Inl_iff: "bindr m f = Inl e \<longleftrightarrow> m = Inl e \<or> (\<exists>x. m = Inr x \<and> f x = Inl e)"
  by (cases m) auto

lemma bindr_cong [fundef_cong]:
  assumes "m = m'" "\<And>x. m' = Inr x \<Longrightarrow> f x = g x"
  shows "bindr m f = bindr m' g"
  using assms by (cases m') auto

fun mapr :: "('a \<Rightarrow> 'e + 'b) \<Rightarrow> 'a list \<Rightarrow> 'e + 'b list" where
  "mapr f [] = Inr []"
| "mapr f (x # xs) = bindr (f x) (\<lambda>y. bindr (mapr f xs) (\<lambda>ys. Inr (y # ys)))"

lemma mapr_Inr_length: "mapr f xs = Inr ys \<Longrightarrow> length ys = length xs"
  by (induction xs arbitrary: ys) (auto simp: bindr_Inr_iff)

lemma mapr_cong [fundef_cong]:
  "xs = ys \<Longrightarrow> (\<And>x. x \<in> set ys \<Longrightarrow> f x = g x) \<Longrightarrow> mapr f xs = mapr g ys"
  by (induction ys arbitrary: xs) auto

section \<open>Character classes and case\<close>

definition is_upper_c :: "nat \<Rightarrow> bool" where
  "is_upper_c c \<longleftrightarrow> 65 \<le> c \<and> c \<le> 90 \<or> 192 \<le> c \<and> c \<le> 222 \<and> c \<noteq> 215"

definition is_digit_c :: "nat \<Rightarrow> bool" where
  "is_digit_c c \<longleftrightarrow> 48 \<le> c \<and> c \<le> 57"

definition py_isalpha_c :: "nat \<Rightarrow> bool" where
  "py_isalpha_c c \<longleftrightarrow> 65 \<le> c \<and> c \<le> 90 \<or> 97 \<le> c \<and> c \<le> 122 \<or> c = 170 \<or> c = 181 \<or> c = 186
     \<or> 192 \<le> c \<and> c \<le> 255 \<and> c \<noteq> 215 \<and> c \<noteq> 247"

definition py_isspace_c :: "nat \<Rightarrow> bool" where
  "py_isspace_c c \<longleftrightarrow> 9 \<le> c \<and> c \<le> 13 \<or> 28 \<le> c \<and> c \<le> 32 \<or> c = 133 \<or> c = 160"

text \<open>\<open>str.isdigit\<close> also accepts the superscripts two, three and one.\<close>

definition py_isdigit_c :: "nat \<Rightarrow> bool" where
  "py_isdigit_c c \<longleftrightarrow> is_digit_c c \<or> c = 178 \<or> c = 179 \<or> c = 185"

definition py_isdigit :: "pstr \<Rightarrow> bool" where
  "py_isdigit s \<longleftrightarrow> s \<noteq> [] \<and> list_all py_isdigit_c s"

definition py_isalpha :: "pstr \<Rightarrow> bool" where
  "py_isalpha s \<longleftrightarrow> s \<noteq> [] \<and> list_all py_isalpha_c s"

definition py_isalnum_c :: "nat \<Rightarrow> bool" where
  "py_isalnum_c c \<longleftrightarrow> py_isalpha_c c \<or> py_isdigit_c c \<or> 188 \<le> c \<and> c \<le> 190"

definition lower_c :: "nat \<Rightarrow> nat" where
  "lower_c c = (if is_upper_c c then c + 32 else c)"

definition py_lower :: "pstr \<Rightarrow> pstr" where
  "py_lower s = map lower_c s"

definition upper_c :: "nat \<Rightarrow> pstr" where
  "upper_c c = (if 97 \<le> c \<and> c \<le> 122 \<or> 224 \<le> c \<and> c \<le> 254 \<and> c \<noteq> 247 then [c - 32]
                else if c = 223 then [83, 83] else if c = 255 then [376]
                else if c = 181 then [924] else [c])"

definition py_upper :: "pstr \<Rightarrow> pstr" where
  "py_upper s = concat (map upper_c s)"

definition title_c :: "nat \<Rightarrow> pstr" where
  "title_c c = (if c = 223 then [83, 115] else upper_c c)"

fun py_title_from :: "bool \<Rightarrow> pstr \<Rightarrow> pstr" where
  "py_title_from cased [] = []"
| "py_title_from cased (c # s) =
     (if cased then [lower_c c] else title_c c) @ py_title_from (py_isalpha_c c) s"

definition py_title :: "pstr \<Rightarrow> pstr" where
  "py_title s = py_title_from False s"

definition py_capitalize :: "pstr \<Rightarrow> pstr" where
  "py_capitalize s = (case s of [] \<Rightarrow> [] | c # cs \<Rightarrow> title_c c @ py_lower cs)"

lemma lower_c_idem [simp]: "lower_c (lower_c c) = lower_c c"
  by (auto simp: lower_c_def is_upper_c_def)

lemma py_lower_idem [simp]: "py_lower (py_lower s) = py_lower s"
  by (simp add: py_lower_def)

lemma py_lower_simps [simp]:
  "py_lower [] = []"
  "py_lower (c # s) = lower_c c # py_lower s"
  "py_lower (s @ t) = py_lower s @ py_lower t"
  "length (py_lower s) = length s"
  "py_lower s = [] \<longleftrightarrow> s = []"
  by (simp_all add: py_lower_def)

lemma py_upper_simps [simp]:
  "py_upper [] = []"
  "py_upper (c # s) = upper_c c @ py_upper s"
  "py_upper (s @ t) = py_upper s @ py_upper t"
  by (simp_all add: py_upper_def)

lemma upper_c_upper: "d \<in> set (upper_c c) \<Longrightarrow> upper_c d = [d]"
  by (auto simp: upper_c_def split: if_splits)

lemma py_upper_fixed: "(\<And>c. c \<in> set s \<Longrightarrow> upper_c c = [c]) \<Longrightarrow> py_upper s = s"
  by (induction s) auto

lemma py_upper_idem [simp]: "py_upper (py_upper s) = py_upper s"
proof (induction s)
  case (Cons c s)
  have "py_upper (upper_c c) = upper_c c"
    by (rule py_upper_fixed) (rule upper_c_upper)
  with Cons show ?case by simp
qed simp

section \<open>Stripping, splitting, joining, replacing\<close>

definition py_lstrip :: "pstr \<Rightarrow> pstr" where
  "py_lstrip s = dropWhile py_isspace_c s"

definition rstrip_of :: "(nat \<Rightarrow> bool) \<Rightarrow> pstr \<Rightarrow> pstr" where
  "rstrip_of p s = rev (dropWhile p (rev s))"

definition py_strip :: "pstr \<Rightarrow> pstr" where
  "py_strip s = rstrip_of py_isspace_c (py_lstrip s)"

lemma rstrip_of_id: "s = [] \<or> \<not> p (last s) \<Longrightarrow> rstrip_of p s = s"
  by (cases s rule: rev_cases) (auto simp: rstrip_of_def)

lemma set_rstrip_of: "set (rstrip_of p s) \<subseteq> set s"
  using set_dropWhileD by (fastforce simp: rstrip_of_def)

lemma set_py_strip: "set (py_strip s) \<subseteq> set s"
  using set_rstrip_of set_dropWhileD unfolding py_strip_def py_lstrip_def by fastforce

lemma rstrip_of_last: "rstrip_of p s \<noteq> [] \<Longrightarrow> \<not> p (last (rstrip_of p s))"
  by (metis hd_dropWhile last_rev rev_is_Nil_conv rstrip_of_def)

lemma dropWhile_hd_id: "s = [] \<or> \<not> p (hd s) \<Longrightarrow> dropWhile p s = s"
  by (cases s) auto

lemma rstrip_of_hd: "rstrip_of p s \<noteq> [] \<Longrightarrow> hd (rstrip_of p s) = hd s"
proof -
  assume ne: "rstrip_of p s \<noteq> []"
  have "s = rstrip_of p s @ rev (takeWhile p (rev s))"
    unfolding rstrip_of_def by (metis rev_append rev_rev_ident takeWhile_dropWhile_id)
  with ne show ?thesis by (metis hd_append2)
qed

lemma py_strip_idem [simp]: "py_strip (py_strip s) = py_strip s"
proof (cases "py_strip s = []")
  case True
  then show ?thesis by (simp only:) (simp add: py_strip_def py_lstrip_def rstrip_of_def)
next
  case False
  let ?t = "dropWhile py_isspace_c s"
  have t: "py_strip s = rstrip_of py_isspace_c ?t" by (simp add: py_strip_def py_lstrip_def)
  have "?t = [] \<Longrightarrow> py_strip s = []" by (simp only: t) (simp add: rstrip_of_def)
  with False have "?t \<noteq> []" by blast
  then have "\<not> py_isspace_c (hd ?t)" by (rule hd_dropWhile)
  with False t have "\<not> py_isspace_c (hd (py_strip s))" using rstrip_of_hd by metis
  then have "py_lstrip (py_strip s) = py_strip s"
    by (simp add: py_lstrip_def dropWhile_hd_id)
  moreover have "rstrip_of py_isspace_c (py_strip s) = py_strip s"
    using rstrip_of_id rstrip_of_last t by metis
  ultimately show ?thesis by (simp add: py_strip_def)
qed

fun split_ws :: "pstr \<Rightarrow> pstr \<Rightarrow> pstr list" where
  "split_ws acc [] = (if acc = [] then [] else [rev acc])"
| "split_ws acc (c # s) =
     (if py_isspace_c c then (if acc = [] then split_ws [] s else rev acc # split_ws [] s)
      else split_ws (c # acc) s)"

definition py_split :: "pstr \<Rightarrow> pstr list" where
  "py_split s = split_ws [] s"

lemma split_ws_nonempty:
  "\<forall>c \<in> set acc. \<not> py_isspace_c c \<Longrightarrow>
     w \<in> set (split_ws acc s) \<Longrightarrow> w \<noteq> [] \<and> (\<forall>c \<in> set w. \<not> py_isspace_c c)"
proof (induction acc s arbitrary: w rule: split_ws.induct)
  case (2 acc c s)
  consider (skip) "py_isspace_c c" "acc = []" | (cut) "py_isspace_c c" "acc \<noteq> []"
    | (more) "\<not> py_isspace_c c" by blast
  then show ?case
  proof cases
    case skip
    then have "w \<in> set (split_ws [] s)" using "2.prems"(2) by simp
    then show ?thesis by (intro "2.IH"(1)[OF skip]) simp_all
  next
    case cut
    with "2.prems"(2) have "w = rev acc \<or> w \<in> set (split_ws [] s)" by simp
    moreover have "w \<in> set (split_ws [] s) \<Longrightarrow> ?thesis"
      by (rule "2.IH"(2)[OF cut]) simp_all
    ultimately show ?thesis using cut(2) "2.prems"(1) by force
  next
    case more
    then have "w \<in> set (split_ws (c # acc) s)" using "2.prems"(2) by simp
    then show ?thesis using more "2.prems"(1) by (intro "2.IH"(3)) simp_all
  qed
qed (auto split: if_splits)

lemma py_split_words:
  "w \<in> set (py_split s) \<Longrightarrow> w \<noteq> [] \<and> (\<forall>c \<in> set w. \<not> py_isspace_c c)"
  unfolding py_split_def by (rule split_ws_nonempty) auto

lemma split_ws_flat: "concat (split_ws acc s) = rev acc @ filter (\<lambda>c. \<not> py_isspace_c c) s"
  by (induction acc s rule: split_ws.induct) auto

lemma set_py_split: "w \<in> set (py_split s) \<Longrightarrow> set w \<subseteq> set s"
proof -
  assume w: "w \<in> set (py_split s)"
  have "set (concat (py_split s)) \<subseteq> set s"
    unfolding py_split_def split_ws_flat by auto
  with w show ?thesis by auto
qed

fun split_on :: "nat \<Rightarrow> pstr \<Rightarrow> pstr list" where
  "split_on d [] = [[]]"
| "split_on d (c # s) =
     (if c = d then [] # split_on d s
      else (case split_on d s of [] \<Rightarrow> [[c]] | w # ws \<Rightarrow> (c # w) # ws))"

lemma split_on_not_Nil [simp]: "split_on d s \<noteq> []"
  by (induction s) (auto split: list.splits)

fun py_join :: "pstr \<Rightarrow> pstr list \<Rightarrow> pstr" where
  "py_join sep [] = []"
| "py_join sep [w] = w"
| "py_join sep (w # v # ws) = w @ sep @ py_join sep (v # ws)"

lemma py_join_Cons: "ws \<noteq> [] \<Longrightarrow> py_join sep (w # ws) = w @ sep @ py_join sep ws"
  by (cases ws) auto

lemma set_py_join: "set (py_join sep ws) \<subseteq> set sep \<union> \<Union> (set ` set ws)"
  by (induction sep ws rule: py_join.induct) auto

lemma join_split_on: "py_join [d] (split_on d s) = s"
proof (induction s)
  case (Cons c s)
  obtain w ws where w: "split_on d s = w # ws" by (cases "split_on d s") auto
  show ?case
  proof (cases "c = d")
    case True
    with Cons w show ?thesis by (simp add: py_join_Cons)
  next
    case False
    with Cons w show ?thesis by (cases ws) auto
  qed
qed simp

fun py_replace :: "pstr \<Rightarrow> pstr \<Rightarrow> pstr \<Rightarrow> pstr" where
  "py_replace old new [] = []"
| "py_replace old new (c # s) =
     (if old \<noteq> [] \<and> prefix old (c # s)
      then new @ py_replace old new (drop (length old - 1) s)
      else c # py_replace old new s)"

declare py_replace.simps [simp del]

lemma py_replace_Nil [simp]: "py_replace old new [] = []"
  by (simp add: py_replace.simps)

lemma py_replace_single:
  "py_replace [d] new s = concat (map (\<lambda>c. if c = d then new else [c]) s)"
  by (induction s) (auto simp: py_replace.simps)

fun py_find :: "pstr \<Rightarrow> pstr \<Rightarrow> nat option" where
  "py_find pat [] = (if pat = [] then Some 0 else None)"
| "py_find pat (c # s) = (if prefix pat (c # s) then Some 0 else map_option Suc (py_find pat s))"

lemma py_find_Some: "py_find pat s = Some i \<Longrightarrow> prefix pat (drop i s) \<and> i \<le> length s"
proof (induction s arbitrary: i)
  case Nil
  then show ?case by (simp split: if_splits)
next
  case (Cons c s)
  show ?case
  proof (cases "prefix pat (c # s)")
    case True
    with Cons.prems show ?thesis by simp
  next
    case False
    with Cons.prems obtain j where j: "i = Suc j" "py_find pat s = Some j" by auto
    with Cons.IH show ?thesis by simp
  qed
qed

lemma py_find_bound: "py_find pat s = Some i \<Longrightarrow> i + length pat \<le> length s"
  using py_find_Some[of pat s i] prefix_length_le[of pat "drop i s"] by auto

definition py_in :: "pstr \<Rightarrow> pstr \<Rightarrow> bool" where
  "py_in pat s \<longleftrightarrow> py_find pat s \<noteq> None"

lemma py_find_None: "py_find pat s = None \<longleftrightarrow> (\<forall>i \<le> length s. \<not> prefix pat (drop i s))"
proof (induction s)
  case (Cons c s)
  have "(\<forall>i \<le> length (c # s). \<not> prefix pat (drop i (c # s))) \<longleftrightarrow>
        \<not> prefix pat (c # s) \<and> (\<forall>i \<le> length s. \<not> prefix pat (drop i s))"
    by (metis (no_types, lifting) Suc_le_mono bot_nat_0.extremum drop0 drop_Suc_Cons length_Cons not0_implies_Suc)
  with Cons show ?case by simp
qed auto

lemma py_in_iff: "py_in pat s \<longleftrightarrow> sublist pat s"
proof
  assume "py_in pat s"
  then obtain i where "py_find pat s = Some i" by (auto simp: py_in_def)
  then have "prefix pat (drop i s)" using py_find_Some by blast
  then show "sublist pat s"
    by (metis append_take_drop_id prefix_def sublist_appendI)
next
  assume "sublist pat s"
  then obtain p q where s: "s = p @ pat @ q" by (auto simp: sublist_def)
  then have "prefix pat (drop (length p) s)" "length p \<le> length s" by auto
  then show "py_in pat s" using py_find_None unfolding py_in_def by blast
qed

definition py_partition :: "pstr \<Rightarrow> pstr \<Rightarrow> pstr \<times> pstr \<times> pstr" where
  "py_partition sep s =
     (case py_find sep s of
        None \<Rightarrow> (s, [], [])
      | Some i \<Rightarrow> (take i s, sep, drop (i + length sep) s))"

lemma py_partition_join: "py_partition sep s = (a, b, c) \<Longrightarrow> a @ b @ c = s"
proof (cases "py_find sep s")
  case None
  assume "py_partition sep s = (a, b, c)"
  with None show ?thesis by (auto simp: py_partition_def)
next
  case (Some i)
  assume p: "py_partition sep s = (a, b, c)"
  from Some have "prefix sep (drop i s)" using py_find_Some by blast
  then have "sep @ drop (i + length sep) s = drop i s"
    by (metis add.commute append_eq_conv_conj drop_drop prefix_def)
  with p Some show ?thesis by (auto simp: py_partition_def)
qed

section \<open>Decimal integers\<close>

fun nat_str :: "nat \<Rightarrow> pstr" where
  "nat_str n = (if n < 10 then [48 + n] else nat_str (n div 10) @ [48 + n mod 10])"

declare nat_str.simps [simp del]

definition int_str :: "int \<Rightarrow> pstr" where
  "int_str i = (if i < 0 then ch CHR ''-'' # nat_str (nat (- i)) else nat_str (nat i))"

definition digits_val :: "pstr \<Rightarrow> nat" where
  "digits_val s = foldl (\<lambda>a c. 10 * a + (c - 48)) 0 s"

lemma digits_val_snoc [simp]: "digits_val (s @ [c]) = 10 * digits_val s + (c - 48)"
  by (simp add: digits_val_def)

lemma digits_val_Nil [simp]: "digits_val [] = 0"
  by (simp add: digits_val_def)

lemma digits_val_nat_str [simp]: "digits_val (nat_str n) = n"
proof (induction n rule: nat_str.induct)
  case (1 n)
  show ?case
  proof (cases "n < 10")
    case True
    then show ?thesis by (simp add: nat_str.simps[of n] digits_val_def)
  next
    case False
    with 1 have "digits_val (nat_str (n div 10)) = n div 10" by simp
    with False show ?thesis by (simp add: nat_str.simps[of n])
  qed
qed

lemma nat_str_not_Nil [simp]: "nat_str n \<noteq> []"
  by (subst nat_str.simps) simp

lemma nat_str_digits: "c \<in> set (nat_str n) \<Longrightarrow> is_digit_c c"
proof (induction n rule: nat_str.induct)
  case (1 n)
  show ?case
  proof (cases "n < 10")
    case True
    with "1.prems" show ?thesis by (simp add: nat_str.simps[of n] is_digit_c_def)
  next
    case False
    with 1 show ?thesis by (auto simp: nat_str.simps[of n] is_digit_c_def)
  qed
qed

lemma nat_str_inj: "nat_str m = nat_str n \<Longrightarrow> m = n"
  by (metis digits_val_nat_str)

lemma int_str_inj: "int_str i = int_str j \<Longrightarrow> i = j"
proof -
  have minus: "nat_str n \<noteq> ch CHR ''-'' # s" for n s
  proof
    assume "nat_str n = ch CHR ''-'' # s"
    then have "ch CHR ''-'' \<in> set (nat_str n)" by simp
    then have "is_digit_c (ch CHR ''-'')" by (rule nat_str_digits)
    then show False by (simp add: is_digit_c_def)
  qed
  assume eq: "int_str i = int_str j"
  have sign: "i < 0 \<longleftrightarrow> j < 0"
    using eq minus[of "nat i" "nat_str (nat (- j))"] minus[of "nat j" "nat_str (nat (- i))"]
    by (cases "i < 0"; cases "j < 0") (simp_all add: int_str_def)
  show ?thesis
  proof (cases "i < 0")
    case True
    with sign eq have "nat (- i) = nat (- j)" by (intro nat_str_inj) (simp add: int_str_def)
    with True sign show ?thesis by simp
  next
    case False
    with sign eq have "nat i = nat j" by (intro nat_str_inj) (simp add: int_str_def)
    with False sign show ?thesis by simp
  qed
qed

text \<open>
  \<open>int(text)\<close>: surrounding blanks, a sign, digits with single underscores between them;
  anything else is a \<open>ValueError\<close> (here \<open>None\<close>).
\<close>

fun int_digits :: "pstr \<Rightarrow> pstr option" where
  "int_digits [] = None"
| "int_digits [c] = (if is_digit_c c then Some [c] else None)"
| "int_digits (c # d # s) =
     (if is_digit_c c then
        (if d = ch CHR ''_'' then map_option (Cons c) (int_digits s)
         else map_option (Cons c) (int_digits (d # s)))
      else None)"

text \<open>Python's \<open>int\<close> refuses a text of more than 4300 digits.\<close>

definition max_str_digits :: nat where
  "max_str_digits = 4300"

definition digits_int :: "pstr \<Rightarrow> int option" where
  "digits_int s = (case int_digits s of
      Some d \<Rightarrow> if length d \<le> max_str_digits then Some (int (digits_val d)) else None
    | None \<Rightarrow> None)"

definition py_int :: "pstr \<Rightarrow> int option" where
  "py_int t =
     (let s = py_strip t in
      case s of
        [] \<Rightarrow> None
      | c # s' \<Rightarrow>
          (if c = ch CHR ''-'' then map_option uminus (digits_int s')
           else if c = ch CHR ''+'' then digits_int s'
           else digits_int s))"

lemma int_digits_plain: "s \<noteq> [] \<Longrightarrow> list_all is_digit_c s \<Longrightarrow> int_digits s = Some s"
  by (induction s rule: int_digits.induct) (auto simp: is_digit_c_def)

lemma is_digit_not_space: "is_digit_c c \<Longrightarrow> \<not> py_isspace_c c"
  by (auto simp: is_digit_c_def py_isspace_c_def)

lemma py_strip_no_space: "(\<And>c. c \<in> set s \<Longrightarrow> \<not> py_isspace_c c) \<Longrightarrow> py_strip s = s"
  by (cases s) (auto simp: py_strip_def py_lstrip_def intro!: rstrip_of_id)

lemma py_int_digits:
  assumes "s \<noteq> []" "list_all is_digit_c s" "length s \<le> max_str_digits"
  shows "py_int s = Some (int (digits_val s))"
proof -
  have "py_strip s = s"
    using assms(2) by (intro py_strip_no_space) (auto simp: list_all_iff is_digit_not_space)
  moreover obtain c s' where "s = c # s'" using assms(1) by (cases s) auto
  moreover have "is_digit_c c" using assms(2) \<open>s = c # s'\<close> by simp
  ultimately show ?thesis
    using int_digits_plain[OF assms(1,2)] assms(3) by (auto simp: py_int_def digits_int_def Let_def is_digit_c_def)
qed

section \<open>Dictionaries with insertion order\<close>

text \<open>
  A Python dict is an association list in insertion order with distinct keys:
  \<open>d[k] = v\<close> keeps the place of a key that is there and appends a new one.
\<close>

fun dict_set :: "('k \<times> 'v) list \<Rightarrow> 'k \<Rightarrow> 'v \<Rightarrow> ('k \<times> 'v) list" where
  "dict_set [] k v = [(k, v)]"
| "dict_set ((k', v') # d) k v = (if k' = k then (k, v) # d else (k', v') # dict_set d k v)"

definition dict_fromkeys :: "'k list \<Rightarrow> 'v \<Rightarrow> ('k \<times> 'v) list" where
  "dict_fromkeys ks v = foldl (\<lambda>d k. dict_set d k v) [] ks"

lemma map_of_dict_set [simp]: "map_of (dict_set d k v) = (map_of d)(k \<mapsto> v)"
  by (induction d k v rule: dict_set.induct) auto

lemma set_keys_dict_set: "fst ` set (dict_set d k v) = insert k (fst ` set d)"
  by (induction d k v rule: dict_set.induct) auto

lemma distinct_keys_dict_set: "distinct (map fst d) \<Longrightarrow> distinct (map fst (dict_set d k v))"
proof (induction d k v rule: dict_set.induct)
  case (2 k' v' d k v)
  have "fst ` set (dict_set d k v) = insert k (fst ` set d)" by (rule set_keys_dict_set)
  with 2 show ?case by (auto simp: image_iff)
qed simp

lemma dict_set_fresh: "k \<notin> fst ` set d \<Longrightarrow> dict_set d k v = d @ [(k, v)]"
  by (induction d k v rule: dict_set.induct) auto

lemma foldl_dict_set_keys:
  "fst ` set (foldl (\<lambda>d k. dict_set d k v) d ks) = fst ` set d \<union> set ks"
  by (induction ks arbitrary: d) (auto simp: set_keys_dict_set)

lemma foldl_dict_set_distinct:
  "distinct (map fst d) \<Longrightarrow> distinct (map fst (foldl (\<lambda>d k. dict_set d k v) d ks))"
  by (induction ks arbitrary: d) (auto simp: distinct_keys_dict_set)

lemma dict_fromkeys_keys: "fst ` set (dict_fromkeys ks v) = set ks"
  by (simp add: dict_fromkeys_def foldl_dict_set_keys)

lemma dict_fromkeys_distinct: "distinct (map fst (dict_fromkeys ks v))"
  unfolding dict_fromkeys_def by (rule foldl_dict_set_distinct) simp

lemma map_of_dict_fromkeys: "map_of (dict_fromkeys ks v) k = (if k \<in> set ks then Some v else None)"
proof -
  have "map_of (foldl (\<lambda>d k. dict_set d k v) d ks) k
        = (if k \<in> set ks then Some v else map_of d k)" for d
    by (induction ks arbitrary: d) auto
  then show ?thesis by (simp add: dict_fromkeys_def)
qed

lemma map_of_foldl_dict_set: "map_of (foldl (\<lambda>d (k, v). dict_set d k v) d ps) = map_of d ++ map_of (rev ps)"
  by (induction ps arbitrary: d) (auto simp: fun_eq_iff map_add_def split: option.splits)

lemma distinct_foldl_dict_set:
  "distinct (map fst d) \<Longrightarrow> distinct (map fst (foldl (\<lambda>d (k, v). dict_set d k v) d ps))"
  by (induction ps arbitrary: d) (auto simp: distinct_keys_dict_set)

section \<open>Searching and cutting lists\<close>

lemma find_append: "List.find P (xs @ ys) = (case List.find P xs of None \<Rightarrow> List.find P ys | Some x \<Rightarrow> Some x)"
  by (induction xs) auto

lemma find_map: "List.find P (map f xs) = map_option f (List.find (P \<circ> f) xs)"
  by (induction xs) auto

lemma find_set: "List.find P xs = Some x \<Longrightarrow> x \<in> set xs \<and> P x"
  by (auto simp: find_Some_iff)

text \<open>\<open>itertools.batched\<close>.\<close>

fun batched :: "nat \<Rightarrow> 'a list \<Rightarrow> 'a list list" where
  "batched n xs = (if n = 0 \<or> xs = [] then [] else take n xs # batched n (drop n xs))"

declare batched.simps [simp del]

lemma concat_batched: "0 < n \<Longrightarrow> concat (batched n xs) = xs"
  by (induction n xs rule: batched.induct) (subst batched.simps, auto)

lemma batched_pages: "page \<in> set (batched n xs) \<Longrightarrow> page \<noteq> [] \<and> set page \<subseteq> set xs \<and> length page \<le> n"
proof (induction n xs rule: batched.induct)
  case (1 n xs)
  then show ?case
    by (subst (asm) (2) batched.simps) (auto split: if_splits dest: in_set_takeD in_set_dropD)
qed

end
