(* ===== verification/Db_Info.thy ===== *)
theory Db_Info
  imports Py_Prelude
begin

text \<open>
  The column table of \<open>src/api/parsing/db_info.py\<close>: every searchable database column with
  its field type, its search aliases and the parser class that reads its values, and the
  dictionaries the module derives from the table when it is imported.
\<close>

section \<open>Columns\<close>

datatype field_type = FT_JSONB_ARRAY | FT_JSONB_OBJECT | FT_NUMERIC | FT_TEXT | FT_DATE

datatype parser_class =
    PC_NUMERIC | PC_MANA | PC_RARITY | PC_LEGALITY | PC_COLOR | PC_TEXT | PC_DATE | PC_YEAR

record field_info =
  db_column_name :: pstr
  fi_field_type :: field_type
  search_aliases :: "pstr list"
  fi_parser_class :: parser_class

definition field :: "pstr \<Rightarrow> field_type \<Rightarrow> pstr list \<Rightarrow> parser_class \<Rightarrow> field_info" where
  "field col ft al pc =
     \<lparr>db_column_name = col, fi_field_type = ft, search_aliases = al, fi_parser_class = pc\<rparr>"

definition DB_COLUMNS :: "field_info list" where
  "DB_COLUMNS =
    [
     field (u ''card_artist'') FT_TEXT [u ''artist'', u ''a''] PC_TEXT,
     field (u ''card_colors'') FT_JSONB_OBJECT [u ''color'', u ''colors'', u ''c''] PC_COLOR,
     field (u ''card_color_identity'') FT_JSONB_OBJECT [u ''color_identity'', u ''coloridentity'', u ''id'', u ''identity''] PC_COLOR,
     field (u ''card_frame_data'') FT_JSONB_OBJECT [u ''frame''] PC_TEXT,
     field (u ''card_keywords'') FT_JSONB_OBJECT [u ''keyword'', u ''kw''] PC_TEXT,
     field (u ''card_name'') FT_TEXT [u ''name''] PC_TEXT,
     field (u ''card_subtypes'') FT_JSONB_ARRAY [u ''subtype'', u ''subtypes''] PC_TEXT,
     field (u ''card_types'') FT_JSONB_ARRAY [u ''type'', u ''types'', u ''t''] PC_TEXT,
     field (u ''cmc'') FT_NUMERIC [u ''cmc'', u ''mv'', u ''manavalue''] PC_NUMERIC,
     field (u ''creature_power'') FT_NUMERIC [u ''power'', u ''pow''] PC_NUMERIC,
     field (u ''creature_toughness'') FT_NUMERIC [u ''toughness'', u ''tou''] PC_NUMERIC,
     field (u ''planeswalker_loyalty'') FT_NUMERIC [u ''loyalty'', u ''loy''] PC_NUMERIC,
     field (u ''edhrec_rank'') FT_NUMERIC [] PC_NUMERIC,
     field (u ''mana_cost_jsonb'') FT_JSONB_OBJECT [u ''mana'', u ''m''] PC_MANA,
     field (u ''devotion'') FT_JSONB_OBJECT [u ''devotion''] PC_MANA,
     field (u ''price_usd'') FT_NUMERIC [u ''usd''] PC_NUMERIC,
     field (u ''price_eur'') FT_NUMERIC [u ''eur''] PC_NUMERIC,
     field (u ''price_tix'') FT_NUMERIC [u ''tix''] PC_NUMERIC,
     field (u ''produced_mana'') FT_JSONB_OBJECT [u ''produces''] PC_COLOR,
     field (u ''raw_card_blob'') FT_JSONB_OBJECT [] PC_TEXT,
     field (u ''oracle_text'') FT_TEXT [u ''oracle'', u ''o''] PC_TEXT,
     field (u ''flavor_text'') FT_TEXT [u ''flavor'', u ''ft''] PC_TEXT,
     field (u ''card_oracle_tags'') FT_JSONB_OBJECT [u ''oracle_tags'', u ''otag''] PC_TEXT,
     field (u ''card_art_tags'') FT_JSONB_OBJECT [u ''art_tags'', u ''art''] PC_TEXT,
     field (u ''card_is_tags'') FT_JSONB_OBJECT [u ''is''] PC_TEXT,
     field (u ''card_rarity_int'') FT_NUMERIC [u ''rarity'', u ''r''] PC_RARITY,
     field (u ''card_set_code'') FT_TEXT [u ''set'', u ''s'', u ''e''] PC_TEXT,
     field (u ''collector_number'') FT_TEXT [u ''number'', u ''cn''] PC_TEXT,
     field (u ''collector_number_int'') FT_NUMERIC [u ''number'', u ''cn''] PC_NUMERIC,
     field (u ''card_legalities'') FT_JSONB_OBJECT [u ''format'', u ''f'', u ''legal'', u ''banned'', u ''restricted''] PC_LEGALITY,
     field (u ''card_layout'') FT_TEXT [u ''layout''] PC_TEXT,
     field (u ''card_border'') FT_TEXT [u ''border''] PC_TEXT,
     field (u ''card_watermark'') FT_TEXT [u ''watermark'', u ''wm''] PC_TEXT,
     field (u ''released_at'') FT_DATE [u ''date''] PC_DATE,
     field (u ''released_at'') FT_DATE [u ''year''] PC_YEAR
    ]"

section \<open>Derived dictionaries\<close>

text \<open>\<open>d.setdefault(k, []).append(x)\<close>.\<close>

definition dict_append :: "('k \<times> 'v list) list \<Rightarrow> 'k \<Rightarrow> 'v \<Rightarrow> ('k \<times> 'v list) list" where
  "dict_append d k x = dict_set d k ((case map_of d k of None \<Rightarrow> [] | Some xs \<Rightarrow> xs) @ [x])"

definition add_aliases :: "(pstr \<times> field_info list) list \<Rightarrow> field_info \<Rightarrow> (pstr \<times> field_info list) list" where
  "add_aliases d col = foldl (\<lambda>d a. dict_append d (py_lower a) col) d (search_aliases col)"

definition ALIAS_TO_FIELD_INFOS :: "(pstr \<times> field_info list) list" where
  "ALIAS_TO_FIELD_INFOS = foldl add_aliases [] DB_COLUMNS"

definition DB_NAME_TO_FIELD_TYPE :: "(pstr \<times> field_type) list" where
  "DB_NAME_TO_FIELD_TYPE = foldl (\<lambda>d col. dict_set d (db_column_name col) (fi_field_type col)) [] DB_COLUMNS"

definition add_search_names :: "(pstr \<times> pstr) list \<Rightarrow> field_info \<Rightarrow> (pstr \<times> pstr) list" where
  "add_search_names d col =
     foldl (\<lambda>d a. dict_set d (py_lower a) (db_column_name col))
       (dict_set d (py_lower (db_column_name col)) (db_column_name col)) (search_aliases col)"

definition SEARCH_NAME_TO_DB_NAME :: "(pstr \<times> pstr) list" where
  "SEARCH_NAME_TO_DB_NAME = foldl add_search_names [] DB_COLUMNS"

definition CARD_SUPERTYPES :: "pstr list" where
  "CARD_SUPERTYPES = [u ''Basic'', u ''Legendary'', u ''Snow'', u ''World'']"

definition CARD_TYPES :: "pstr list" where
  "CARD_TYPES =
    [u ''Artifact'', u ''Conspiracy'', u ''Creature'', u ''Enchantment'', u ''Instant'', u ''Kindred'',
     u ''Land'', u ''Planeswalker'', u ''Sorcery'', u ''Tribal'']"

definition COLOR_CODE_TO_NAME :: "(pstr \<times> pstr) list" where
  "COLOR_CODE_TO_NAME =
    [(u ''b'', u ''black''), (u ''c'', u ''colorless''), (u ''g'', u ''green''), (u ''r'', u ''red''),
     (u ''u'', u ''blue''), (u ''w'', u ''white'')]"

definition COLOR_NAME_TO_CODE :: "(pstr \<times> pstr) list" where
  "COLOR_NAME_TO_CODE = map (\<lambda>(k, v). (v, k)) COLOR_CODE_TO_NAME"

definition FORMAT_CODE_TO_NAME :: "(pstr \<times> pstr) list" where
  "FORMAT_CODE_TO_NAME =
    [(u ''m'', u ''modern''), (u ''s'', u ''standard''), (u ''l'', u ''legacy''), (u ''p'', u ''pauper''),
     (u ''c'', u ''commander''), (u ''v'', u ''vintage''), (u ''h'', u ''historic'')]"

text \<open>The alias dictionary evaluated once; the equation serves every later evaluation.\<close>

lemma ALIAS_TO_FIELD_INFOS_eq [code]:
  "ALIAS_TO_FIELD_INFOS = [
     (u ''artist'', [field (u ''card_artist'') FT_TEXT [u ''artist'', u ''a''] PC_TEXT]),
     (u ''a'', [field (u ''card_artist'') FT_TEXT [u ''artist'', u ''a''] PC_TEXT]),
     (u ''color'', [field (u ''card_colors'') FT_JSONB_OBJECT [u ''color'', u ''colors'', u ''c''] PC_COLOR]),
     (u ''colors'', [field (u ''card_colors'') FT_JSONB_OBJECT [u ''color'', u ''colors'', u ''c''] PC_COLOR]),
     (u ''c'', [field (u ''card_colors'') FT_JSONB_OBJECT [u ''color'', u ''colors'', u ''c''] PC_COLOR]),
     (u ''color_identity'', [field (u ''card_color_identity'') FT_JSONB_OBJECT [u ''color_identity'', u ''coloridentity'', u ''id'', u ''identity''] PC_COLOR]),
     (u ''coloridentity'', [field (u ''card_color_identity'') FT_JSONB_OBJECT [u ''color_identity'', u ''coloridentity'', u ''id'', u ''identity''] PC_COLOR]),
     (u ''id'', [field (u ''card_color_identity'') FT_JSONB_OBJECT [u ''color_identity'', u ''coloridentity'', u ''id'', u ''identity''] PC_COLOR]),
     (u ''identity'', [field (u ''card_color_identity'') FT_JSONB_OBJECT [u ''color_identity'', u ''coloridentity'', u ''id'', u ''identity''] PC_COLOR]),
     (u ''frame'', [field (u ''card_frame_data'') FT_JSONB_OBJECT [u ''frame''] PC_TEXT]),
     (u ''keyword'', [field (u ''card_keywords'') FT_JSONB_OBJECT [u ''keyword'', u ''kw''] PC_TEXT]),
     (u ''kw'', [field (u ''card_keywords'') FT_JSONB_OBJECT [u ''keyword'', u ''kw''] PC_TEXT]),
     (u ''name'', [field (u ''card_name'') FT_TEXT [u ''name''] PC_TEXT]),
     (u ''subtype'', [field (u ''card_subtypes'') FT_JSONB_ARRAY [u ''subtype'', u ''subtypes''] PC_TEXT]),
     (u ''subtypes'', [field (u ''card_subtypes'') FT_JSONB_ARRAY [u ''subtype'', u ''subtypes''] PC_TEXT]),
     (u ''type'', [field (u ''card_types'') FT_JSONB_ARRAY [u ''type'', u ''types'', u ''t''] PC_TEXT]),
     (u ''types'', [field (u ''card_types'') FT_JSONB_ARRAY [u ''type'', u ''types'', u ''t''] PC_TEXT]),
     (u ''t'', [field (u ''card_types'') FT_JSONB_ARRAY [u ''type'', u ''types'', u ''t''] PC_TEXT]),
     (u ''cmc'', [field (u ''cmc'') FT_NUMERIC [u ''cmc'', u ''mv'', u ''manavalue''] PC_NUMERIC]),
     (u ''mv'', [field (u ''cmc'') FT_NUMERIC [u ''cmc'', u ''mv'', u ''manavalue''] PC_NUMERIC]),
     (u ''manavalue'', [field (u ''cmc'') FT_NUMERIC [u ''cmc'', u ''mv'', u ''manavalue''] PC_NUMERIC]),
     (u ''power'', [field (u ''creature_power'') FT_NUMERIC [u ''power'', u ''pow''] PC_NUMERIC]),
     (u ''pow'', [field (u ''creature_power'') FT_NUMERIC [u ''power'', u ''pow''] PC_NUMERIC]),
     (u ''toughness'', [field (u ''creature_toughness'') FT_NUMERIC [u ''toughness'', u ''tou''] PC_NUMERIC]),
     (u ''tou'', [field (u ''creature_toughness'') FT_NUMERIC [u ''toughness'', u ''tou''] PC_NUMERIC]),
     (u ''loyalty'', [field (u ''planeswalker_loyalty'') FT_NUMERIC [u ''loyalty'', u ''loy''] PC_NUMERIC]),
     (u ''loy'', [field (u ''planeswalker_loyalty'') FT_NUMERIC [u ''loyalty'', u ''loy''] PC_NUMERIC]),
     (u ''mana'', [field (u ''mana_cost_jsonb'') FT_JSONB_OBJECT [u ''mana'', u ''m''] PC_MANA]),
     (u ''m'', [field (u ''mana_cost_jsonb'') FT_JSONB_OBJECT [u ''mana'', u ''m''] PC_MANA]),
     (u ''devotion'', [field (u ''devotion'') FT_JSONB_OBJECT [u ''devotion''] PC_MANA]),
     (u ''usd'', [field (u ''price_usd'') FT_NUMERIC [u ''usd''] PC_NUMERIC]),
     (u ''eur'', [field (u ''price_eur'') FT_NUMERIC [u ''eur''] PC_NUMERIC]),
     (u ''tix'', [field (u ''price_tix'') FT_NUMERIC [u ''tix''] PC_NUMERIC]),
     (u ''produces'', [field (u ''produced_mana'') FT_JSONB_OBJECT [u ''produces''] PC_COLOR]),
     (u ''oracle'', [field (u ''oracle_text'') FT_TEXT [u ''oracle'', u ''o''] PC_TEXT]),
     (u ''o'', [field (u ''oracle_text'') FT_TEXT [u ''oracle'', u ''o''] PC_TEXT]),
     (u ''flavor'', [field (u ''flavor_text'') FT_TEXT [u ''flavor'', u ''ft''] PC_TEXT]),
     (u ''ft'', [field (u ''flavor_text'') FT_TEXT [u ''flavor'', u ''ft''] PC_TEXT]),
     (u ''oracle_tags'', [field (u ''card_oracle_tags'') FT_JSONB_OBJECT [u ''oracle_tags'', u ''otag''] PC_TEXT]),
     (u ''otag'', [field (u ''card_oracle_tags'') FT_JSONB_OBJECT [u ''oracle_tags'', u ''otag''] PC_TEXT]),
     (u ''art_tags'', [field (u ''card_art_tags'') FT_JSONB_OBJECT [u ''art_tags'', u ''art''] PC_TEXT]),
     (u ''art'', [field (u ''card_art_tags'') FT_JSONB_OBJECT [u ''art_tags'', u ''art''] PC_TEXT]),
     (u ''is'', [field (u ''card_is_tags'') FT_JSONB_OBJECT [u ''is''] PC_TEXT]),
     (u ''rarity'', [field (u ''card_rarity_int'') FT_NUMERIC [u ''rarity'', u ''r''] PC_RARITY]),
     (u ''r'', [field (u ''card_rarity_int'') FT_NUMERIC [u ''rarity'', u ''r''] PC_RARITY]),
     (u ''set'', [field (u ''card_set_code'') FT_TEXT [u ''set'', u ''s'', u ''e''] PC_TEXT]),
     (u ''s'', [field (u ''card_set_code'') FT_TEXT [u ''set'', u ''s'', u ''e''] PC_TEXT]),
     (u ''e'', [field (u ''card_set_code'') FT_TEXT [u ''set'', u ''s'', u ''e''] PC_TEXT]),
     (u ''number'', [field (u ''collector_number'') FT_TEXT [u ''number'', u ''cn''] PC_TEXT, field (u ''collector_number_int'') FT_NUMERIC [u ''number'', u ''cn''] PC_NUMERIC]),
     (u ''cn'', [field (u ''collector_number'') FT_TEXT [u ''number'', u ''cn''] PC_TEXT, field (u ''collector_number_int'') FT_NUMERIC [u ''number'', u ''cn''] PC_NUMERIC]),
     (u ''format'', [field (u ''card_legalities'') FT_JSONB_OBJECT [u ''format'', u ''f'', u ''legal'', u ''banned'', u ''restricted''] PC_LEGALITY]),
     (u ''f'', [field (u ''card_legalities'') FT_JSONB_OBJECT [u ''format'', u ''f'', u ''legal'', u ''banned'', u ''restricted''] PC_LEGALITY]),
     (u ''legal'', [field (u ''card_legalities'') FT_JSONB_OBJECT [u ''format'', u ''f'', u ''legal'', u ''banned'', u ''restricted''] PC_LEGALITY]),
     (u ''banned'', [field (u ''card_legalities'') FT_JSONB_OBJECT [u ''format'', u ''f'', u ''legal'', u ''banned'', u ''restricted''] PC_LEGALITY]),
     (u ''restricted'', [field (u ''card_legalities'') FT_JSONB_OBJECT [u ''format'', u ''f'', u ''legal'', u ''banned'', u ''restricted''] PC_LEGALITY]),
     (u ''layout'', [field (u ''card_layout'') FT_TEXT [u ''layout''] PC_TEXT]),
     (u ''border'', [field (u ''card_border'') FT_TEXT [u ''border''] PC_TEXT]),
     (u ''watermark'', [field (u ''card_watermark'') FT_TEXT [u ''watermark'', u ''wm''] PC_TEXT]),
     (u ''wm'', [field (u ''card_watermark'') FT_TEXT [u ''watermark'', u ''wm''] PC_TEXT]),
     (u ''date'', [field (u ''released_at'') FT_DATE [u ''date''] PC_DATE]),
     (u ''year'', [field (u ''released_at'') FT_DATE [u ''year''] PC_YEAR])]"
  by code_simp

end
