(* ===== verification/Nodes.thy ===== *)
theory Nodes
  imports Db_Info
begin

text \<open>
  The abstract syntax of queries, \<open>src/api/parsing/nodes.py\<close> and the node classes of
  \<open>src/api/parsing/card_query_nodes.py\<close>, with the canonicalisation
  \<open>flatten_nested_operations\<close>. A class is a constructor of \<open>node\<close>; its instance variables are the
  constructor's arguments. The three-valued evaluation of a query over an assignment of
  truth values to its leaves is the specification the rewrites are proved against: SQL's
  \<open>AND\<close>, \<open>OR\<close> and \<open>NOT\<close> with \<open>NULL\<close> as \<open>None\<close>.
\<close>

section \<open>Numbers\<close>

text \<open>
  A number of a query is a Python \<open>int\<close> or \<open>float\<close>. A float literal is kept as its decimal value
  \<open>m / 10 ^ k\<close> in lowest terms, which is what \<open>repr\<close> prints for literals of at most 15
  significant digits; the rounding of longer literals to a double is not modelled.
\<close>

datatype pynum = PyInt int | PyFloat nat nat

fun norm_dec :: "nat \<Rightarrow> nat \<Rightarrow> pynum" where
  "norm_dec m 0 = PyFloat m 0"
| "norm_dec m (Suc k) = (if m mod 10 = 0 then norm_dec (m div 10) k else PyFloat m (Suc k))"

fun num_str :: "pynum \<Rightarrow> pstr" where
  "num_str (PyInt i) = int_str i"
| "num_str (PyFloat m k) =
     (let ip = nat_str (m div 10 ^ k); fp = nat_str (m mod 10 ^ k)
      in if k = 0 then nat_str m @ u ''.0'' else ip @ u ''.'' @ replicate (k - length fp) 48 @ fp)"

text \<open>\<open>int(x)\<close> truncates a float.\<close>

fun num_int :: "pynum \<Rightarrow> int" where
  "num_int (PyInt i) = i"
| "num_int (PyFloat m k) = int (m div 10 ^ k)"

text \<open>A float in lowest terms, as \<open>norm_dec\<close> builds it.\<close>

fun num_ok :: "pynum \<Rightarrow> bool" where
  "num_ok (PyInt i) = True"
| "num_ok (PyFloat m k) \<longleftrightarrow> k = 0 \<or> m mod 10 \<noteq> 0"

lemma norm_dec_ok: "num_ok (norm_dec m k)"
  by (induction m k rule: norm_dec.induct) auto

section \<open>Nodes\<close>

datatype node =
    StringValueNode pstr
  | NumericValueNode pynum
  | ManaValueNode pstr
  | RegexValueNode pstr
  | AttributeNode pstr
  | CardAttributeNode pstr parser_class "field_info list" pstr
      \<comment> \<open>\<open>original_attribute\<close>, \<open>matched_parser_class\<close>, \<open>field_infos\<close>, \<open>attribute_name\<close>\<close>
  | BinaryOperatorNode node pstr node
  | CardBinaryOperatorNode node pstr node
  | AndNode "node list"
  | OrNode "node list"
  | NotNode node
  | TrueNode
  | ExactNameNode pstr
  | Query node

text \<open>The operators a \<open>BinaryOperatorNode\<close> accepts; its constructor raises on any other.\<close>

definition bin_ops :: "pstr list" where
  "bin_ops = [u ''-'', u ''!='', u ''*'', u ''/'', u ''+'', u ''<'', u ''<='', u ''='', u ''>'', u ''>='', u '':'']"

definition mk_binary :: "node \<Rightarrow> pstr \<Rightarrow> node \<Rightarrow> node result" where
  "mk_binary lhs op rhs = (if op \<in> set bin_ops then Inr (BinaryOperatorNode lhs op rhs) else Inl ValueError)"

definition mk_card_binary :: "node \<Rightarrow> pstr \<Rightarrow> node \<Rightarrow> node result" where
  "mk_card_binary lhs op rhs = (if op \<in> set bin_ops then Inr (CardBinaryOperatorNode lhs op rhs) else Inl ValueError)"

definition mk_attribute :: "pstr \<Rightarrow> node" where
  "mk_attribute name = AttributeNode (py_lower name)"

text \<open>
  \<open>CardAttributeNode.__init__\<close>: the field infos of the alias with the matched parser class,
  which must be exactly one.
\<close>

definition mk_card_attribute :: "pstr \<Rightarrow> parser_class \<Rightarrow> node result" where
  "mk_card_attribute name pc =
     (let infos = filter (\<lambda>f. fi_parser_class f = pc)
                    (case map_of ALIAS_TO_FIELD_INFOS (py_lower name) of None \<Rightarrow> [] | Some fs \<Rightarrow> fs)
      in case infos of
           [fi] \<Rightarrow> Inr (CardAttributeNode (py_lower name) pc infos (py_lower (db_column_name fi)))
         | _ \<Rightarrow> Inl ValueError)"

section \<open>Canonical form\<close>

text \<open>
  The operands a flattened child contributes to its parent: its own when it is of the same
  class (\<open>operands.extend\<close>), itself otherwise (\<open>operands.append\<close>).
\<close>

definition and_operands :: "node \<Rightarrow> node list" where
  "and_operands n = (case n of AndNode xs \<Rightarrow> xs | _ \<Rightarrow> [n])"

definition or_operands :: "node \<Rightarrow> node list" where
  "or_operands n = (case n of OrNode xs \<Rightarrow> xs | _ \<Rightarrow> [n])"

fun flatten_nested_operations :: "node \<Rightarrow> node" where
  "flatten_nested_operations (AndNode ops) =
     AndNode (concat (map (\<lambda>op. and_operands (flatten_nested_operations op)) ops))"
| "flatten_nested_operations (OrNode ops) =
     OrNode (concat (map (\<lambda>op. or_operands (flatten_nested_operations op)) ops))"
| "flatten_nested_operations (NotNode n) = NotNode (flatten_nested_operations n)"
| "flatten_nested_operations (Query n) = Query (flatten_nested_operations n)"
| "flatten_nested_operations n = n"

fun is_and :: "node \<Rightarrow> bool" where "is_and (AndNode _) = True" | "is_and _ = False"
fun is_or :: "node \<Rightarrow> bool" where "is_or (OrNode _) = True" | "is_or _ = False"

text \<open>
  Canonical: no \<open>AndNode\<close> directly below an \<open>AndNode\<close>, no \<open>OrNode\<close> directly below an \<open>OrNode\<close>,
  above the leaves.
\<close>

fun canonical :: "node \<Rightarrow> bool" where
  "canonical (AndNode ops) \<longleftrightarrow> (\<forall>n \<in> set ops. canonical n \<and> \<not> is_and n)"
| "canonical (OrNode ops) \<longleftrightarrow> (\<forall>n \<in> set ops. canonical n \<and> \<not> is_or n)"
| "canonical (NotNode n) \<longleftrightarrow> canonical n"
| "canonical (Query n) \<longleftrightarrow> canonical n"
| "canonical _ \<longleftrightarrow> True"

lemma and_operands_canonical:
  "canonical n \<Longrightarrow> m \<in> set (and_operands n) \<Longrightarrow> canonical m \<and> \<not> is_and m"
  by (cases n) (auto simp: and_operands_def)

lemma or_operands_canonical:
  "canonical n \<Longrightarrow> m \<in> set (or_operands n) \<Longrightarrow> canonical m \<and> \<not> is_or m"
  by (cases n) (auto simp: or_operands_def)

lemma flatten_canonical: "canonical (flatten_nested_operations n)"
proof (induction n)
  case (AndNode ops)
  then show ?case using and_operands_canonical by fastforce
next
  case (OrNode ops)
  then show ?case using or_operands_canonical by fastforce
qed auto

lemma concat_map_single: "(\<And>x. x \<in> set xs \<Longrightarrow> f x = [x]) \<Longrightarrow> concat (map f xs) = xs"
  by (induction xs) auto

lemma and_operands_single: "\<not> is_and n \<Longrightarrow> and_operands n = [n]"
  by (cases n) (simp_all add: and_operands_def)

lemma or_operands_single: "\<not> is_or n \<Longrightarrow> or_operands n = [n]"
  by (cases n) (simp_all add: or_operands_def)

lemma flatten_id: "canonical n \<Longrightarrow> flatten_nested_operations n = n"
proof (induction n)
  case (AndNode ops)
  have "and_operands (flatten_nested_operations m) = [m]" if "m \<in> set ops" for m
    using AndNode that by (simp add: and_operands_single)
  then show ?case by (simp add: concat_map_single)
next
  case (OrNode ops)
  have "or_operands (flatten_nested_operations m) = [m]" if "m \<in> set ops" for m
    using OrNode that by (simp add: or_operands_single)
  then show ?case by (simp add: concat_map_single)
qed auto

section \<open>Three-valued semantics\<close>

definition tri_and :: "bool option list \<Rightarrow> bool option" where
  "tri_and vs = (if Some False \<in> set vs then Some False else if None \<in> set vs then None else Some True)"

definition tri_or :: "bool option list \<Rightarrow> bool option" where
  "tri_or vs = (if Some True \<in> set vs then Some True else if None \<in> set vs then None else Some False)"

definition tri_not :: "bool option \<Rightarrow> bool option" where
  "tri_not v = map_option Not v"

fun tri_eval :: "(node \<Rightarrow> bool option) \<Rightarrow> node \<Rightarrow> bool option" where
  "tri_eval I (AndNode ops) = tri_and (map (tri_eval I) ops)"
| "tri_eval I (OrNode ops) = tri_or (map (tri_eval I) ops)"
| "tri_eval I (NotNode n) = tri_not (tri_eval I n)"
| "tri_eval I (Query n) = tri_eval I n"
| "tri_eval I TrueNode = Some True"
| "tri_eval I n = I n"

lemma tri_and_concat: "tri_and (concat vss) = tri_and (map tri_and vss)"
proof -
  have "Some False \<in> tri_and ` set vss \<longleftrightarrow> (\<exists>vs \<in> set vss. Some False \<in> set vs)"
    by (auto simp: tri_and_def image_iff split: if_splits)
  moreover have "None \<in> tri_and ` set vss \<longleftrightarrow>
      (\<exists>vs \<in> set vss. None \<in> set vs \<and> Some False \<notin> set vs)"
    by (auto simp: tri_and_def image_iff split: if_splits)
  ultimately show ?thesis unfolding tri_and_def by (auto simp: image_iff)
qed

lemma tri_or_concat: "tri_or (concat vss) = tri_or (map tri_or vss)"
proof -
  have "Some True \<in> tri_or ` set vss \<longleftrightarrow> (\<exists>vs \<in> set vss. Some True \<in> set vs)"
    by (auto simp: tri_or_def image_iff split: if_splits)
  moreover have "None \<in> tri_or ` set vss \<longleftrightarrow>
      (\<exists>vs \<in> set vss. None \<in> set vs \<and> Some True \<notin> set vs)"
    by (auto simp: tri_or_def image_iff split: if_splits)
  ultimately show ?thesis unfolding tri_or_def by (auto simp: image_iff)
qed

lemma tri_and_single [simp]: "tri_and [v] = v"
  by (cases v) (auto simp: tri_and_def)

lemma tri_or_single [simp]: "tri_or [v] = v"
  by (cases v) (auto simp: tri_or_def)

lemma tri_eval_and_operands: "tri_and (map (tri_eval I) (and_operands n)) = tri_eval I n"
  by (cases n) (simp_all add: and_operands_def)

lemma tri_eval_or_operands: "tri_or (map (tri_eval I) (or_operands n)) = tri_eval I n"
  by (cases n) (simp_all add: or_operands_def)

lemma flatten_tri_eval: "tri_eval I (flatten_nested_operations n) = tri_eval I n"
proof (induction n)
  case (AndNode ops)
  have "tri_eval I (flatten_nested_operations (AndNode ops)) =
        tri_and (concat (map (\<lambda>n. map (tri_eval I) (and_operands (flatten_nested_operations n))) ops))"
    by (simp add: map_concat comp_def)
  also have "\<dots> = tri_and (map (tri_eval I \<circ> flatten_nested_operations) ops)"
    by (simp add: tri_and_concat comp_def tri_eval_and_operands)
  also have "\<dots> = tri_and (map (tri_eval I) ops)"
    using AndNode by (intro arg_cong[of _ _ tri_and] map_cong) auto
  finally show ?case by simp
next
  case (OrNode ops)
  have "tri_eval I (flatten_nested_operations (OrNode ops)) =
        tri_or (concat (map (\<lambda>n. map (tri_eval I) (or_operands (flatten_nested_operations n))) ops))"
    by (simp add: map_concat comp_def)
  also have "\<dots> = tri_or (map (tri_eval I \<circ> flatten_nested_operations) ops)"
    by (simp add: tri_or_concat comp_def tri_eval_or_operands)
  also have "\<dots> = tri_or (map (tri_eval I) ops)"
    using OrNode by (intro arg_cong[of _ _ tri_or] map_cong) auto
  finally show ?case by simp
qed auto

text \<open>
  C6: Flattening gives the canonical form of a query: no conjunction directly below a conjunction and
  no disjunction directly below a disjunction, the same three-valued meaning under every reading
  of the leaves, and a fixed point.
\<close>

theorem flatten_correct:
  "canonical (flatten_nested_operations n) \<and> tri_eval I (flatten_nested_operations n) = tri_eval I n
   \<and> flatten_nested_operations (flatten_nested_operations n) = flatten_nested_operations n"
  using flatten_canonical[of n] flatten_id flatten_tri_eval by blast

end
