(* ===== verification/Hand_Lexer.thy ===== *)
theory Hand_Lexer
  imports Nodes
begin

text \<open>
  The lexer of \<open>src/api/parsing/hand_parser.py\<close>: token types, tokens and \<open>tokenize\<close>. The source
  scans by index; the model scans the remaining suffix and carries the index along, so a
  token's position is the index of its first character. Its lemmas: the token list always ends
  in the only end-of-input token, positions increase, and each token's value fits its type.
\<close>

section \<open>Tokens\<close>

datatype TT =
    T_WORD | T_NUMBER | T_QUOTED | T_REGEX | T_MANA | T_OP | T_PLUS | T_MINUS | T_STAR | T_SLASH
  | T_LPAREN | T_RPAREN | T_BANG | T_EOF

datatype tokval = VStr pstr | VNum pynum

record token =
  tok_type :: TT
  tok_value :: tokval
  tok_pos :: nat
  space_before :: bool

fun val_str :: "tokval \<Rightarrow> pstr" where
  "val_str (VStr s) = s"
| "val_str (VNum n) = num_str n"

abbreviation tok_text :: "token \<Rightarrow> pstr" where
  "tok_text t \<equiv> val_str (tok_value t)"

definition is_arith :: "TT \<Rightarrow> bool" where
  "is_arith t \<longleftrightarrow> t \<in> {T_PLUS, T_MINUS, T_STAR, T_SLASH}"

definition lex_space :: "nat \<Rightarrow> bool" where
  "lex_space c \<longleftrightarrow> c = 32 \<or> c = 9 \<or> c = 13 \<or> c = 10"

definition is_word_start :: "nat \<Rightarrow> bool" where
  "is_word_start c \<longleftrightarrow> 97 \<le> c \<and> c \<le> 122 \<or> 65 \<le> c \<and> c \<le> 90 \<or> c = ch CHR ''_'' \<or> py_isalpha_c c"

definition is_word_cont :: "nat \<Rightarrow> bool" where
  "is_word_cont c \<longleftrightarrow> 97 \<le> c \<and> c \<le> 122 \<or> 65 \<le> c \<and> c \<le> 90 \<or> c = ch CHR ''_'' \<or> is_digit_c c
     \<or> c = ch CHR ''.'' \<or> py_isalpha_c c"

section \<open>Scanning one token\<close>

text \<open>The body of a quoted string after its opening quote: its characters and how many were read.\<close>

fun scan_quoted :: "nat \<Rightarrow> pstr \<Rightarrow> (pstr \<times> nat) option" where
  "scan_quoted q [] = None"
| "scan_quoted q [c] = (if c = q then Some ([], 1) else None)"
| "scan_quoted q (c # d # s) =
     (if c = ch CHR 0x5C then map_option (\<lambda>(t, k). (d # t, k + 2)) (scan_quoted q s)
      else if c = q then Some ([], 1)
      else map_option (\<lambda>(t, k). (c # t, k + 1)) (scan_quoted q (d # s)))"

text \<open>The body of a regex after its opening slash, up to the next slash that no backslash precedes.\<close>

fun scan_regex :: "pstr \<Rightarrow> (pstr \<times> nat) option" where
  "scan_regex [] = None"
| "scan_regex [c] = (if c = ch CHR ''/'' then Some ([], 1) else None)"
| "scan_regex (c # d # s) =
     (if c = ch CHR 0x5C then map_option (\<lambda>(t, k). (c # d # t, k + 2)) (scan_regex s)
      else if c = ch CHR ''/'' then Some ([], 1)
      else map_option (\<lambda>(t, k). (c # t, k + 1)) (scan_regex (d # s)))"

definition number_text :: "pstr \<Rightarrow> pstr" where
  "number_text s =
     (let d1 = takeWhile is_digit_c s
      in case dropWhile is_digit_c s of
           p # d # r \<Rightarrow> (if p = ch CHR ''.'' \<and> is_digit_c d then d1 @ p # takeWhile is_digit_c (d # r) else d1)
         | _ \<Rightarrow> d1)"

definition scan_number :: "pstr \<Rightarrow> (TT \<times> tokval \<times> nat) result" where
  "scan_number s =
     (let t = number_text s; r = drop (length t) s; w = takeWhile is_word_cont r
      in if w \<noteq> [] then Inr (T_WORD, VStr (t @ w), length t + length w)
         else if ch CHR ''.'' \<in> set t then
           (let ip = takeWhile is_digit_c t; fp = drop (Suc (length ip)) t
            in Inr (T_NUMBER, VNum (norm_dec (digits_val (ip @ fp)) (length fp)), length t))
         else if length t > max_str_digits then Inl ValueError
         else Inr (T_NUMBER, VNum (PyInt (int (digits_val t))), length t))"

definition scan_or_eq :: "pstr \<Rightarrow> TT \<Rightarrow> pstr \<Rightarrow> pstr \<Rightarrow> TT \<times> tokval \<times> nat" where
  "scan_or_eq s tt single double =
     (case s of d # _ \<Rightarrow> if d = ch CHR ''='' then (T_OP, VStr double, 2) else (tt, VStr single, 1)
      | [] \<Rightarrow> (tt, VStr single, 1))"

text \<open>The token that starts at character \<open>c\<close> before \<open>s\<close>: its type, its value, its length in the source.\<close>

definition scan_token :: "nat \<Rightarrow> nat \<Rightarrow> pstr \<Rightarrow> (TT \<times> tokval \<times> nat) result" where
  "scan_token pos c s =
     (if c = ch CHR ''{'' then
        (case py_find (u ''}'') s of
           None \<Rightarrow> Inl (LexError pos)
         | Some i \<Rightarrow> Inr (T_MANA, VStr (c # take (Suc i) s), i + 2))
      else if c = ch CHR ''\"'' \<or> c = ch CHR 0x27 then
        (case scan_quoted c s of
           None \<Rightarrow> Inl (LexError pos)
         | Some (t, k) \<Rightarrow> Inr (T_QUOTED, VStr t, k + 1))
      else if c = ch CHR ''>'' then Inr (scan_or_eq s T_OP (u ''>'') (u ''>=''))
      else if c = ch CHR ''<'' then Inr (scan_or_eq s T_OP (u ''<'') (u ''<=''))
      else if c = ch CHR ''!'' then Inr (scan_or_eq s T_BANG (u ''!'') (u ''!=''))
      else if c = ch CHR '':'' then Inr (T_OP, VStr (u '':''), 1)
      else if c = ch CHR ''='' then Inr (T_OP, VStr (u ''=''), 1)
      else if c = ch CHR ''/'' then
        (case scan_regex s of
           Some (t, k) \<Rightarrow> Inr (T_REGEX, VStr (py_replace [ch CHR 0x5C, ch CHR ''/''] (u ''/'') t), k + 1)
         | None \<Rightarrow> Inr (T_SLASH, VStr (u ''/''), 1))
      else if c = ch CHR ''+'' then Inr (T_PLUS, VStr (u ''+''), 1)
      else if c = ch CHR ''-'' then Inr (T_MINUS, VStr (u ''-''), 1)
      else if c = ch CHR ''*'' then Inr (T_STAR, VStr (u ''*''), 1)
      else if c = ch CHR ''('' then Inr (T_LPAREN, VStr (u ''(''), 1)
      else if c = ch CHR '')'' then Inr (T_RPAREN, VStr (u '')''), 1)
      else if is_digit_c c then scan_number (c # s)
      else if is_word_start c then
        (let w = takeWhile is_word_cont s in Inr (T_WORD, VStr (c # w), Suc (length w)))
      else Inl (LexError pos))"

section \<open>The loop\<close>

function (sequential) lex_from :: "nat \<Rightarrow> bool \<Rightarrow> pstr \<Rightarrow> token list result" where
  "lex_from pos sb [] =
     Inr [\<lparr>tok_type = T_EOF, tok_value = VStr [], tok_pos = pos, space_before = sb\<rparr>]"
| "lex_from pos sb (c # s) =
     (if lex_space c
      then lex_from (pos + 1 + length (takeWhile lex_space s)) True (dropWhile lex_space s)
      else bindr (scan_token pos c s) (\<lambda>(t, v, k).
             bindr (lex_from (pos + k) False (drop (k - 1) s)) (\<lambda>ts.
               Inr (\<lparr>tok_type = t, tok_value = v, tok_pos = pos, space_before = sb\<rparr> # ts))))"
  by pat_completeness auto
termination
  by (relation "measure (\<lambda>(pos, sb, s). length s)") (auto simp: le_imp_less_Suc length_dropWhile_le)

definition tokenize :: "pstr \<Rightarrow> token list result" where
  "tokenize src = lex_from 0 False src"

section \<open>Well-formed tokens\<close>

definition op_texts :: "pstr list" where
  "op_texts = [u '':'', u ''='', u ''!='', u ''>='', u ''<='', u ''>'', u ''<'']"

fun val_ok :: "TT \<Rightarrow> tokval \<Rightarrow> bool" where
  "val_ok T_NUMBER v = (case v of VNum n \<Rightarrow> 0 \<le> num_int n \<and> num_ok n | VStr _ \<Rightarrow> False)"
| "val_ok T_OP v = (\<exists>s \<in> set op_texts. v = VStr s)"
| "val_ok T_PLUS v = (v = VStr (u ''+''))"
| "val_ok T_MINUS v = (v = VStr (u ''-''))"
| "val_ok T_STAR v = (v = VStr (u ''*''))"
| "val_ok T_SLASH v = (v = VStr (u ''/''))"
| "val_ok _ v = (\<exists>s. v = VStr s)"

definition tok_wf :: "token \<Rightarrow> bool" where
  "tok_wf t = val_ok (tok_type t) (tok_value t)"

text \<open>
  The tokens of a text that occupies the indices \<open>lo\<close> to \<open>hi\<close>: proper tokens at increasing
  positions, then the end-of-input token at \<open>hi\<close>.
\<close>

fun toks_ok :: "nat \<Rightarrow> nat \<Rightarrow> token list \<Rightarrow> bool" where
  "toks_ok lo hi [] = False"
| "toks_ok lo hi [t] \<longleftrightarrow> tok_type t = T_EOF \<and> tok_pos t = hi \<and> lo \<le> hi \<and> tok_wf t"
| "toks_ok lo hi (t # t' # ts) \<longleftrightarrow>
     tok_type t \<noteq> T_EOF \<and> lo \<le> tok_pos t \<and> tok_pos t < hi \<and> tok_wf t \<and> toks_ok (Suc (tok_pos t)) hi (t' # ts)"

lemma toks_ok_Cons:
  "ts \<noteq> [] \<Longrightarrow> toks_ok lo hi (t # ts) \<longleftrightarrow>
     tok_type t \<noteq> T_EOF \<and> lo \<le> tok_pos t \<and> tok_pos t < hi \<and> tok_wf t \<and> toks_ok (Suc (tok_pos t)) hi ts"
  by (cases ts) auto

lemma toks_ok_mono: "toks_ok lo hi ts \<Longrightarrow> lo' \<le> lo \<Longrightarrow> toks_ok lo' hi ts"
  by (induction lo hi ts rule: toks_ok.induct) auto

lemma toks_ok_last: "toks_ok lo hi ts \<Longrightarrow> ts \<noteq> [] \<and> tok_type (last ts) = T_EOF \<and> tok_pos (last ts) = hi"
  by (induction lo hi ts rule: toks_ok.induct) auto

lemma toks_ok_butlast:
  "toks_ok lo hi ts \<Longrightarrow> t \<in> set (butlast ts) \<Longrightarrow>
     tok_type t \<noteq> T_EOF \<and> lo \<le> tok_pos t \<and> tok_pos t < hi"
  by (induction lo hi ts rule: toks_ok.induct) (auto split: if_splits)

lemma toks_ok_wf: "toks_ok lo hi ts \<Longrightarrow> t \<in> set ts \<Longrightarrow> tok_wf t"
  by (induction lo hi ts rule: toks_ok.induct) auto

lemma toks_ok_lower: "toks_ok lo hi ts \<Longrightarrow> t \<in> set ts \<Longrightarrow> lo \<le> tok_pos t"
  by (induction lo hi ts rule: toks_ok.induct) fastforce+

lemma toks_ok_sorted: "toks_ok lo hi ts \<Longrightarrow> sorted_wrt (<) (map tok_pos ts)"
proof (induction lo hi ts rule: toks_ok.induct)
  case (3 lo hi t t' ts)
  then have "toks_ok (Suc (tok_pos t)) hi (t' # ts)" by simp
  then have "\<forall>x \<in> set (t' # ts). tok_pos t < tok_pos x"
    using toks_ok_lower Suc_le_lessD by blast
  with 3 show ?case by simp
qed auto

section \<open>What the scanners read\<close>

lemma scan_quoted_len: "scan_quoted q s = Some (t, k) \<Longrightarrow> 1 \<le> k \<and> k \<le> length s"
proof (induction q s arbitrary: t k rule: scan_quoted.induct)
  case (3 q c d s)
  then show ?case by (fastforce split: if_splits)
qed (auto split: if_splits)

lemma scan_regex_len: "scan_regex s = Some (t, k) \<Longrightarrow> 1 \<le> k \<and> k \<le> length s"
proof (induction s arbitrary: t k rule: scan_regex.induct)
  case (3 c d s)
  then show ?case by (fastforce split: if_splits)
qed (auto split: if_splits)

lemma takeWhile_prefix: "prefix (takeWhile p s) s"
  by (metis prefixI takeWhile_dropWhile_id)

lemma number_text_prefix: "prefix (number_text s) s"
proof -
  let ?d = "takeWhile is_digit_c s"
  have s: "s = ?d @ dropWhile is_digit_c s" by simp
  show ?thesis
  proof (cases "dropWhile is_digit_c s")
    case Nil
    then show ?thesis by (simp only: number_text_def Let_def list.case takeWhile_prefix)
  next
    case (Cons p r)
    show ?thesis
    proof (cases r)
      case Nil
      with Cons show ?thesis by (simp add: number_text_def takeWhile_prefix)
    next
      case r: (Cons d r')
      have "prefix (?d @ p # takeWhile is_digit_c (d # r')) (?d @ p # d # r')"
        by (simp add: takeWhile_prefix del: takeWhile.simps)
      with Cons r s have "prefix (?d @ p # takeWhile is_digit_c (d # r')) s" by metis
      with Cons r show ?thesis by (auto simp: number_text_def Let_def takeWhile_prefix simp del: takeWhile.simps)
    qed
  qed
qed

lemma number_text_nonempty: "is_digit_c c \<Longrightarrow> number_text (c # s) \<noteq> []"
  by (auto simp: number_text_def Let_def split: list.splits)

lemma norm_dec_int: "0 \<le> num_int (norm_dec m k)"
  by (induction m k rule: norm_dec.induct) auto

lemma norm_dec_float: "\<exists>m' k'. norm_dec m k = PyFloat m' k'"
  by (induction m k rule: norm_dec.induct) auto

lemma scan_number_ok:
  assumes "is_digit_c c" "scan_number (c # s) = Inr (t, v, k)"
  shows "1 \<le> k \<and> k \<le> Suc (length s) \<and> (t = T_WORD \<and> (\<exists>w. v = VStr w) \<or> t = T_NUMBER \<and> (\<exists>n. v = VNum n \<and> 0 \<le> num_int n \<and> num_ok n))"
proof -
  let ?t = "number_text (c # s)"
  let ?w = "takeWhile is_word_cont (drop (length ?t) (c # s))"
  have len: "length ?t \<le> Suc (length s)"
    using number_text_prefix[of "c # s"] prefix_length_le by fastforce
  have "length ?w \<le> length (drop (length ?t) (c # s))" by (rule length_takeWhile_le)
  then have "length ?t + length ?w \<le> Suc (length s)" using len by simp
  moreover have "1 \<le> length ?t" using number_text_nonempty[OF assms(1)] by (simp add: Suc_le_eq)
  ultimately show ?thesis
    using assms(2) norm_dec_int norm_dec_ok by (auto simp: scan_number_def Let_def split: if_splits)
qed

lemma scan_or_eq_ok:
  "scan_or_eq s tt a b = (t, v, k) \<Longrightarrow>
     1 \<le> k \<and> k \<le> Suc (length s) \<and> (t = tt \<and> v = VStr a \<or> t = T_OP \<and> v = VStr b)"
  by (auto simp: scan_or_eq_def split: list.splits if_splits)

lemma scan_number_fits:
  "is_digit_c c \<Longrightarrow> scan_number (c # s) = Inr (t, v, k) \<Longrightarrow>
     1 \<le> k \<and> k \<le> Suc (length s) \<and> t \<noteq> T_EOF \<and> val_ok t v"
  using scan_number_ok[of c s t v k] by auto

lemma scan_or_eq_fits:
  "scan_or_eq s tt a b = (t, v, k) \<Longrightarrow> tt = T_OP \<and> a \<in> set op_texts \<or> tt = T_BANG \<Longrightarrow> b \<in> set op_texts \<Longrightarrow>
     1 \<le> k \<and> k \<le> Suc (length s) \<and> t \<noteq> T_EOF \<and> val_ok t v"
  using scan_or_eq_ok[of s tt a b t v k] by auto

lemma op_texts_in [simp]:
  "[62] \<in> set op_texts" "[60] \<in> set op_texts" "[62, 61] \<in> set op_texts" "[60, 61] \<in> set op_texts"
  "[33, 61] \<in> set op_texts" "[58] \<in> set op_texts" "[61] \<in> set op_texts"
  by (simp_all add: op_texts_def)

lemma scan_token_ok:
  assumes "scan_token pos c s = Inr (t, v, k)"
  shows "1 \<le> k \<and> k \<le> Suc (length s) \<and> t \<noteq> T_EOF \<and> val_ok t v"
  using assms py_find_bound[of "u ''}''" s] length_takeWhile_le[of is_word_cont s]
  unfolding scan_token_def Let_def
  by (simp split: if_splits option.splits prod.splits
        add: scan_quoted_len scan_regex_len scan_number_fits scan_or_eq_fits) (auto dest: scan_quoted_len scan_regex_len scan_number_ok scan_or_eq_ok)

lemma lex_from_ok: "lex_from pos sb s = Inr ts \<Longrightarrow> toks_ok pos (pos + length s) ts"
proof (induction pos sb s arbitrary: ts rule: lex_from.induct)
  case (1 pos sb)
  then show ?case by (auto simp: tok_wf_def)
next
  case (2 pos sb c s)
  show ?case
  proof (cases "lex_space c")
    case True
    let ?n = "length (takeWhile lex_space s)"
    have len: "?n + length (dropWhile lex_space s) = length s"
      by (metis length_append takeWhile_dropWhile_id)
    have "toks_ok (pos + 1 + ?n) (pos + 1 + ?n + length (dropWhile lex_space s)) ts"
      using 2 True by simp
    then have "toks_ok (pos + 1 + ?n) (pos + length (c # s)) ts"
      using len by (simp add: add.assoc)
    then show ?thesis by (rule toks_ok_mono) simp
  next
    case False
    with "2.prems" obtain t v k ts' where scan: "scan_token pos c s = Inr (t, v, k)"
      and rest: "lex_from (pos + k) False (drop (k - 1) s) = Inr ts'"
      and ts: "ts = \<lparr>tok_type = t, tok_value = v, tok_pos = pos, space_before = sb\<rparr> # ts'"
      by (auto simp: bindr_Inr_iff)
    have k: "1 \<le> k" "k \<le> Suc (length s)" "t \<noteq> T_EOF" "val_ok t v"
      using scan_token_ok[OF scan] by auto
    have "toks_ok (pos + k) (pos + k + length (drop (k - 1) s)) ts'"
      using "2.IH"(2)[OF False scan _ _ rest] by simp
    then have "toks_ok (pos + k) (pos + length (c # s)) ts'" using k by simp
    then have "toks_ok (Suc pos) (pos + length (c # s)) ts'" "ts' \<noteq> []"
      using toks_ok_mono toks_ok_last k(1) by (metis Suc_eq_plus1 add_le_cancel_left, blast)
    with k ts show ?thesis by (simp add: toks_ok_Cons tok_wf_def)
  qed
qed

lemma tokenize_ok: "tokenize s = Inr ts \<Longrightarrow> toks_ok 0 (length s) ts"
  using lex_from_ok[of 0 False s ts] by (simp add: tokenize_def)

end
