(* ===== verification/Hand_Parser.thy ===== *)
theory Hand_Parser
  imports Hand_Lexer
begin

text \<open>
  The recursive-descent parser of \<open>src/api/parsing/hand_parser.py\<close>. A method of \<open>Parser\<close> is a
  function of the token list and the position; it returns a node and the new position, or
  the exception it raises. The methods call each other recursively only through a
  parenthesised group, so they take the group parser as an argument and \<open>parse_expr\<close> ties the knot,
  one unit of fuel per nesting level; loops spend one unit per round. Running out of fuel is
  the \<open>RecursionError\<close> of the model; \<open>parse\<close> starts with as much fuel as there are tokens, which is
  proved to be enough.
\<close>

section \<open>Alias tables\<close>

definition ALIAS_TO_PC :: "(pstr \<times> parser_class) list" where
  "ALIAS_TO_PC =
     map (\<lambda>(a, fis). (py_lower a,
            let classes = map fi_parser_class fis
            in if PC_NUMERIC \<in> set classes then PC_NUMERIC else hd classes)) ALIAS_TO_FIELD_INFOS"

definition DUAL_NUM_TEXT :: "pstr list" where
  "DUAL_NUM_TEXT =
     map (\<lambda>(a, fis). py_lower a)
       (filter (\<lambda>(a, fis). PC_NUMERIC \<in> set (map fi_parser_class fis) \<and> PC_TEXT \<in> set (map fi_parser_class fis))
          ALIAS_TO_FIELD_INFOS)"

definition NUMERIC_ALIASES :: "pstr list" where
  "NUMERIC_ALIASES = map fst (filter (\<lambda>(a, pc). pc = PC_NUMERIC) ALIAS_TO_PC)"

lemma ALIAS_TO_PC_eq [code]:
  "ALIAS_TO_PC = [
     (u ''artist'', PC_TEXT),
     (u ''a'', PC_TEXT),
     (u ''color'', PC_COLOR),
     (u ''colors'', PC_COLOR),
     (u ''c'', PC_COLOR),
     (u ''color_identity'', PC_COLOR),
     (u ''coloridentity'', PC_COLOR),
     (u ''id'', PC_COLOR),
     (u ''identity'', PC_COLOR),
     (u ''frame'', PC_TEXT),
     (u ''keyword'', PC_TEXT),
     (u ''kw'', PC_TEXT),
     (u ''name'', PC_TEXT),
     (u ''subtype'', PC_TEXT),
     (u ''subtypes'', PC_TEXT),
     (u ''type'', PC_TEXT),
     (u ''types'', PC_TEXT),
     (u ''t'', PC_TEXT),
     (u ''cmc'', PC_NUMERIC),
     (u ''mv'', PC_NUMERIC),
     (u ''manavalue'', PC_NUMERIC),
     (u ''power'', PC_NUMERIC),
     (u ''pow'', PC_NUMERIC),
     (u ''toughness'', PC_NUMERIC),
     (u ''tou'', PC_NUMERIC),
     (u ''loyalty'', PC_NUMERIC),
     (u ''loy'', PC_NUMERIC),
     (u ''mana'', PC_MANA),
     (u ''m'', PC_MANA),
     (u ''devotion'', PC_MANA),
     (u ''usd'', PC_NUMERIC),
     (u ''eur'', PC_NUMERIC),
     (u ''tix'', PC_NUMERIC),
     (u ''produces'', PC_COLOR),
     (u ''oracle'', PC_TEXT),
     (u ''o'', PC_TEXT),
     (u ''flavor'', PC_TEXT),
     (u ''ft'', PC_TEXT),
     (u ''oracle_tags'', PC_TEXT),
     (u ''otag'', PC_TEXT),
     (u ''art_tags'', PC_TEXT),
     (u ''art'', PC_TEXT),
     (u ''is'', PC_TEXT),
     (u ''rarity'', PC_RARITY),
     (u ''r'', PC_RARITY),
     (u ''set'', PC_TEXT),
     (u ''s'', PC_TEXT),
     (u ''e'', PC_TEXT),
     (u ''number'', PC_NUMERIC),
     (u ''cn'', PC_NUMERIC),
     (u ''format'', PC_LEGALITY),
     (u ''f'', PC_LEGALITY),
     (u ''legal'', PC_LEGALITY),
     (u ''banned'', PC_LEGALITY),
     (u ''restricted'', PC_LEGALITY),
     (u ''layout'', PC_TEXT),
     (u ''border'', PC_TEXT),
     (u ''watermark'', PC_TEXT),
     (u ''wm'', PC_TEXT),
     (u ''date'', PC_DATE),
     (u ''year'', PC_YEAR)]"
  by code_simp

lemma NUMERIC_ALIASES_eq [code]:
  "NUMERIC_ALIASES = [u ''cmc'', u ''mv'', u ''manavalue'', u ''power'', u ''pow'', u ''toughness'', u ''tou'', u ''loyalty'', u ''loy'', u ''usd'', u ''eur'', u ''tix'', u ''number'', u ''cn'']"
  by code_simp

lemma DUAL_NUM_TEXT_eq [code]: "DUAL_NUM_TEXT = [u ''number'', u ''cn'']"
  by code_simp

definition VALID_COLOR_NAMES :: "pstr list" where
  "VALID_COLOR_NAMES = map fst COLOR_NAME_TO_CODE"

definition COLOR_LETTERS :: "pstr" where
  "COLOR_LETTERS = u ''wubrgcWUBRGC''"

definition MIN_MTG_YEAR :: int where "MIN_MTG_YEAR = 1992"
definition MAX_YEAR :: int where "MAX_YEAR = 2040"

definition validate_mtg_year :: "tokval \<Rightarrow> int result" where
  "validate_mtg_year v =
     (case v of
        VNum (PyInt y) \<Rightarrow> if MIN_MTG_YEAR \<le> y \<and> y \<le> MAX_YEAR then Inr y else Inl ParseError
      | VNum (PyFloat m k) \<Rightarrow> Inl ParseError
      | VStr s \<Rightarrow> Inl TypeError)"

section \<open>Token access\<close>

type_synonym 'a presult = "('a \<times> nat) result"

definition peek :: "token list \<Rightarrow> nat \<Rightarrow> nat \<Rightarrow> token" where
  "peek ts p offset = (if p + offset < length ts then ts ! (p + offset) else last ts)"

definition consume :: "token list \<Rightarrow> nat \<Rightarrow> token presult" where
  "consume ts p = (if p < length ts then Inr (ts ! p, Suc p) else Inl IndexError)"

definition expect :: "token list \<Rightarrow> nat \<Rightarrow> TT \<Rightarrow> token presult" where
  "expect ts p tt =
     bindr (consume ts p) (\<lambda>(tok, p). if tok_type tok \<noteq> tt then Inl ParseError else Inr (tok, p))"

definition at_pos :: "nat \<Rightarrow> 'a result \<Rightarrow> 'a presult" where
  "at_pos p r = bindr r (\<lambda>x. Inr (x, p))"

definition name_node :: "pstr \<Rightarrow> node result" where
  "name_node value =
     bindr (mk_card_attribute (u ''name'') PC_TEXT) (\<lambda>a. mk_card_binary a (u '':'') (StringValueNode value))"

section \<open>Values\<close>

text \<open>The loop that joins words and numbers by hyphens with no blank around them.\<close>

definition hyphen_next :: "token list \<Rightarrow> nat \<Rightarrow> bool" where
  "hyphen_next ts p \<longleftrightarrow> tok_type (peek ts p 0) = T_MINUS \<and> \<not> space_before (peek ts p 0)
     \<and> tok_type (peek ts p 1) \<in> {T_WORD, T_NUMBER} \<and> \<not> space_before (peek ts p 1)"

fun hyphen_loop :: "nat \<Rightarrow> token list \<Rightarrow> pstr list \<Rightarrow> nat \<Rightarrow> pstr list presult" where
  "hyphen_loop 0 ts parts p = Inl RecursionError"
| "hyphen_loop (Suc n) ts parts p =
     (if hyphen_next ts p
      then bindr (consume ts p) (\<lambda>(_, p).
             bindr (consume ts p) (\<lambda>(tok, p). hyphen_loop n ts (parts @ [tok_text tok]) p))
      else Inr (parts, p))"

definition parse_hyphenated_name :: "token list \<Rightarrow> pstr \<Rightarrow> nat \<Rightarrow> node presult" where
  "parse_hyphenated_name ts first p =
     bindr (hyphen_loop (Suc (length ts)) ts [first] p)
       (\<lambda>(parts, p). at_pos p (name_node (py_join (u ''-'') parts)))"

definition parse_text_value :: "token list \<Rightarrow> nat \<Rightarrow> node presult" where
  "parse_text_value ts p =
     (let tok = peek ts p 0 in
      if tok_type tok = T_QUOTED then bindr (consume ts p) (\<lambda>(_, p). Inr (StringValueNode (tok_text tok), p))
      else if tok_type tok = T_REGEX then bindr (consume ts p) (\<lambda>(_, p). Inr (RegexValueNode (tok_text tok), p))
      else if tok_type tok \<in> {T_WORD, T_NUMBER} then
        bindr (consume ts p) (\<lambda>(_, p).
          bindr (hyphen_loop (Suc (length ts)) ts [tok_text tok] p)
            (\<lambda>(parts, p). Inr (StringValueNode (py_join (u ''-'') parts), p)))
      else Inl ParseError)"

fun mana_loop :: "nat \<Rightarrow> token list \<Rightarrow> pstr list \<Rightarrow> nat \<Rightarrow> pstr list presult" where
  "mana_loop 0 ts parts p = Inl RecursionError"
| "mana_loop (Suc n) ts parts p =
     (let t = peek ts p 0 in
      if tok_type t \<in> {T_MANA, T_WORD, T_NUMBER} \<and> \<not> (parts \<noteq> [] \<and> space_before t)
      then bindr (consume ts p) (\<lambda>(_, p). mana_loop n ts (parts @ [tok_text t]) p)
      else Inr (parts, p))"

definition parse_mana_value :: "token list \<Rightarrow> nat \<Rightarrow> node presult" where
  "parse_mana_value ts p =
     (let tok = peek ts p 0 in
      if tok_type tok = T_QUOTED then bindr (consume ts p) (\<lambda>(_, p). Inr (StringValueNode (tok_text tok), p))
      else bindr (mana_loop (Suc (length ts)) ts [] p) (\<lambda>(parts, p).
             if parts = [] then Inl ParseError else Inr (ManaValueNode (py_upper (concat parts)), p)))"

definition parse_string_value :: "token list \<Rightarrow> nat \<Rightarrow> node presult" where
  "parse_string_value ts p =
     (let tok = peek ts p 0 in
      if tok_type tok \<in> {T_QUOTED, T_WORD} then bindr (consume ts p) (\<lambda>(_, p). Inr (StringValueNode (tok_text tok), p))
      else Inl ParseError)"

definition parse_color_value :: "token list \<Rightarrow> nat \<Rightarrow> node presult" where
  "parse_color_value ts p =
     (let tok = peek ts p 0 in
      if tok_type tok = T_QUOTED then bindr (consume ts p) (\<lambda>(_, p). Inr (StringValueNode (tok_text tok), p))
      else if tok_type tok = T_WORD then
        (let val = tok_text tok in
         if py_lower val \<notin> set VALID_COLOR_NAMES \<and> \<not> list_all (\<lambda>c. c \<in> set COLOR_LETTERS) val then Inl ParseError
         else bindr (consume ts p) (\<lambda>(_, p). Inr (StringValueNode val, p)))
      else Inl ParseError)"

text \<open>
  \<open>datetime.date(year, month, day)\<close>: an argument outside the range of a C \<open>int\<close> is an
  \<open>OverflowError\<close>, an impossible date a \<open>ValueError\<close>.
\<close>

definition leap_year :: "int \<Rightarrow> bool" where
  "leap_year y \<longleftrightarrow> 4 dvd y \<and> (\<not> 100 dvd y \<or> 400 dvd y)"

definition days_in_month :: "int \<Rightarrow> int \<Rightarrow> int" where
  "days_in_month y m = (if m = 2 then (if leap_year y then 29 else 28)
                        else if m \<in> {4, 6, 9, 11} then 30 else 31)"

definition datetime_date :: "int \<Rightarrow> int \<Rightarrow> int \<Rightarrow> (int \<times> int \<times> int) result" where
  "datetime_date y m d =
     (if \<not> (- (2 ^ 31) \<le> m \<and> m < 2 ^ 31) \<or> \<not> (- (2 ^ 31) \<le> d \<and> d < 2 ^ 31) then Inl OverflowError
      else if \<not> (1 \<le> y \<and> y \<le> 9999) \<or> \<not> (1 \<le> m \<and> m \<le> 12) \<or> \<not> (1 \<le> d \<and> d \<le> days_in_month y m) then Inl ValueError
      else Inr (y, m, d))"

definition pad2 :: "int \<Rightarrow> pstr" where
  "pad2 i = (let s = int_str i in replicate (2 - length s) 48 @ s)"

definition date_text :: "int \<Rightarrow> int \<Rightarrow> int \<Rightarrow> pstr" where
  "date_text y m d = int_str y @ u ''-'' @ pad2 m @ u ''-'' @ pad2 d"

definition minus_number_next :: "token list \<Rightarrow> nat \<Rightarrow> bool" where
  "minus_number_next ts p \<longleftrightarrow> tok_type (peek ts p 0) = T_MINUS \<and> \<not> space_before (peek ts p 0)
     \<and> tok_type (peek ts p 1) = T_NUMBER \<and> \<not> space_before (peek ts p 1)"

fun val_int :: "tokval \<Rightarrow> int" where
  "val_int (VNum n) = num_int n"
| "val_int (VStr s) = (case py_int s of Some i \<Rightarrow> i | None \<Rightarrow> 0)"

definition parse_date_value :: "token list \<Rightarrow> nat \<Rightarrow> node presult" where
  "parse_date_value ts p =
     (let tok = peek ts p 0 in
      if tok_type tok \<noteq> T_NUMBER then Inl ParseError
      else bindr (consume ts p) (\<lambda>(_, p).
        bindr (validate_mtg_year (tok_value tok)) (\<lambda>year.
          if minus_number_next ts p then
            bindr (consume ts p) (\<lambda>(_, p).
            bindr (consume ts p) (\<lambda>(month_tok, p).
              if minus_number_next ts p then
                bindr (consume ts p) (\<lambda>(_, p).
                bindr (consume ts p) (\<lambda>(day_tok, p).
                  let month = val_int (tok_value month_tok); day = val_int (tok_value day_tok)
                  in case datetime_date year month day of
                       Inl ValueError \<Rightarrow> Inl ParseError
                     | Inl e \<Rightarrow> Inl e
                     | Inr _ \<Rightarrow> Inr (StringValueNode (date_text year month day), p)))
              else Inr (StringValueNode (int_str year), p)))
          else Inr (StringValueNode (int_str year), p))))"

definition parse_year_value :: "token list \<Rightarrow> nat \<Rightarrow> node presult" where
  "parse_year_value ts p =
     (let tok = peek ts p 0 in
      if tok_type tok \<noteq> T_NUMBER then Inl ParseError
      else bindr (consume ts p) (\<lambda>(_, p).
        bindr (validate_mtg_year (tok_value tok)) (\<lambda>year. Inr (StringValueNode (int_str year), p))))"

section \<open>Arithmetic\<close>

type_synonym sub_parser_fun = "nat \<Rightarrow> node presult"

definition num_term_start :: "token \<Rightarrow> bool" where
  "num_term_start tok \<longleftrightarrow> tok_type tok \<in> {T_NUMBER, T_LPAREN}
     \<or> tok_type tok = T_WORD \<and> py_lower (tok_text tok) \<in> set NUMERIC_ALIASES"

definition parse_num_term :: "sub_parser_fun \<Rightarrow> token list \<Rightarrow> nat \<Rightarrow> node presult" where
  "parse_num_term grp ts p =
     (let tok = peek ts p 0 in
      if tok_type tok = T_NUMBER then
        bindr (consume ts p) (\<lambda>(_, p).
          case tok_value tok of VNum n \<Rightarrow> Inr (NumericValueNode n, p) | VStr _ \<Rightarrow> Inl TypeError)
      else if tok_type tok = T_WORD \<and> py_lower (tok_text tok) \<in> set NUMERIC_ALIASES then
        bindr (consume ts p) (\<lambda>(_, p). at_pos p (mk_card_attribute (py_lower (tok_text tok)) PC_NUMERIC))
      else if tok_type tok = T_LPAREN then grp p
      else Inl ParseError)"

text \<open>One round of an arithmetic loop: the operator, a term, the new left operand.\<close>

definition arith_round :: "sub_parser_fun \<Rightarrow> token list \<Rightarrow> node \<Rightarrow> nat \<Rightarrow> node presult" where
  "arith_round grp ts lhs p =
     bindr (consume ts p) (\<lambda>(op, p).
       bindr (parse_num_term grp ts p) (\<lambda>(rhs, p). at_pos p (mk_card_binary lhs (tok_text op) rhs)))"

fun arith_tail :: "nat \<Rightarrow> sub_parser_fun \<Rightarrow> token list \<Rightarrow> node \<Rightarrow> nat \<Rightarrow> node presult" where
  "arith_tail 0 grp ts lhs p = Inl RecursionError"
| "arith_tail (Suc n) grp ts lhs p =
     (if \<not> is_arith (tok_type (peek ts p 0)) \<or> space_before (peek ts p 0) then Inr (lhs, p)
      else if \<not> num_term_start (peek ts p 1) then Inr (lhs, p)
      else bindr (arith_round grp ts lhs p) (\<lambda>(lhs, p). arith_tail n grp ts lhs p))"

fun spaced_arith_tail :: "nat \<Rightarrow> sub_parser_fun \<Rightarrow> token list \<Rightarrow> node \<Rightarrow> nat \<Rightarrow> node presult" where
  "spaced_arith_tail 0 grp ts lhs p = Inl RecursionError"
| "spaced_arith_tail (Suc n) grp ts lhs p =
     (if \<not> is_arith (tok_type (peek ts p 0)) \<or> \<not> space_before (peek ts p 0) then Inr (lhs, p)
      else if tok_type (peek ts p 0) = T_MINUS \<and> \<not> space_before (peek ts p 1) then Inr (lhs, p)
      else if \<not> num_term_start (peek ts p 1) then Inr (lhs, p)
      else bindr (arith_round grp ts lhs p) (\<lambda>(lhs, p). spaced_arith_tail n grp ts lhs p))"

fun num_expr_loop :: "nat \<Rightarrow> sub_parser_fun \<Rightarrow> token list \<Rightarrow> node \<Rightarrow> nat \<Rightarrow> node presult" where
  "num_expr_loop 0 grp ts lhs p = Inl RecursionError"
| "num_expr_loop (Suc n) grp ts lhs p =
     (if is_arith (tok_type (peek ts p 0)) \<and> num_term_start (peek ts p 1)
         \<and> \<not> (tok_type (peek ts p 0) = T_MINUS \<and> space_before (peek ts p 0) \<and> \<not> space_before (peek ts p 1))
      then bindr (arith_round grp ts lhs p) (\<lambda>(lhs, p). num_expr_loop n grp ts lhs p)
      else Inr (lhs, p))"

definition parse_num_expr_value :: "sub_parser_fun \<Rightarrow> token list \<Rightarrow> nat \<Rightarrow> node presult" where
  "parse_num_expr_value grp ts p =
     bindr (parse_num_term grp ts p) (\<lambda>(lhs, p). num_expr_loop (Suc (length ts)) grp ts lhs p)"

definition parse_value_for_class :: "sub_parser_fun \<Rightarrow> token list \<Rightarrow> parser_class \<Rightarrow> nat \<Rightarrow> node presult" where
  "parse_value_for_class grp ts pc p =
     (case pc of
        PC_TEXT \<Rightarrow> parse_text_value ts p
      | PC_NUMERIC \<Rightarrow> parse_num_expr_value grp ts p
      | PC_COLOR \<Rightarrow> parse_color_value ts p
      | PC_MANA \<Rightarrow> parse_mana_value ts p
      | PC_RARITY \<Rightarrow> parse_string_value ts p
      | PC_LEGALITY \<Rightarrow> parse_string_value ts p
      | PC_DATE \<Rightarrow> parse_date_value ts p
      | PC_YEAR \<Rightarrow> parse_year_value ts p)"

section \<open>Primaries\<close>

text \<open>\<open>if self.peek().type == TT.OP: ... CardBinaryOperatorNode(lhs, op, self.parse_num_expr_value())\<close>, else \<open>lhs\<close>.\<close>

definition compare_tail :: "sub_parser_fun \<Rightarrow> token list \<Rightarrow> node \<Rightarrow> nat \<Rightarrow> node presult" where
  "compare_tail grp ts lhs p =
     (if tok_type (peek ts p 0) = T_OP then
        bindr (consume ts p) (\<lambda>(op, p).
          bindr (parse_num_expr_value grp ts p) (\<lambda>(rhs, p). at_pos p (mk_card_binary lhs (tok_text op) rhs)))
      else Inr (lhs, p))"

definition parse_group :: "sub_parser_fun \<Rightarrow> token list \<Rightarrow> nat \<Rightarrow> node presult" where
  "parse_group expr ts p =
     bindr (consume ts p) (\<lambda>(_, p).
       if tok_type (peek ts p 0) = T_RPAREN then Inl ParseError
       else bindr (expr p) (\<lambda>(inner, p). bindr (expect ts p T_RPAREN) (\<lambda>(_, p). Inr (inner, p))))"

definition parse_exact_name :: "token list \<Rightarrow> nat \<Rightarrow> node presult" where
  "parse_exact_name ts p =
     bindr (consume ts p) (\<lambda>(_, p).
       let tok = peek ts p 0 in
       if tok_type tok \<in> {T_QUOTED, T_WORD} then bindr (consume ts p) (\<lambda>(_, p). Inr (ExactNameNode (tok_text tok), p))
       else Inl ParseError)"

text \<open>The attribute, the operator at \<open>p\<close>, then the value: \<open>CardBinaryOperatorNode(CardAttributeNode(wl, pc), op, value)\<close>.\<close>

definition attr_compare :: "pstr \<Rightarrow> parser_class \<Rightarrow> (nat \<Rightarrow> node presult) \<Rightarrow> pstr \<Rightarrow> nat \<Rightarrow> node presult" where
  "attr_compare wl pc value op p =
     bindr (mk_card_attribute wl pc) (\<lambda>lhs.
       bindr (value p) (\<lambda>(rhs, p). at_pos p (mk_card_binary lhs op rhs)))"

definition is_card_attribute :: "node \<Rightarrow> bool" where
  "is_card_attribute n = (case n of CardAttributeNode _ _ _ _ \<Rightarrow> True | _ \<Rightarrow> False)"

definition parse_word_primary :: "sub_parser_fun \<Rightarrow> token list \<Rightarrow> pstr \<Rightarrow> nat \<Rightarrow> node presult" where
  "parse_word_primary grp ts word p =
     (let wl = py_lower word; pc = map_of ALIAS_TO_PC wl; next_tok = peek ts p 0 in
      if wl \<in> {u ''and'', u ''or''} then Inl ParseError
      else if wl \<in> set DUAL_NUM_TEXT \<and> tok_type next_tok = T_OP then
        bindr (consume ts p) (\<lambda>(op, p).
          if tok_type (peek ts p 0) = T_NUMBER
          then attr_compare wl PC_NUMERIC (parse_num_expr_value grp ts) (tok_text op) p
          else attr_compare wl PC_TEXT (parse_text_value ts) (tok_text op) p)
      else if pc = Some PC_NUMERIC then
        (if tok_type next_tok = T_OP then
           bindr (consume ts p) (\<lambda>(op, p). attr_compare wl PC_NUMERIC (parse_num_expr_value grp ts) (tok_text op) p)
         else if is_arith (tok_type next_tok) \<and> \<not> space_before next_tok then
           bindr (mk_card_attribute wl PC_NUMERIC) (\<lambda>lhs.
             bindr (arith_tail (Suc (length ts)) grp ts lhs p) (\<lambda>(lhs, p).
               bindr (spaced_arith_tail (Suc (length ts)) grp ts lhs p) (\<lambda>(lhs, p). compare_tail grp ts lhs p)))
         else
           bindr (mk_card_attribute wl PC_NUMERIC) (\<lambda>lhs.
             bindr (spaced_arith_tail (Suc (length ts)) grp ts lhs p) (\<lambda>(lhs, p).
               if is_card_attribute lhs then at_pos p (name_node word)
               else compare_tail grp ts lhs p)))
      else if pc \<noteq> None \<and> tok_type next_tok = T_OP then
        bindr (consume ts p) (\<lambda>(op, p). attr_compare wl (the pc) (parse_value_for_class grp ts (the pc)) (tok_text op) p)
      else parse_hyphenated_name ts word p)"

definition parse_number_primary :: "sub_parser_fun \<Rightarrow> token list \<Rightarrow> nat \<Rightarrow> node presult" where
  "parse_number_primary grp ts p =
     bindr (consume ts p) (\<lambda>(tok, p).
       case tok_value tok of
         VStr _ \<Rightarrow> Inl TypeError
       | VNum n \<Rightarrow>
           bindr (if is_arith (tok_type (peek ts p 0)) \<and> \<not> space_before (peek ts p 0) \<and> num_term_start (peek ts p 1)
                  then arith_tail (Suc (length ts)) grp ts (NumericValueNode n) p
                  else Inr (NumericValueNode n, p)) (\<lambda>(lhs, p).
             bindr (spaced_arith_tail (Suc (length ts)) grp ts lhs p) (\<lambda>(lhs, p). compare_tail grp ts lhs p)))"

definition parse_primary :: "sub_parser_fun \<Rightarrow> token list \<Rightarrow> nat \<Rightarrow> node presult" where
  "parse_primary grp ts p =
     (let tok = peek ts p 0 in
      if tok_type tok = T_LPAREN then
        bindr (grp p) (\<lambda>(lhs, p).
          bindr (if is_arith (tok_type (peek ts p 0)) \<and> \<not> space_before (peek ts p 0)
                 then arith_tail (Suc (length ts)) grp ts lhs p else Inr (lhs, p)) (\<lambda>(lhs, p).
            bindr (spaced_arith_tail (Suc (length ts)) grp ts lhs p) (\<lambda>(lhs, p). compare_tail grp ts lhs p)))
      else if tok_type tok = T_BANG then parse_exact_name ts p
      else if tok_type tok = T_QUOTED then bindr (consume ts p) (\<lambda>(_, p). at_pos p (name_node (tok_text tok)))
      else if tok_type tok = T_WORD then bindr (consume ts p) (\<lambda>(_, p). parse_word_primary grp ts (tok_text tok) p)
      else if tok_type tok = T_NUMBER then parse_number_primary grp ts p
      else if tok_type tok = T_MANA then bindr (consume ts p) (\<lambda>(_, p). at_pos p (name_node (tok_text tok)))
      else Inl ParseError)"

definition is_arith_op :: "pstr \<Rightarrow> bool" where
  "is_arith_op op \<longleftrightarrow> op \<in> {u ''+'', u ''-'', u ''*'', u ''/''}"

definition is_arith_node :: "node \<Rightarrow> bool" where
  "is_arith_node n = (case n of
      BinaryOperatorNode _ op _ \<Rightarrow> is_arith_op op
    | CardBinaryOperatorNode _ op _ \<Rightarrow> is_arith_op op
    | _ \<Rightarrow> False)"

definition parse_factor :: "sub_parser_fun \<Rightarrow> token list \<Rightarrow> nat \<Rightarrow> node presult" where
  "parse_factor grp ts p =
     (if tok_type (peek ts p 0) = T_MINUS then
        bindr (consume ts p) (\<lambda>(_, p).
          bindr (parse_primary grp ts p) (\<lambda>(operand, p).
            if is_arith_node operand then Inl ParseError else Inr (NotNode operand, p)))
      else parse_primary grp ts p)"

section \<open>Conjunctions and disjunctions\<close>

definition can_start_factor :: "token list \<Rightarrow> nat \<Rightarrow> bool" where
  "can_start_factor ts p =
     (let tok = peek ts p 0 in
      if tok_type tok \<in> {T_EOF, T_RPAREN} then False
      else if tok_type tok = T_WORD then py_upper (tok_text tok) \<noteq> u ''OR''
      else if tok_type tok = T_MINUS then space_before tok
      else tok_type tok \<in> {T_NUMBER, T_QUOTED, T_REGEX, T_MANA, T_LPAREN, T_BANG})"

fun and_loop :: "nat \<Rightarrow> sub_parser_fun \<Rightarrow> token list \<Rightarrow> node list \<Rightarrow> nat \<Rightarrow> node list presult" where
  "and_loop 0 grp ts operands p = Inl RecursionError"
| "and_loop (Suc n) grp ts operands p =
     (if can_start_factor ts p then
        bindr (if tok_type (peek ts p 0) = T_WORD \<and> py_upper (tok_text (peek ts p 0)) = u ''AND''
               then bindr (consume ts p) (\<lambda>(_, p). Inr p) else Inr p) (\<lambda>p.
          bindr (parse_factor grp ts p) (\<lambda>(x, p). and_loop n grp ts (operands @ [x]) p))
      else Inr (operands, p))"

definition parse_and_expr :: "sub_parser_fun \<Rightarrow> token list \<Rightarrow> nat \<Rightarrow> node presult" where
  "parse_and_expr grp ts p =
     bindr (parse_factor grp ts p) (\<lambda>(x, p).
       bindr (and_loop (Suc (length ts)) grp ts [x] p) (\<lambda>(operands, p).
         Inr (if length operands = 1 then hd operands else AndNode operands, p)))"

fun or_loop :: "nat \<Rightarrow> sub_parser_fun \<Rightarrow> token list \<Rightarrow> node list \<Rightarrow> nat \<Rightarrow> node list presult" where
  "or_loop 0 grp ts operands p = Inl RecursionError"
| "or_loop (Suc n) grp ts operands p =
     (if tok_type (peek ts p 0) = T_WORD \<and> py_upper (tok_text (peek ts p 0)) = u ''OR'' then
        bindr (consume ts p) (\<lambda>(_, p).
          bindr (parse_and_expr grp ts p) (\<lambda>(x, p). or_loop n grp ts (operands @ [x]) p))
      else Inr (operands, p))"

definition parse_expr_with :: "sub_parser_fun \<Rightarrow> token list \<Rightarrow> nat \<Rightarrow> node presult" where
  "parse_expr_with grp ts p =
     bindr (parse_and_expr grp ts p) (\<lambda>(x, p).
       bindr (or_loop (Suc (length ts)) grp ts [x] p) (\<lambda>(operands, p).
         Inr (if length operands = 1 then hd operands else OrNode operands, p)))"

fun parse_expr :: "nat \<Rightarrow> token list \<Rightarrow> nat \<Rightarrow> node presult" where
  "parse_expr 0 ts p = Inl RecursionError"
| "parse_expr (Suc n) ts p = parse_expr_with (parse_group (parse_expr n ts) ts) ts p"

definition parse :: "token list \<Rightarrow> node result" where
  "parse ts =
     (if tok_type (peek ts 0 0) = T_EOF then Inr (Query TrueNode)
      else bindr (parse_expr (length ts) ts 0) (\<lambda>(n, p).
             if tok_type (peek ts p 0) \<noteq> T_EOF then Inl ParseError else Inr (Query n)))"

definition parse_query :: "pstr \<Rightarrow> node result" where
  "parse_query src =
     (if src = [] \<or> py_strip src = [] then Inr (Query TrueNode)
      else case tokenize src of
             Inl (LexError _) \<Rightarrow> Inl ValueError
           | Inl e \<Rightarrow> Inl e
           | Inr ts \<Rightarrow>
               (case parse ts of
                  Inl ParseError \<Rightarrow> Inl ValueError
                | Inl e \<Rightarrow> Inl e
                | Inr q \<Rightarrow> Inr (flatten_nested_operations q)))"

end
