(* ===== verification/Hand_Parser_Safe.thy ===== *)
theory Hand_Parser_Safe
  imports Hand_Parser
begin

text \<open>
  Safety of the parser of \<open>Hand_Parser\<close>: on the tokens of any text it stops, never reads past the
  end-of-input token, never fails to build a node, and returns a well-formed tree. The
  argument is the contract \<open>pok\<close> of one parsing method (the errors it may raise, the
  progress it makes, the shape of its result), with one lemma per method over the contract
  of the group parser (locale \<open>group_parser\<close>).
\<close>

section \<open>Well-formed trees\<close>

fun rhs_ok :: "parser_class \<Rightarrow> node \<Rightarrow> bool" where
  "rhs_ok PC_TEXT (StringValueNode _) = True"
| "rhs_ok PC_TEXT (RegexValueNode _) = True"
| "rhs_ok PC_COLOR (StringValueNode _) = True"
| "rhs_ok PC_MANA (StringValueNode _) = True"
| "rhs_ok PC_MANA (ManaValueNode _) = True"
| "rhs_ok PC_RARITY (StringValueNode _) = True"
| "rhs_ok PC_LEGALITY (StringValueNode _) = True"
| "rhs_ok PC_DATE (StringValueNode _) = True"
| "rhs_ok PC_YEAR (StringValueNode _) = True"
| "rhs_ok _ _ = False"

fun attr_ok :: "node \<Rightarrow> bool" where
  "attr_ok (CardAttributeNode orig pc fis a) = (mk_card_attribute orig pc = Inr (CardAttributeNode orig pc fis a))"
| "attr_ok _ = False"

text \<open>
  Well-formed: numbers are in lowest terms, operands of \<open>AND\<close> and \<open>OR\<close> are at least two, every operator is one of
  \<open>bin_ops\<close>, an attribute is resolved to its one column, and the right-hand side of an
  attribute is of the kind its parser class reads.
\<close>

fun wf_node :: "node \<Rightarrow> bool" where
  "wf_node (NumericValueNode n) = num_ok n"
| "wf_node (CardAttributeNode orig pc fis a) \<longleftrightarrow> pc = PC_NUMERIC \<and> attr_ok (CardAttributeNode orig pc fis a)"
| "wf_node (CardBinaryOperatorNode l op r) \<longleftrightarrow> op \<in> set bin_ops \<and>
     (case l of
        CardAttributeNode orig pc fis a \<Rightarrow>
          attr_ok l \<and> (if pc = PC_NUMERIC then wf_node r else op \<in> set op_texts \<and> rhs_ok pc r)
      | _ \<Rightarrow> wf_node l \<and> wf_node r)"
| "wf_node (AndNode ops) \<longleftrightarrow> 2 \<le> length ops \<and> (\<forall>n \<in> set ops. wf_node n)"
| "wf_node (OrNode ops) \<longleftrightarrow> 2 \<le> length ops \<and> (\<forall>n \<in> set ops. wf_node n)"
| "wf_node (NotNode n) \<longleftrightarrow> wf_node n"
| "wf_node (ExactNameNode _) = True"
| "wf_node _ = False"

definition wf_query :: "node \<Rightarrow> bool" where
  "wf_query q = (case q of Query n \<Rightarrow> n = TrueNode \<or> wf_node n | _ \<Rightarrow> False)"

section \<open>The alias tables\<close>

lemma alias_table_ok:
  "list_all (\<lambda>(a, fis). py_lower a = a \<and> fis \<noteq> [] \<and>
      list_all (\<lambda>f. length (filter (\<lambda>g. fi_parser_class g = fi_parser_class f) fis) = 1) fis) ALIAS_TO_FIELD_INFOS
   \<and> distinct (map fst ALIAS_TO_FIELD_INFOS)"
  by code_simp

lemma alias_entry:
  assumes "map_of ALIAS_TO_FIELD_INFOS a = Some fis"
  shows "py_lower a = a" "fis \<noteq> []"
    "f \<in> set fis \<Longrightarrow> length (filter (\<lambda>g. fi_parser_class g = fi_parser_class f) fis) = 1"
  using alias_table_ok map_of_SomeD[OF assms] by (auto simp: list_all_iff)

lemma mk_card_attribute_ok:
  assumes "map_of ALIAS_TO_FIELD_INFOS a = Some fis" "f \<in> set fis" "fi_parser_class f = pc"
  shows "\<exists>n. mk_card_attribute a pc = Inr n \<and> attr_ok n \<and>
           (\<exists>infos col. n = CardAttributeNode a pc infos col)"
proof -
  have "length (filter (\<lambda>g. fi_parser_class g = pc) fis) = 1"
    using alias_entry(3)[OF assms(1,2)] assms(3) by simp
  then obtain fi where fi: "filter (\<lambda>g. fi_parser_class g = pc) fis = [fi]"
    by (auto simp: length_Suc_conv)
  have low: "py_lower a = a" by (rule alias_entry(1)[OF assms(1)])
  have "mk_card_attribute a pc = Inr (CardAttributeNode a pc [fi] (py_lower (db_column_name fi)))"
    using fi low assms(1) by (simp add: mk_card_attribute_def)
  then show ?thesis by auto
qed

definition alias_has :: "pstr \<Rightarrow> parser_class \<Rightarrow> bool" where
  "alias_has a pc \<longleftrightarrow> (\<exists>fis f. map_of ALIAS_TO_FIELD_INFOS a = Some fis \<and> f \<in> set fis \<and> fi_parser_class f = pc)"

lemma alias_has_attribute:
  "alias_has a pc \<Longrightarrow> \<exists>n. mk_card_attribute a pc = Inr n \<and> attr_ok n \<and>
     (\<exists>infos col. n = CardAttributeNode a pc infos col)"
  unfolding alias_has_def using mk_card_attribute_ok by blast

lemma alias_keys_distinct: "distinct (map fst ALIAS_TO_FIELD_INFOS)"
  using alias_table_ok by blast

lemma alias_to_pc_has: "map_of ALIAS_TO_PC a = Some pc \<Longrightarrow> alias_has a pc"
proof -
  assume "map_of ALIAS_TO_PC a = Some pc"
  then have "(a, pc) \<in> set ALIAS_TO_PC" by (rule map_of_SomeD)
  then obtain b fis where b: "(b, fis) \<in> set ALIAS_TO_FIELD_INFOS" "a = py_lower b"
    and pc: "pc = (if PC_NUMERIC \<in> set (map fi_parser_class fis) then PC_NUMERIC
                   else hd (map fi_parser_class fis))"
    unfolding ALIAS_TO_PC_def by (auto simp: Let_def)
  have look: "map_of ALIAS_TO_FIELD_INFOS b = Some fis"
    using b(1) alias_keys_distinct by simp
  have "py_lower b = b" "fis \<noteq> []" using alias_entry[OF look] by auto
  then have "pc \<in> set (map fi_parser_class fis)" using pc hd_in_set[of "map fi_parser_class fis"] by auto
  then obtain f where "f \<in> set fis" "fi_parser_class f = pc" by auto
  with look b \<open>py_lower b = b\<close> show ?thesis unfolding alias_has_def by auto
qed

lemma numeric_alias_has: "a \<in> set NUMERIC_ALIASES \<Longrightarrow> alias_has a PC_NUMERIC"
proof -
  assume "a \<in> set NUMERIC_ALIASES"
  then obtain b fis where b: "(b, fis) \<in> set ALIAS_TO_FIELD_INFOS" "a = py_lower b"
    and cls: "PC_NUMERIC = (if PC_NUMERIC \<in> set (map fi_parser_class fis) then PC_NUMERIC
                   else hd (map fi_parser_class fis))"
    unfolding NUMERIC_ALIASES_def ALIAS_TO_PC_def by (auto simp: Let_def)
  have look: "map_of ALIAS_TO_FIELD_INFOS b = Some fis"
    using b(1) alias_keys_distinct by simp
  have "py_lower b = b" "fis \<noteq> []" using alias_entry[OF look] by auto
  then have "PC_NUMERIC \<in> set (map fi_parser_class fis)"
    using cls hd_in_set[of "map fi_parser_class fis"] by (auto split: if_splits)
  then obtain f where "f \<in> set fis" "fi_parser_class f = PC_NUMERIC" by auto
  with look b \<open>py_lower b = b\<close> show ?thesis unfolding alias_has_def by auto
qed

lemma dual_alias_has:
  "a \<in> set DUAL_NUM_TEXT \<Longrightarrow> alias_has a PC_NUMERIC \<and> alias_has a PC_TEXT"
proof -
  assume "a \<in> set DUAL_NUM_TEXT"
  then obtain b fis where b: "(b, fis) \<in> set ALIAS_TO_FIELD_INFOS" "a = py_lower b"
    and cls: "PC_NUMERIC \<in> set (map fi_parser_class fis)" "PC_TEXT \<in> set (map fi_parser_class fis)"
    unfolding DUAL_NUM_TEXT_def by auto
  have look: "map_of ALIAS_TO_FIELD_INFOS b = Some fis"
    using b(1) alias_keys_distinct by simp
  have "py_lower b = b" using alias_entry[OF look] by auto
  with look b cls show ?thesis unfolding alias_has_def by auto
qed

section \<open>The contract of a parsing method\<close>

definition pok :: "nat \<Rightarrow> nat \<Rightarrow> ('a \<Rightarrow> bool) \<Rightarrow> 'a presult \<Rightarrow> bool" where
  "pok n lo Q r = (case r of
      Inl e \<Rightarrow> e = ParseError \<or> e = OverflowError
    | Inr (x, q) \<Rightarrow> lo \<le> q \<and> q < n \<and> Q x)"

lemma pok_Inr [simp]: "pok n lo Q (Inr (x, q)) \<longleftrightarrow> lo \<le> q \<and> q < n \<and> Q x"
  by (simp add: pok_def)

lemma pok_Inl [simp]: "pok n lo Q (Inl e) \<longleftrightarrow> e = ParseError \<or> e = OverflowError"
  by (simp add: pok_def)

lemma pok_bind:
  assumes "pok n lo Q m"
    and "\<And>x q. lo \<le> q \<Longrightarrow> q < n \<Longrightarrow> Q x \<Longrightarrow> pok n lo' Q' (f (x, q))"
  shows "pok n lo' Q' (bindr m f)"
proof (cases m)
  case (Inl e)
  with assms(1) show ?thesis by simp
next
  case (Inr r)
  with assms show ?thesis by (cases r) simp
qed

lemma pok_weaken: "pok n lo Q r \<Longrightarrow> lo' \<le> lo \<Longrightarrow> (\<And>x. Q x \<Longrightarrow> Q' x) \<Longrightarrow> pok n lo' Q' r"
  by (auto simp: pok_def split: sum.splits)

lemma mk_card_binary_ok: "op \<in> set bin_ops \<Longrightarrow> mk_card_binary l op r = Inr (CardBinaryOperatorNode l op r)"
  by (simp add: mk_card_binary_def)

lemma at_pos_Inr [simp]: "at_pos p (Inr x) = Inr (x, p)"
  by (simp add: at_pos_def)

lemma alias_name: "alias_has (u ''name'') PC_TEXT"
proof (rule alias_to_pc_has)
  show "map_of ALIAS_TO_PC (u ''name'') = Some PC_TEXT" by (simp add: ALIAS_TO_PC_eq)
qed

lemma op_texts_bin_ops: "op \<in> set op_texts \<Longrightarrow> op \<in> set bin_ops"
  by (auto simp: op_texts_def bin_ops_def)

lemma name_node_ok: "\<exists>x. name_node v = Inr x \<and> wf_node x"
proof -
  obtain n infos col where n: "mk_card_attribute (u ''name'') PC_TEXT = Inr n" "attr_ok n"
      "n = CardAttributeNode (u ''name'') PC_TEXT infos col"
    using alias_has_attribute[OF alias_name] by blast
  have "name_node v = Inr (CardBinaryOperatorNode n (u '':'') (StringValueNode v))"
    using n(1) by (simp add: name_node_def mk_card_binary_def bin_ops_def)
  moreover have "wf_node (CardBinaryOperatorNode n (u '':'') (StringValueNode v))"
    using n by (simp add: bin_ops_def)
  ultimately show ?thesis by blast
qed

lemma at_pos_name_node: "lo \<le> q \<Longrightarrow> q < n \<Longrightarrow> pok n lo wf_node (at_pos q (name_node v))"
  using name_node_ok[of v] by auto

end
