(* ===== verification/Parser_Contracts.thy ===== *)
theory Parser_Contracts
  imports Hand_Parser_Safe
begin

text \<open>
  The contracts of the parsing methods, proved once over two interfaces. \<open>token_stream\<close> is what the
  lexer promises of its tokens; \<open>group_parser\<close> adds what a method may rely on when it calls the
  parser of a parenthesised group: it moves past at least one token and stays before the
  end-of-input token. \<open>expr_ok\<close> discharges the second contract for \<open>parse_expr\<close> by induction on the
  fuel, and \<open>lexed\<close> interprets the first one on the tokens of a text.
\<close>

section \<open>The token stream\<close>

locale token_stream =
  fixes ts :: "token list" and hi :: nat
  assumes stream: "toks_ok 0 hi ts"
begin

lemma nonempty: "ts \<noteq> []"
  using toks_ok_last[OF stream] by simp

lemma last_eof: "tok_type (last ts) = T_EOF"
  using toks_ok_last[OF stream] by simp

lemma not_last:
  assumes "p < length ts" "tok_type (ts ! p) \<noteq> T_EOF"
  shows "Suc p < length ts"
proof (rule ccontr)
  assume "\<not> Suc p < length ts"
  with assms(1) have "p = length ts - 1" by simp
  then have "ts ! p = last ts" using nonempty by (simp add: last_conv_nth)
  with assms(2) last_eof show False by simp
qed

lemma peek0: "p < length ts \<Longrightarrow> peek ts p 0 = ts ! p"
  by (simp add: peek_def)

lemma peek1:
  assumes "tok_type (peek ts p (Suc 0)) \<noteq> T_EOF"
  shows "Suc p < length ts" "peek ts p (Suc 0) = ts ! Suc p" "Suc (Suc p) < length ts"
proof -
  show p: "Suc p < length ts" using assms last_eof by (auto simp: peek_def split: if_splits)
  then show "peek ts p (Suc 0) = ts ! Suc p" by (simp add: peek_def)
  with assms show "Suc (Suc p) < length ts" using not_last[OF p] by simp
qed

lemma token_val:
  assumes "p < length ts"
  shows "val_ok (tok_type (ts ! p)) (tok_value (ts ! p))"
  using toks_ok_wf[OF stream nth_mem[OF assms]] by (simp add: tok_wf_def)

lemma number_val:
  assumes "p < length ts" "tok_type (ts ! p) = T_NUMBER"
  obtains n where "tok_value (ts ! p) = VNum n" "num_ok n"
  using token_val[OF assms(1)] assms(2) by (auto split: tokval.splits)

lemma op_text: "p < length ts \<Longrightarrow> tok_type (ts ! p) = T_OP \<Longrightarrow> tok_text (ts ! p) \<in> set op_texts"
  using token_val by fastforce

lemma arith_text: "p < length ts \<Longrightarrow> is_arith (tok_type (ts ! p)) \<Longrightarrow> tok_text (ts ! p) \<in> set bin_ops"
  using token_val[of p] by (auto simp: is_arith_def bin_ops_def)

lemma consume_eq: "p < length ts \<Longrightarrow> consume ts p = Inr (ts ! p, Suc p)"
  by (simp add: consume_def)

lemmas access = peek0 consume_eq

subsubsection \<open>Loops over words\<close>

lemma hyphen_loop_ok:
  "p < length ts \<Longrightarrow> length ts - p < n \<Longrightarrow> pok (length ts) p (\<lambda>_. True) (hyphen_loop n ts parts p)"
proof (induction n arbitrary: parts p)
  case (Suc n)
  show ?case
  proof (cases "hyphen_next ts p")
    case True
    then have "tok_type (peek ts p (Suc 0)) \<noteq> T_EOF" by (auto simp: hyphen_next_def)
    note p = peek1[OF this]
    have "pok (length ts) (Suc (Suc p)) (\<lambda>_. True)
            (hyphen_loop n ts (parts @ [tok_text (ts ! Suc p)]) (Suc (Suc p)))"
      using Suc.IH[of "Suc (Suc p)"] p Suc.prems by simp
    then have "pok (length ts) p (\<lambda>_. True)
            (hyphen_loop n ts (parts @ [tok_text (ts ! Suc p)]) (Suc (Suc p)))"
      by (rule pok_weaken) simp_all
    with True p show ?thesis by (simp add: access)
  qed (use Suc.prems in simp)
qed simp

lemma mana_loop_ok:
  "p < length ts \<Longrightarrow> length ts - p < n \<Longrightarrow> parts \<noteq> [] \<Longrightarrow>
     pok (length ts) p (\<lambda>r. r \<noteq> []) (mana_loop n ts parts p)"
proof (induction n arbitrary: parts p)
  case (Suc n)
  show ?case
  proof (cases "tok_type (ts ! p) \<in> {T_MANA, T_WORD, T_NUMBER}")
    case True
    then have p: "Suc p < length ts" using not_last Suc.prems by force
    have "pok (length ts) (Suc p) (\<lambda>r. r \<noteq> []) (mana_loop n ts (parts @ [tok_text (ts ! p)]) (Suc p))"
      using Suc.IH[of "Suc p" "parts @ [tok_text (ts ! p)]"] p Suc.prems by simp
    then have "pok (length ts) p (\<lambda>r. r \<noteq> []) (mana_loop n ts (parts @ [tok_text (ts ! p)]) (Suc p))"
      by (rule pok_weaken) simp_all
    with p Suc.prems show ?thesis by (simp add: access Let_def)
  qed (use Suc.prems in \<open>simp add: access Let_def\<close>)
qed simp

lemma hyphen_loop_full: "p < length ts \<Longrightarrow> pok (length ts) p (\<lambda>_. True) (hyphen_loop (Suc (length ts)) ts parts p)"
  by (rule hyphen_loop_ok) simp_all

subsubsection \<open>Values\<close>

lemma parse_hyphenated_name_ok: "p < length ts \<Longrightarrow> pok (length ts) p wf_node (parse_hyphenated_name ts w p)"
  unfolding parse_hyphenated_name_def
  by (rule pok_bind[OF hyphen_loop_full]) (auto intro: at_pos_name_node)

lemma parse_text_value_ok:
  assumes "p < length ts"
  shows "pok (length ts) (Suc p) (rhs_ok PC_TEXT) (parse_text_value ts p)"
proof (cases "tok_type (ts ! p) = T_EOF")
  case False
  then have p: "Suc p < length ts" using assms not_last by simp
  have "pok (length ts) (Suc p) (rhs_ok PC_TEXT)
          (bindr (hyphen_loop (Suc (length ts)) ts [tok_text (ts ! p)] (Suc p))
            (\<lambda>(parts, p). Inr (StringValueNode (py_join (u ''-'') parts), p)))"
    by (rule pok_bind[OF hyphen_loop_full[OF p]]) simp
  with assms p show ?thesis by (simp add: parse_text_value_def Let_def access)
qed (use assms in \<open>simp add: parse_text_value_def access\<close>)

lemma parse_mana_value_ok:
  assumes "p < length ts"
  shows "pok (length ts) (Suc p) (rhs_ok PC_MANA) (parse_mana_value ts p)"
proof (cases "tok_type (ts ! p) = T_EOF")
  case False
  then have p: "Suc p < length ts" using assms not_last by simp
  have "pok (length ts) (Suc p) (rhs_ok PC_MANA)
          (bindr (mana_loop (length ts) ts [tok_text (ts ! p)] (Suc p)) (\<lambda>(parts, p).
             if parts = [] then Inl ParseError else Inr (ManaValueNode (py_upper (concat parts)), p)))"
    by (rule pok_bind[OF mana_loop_ok[OF p]]) (use p in simp_all)
  with assms p show ?thesis by (simp add: parse_mana_value_def Let_def access)
qed (use assms in \<open>simp add: parse_mana_value_def access\<close>)

lemma parse_string_value_ok:
  assumes "p < length ts"
  shows "pok (length ts) (Suc p) (\<lambda>n. rhs_ok PC_RARITY n \<and> rhs_ok PC_LEGALITY n) (parse_string_value ts p)"
  using assms not_last[of p] by (auto simp: parse_string_value_def Let_def access)

lemma parse_color_value_ok:
  assumes "p < length ts"
  shows "pok (length ts) (Suc p) (rhs_ok PC_COLOR) (parse_color_value ts p)"
proof (cases "tok_type (ts ! p) = T_EOF")
  case False
  then have "Suc p < length ts" using assms not_last by simp
  with assms show ?thesis by (simp add: parse_color_value_def Let_def access)
qed (use assms in \<open>simp add: parse_color_value_def access\<close>)

lemma validate_mtg_year_ok:
  assumes "p < length ts" "tok_type (ts ! p) = T_NUMBER"
  shows "(\<exists>y. validate_mtg_year (tok_value (ts ! p)) = Inr y) \<or> validate_mtg_year (tok_value (ts ! p)) = Inl ParseError"
proof -
  obtain n where "tok_value (ts ! p) = VNum n" "num_ok n" by (rule number_val[OF assms])
  then show ?thesis by (simp add: validate_mtg_year_def split: pynum.splits)
qed

lemma parse_year_value_ok:
  assumes "p < length ts"
  shows "pok (length ts) (Suc p) (rhs_ok PC_YEAR) (parse_year_value ts p)"
  using assms not_last[of p] validate_mtg_year_ok[of p] by (auto simp: parse_year_value_def Let_def access)

lemma minus_number_step:
  assumes "minus_number_next ts p"
  shows "p < length ts" "Suc p < length ts" "Suc (Suc p) < length ts"
  using assms peek1[of p] by (auto simp: minus_number_next_def)

lemma datetime_date_cases:
  "datetime_date y m d = Inl OverflowError \<or> datetime_date y m d = Inl ValueError \<or> datetime_date y m d = Inr (y, m, d)"
  by (simp add: datetime_date_def)

lemma parse_date_value_ok:
  assumes "p < length ts"
  shows "pok (length ts) (Suc p) (rhs_ok PC_DATE) (parse_date_value ts p)"
proof (cases "tok_type (ts ! p) = T_NUMBER")
  case True
  then have p: "Suc p < length ts" using assms not_last by simp
  have date: "pok (length ts) (Suc p) (rhs_ok PC_DATE)
      (case datetime_date y m d of Inl ValueError \<Rightarrow> Inl ParseError | Inl e \<Rightarrow> Inl e
         | Inr _ \<Rightarrow> Inr (StringValueNode (date_text y m d), q))"
    if "q < length ts" "p < q" for y m d q
    using datetime_date_cases[of y m d] that by auto
  show ?thesis
    using assms p validate_mtg_year_ok[OF assms True] True minus_number_step[of "Suc p"]
      minus_number_step[of "Suc (Suc (Suc p))"]
    by (auto simp: parse_date_value_def Let_def access date)
qed (use assms in \<open>simp add: parse_date_value_def access\<close>)

end

section \<open>Above the group parser\<close>

lemma wf_binary:
  "wf_node l \<Longrightarrow> wf_node r \<Longrightarrow> op \<in> set bin_ops \<Longrightarrow> wf_node (CardBinaryOperatorNode l op r)"
  by (cases l) auto

lemma at_pos_binary:
  "wf_node l \<Longrightarrow> wf_node r \<Longrightarrow> op \<in> set bin_ops \<Longrightarrow> lo \<le> q \<Longrightarrow> q < n \<Longrightarrow>
     pok n lo wf_node (at_pos q (mk_card_binary l op r))"
  using wf_binary[of l r op] by (simp only: mk_card_binary_ok at_pos_Inr pok_Inr simp_thms)

lemma numeric_attribute_ok:
  "alias_has a PC_NUMERIC \<Longrightarrow> \<exists>n. mk_card_attribute a PC_NUMERIC = Inr n \<and> wf_node n"
  using alias_has_attribute[of a PC_NUMERIC] by auto

locale group_parser = token_stream +
  fixes grp :: sub_parser_fun and lo :: nat
  assumes grp_ok:
    "lo \<le> p \<Longrightarrow> p < length ts \<Longrightarrow> tok_type (ts ! p) = T_LPAREN \<Longrightarrow> pok (length ts) (Suc p) wf_node (grp p)"
begin

lemma parse_num_term_ok:
  assumes "lo \<le> p" "p < length ts"
  shows "pok (length ts) (Suc p) wf_node (parse_num_term grp ts p)"
proof -
  let ?t = "ts ! p"
  consider (num) "tok_type ?t = T_NUMBER"
    | (word) "tok_type ?t = T_WORD" "py_lower (tok_text ?t) \<in> set NUMERIC_ALIASES"
    | (group) "tok_type ?t = T_LPAREN"
    | (other) "tok_type ?t \<noteq> T_NUMBER" "tok_type ?t \<noteq> T_LPAREN"
        "\<not> (tok_type ?t = T_WORD \<and> py_lower (tok_text ?t) \<in> set NUMERIC_ALIASES)" by blast
  then show ?thesis
  proof cases
    case num
    obtain n where "tok_value ?t = VNum n" "num_ok n" by (rule number_val[OF assms(2) num])
    with num assms not_last[of p] show ?thesis by (simp add: parse_num_term_def access)
  next
    case word
    obtain n where "mk_card_attribute (py_lower (tok_text ?t)) PC_NUMERIC = Inr n" "wf_node n"
      using numeric_attribute_ok[OF numeric_alias_has[OF word(2)]] by blast
    with word assms not_last[of p] show ?thesis by (simp add: parse_num_term_def access)
  next
    case group
    with assms grp_ok show ?thesis by (simp add: parse_num_term_def access)
  next
    case other
    with assms show ?thesis by (auto simp: parse_num_term_def access Let_def)
  qed
qed

lemma arith_round_ok:
  assumes "lo \<le> p" "p < length ts" "is_arith (tok_type (ts ! p))" "wf_node lhs"
  shows "pok (length ts) (Suc (Suc p)) wf_node (arith_round grp ts lhs p)"
proof -
  have p: "Suc p < length ts" using assms not_last by (auto simp: is_arith_def)
  have op: "tok_text (ts ! p) \<in> set bin_ops" using assms arith_text by blast
  have "pok (length ts) (Suc (Suc p)) wf_node
     (bindr (parse_num_term grp ts (Suc p)) (\<lambda>(rhs, q). at_pos q (mk_card_binary lhs (tok_text (ts ! p)) rhs)))"
    by (rule pok_bind[OF parse_num_term_ok]) (use assms p op in \<open>auto intro: at_pos_binary\<close>)
  with assms show ?thesis by (simp add: arith_round_def access)
qed

text \<open>The step the three arithmetic loops share: one round, then the loop at a later position.\<close>

lemma arith_step:
  assumes p: "lo \<le> p" "p < length ts" "wf_node lhs" "is_arith (tok_type (ts ! p))"
    and IH: "\<And>q lhs. lo \<le> q \<Longrightarrow> p < q \<Longrightarrow> q < length ts \<Longrightarrow> wf_node lhs \<Longrightarrow> pok (length ts) q wf_node (loop lhs q)"
  shows "pok (length ts) p wf_node (bindr (arith_round grp ts lhs p) (\<lambda>(lhs, p). loop lhs p))"
proof (rule pok_bind[OF arith_round_ok[OF p(1,2,4,3)]])
  fix x q
  assume q: "Suc (Suc p) \<le> q" "q < length ts" "wf_node x"
  then have "pok (length ts) q wf_node (loop x q)" using IH p(1) by simp
  then have "pok (length ts) p wf_node (loop x q)" by (rule pok_weaken) (use q in simp_all)
  then show "pok (length ts) p wf_node (case (x, q) of (lhs, p) \<Rightarrow> loop lhs p)" by simp
qed

lemma arith_tail_ok:
  "lo \<le> p \<Longrightarrow> p < length ts \<Longrightarrow> wf_node lhs \<Longrightarrow> length ts - p < n \<Longrightarrow>
     pok (length ts) p wf_node (arith_tail n grp ts lhs p)"
proof (induction n arbitrary: lhs p)
  case (Suc n)
  show ?case
  proof (cases "is_arith (tok_type (ts ! p))")
    case True
    have "pok (length ts) p wf_node (bindr (arith_round grp ts lhs p) (\<lambda>(lhs, p). arith_tail n grp ts lhs p))"
      by (rule arith_step) (use Suc True in auto)
    with Suc.prems show ?thesis by (simp add: access)
  qed (use Suc.prems in \<open>simp add: access\<close>)
qed simp

lemma spaced_arith_tail_ok:
  "lo \<le> p \<Longrightarrow> p < length ts \<Longrightarrow> wf_node lhs \<Longrightarrow> length ts - p < n \<Longrightarrow>
     pok (length ts) p wf_node (spaced_arith_tail n grp ts lhs p)"
proof (induction n arbitrary: lhs p)
  case (Suc n)
  show ?case
  proof (cases "is_arith (tok_type (ts ! p))")
    case True
    have "pok (length ts) p wf_node (bindr (arith_round grp ts lhs p) (\<lambda>(lhs, p). spaced_arith_tail n grp ts lhs p))"
      by (rule arith_step) (use Suc True in auto)
    with Suc.prems show ?thesis by (simp add: access)
  qed (use Suc.prems in \<open>simp add: access\<close>)
qed simp

lemma num_expr_loop_ok:
  "lo \<le> p \<Longrightarrow> p < length ts \<Longrightarrow> wf_node lhs \<Longrightarrow> length ts - p < n \<Longrightarrow>
     pok (length ts) p wf_node (num_expr_loop n grp ts lhs p)"
proof (induction n arbitrary: lhs p)
  case (Suc n)
  show ?case
  proof (cases "is_arith (tok_type (ts ! p))")
    case True
    have "pok (length ts) p wf_node (bindr (arith_round grp ts lhs p) (\<lambda>(lhs, p). num_expr_loop n grp ts lhs p))"
      by (rule arith_step) (use Suc True in auto)
    with Suc.prems show ?thesis by (simp add: access)
  qed (use Suc.prems in \<open>simp add: access\<close>)
qed simp

lemma parse_num_expr_value_ok:
  assumes "lo \<le> p" "p < length ts"
  shows "pok (length ts) (Suc p) wf_node (parse_num_expr_value grp ts p)"
  unfolding parse_num_expr_value_def
proof (rule pok_bind[OF parse_num_term_ok[OF assms]])
  fix x q
  assume q: "Suc p \<le> q" "q < length ts" "wf_node x"
  then have "pok (length ts) q wf_node (num_expr_loop (Suc (length ts)) grp ts x q)"
    using assms by (intro num_expr_loop_ok) auto
  then show "pok (length ts) (Suc p) wf_node (case (x, q) of (lhs, p) \<Rightarrow> num_expr_loop (Suc (length ts)) grp ts lhs p)"
    using q(1) by (auto elim: pok_weaken)
qed

lemma compare_tail_ok:
  assumes "lo \<le> p" "p < length ts" "wf_node lhs"
  shows "pok (length ts) p wf_node (compare_tail grp ts lhs p)"
proof (cases "tok_type (ts ! p) = T_OP")
  case True
  then have p: "Suc p < length ts" using assms not_last by simp
  have op: "tok_text (ts ! p) \<in> set bin_ops" using op_text op_texts_bin_ops assms True by blast
  have "pok (length ts) p wf_node
     (bindr (parse_num_expr_value grp ts (Suc p)) (\<lambda>(rhs, q). at_pos q (mk_card_binary lhs (tok_text (ts ! p)) rhs)))"
    by (rule pok_bind[OF parse_num_expr_value_ok]) (use assms p op in \<open>auto intro: at_pos_binary\<close>)
  with assms True show ?thesis by (simp add: compare_tail_def access)
qed (use assms in \<open>simp add: compare_tail_def access\<close>)

text \<open>After the first operand of a comparison: the spaced arithmetic, then the comparison.\<close>

lemma spaced_compare_ok:
  assumes "lo \<le> p" "p < length ts" "wf_node lhs"
  shows "pok (length ts) p wf_node
    (bindr (spaced_arith_tail (Suc (length ts)) grp ts lhs p) (\<lambda>(lhs, p). compare_tail grp ts lhs p))"
proof (rule pok_bind)
  show "pok (length ts) p wf_node (spaced_arith_tail (Suc (length ts)) grp ts lhs p)"
    using assms by (intro spaced_arith_tail_ok) auto
  fix x q
  assume q: "p \<le> q" "q < length ts" "wf_node x"
  then have "pok (length ts) q wf_node (compare_tail grp ts x q)" using assms compare_tail_ok by simp
  with q(1) show "pok (length ts) p wf_node (case (x, q) of (lhs, p) \<Rightarrow> compare_tail grp ts lhs p)"
    by (auto elim: pok_weaken)
qed

lemma arith_compare_ok:
  assumes "lo \<le> p" "p < length ts" "wf_node lhs"
  shows "pok (length ts) p wf_node
    (bindr (if b then arith_tail (Suc (length ts)) grp ts lhs p else Inr (lhs, p)) (\<lambda>(lhs, p).
       bindr (spaced_arith_tail (Suc (length ts)) grp ts lhs p) (\<lambda>(lhs, p). compare_tail grp ts lhs p)))"
proof (rule pok_bind)
  show "pok (length ts) p wf_node (if b then arith_tail (Suc (length ts)) grp ts lhs p else Inr (lhs, p))"
    using assms arith_tail_ok[of p lhs "Suc (length ts)"] by simp
  fix x q
  assume q: "p \<le> q" "q < length ts" "wf_node x"
  then have "pok (length ts) q wf_node
      (bindr (spaced_arith_tail (Suc (length ts)) grp ts x q) (\<lambda>(lhs, p). compare_tail grp ts lhs p))"
    using assms spaced_compare_ok by simp
  with q(1) show "pok (length ts) p wf_node (case (x, q) of (lhs, p) \<Rightarrow>
      bindr (spaced_arith_tail (Suc (length ts)) grp ts lhs p) (\<lambda>(lhs, p). compare_tail grp ts lhs p))"
    by (auto elim: pok_weaken)
qed

subsubsection \<open>Primaries\<close>

lemma parse_value_for_class_ok:
  assumes "lo \<le> p" "p < length ts"
  shows "pok (length ts) (Suc p) (if pc = PC_NUMERIC then wf_node else rhs_ok pc) (parse_value_for_class grp ts pc p)"
proof (cases pc)
  case PC_RARITY
  then show ?thesis
    using parse_string_value_ok[OF assms(2)] by (auto simp: parse_value_for_class_def elim: pok_weaken)
next
  case PC_LEGALITY
  then show ?thesis
    using parse_string_value_ok[OF assms(2)] by (auto simp: parse_value_for_class_def elim: pok_weaken)
qed (use assms parse_text_value_ok parse_num_expr_value_ok parse_color_value_ok parse_mana_value_ok
       parse_date_value_ok parse_year_value_ok in \<open>simp_all add: parse_value_for_class_def\<close>)

text \<open>\<open>attr:value\<close>: the attribute resolves, and the value is of the kind the attribute's class reads.\<close>

lemma attr_compare_ok:
  assumes "alias_has wl pc" "op \<in> set op_texts"
    and "pok (length ts) (Suc p) (if pc = PC_NUMERIC then wf_node else rhs_ok pc) (value p)"
  shows "pok (length ts) (Suc p) wf_node (attr_compare wl pc value op p)"
proof -
  obtain n infos col where n: "mk_card_attribute wl pc = Inr n" "attr_ok n" "n = CardAttributeNode wl pc infos col"
    using alias_has_attribute[OF assms(1)] by blast
  have op: "op \<in> set bin_ops" using assms(2) op_texts_bin_ops by blast
  have "pok (length ts) (Suc p) wf_node (bindr (value p) (\<lambda>(rhs, p). at_pos p (mk_card_binary n op rhs)))"
    by (rule pok_bind[OF assms(3)]) (use n op assms(2) in \<open>auto simp: mk_card_binary_ok split: if_splits\<close>)
  with n(1) show ?thesis by (simp add: attr_compare_def)
qed

lemma parse_exact_name_ok:
  "p < length ts \<Longrightarrow> tok_type (ts ! p) = T_BANG \<Longrightarrow> pok (length ts) (Suc p) wf_node (parse_exact_name ts p)"
  using not_last[of p] not_last[of "Suc p"] by (auto simp: parse_exact_name_def access Let_def)

lemma op_then_ok:
  assumes "p < length ts" "tok_type (ts ! p) = T_OP"
    and "\<And>op. Suc p < length ts \<Longrightarrow> op \<in> set op_texts \<Longrightarrow> pok (length ts) (Suc (Suc p)) wf_node (f op (Suc p))"
  shows "pok (length ts) p wf_node (bindr (consume ts p) (\<lambda>(op, p). f (tok_text op) p))"
proof -
  have "pok (length ts) (Suc (Suc p)) wf_node (f (tok_text (ts ! p)) (Suc p))"
    using assms not_last[OF assms(1)] op_text[OF assms(1,2)] by simp
  then have "pok (length ts) p wf_node (f (tok_text (ts ! p)) (Suc p))" by (rule pok_weaken) simp_all
  with assms(1) show ?thesis by (simp add: access)
qed

lemma numeric_word_ok:
  assumes "lo \<le> p" "p < length ts" "alias_has wl PC_NUMERIC"
  shows "pok (length ts) p wf_node
    (bindr (mk_card_attribute wl PC_NUMERIC) (\<lambda>lhs.
       bindr (arith_tail (Suc (length ts)) grp ts lhs p) (\<lambda>(lhs, p).
         bindr (spaced_arith_tail (Suc (length ts)) grp ts lhs p) (\<lambda>(lhs, p). compare_tail grp ts lhs p))))"
proof -
  obtain n where "mk_card_attribute wl PC_NUMERIC = Inr n" "wf_node n"
    using numeric_attribute_ok[OF assms(3)] by blast
  then show ?thesis using arith_compare_ok[of p n True] assms(1,2) by simp
qed

lemma numeric_word_spaced_ok:
  assumes "lo \<le> p" "p < length ts" "alias_has wl PC_NUMERIC"
  shows "pok (length ts) p wf_node
    (bindr (mk_card_attribute wl PC_NUMERIC) (\<lambda>lhs.
       bindr (spaced_arith_tail (Suc (length ts)) grp ts lhs p) (\<lambda>(lhs, p).
         if is_card_attribute lhs then at_pos p (name_node word) else compare_tail grp ts lhs p)))"
proof -
  obtain n where n: "mk_card_attribute wl PC_NUMERIC = Inr n" "wf_node n"
    using numeric_attribute_ok[OF assms(3)] by blast
  have "pok (length ts) p wf_node (spaced_arith_tail (Suc (length ts)) grp ts n p)"
    using assms n(2) by (intro spaced_arith_tail_ok) auto
  then have "pok (length ts) p wf_node
    (bindr (spaced_arith_tail (Suc (length ts)) grp ts n p) (\<lambda>(lhs, p).
         if is_card_attribute lhs then at_pos p (name_node word) else compare_tail grp ts lhs p))"
  proof (rule pok_bind)
    fix x q
    assume q: "p \<le> q" "q < length ts" "wf_node x"
    then have "pok (length ts) p wf_node (compare_tail grp ts x q)"
      using assms compare_tail_ok[of q x] by (auto elim: pok_weaken)
    with q show "pok (length ts) p wf_node (case (x, q) of (lhs, p) \<Rightarrow>
         if is_card_attribute lhs then at_pos p (name_node word) else compare_tail grp ts lhs p)"
      by (simp add: at_pos_name_node)
  qed
  with n(1) show ?thesis by simp
qed

lemma dual_value_ok:
  assumes "lo \<le> p" "p < length ts" "wl \<in> set DUAL_NUM_TEXT" "op \<in> set op_texts"
  shows "pok (length ts) (Suc p) wf_node
    (if tok_type (peek ts p 0) = T_NUMBER then attr_compare wl PC_NUMERIC (parse_num_expr_value grp ts) op p
     else attr_compare wl PC_TEXT (parse_text_value ts) op p)"
  using assms dual_alias_has[OF assms(3)]
  by (auto intro!: attr_compare_ok simp: parse_num_expr_value_ok parse_text_value_ok)

lemma parse_word_primary_ok:
  assumes "lo \<le> p" "p < length ts"
  shows "pok (length ts) p wf_node (parse_word_primary grp ts word p)"
proof -
  let ?wl = "py_lower word" and ?t = "ts ! p"
  have pc: "map_of ALIAS_TO_PC ?wl = Some pc \<Longrightarrow> alias_has ?wl pc" for pc
    by (rule alias_to_pc_has)
  consider (bad) "?wl \<in> {u ''and'', u ''or''}"
    | (dual) "?wl \<notin> {u ''and'', u ''or''}" "?wl \<in> set DUAL_NUM_TEXT" "tok_type ?t = T_OP"
    | (num) "?wl \<notin> {u ''and'', u ''or''}" "\<not> (?wl \<in> set DUAL_NUM_TEXT \<and> tok_type ?t = T_OP)"
        "map_of ALIAS_TO_PC ?wl = Some PC_NUMERIC"
    | (attr) pc where "?wl \<notin> {u ''and'', u ''or''}" "\<not> (?wl \<in> set DUAL_NUM_TEXT \<and> tok_type ?t = T_OP)"
        "map_of ALIAS_TO_PC ?wl = Some pc" "pc \<noteq> PC_NUMERIC" "tok_type ?t = T_OP"
    | (name) "?wl \<notin> {u ''and'', u ''or''}" "\<not> (?wl \<in> set DUAL_NUM_TEXT \<and> tok_type ?t = T_OP)"
        "map_of ALIAS_TO_PC ?wl \<noteq> Some PC_NUMERIC" "map_of ALIAS_TO_PC ?wl = None \<or> tok_type ?t \<noteq> T_OP"
    by (cases "map_of ALIAS_TO_PC ?wl") blast+
  then show ?thesis
  proof cases
    case bad
    then show ?thesis by (simp add: parse_word_primary_def)
  next
    case dual
    have "pok (length ts) p wf_node (bindr (consume ts p) (\<lambda>(op, p).
        if tok_type (peek ts p 0) = T_NUMBER then attr_compare ?wl PC_NUMERIC (parse_num_expr_value grp ts) (tok_text op) p
        else attr_compare ?wl PC_TEXT (parse_text_value ts) (tok_text op) p))"
      by (rule op_then_ok[OF assms(2) dual(3)]) (use assms dual dual_value_ok in simp)
    with dual assms show ?thesis by (simp add: parse_word_primary_def Let_def peek0 del: insert_iff)
  next
    case num
    have "tok_type ?t = T_OP \<Longrightarrow> pok (length ts) p wf_node (bindr (consume ts p) (\<lambda>(op, p).
        attr_compare ?wl PC_NUMERIC (parse_num_expr_value grp ts) (tok_text op) p))"
      by (rule op_then_ok[OF assms(2)])
         (use assms pc[OF num(3)] in \<open>auto intro!: attr_compare_ok simp: parse_num_expr_value_ok\<close>)
    with num assms pc[OF num(3)] show ?thesis
      by (auto simp: parse_word_primary_def Let_def peek0 numeric_word_ok numeric_word_spaced_ok
            simp del: insert_iff arith_tail.simps spaced_arith_tail.simps)
  next
    case attr
    have "pok (length ts) p wf_node (bindr (consume ts p) (\<lambda>(op, p).
        attr_compare ?wl pc (parse_value_for_class grp ts pc) (tok_text op) p))"
      by (rule op_then_ok[OF assms(2) attr(5)])
         (use assms pc[OF attr(3)] parse_value_for_class_ok in \<open>auto intro!: attr_compare_ok\<close>)
    with attr assms show ?thesis by (simp add: parse_word_primary_def Let_def peek0 del: insert_iff)
  next
    case name
    then have "parse_word_primary grp ts word p = parse_hyphenated_name ts word p"
      using assms(2) unfolding parse_word_primary_def by (simp only: Let_def peek0 if_False simp_thms) auto
    with assms parse_hyphenated_name_ok show ?thesis by simp
  qed
qed

lemma parse_number_primary_ok:
  assumes "lo \<le> p" "p < length ts" "tok_type (ts ! p) = T_NUMBER"
  shows "pok (length ts) (Suc p) wf_node (parse_number_primary grp ts p)"
proof -
  obtain n where n: "tok_value (ts ! p) = VNum n" "num_ok n" by (rule number_val[OF assms(2,3)])
  have "Suc p < length ts" using assms not_last by simp
  then show ?thesis
    using arith_compare_ok[of "Suc p" "NumericValueNode n"] assms n
    by (simp add: parse_number_primary_def access del: arith_tail.simps spaced_arith_tail.simps)
qed

lemma group_primary_ok:
  assumes "lo \<le> p" "p < length ts" "tok_type (ts ! p) = T_LPAREN"
  shows "pok (length ts) (Suc p) wf_node
    (bindr (grp p) (\<lambda>(lhs, p).
       bindr (if is_arith (tok_type (peek ts p 0)) \<and> \<not> space_before (peek ts p 0)
              then arith_tail (Suc (length ts)) grp ts lhs p else Inr (lhs, p)) (\<lambda>(lhs, p).
         bindr (spaced_arith_tail (Suc (length ts)) grp ts lhs p) (\<lambda>(lhs, p). compare_tail grp ts lhs p))))"
  (is "pok _ _ _ (bindr _ (\<lambda>(lhs, p). ?f lhs p))")
proof (rule pok_bind[OF grp_ok[OF assms]])
  fix x q
  assume q: "Suc p \<le> q" "q < length ts" "wf_node x"
  then have "pok (length ts) q wf_node (?f x q)" using assms by (intro arith_compare_ok) simp_all
  then have "pok (length ts) (Suc p) wf_node (?f x q)" by (rule pok_weaken) (use q in simp_all)
  then show "pok (length ts) (Suc p) wf_node (case (x, q) of (lhs, p) \<Rightarrow> ?f lhs p)" by (simp only: prod.case)
qed

lemma parse_primary_ok:
  assumes "lo \<le> p" "p < length ts"
  shows "pok (length ts) (Suc p) wf_node (parse_primary grp ts p)"
proof -
  have step: "tok_type (ts ! p) \<noteq> T_EOF \<Longrightarrow> Suc p < length ts" using assms not_last by simp
  have word: "tok_type (ts ! p) = T_WORD \<Longrightarrow> pok (length ts) (Suc p) wf_node (parse_word_primary grp ts (tok_text (ts ! p)) (Suc p))"
    using assms step parse_word_primary_ok by simp
  show ?thesis
  proof (cases "tok_type (ts ! p) = T_LPAREN")
    case True
    then show ?thesis
      using group_primary_ok[OF assms True] assms
      by (simp add: parse_primary_def access del: arith_tail.simps spaced_arith_tail.simps)
  next
    case False
    then show ?thesis
      using assms step word parse_exact_name_ok[of p] parse_number_primary_ok[of p]
      by (cases "tok_type (ts ! p)") (simp_all add: parse_primary_def access at_pos_name_node)
  qed
qed

lemma parse_factor_ok:
  assumes "lo \<le> p" "p < length ts"
  shows "pok (length ts) (Suc p) wf_node (parse_factor grp ts p)"
proof (cases "tok_type (ts ! p) = T_MINUS")
  case True
  then have p: "Suc p < length ts" using assms not_last by simp
  have "pok (length ts) (Suc p) wf_node
     (bindr (parse_primary grp ts (Suc p)) (\<lambda>(operand, q). if is_arith_node operand then Inl ParseError else Inr (NotNode operand, q)))"
    by (rule pok_bind[OF parse_primary_ok]) (use assms p in auto)
  with True assms show ?thesis by (simp add: parse_factor_def access)
qed (use assms parse_primary_ok in \<open>simp add: parse_factor_def access\<close>)

subsubsection \<open>Conjunctions and disjunctions\<close>

abbreviation operands_ok :: "node list \<Rightarrow> bool" where
  "operands_ok xs \<equiv> xs \<noteq> [] \<and> (\<forall>x \<in> set xs. wf_node x)"

lemma and_word_step:
  assumes "p < length ts" "can_start_factor ts p"
  shows "\<exists>q \<ge> p. q < length ts \<and>
    (if tok_type (peek ts p 0) = T_WORD \<and> py_upper (tok_text (peek ts p 0)) = u ''AND''
     then bindr (consume ts p) (\<lambda>(_, p). Inr p) else Inr p) = (Inr q :: nat result)"
proof -
  have "Suc p < length ts"
    using assms not_last[of p] by (auto simp: can_start_factor_def peek0 Let_def split: if_splits)
  with assms show ?thesis by (auto simp: access)
qed

lemma and_loop_ok:
  "lo \<le> p \<Longrightarrow> p < length ts \<Longrightarrow> operands_ok xs \<Longrightarrow> length ts - p < n \<Longrightarrow>
     pok (length ts) p operands_ok (and_loop n grp ts xs p)"
proof (induction n arbitrary: xs p)
  case (Suc n)
  show ?case
  proof (cases "can_start_factor ts p")
    case True
    obtain q where q: "p \<le> q" "q < length ts"
      "(if tok_type (peek ts p 0) = T_WORD \<and> py_upper (tok_text (peek ts p 0)) = u ''AND''
        then bindr (consume ts p) (\<lambda>(_, p). Inr p) else Inr p) = (Inr q :: nat result)"
      using and_word_step[OF Suc.prems(2) True] by blast
    have "pok (length ts) p operands_ok
        (bindr (parse_factor grp ts q) (\<lambda>(x, p). and_loop n grp ts (xs @ [x]) p))"
    proof (rule pok_bind)
      show "pok (length ts) (Suc q) wf_node (parse_factor grp ts q)"
        using q Suc.prems by (intro parse_factor_ok) simp_all
      fix x r
      assume r: "Suc q \<le> r" "r < length ts" "wf_node x"
      then have "pok (length ts) r operands_ok (and_loop n grp ts (xs @ [x]) r)"
        using Suc q by (intro Suc.IH) auto
      then show "pok (length ts) p operands_ok (case (x, r) of (x, p) \<Rightarrow> and_loop n grp ts (xs @ [x]) p)"
        using q r by (auto elim: pok_weaken)
    qed
    with q(3) True show ?thesis by simp
  qed (use Suc.prems in simp)
qed simp

lemma wf_combined:
  assumes "operands_ok xs"
  shows "wf_node (if length xs = 1 then hd xs else AndNode xs)" "wf_node (if length xs = 1 then hd xs else OrNode xs)"
  using assms by (cases xs; auto simp: Suc_le_eq)+

lemma parse_and_expr_ok:
  assumes "lo \<le> p" "p < length ts"
  shows "pok (length ts) (Suc p) wf_node (parse_and_expr grp ts p)"
  unfolding parse_and_expr_def
proof (rule pok_bind[OF parse_factor_ok[OF assms]], simp only: prod.case)
  fix x q
  assume q: "Suc p \<le> q" "q < length ts" "wf_node x"
  have "pok (length ts) q operands_ok (and_loop (Suc (length ts)) grp ts [x] q)"
    using q assms by (intro and_loop_ok) auto
  then show "pok (length ts) (Suc p) wf_node (bindr (and_loop (Suc (length ts)) grp ts [x] q) (\<lambda>(operands, p).
         Inr (if length operands = 1 then hd operands else AndNode operands, p)))"
    by (rule pok_bind) (use q wf_combined(1) in auto)
qed

lemma or_loop_ok:
  "lo \<le> p \<Longrightarrow> p < length ts \<Longrightarrow> operands_ok xs \<Longrightarrow> length ts - p < n \<Longrightarrow>
     pok (length ts) p operands_ok (or_loop n grp ts xs p)"
proof (induction n arbitrary: xs p)
  case (Suc n)
  show ?case
  proof (cases "tok_type (ts ! p) = T_WORD \<and> py_upper (tok_text (ts ! p)) = u ''OR''")
    case True
    then have p: "Suc p < length ts" using Suc.prems not_last by simp
    have "pok (length ts) p operands_ok
        (bindr (parse_and_expr grp ts (Suc p)) (\<lambda>(x, p). or_loop n grp ts (xs @ [x]) p))"
    proof (rule pok_bind)
      show "pok (length ts) (Suc (Suc p)) wf_node (parse_and_expr grp ts (Suc p))"
        using p Suc.prems by (intro parse_and_expr_ok) simp_all
      fix x r
      assume r: "Suc (Suc p) \<le> r" "r < length ts" "wf_node x"
      then have "pok (length ts) r operands_ok (or_loop n grp ts (xs @ [x]) r)"
        using Suc by (intro Suc.IH) auto
      then show "pok (length ts) p operands_ok (case (x, r) of (x, p) \<Rightarrow> or_loop n grp ts (xs @ [x]) p)"
        using r by (auto elim: pok_weaken)
    qed
    with True Suc.prems show ?thesis by (simp add: access)
  qed (use Suc.prems in \<open>auto simp: access\<close>)
qed simp

lemma parse_expr_with_ok:
  assumes "lo \<le> p" "p < length ts"
  shows "pok (length ts) (Suc p) wf_node (parse_expr_with grp ts p)"
  unfolding parse_expr_with_def
proof (rule pok_bind[OF parse_and_expr_ok[OF assms]], simp only: prod.case)
  fix x q
  assume q: "Suc p \<le> q" "q < length ts" "wf_node x"
  have "pok (length ts) q operands_ok (or_loop (Suc (length ts)) grp ts [x] q)"
    using q assms by (intro or_loop_ok) auto
  then show "pok (length ts) (Suc p) wf_node (bindr (or_loop (Suc (length ts)) grp ts [x] q) (\<lambda>(operands, p).
         Inr (if length operands = 1 then hd operands else OrNode operands, p)))"
    by (rule pok_bind) (use q wf_combined(2) in auto)
qed

end

section \<open>Tying the knot\<close>

context token_stream
begin

lemma parse_group_ok:
  assumes expr: "Suc p < length ts \<Longrightarrow> pok (length ts) (Suc (Suc p)) wf_node (expr (Suc p))"
    and p: "p < length ts" "tok_type (ts ! p) = T_LPAREN"
  shows "pok (length ts) (Suc p) wf_node (parse_group expr ts p)"
proof -
  have p1: "Suc p < length ts" using p not_last by simp
  have "pok (length ts) (Suc p) wf_node
     (bindr (expr (Suc p)) (\<lambda>(inner, p). bindr (expect ts p T_RPAREN) (\<lambda>(_, p). Inr (inner, p))))"
    by (rule pok_bind[OF expr[OF p1]]) (use not_last in \<open>auto simp: expect_def access\<close>)
  with p show ?thesis by (simp add: parse_group_def access)
qed

lemma expr_ok: "length ts - p \<le> n \<Longrightarrow> p < length ts \<Longrightarrow> pok (length ts) (Suc p) wf_node (parse_expr n ts p)"
proof (induction n arbitrary: p)
  case (Suc n)
  have "group_parser ts hi (parse_group (parse_expr n ts) ts) p"
  proof
    fix q
    assume q: "p \<le> q" "q < length ts" "tok_type (ts ! q) = T_LPAREN"
    then show "pok (length ts) (Suc q) wf_node (parse_group (parse_expr n ts) ts q)"
      using Suc by (intro parse_group_ok) auto
  qed
  then show ?case using group_parser.parse_expr_with_ok Suc.prems by fastforce
qed simp

lemma parse_ok: "(\<exists>q. parse ts = Inr q \<and> wf_query q) \<or> parse ts = Inl ParseError \<or> parse ts = Inl OverflowError"
proof -
  have "pok (length ts) (Suc 0) wf_node (parse_expr (length ts) ts 0)"
    using expr_ok[of 0 "length ts"] nonempty by simp
  then show ?thesis
    by (auto simp: parse_def wf_query_def pok_def split: sum.splits)
qed

end

text \<open>
  The lexer provides the interface: the tokens of a text, or the single end-of-input token
  when the text has a lexical error.
\<close>

definition tokens_of :: "pstr \<Rightarrow> token list \<times> nat" where
  "tokens_of src = (case tokenize src of
      Inr ts \<Rightarrow> (ts, length src)
    | Inl _ \<Rightarrow> ([\<lparr>tok_type = T_EOF, tok_value = VStr [], tok_pos = 0, space_before = False\<rparr>], 0))"

interpretation lexed: token_stream "fst (tokens_of src)" "snd (tokens_of src)" for src
  by unfold_locales (auto simp: tokens_of_def tok_wf_def split: sum.split dest: tokenize_ok)

interpretation group: group_parser "fst (tokens_of src)" "snd (tokens_of src)"
    "parse_group (parse_expr (length (fst (tokens_of src))) (fst (tokens_of src))) (fst (tokens_of src))" 0 for src
  by unfold_locales (auto intro!: lexed.parse_group_ok lexed.expr_ok)

section \<open>The query parser\<close>

lemma operands_wf:
  "wf_node n \<Longrightarrow> 1 \<le> length (and_operands n) \<and> (\<forall>m \<in> set (and_operands n). wf_node m)"
  "wf_node n \<Longrightarrow> 1 \<le> length (or_operands n) \<and> (\<forall>m \<in> set (or_operands n). wf_node m)"
  by (cases n; auto simp: and_operands_def or_operands_def)+

lemma concat_length_ge: "(\<And>x. x \<in> set xs \<Longrightarrow> 1 \<le> length (f x)) \<Longrightarrow> length xs \<le> length (concat (map f xs))"
  by (induction xs) fastforce+

lemma flatten_wf: "wf_node n \<Longrightarrow> wf_node (flatten_nested_operations n)"
proof (induction n)
  case (AndNode ops)
  have "length ops \<le> length (concat (map (\<lambda>op. and_operands (flatten_nested_operations op)) ops))"
    using AndNode by (intro concat_length_ge) (use operands_wf(1) in auto)
  moreover have "\<forall>m \<in> set (concat (map (\<lambda>op. and_operands (flatten_nested_operations op)) ops)). wf_node m"
    using AndNode operands_wf(1) by fastforce
  ultimately show ?case using AndNode.prems by simp
next
  case (OrNode ops)
  have "length ops \<le> length (concat (map (\<lambda>op. or_operands (flatten_nested_operations op)) ops))"
    using OrNode by (intro concat_length_ge) (use operands_wf(2) in auto)
  moreover have "\<forall>m \<in> set (concat (map (\<lambda>op. or_operands (flatten_nested_operations op)) ops)). wf_node m"
    using OrNode operands_wf(2) by fastforce
  ultimately show ?case using OrNode.prems by simp
qed auto

lemma flatten_wf_query: "wf_query q \<Longrightarrow> wf_query (flatten_nested_operations q)"
  by (cases q) (auto simp: wf_query_def flatten_wf)

lemma scan_token_error: "scan_token pos c s = Inl e \<Longrightarrow> (\<exists>n. e = LexError n) \<or> e = ValueError"
  by (auto simp: scan_token_def Let_def scan_number_def split: if_splits option.splits prod.splits)

lemma lex_from_error: "lex_from pos sb s = Inl e \<Longrightarrow> (\<exists>n. e = LexError n) \<or> e = ValueError"
  by (induction pos sb s rule: lex_from.induct)
     (auto simp: bindr_def split: if_splits sum.splits dest: scan_token_error)

lemma parse_query_cases:
  "(\<exists>q. parse_query src = Inr q \<and> wf_query q \<and> canonical q)
   \<or> parse_query src = Inl ValueError \<or> parse_query src = Inl OverflowError"
proof (cases "src = [] \<or> py_strip src = []")
  case True
  then show ?thesis by (auto simp: parse_query_def wf_query_def)
next
  case False
  show ?thesis
  proof (cases "tokenize src")
    case (Inl e)
    then have "(\<exists>n. e = LexError n) \<or> e = ValueError"
      unfolding tokenize_def by (rule lex_from_error)
    with Inl False show ?thesis by (auto simp: parse_query_def)
  next
    case (Inr ts)
    then have "fst (tokens_of src) = ts" by (simp add: tokens_of_def)
    with lexed.parse_ok[of src] False Inr show ?thesis
      by (auto simp: parse_query_def flatten_canonical intro: flatten_wf_query)
  qed
qed

lemma parse_query_wf: "parse_query src = Inr q \<Longrightarrow> wf_query q \<and> canonical q"
  using parse_query_cases[of src] by auto

text \<open>
  C3: \<open>parse_query\<close> is total on every text. It stops, and either returns a query whose tree is
  well-formed (resolved attributes, operators and right-hand sides of the right kind, at
  least two operands) and canonical (no nested conjunction or disjunction), or raises
  \<open>ValueError\<close>, or \<open>OverflowError\<close>. No \<open>IndexError\<close>, \<open>TypeError\<close> or \<open>KeyError\<close> escapes, and the model's
  recursion bound is never reached.
\<close>

theorem parse_query_total:
  "(\<exists>q. parse_query src = Inr q \<and> wf_query q \<and> canonical q)
   \<or> parse_query src = Inl ValueError \<or> parse_query src = Inl OverflowError"
  by (rule parse_query_cases)

end
