(* ===== verification/Query_Context.thy ===== *)
theory Query_Context
  imports Nodes
begin

text \<open>
  \<open>QueryContext\<close> of \<open>src/api/parsing/nodes.py\<close>: the accumulator of bound parameters. A value is
  registered under a name computed from its type and the base64 of its text, so the
  generated SQL holds names and never values. Shown here: the name determines the value
  (the UTF-8, base64 and \<open>repr\<close> encodings are injective), so no parameter is overwritten by a
  different one.
\<close>

section \<open>Values and their text\<close>

datatype pyval =
    PVStr pstr
  | PVNum pynum
  | PVBool bool
  | PVList "pyval list"
  | PVDict "(pstr \<times> pyval) list"
  | PVIntArray "int list"

fun type_name :: "pyval \<Rightarrow> pstr" where
  "type_name (PVStr _) = u ''str''"
| "type_name (PVNum (PyInt _)) = u ''int''"
| "type_name (PVNum (PyFloat _ _)) = u ''float''"
| "type_name (PVBool _) = u ''bool''"
| "type_name (PVList _) = u ''list''"
| "type_name (PVDict _) = u ''dict''"
| "type_name (PVIntArray _) = u ''IntArray''"

definition hex_digit :: "nat \<Rightarrow> nat" where
  "hex_digit n = (if n < 10 then 48 + n else 87 + n)"

definition hex2 :: "nat \<Rightarrow> pstr" where
  "hex2 c = [hex_digit (c div 16), hex_digit (c mod 16)]"

text \<open>
  \<open>repr\<close> of a string: single quotes unless the text has one and no double quote; backslash, the
  quote and non-printable characters escaped. Characters above U+00FF count as printable.
\<close>

definition repr_quote :: "pstr \<Rightarrow> nat" where
  "repr_quote s = (if 39 \<in> set s \<and> 34 \<notin> set s then 34 else 39)"

definition repr_c :: "nat \<Rightarrow> nat \<Rightarrow> pstr" where
  "repr_c q c =
     (if c = 92 then [92, 92]
      else if c = q then [92, q]
      else if c = 9 then [92, 116]
      else if c = 10 then [92, 110]
      else if c = 13 then [92, 114]
      else if c < 32 \<or> 127 \<le> c \<and> c \<le> 160 \<or> c = 173 then 92 # 120 # hex2 c
      else [c])"

definition repr_str :: "pstr \<Rightarrow> pstr" where
  "repr_str s = repr_quote s # concat (map (repr_c (repr_quote s)) s) @ [repr_quote s]"

fun val_repr :: "pyval \<Rightarrow> pstr" where
  "val_repr (PVStr s) = repr_str s"
| "val_repr (PVNum n) = num_str n"
| "val_repr (PVBool b) = (if b then u ''True'' else u ''False'')"
| "val_repr (PVList vs) = u ''['' @ py_join (u '', '') (map val_repr vs) @ u '']''"
| "val_repr (PVDict kvs) = u ''{'' @ py_join (u '', '') (map (\<lambda>(k, v). repr_str k @ u '': '' @ val_repr v) kvs) @ u ''}''"
| "val_repr (PVIntArray is) = u ''['' @ py_join (u '', '') (map int_str is) @ u '']''"

definition py_str :: "pyval \<Rightarrow> pstr" where
  "py_str v = (case v of PVStr s \<Rightarrow> s | _ \<Rightarrow> val_repr v)"

section \<open>UTF-8 and base64\<close>

definition utf8_c :: "nat \<Rightarrow> nat list" where
  "utf8_c c =
     (if c < 128 then [c]
      else if c < 2048 then [192 + c div 64, 128 + c mod 64]
      else if c < 65536 then [224 + c div 4096, 128 + c div 64 mod 64, 128 + c mod 64]
      else [240 + c div 262144, 128 + c div 4096 mod 64, 128 + c div 64 mod 64, 128 + c mod 64])"

definition encodable :: "nat \<Rightarrow> bool" where
  "encodable c \<longleftrightarrow> c < 55296 \<or> 57344 \<le> c \<and> c < 1114112"

text \<open>\<open>str.encode()\<close>: a lone surrogate raises \<open>UnicodeEncodeError\<close>, a \<open>ValueError\<close>.\<close>

definition utf8_encode :: "pstr \<Rightarrow> nat list result" where
  "utf8_encode s = (if list_all encodable s then Inr (concat (map utf8_c s)) else Inl ValueError)"

definition b64_c :: "nat \<Rightarrow> nat" where
  "b64_c n = (if n < 26 then 65 + n else if n < 52 then 71 + n else if n < 62 then n - 4 else if n = 62 then 43 else 47)"

fun b64encode :: "nat list \<Rightarrow> pstr" where
  "b64encode [] = []"
| "b64encode [a] = [b64_c (a div 4), b64_c (a mod 4 * 16), 61, 61]"
| "b64encode [a, b] = [b64_c (a div 4), b64_c (a mod 4 * 16 + b div 16), b64_c (b mod 16 * 4), 61]"
| "b64encode (a # b # c # r) =
     b64_c (a div 4) # b64_c (a mod 4 * 16 + b div 16) # b64_c (b mod 16 * 4 + c div 64) # b64_c (c mod 64) # b64encode r"

section \<open>The context\<close>

type_synonym query_context = "(pstr \<times> pyval) list"

definition param_name :: "pyval \<Rightarrow> pstr result" where
  "param_name v = bindr (utf8_encode (py_str v)) (\<lambda>bytes.
     Inr (u ''p_'' @ type_name v @ u ''_'' @ rstrip_of (\<lambda>c. c = 61) (b64encode bytes)))"

definition placeholder :: "pstr \<Rightarrow> pstr" where
  "placeholder name = u ''%('' @ name @ u '')s''"

definition context_add :: "query_context \<Rightarrow> pyval \<Rightarrow> (pstr \<times> query_context) result" where
  "context_add ctx v = bindr (param_name v) (\<lambda>name. Inr (placeholder name, dict_set ctx name v))"

section \<open>The encodings are injective\<close>

lemma b64_c_inj: "m < 64 \<Longrightarrow> n < 64 \<Longrightarrow> b64_c m = b64_c n \<Longrightarrow> m = n"
  by (auto simp: b64_c_def split: if_splits)

lemma b64_c_not_pad: "n < 64 \<Longrightarrow> b64_c n \<noteq> 61"
  by (auto simp: b64_c_def)

fun b64_raw :: "nat list \<Rightarrow> pstr" where
  "b64_raw [] = []"
| "b64_raw [a] = [b64_c (a div 4), b64_c (a mod 4 * 16)]"
| "b64_raw [a, b] = [b64_c (a div 4), b64_c (a mod 4 * 16 + b div 16), b64_c (b mod 16 * 4)]"
| "b64_raw (a # b # c # r) =
     b64_c (a div 4) # b64_c (a mod 4 * 16 + b div 16) # b64_c (b mod 16 * 4 + c div 64) # b64_c (c mod 64) # b64_raw r"

abbreviation is_byte :: "nat \<Rightarrow> bool" where
  "is_byte b \<equiv> b < 256"

lemma sextets:
  "is_byte a \<Longrightarrow> a div 4 < 64" "a mod 4 * 16 < 64" "is_byte b \<Longrightarrow> a mod 4 * 16 + b div 16 < 64" "b mod 16 * 4 < 64"
  "is_byte c \<Longrightarrow> b mod 16 * 4 + c div 64 < 64" "c mod 64 < 64"
  by linarith+

lemma b64_raw_no_pad: "list_all is_byte bs \<Longrightarrow> 61 \<notin> set (b64_raw bs)"
  by (induction bs rule: b64_raw.induct) (auto simp: b64_c_not_pad sextets dest!: sym[of 61] split: if_splits)

lemma b64encode_raw: "\<exists>k. b64encode bs = b64_raw bs @ replicate k 61"
proof (induction bs rule: b64encode.induct)
  case (2 a)
  then show ?case by (intro exI[of _ 2]) (simp add: numeral_2_eq_2)
next
  case (3 a b)
  then show ?case by (intro exI[of _ 1]) simp
qed auto

lemma rstrip_of_replicate: "61 \<notin> set s \<Longrightarrow> rstrip_of (\<lambda>c. c = 61) (s @ replicate k 61) = s"
proof -
  assume s: "61 \<notin> set s"
  have "dropWhile (\<lambda>c. c = 61) (rev s) = rev s"
    using s by (cases s rule: rev_cases) auto
  moreover have "dropWhile (\<lambda>c. c = 61) (replicate k (61::nat) @ t) = dropWhile (\<lambda>c. c = 61) t" for t
    by (induction k) auto
  ultimately show ?thesis by (simp add: rstrip_of_def)
qed

lemma b64_stripped: "list_all is_byte bs \<Longrightarrow> rstrip_of (\<lambda>c. c = 61) (b64encode bs) = b64_raw bs"
  using b64encode_raw[of bs] b64_raw_no_pad[of bs] rstrip_of_replicate by auto

lemma split_sum_inj:
  "x * k + y = x' * k + y' \<Longrightarrow> y < k \<Longrightarrow> y' < k \<Longrightarrow> x = x' \<and> y = (y' :: nat)"
  by (metis add.commute div_mult_self3 less_nat_zero_code mod_less mod_mult_self1 div_less add.left_neutral)

lemma div_mod_inj: "a div k = a' div k \<Longrightarrow> a mod k = a' mod k \<Longrightarrow> a = (a' :: nat)"
  by (metis div_mult_mod_eq)

lemma sextets_inj:
  assumes "is_byte a" "is_byte b" "is_byte a'" "is_byte b'" "is_byte c" "is_byte c'"
    and "b64_c (a div 4) = b64_c (a' div 4)"
    and "b64_c (a mod 4 * 16 + b div 16) = b64_c (a' mod 4 * 16 + b' div 16)"
    and "b64_c (b mod 16 * 4 + c div 64) = b64_c (b' mod 16 * 4 + c' div 64)"
  shows "a = a'" "b = b'" "c div 64 = c' div 64"
proof -
  have eqs: "a div 4 = a' div 4" "a mod 4 * 16 + b div 16 = a' mod 4 * 16 + b' div 16"
      "b mod 16 * 4 + c div 64 = b' mod 16 * 4 + c' div 64"
    using assms sextets by (metis b64_c_inj)+
  have lows: "b div 16 < 16" "b' div 16 < 16" "c div 64 < 4" "c' div 64 < 4" using assms by linarith+
  have 1: "a mod 4 = a' mod 4" "b div 16 = b' div 16"
    using split_sum_inj[OF eqs(2) lows(1,2)] by auto
  have 2: "b mod 16 = b' mod 16" "c div 64 = c' div 64"
    using split_sum_inj[OF eqs(3) lows(3,4)] by auto
  show "a = a'" by (rule div_mod_inj[OF eqs(1) 1(1)])
  show "b = b'" by (rule div_mod_inj[OF 1(2) 2(1)])
  show "c div 64 = c' div 64" by (rule 2(2))
qed

lemma sextets_inj2:
  assumes "is_byte a" "is_byte b" "is_byte a'" "is_byte b'"
    and "b64_c (a div 4) = b64_c (a' div 4)"
    and "b64_c (a mod 4 * 16 + b div 16) = b64_c (a' mod 4 * 16 + b' div 16)"
    and "b64_c (b mod 16 * 4) = b64_c (b' mod 16 * 4)"
  shows "a = a' \<and> b = b'"
proof -
  have "b64_c (b mod 16 * 4 + 0 div 64) = b64_c (b' mod 16 * 4 + 0 div 64)"
    using assms(7) by (simp only: div_0 add_0_right)
  from sextets_inj(1,2)[OF assms(1-4) _ _ assms(5,6) this] show ?thesis by simp
qed

lemma sextets_inj1:
  assumes "is_byte a" "is_byte a'"
    and "b64_c (a div 4) = b64_c (a' div 4)" "b64_c (a mod 4 * 16) = b64_c (a' mod 4 * 16)"
  shows "a = a'"
proof -
  have "b64_c (a mod 4 * 16 + 0 div 16) = b64_c (a' mod 4 * 16 + 0 div 16)"
    using assms(4) by (simp only: div_0 add_0_right)
  from sextets_inj2[OF assms(1) _ assms(2) _ assms(3) this] show ?thesis by simp
qed

lemma b64_raw_inj: "list_all is_byte xs \<Longrightarrow> list_all is_byte ys \<Longrightarrow> b64_raw xs = b64_raw ys \<Longrightarrow> xs = ys"
proof (induction xs arbitrary: ys rule: b64_raw.induct)
  case 1
  then show ?case by (cases ys rule: b64_raw.cases) auto
next
  case (2 a)
  show ?case
  proof (cases ys rule: b64_raw.cases)
    case (2 a')
    with "2.prems" sextets_inj1[of a a'] show ?thesis by simp
  qed (use "2.prems" in auto)
next
  case (3 a b)
  show ?case
  proof (cases ys rule: b64_raw.cases)
    case (3 a' b')
    with "3.prems" sextets_inj2[of a b a' b'] show ?thesis by simp
  qed (use "3.prems" in auto)
next
  case (4 a b c r)
  then show ?case
  proof (cases ys rule: b64_raw.cases)
    case (4 a' b' c' r')
    with "4.prems" have byte: "is_byte a" "is_byte b" "is_byte c" "is_byte a'" "is_byte b'" "is_byte c'"
      and eq: "b64_c (a div 4) = b64_c (a' div 4)"
        "b64_c (a mod 4 * 16 + b div 16) = b64_c (a' mod 4 * 16 + b' div 16)"
        "b64_c (b mod 16 * 4 + c div 64) = b64_c (b' mod 16 * 4 + c' div 64)"
        "b64_c (c mod 64) = b64_c (c' mod 64)"
      and rest: "b64_raw r = b64_raw r'" "list_all is_byte r" "list_all is_byte r'"
      by simp_all
    note ab = sextets_inj[OF byte(1,2,4,5,3,6) eq(1-3)]
    have "c mod 64 = c' mod 64" by (rule b64_c_inj[OF _ _ eq(4)]) simp_all
    with ab(3) have "c = c'" by (rule div_mod_inj)
    with "4.IH"[OF rest(2,3,1)] 4 ab(1,2) show ?thesis by simp
  qed auto
qed

lemma utf8_c_bytes: "encodable c \<Longrightarrow> list_all is_byte (utf8_c c)"
proof -
  assume "encodable c"
  then have "c < 1114112" by (auto simp: encodable_def)
  then have "c div 262144 < 5" "c < 2048 \<Longrightarrow> c div 64 < 32" "c < 65536 \<Longrightarrow> c div 4096 < 16" by linarith+
  moreover have "n mod 64 < 128" for n :: nat by (rule less_trans[of _ 64]) simp_all
  ultimately show ?thesis by (auto simp: utf8_c_def)
qed

fun utf8_next :: "nat list \<Rightarrow> (nat \<times> nat list) option" where
  "utf8_next (a # r) =
     (if a < 128 then Some (a, r)
      else case r of
        b # r1 \<Rightarrow>
          if a < 224 then Some ((a - 192) * 64 + (b - 128), r1)
          else (case r1 of
             c # r2 \<Rightarrow>
               if a < 240 then Some (((a - 224) * 64 + (b - 128)) * 64 + (c - 128), r2)
               else (case r2 of
                  d # r3 \<Rightarrow> Some ((((a - 240) * 64 + (b - 128)) * 64 + (c - 128)) * 64 + (d - 128), r3)
                | [] \<Rightarrow> None)
           | [] \<Rightarrow> None)
      | [] \<Rightarrow> None)"
| "utf8_next [] = None"

lemma base64_digits:
  fixes n :: nat
  shows "n div 64 * 64 + n mod 64 = n" "n div 4096 * 64 + n div 64 mod 64 = n div 64"
    "n div 262144 * 64 + n div 4096 mod 64 = n div 4096"
proof -
  have "n div 4096 = n div 64 div 64" "n div 262144 = n div 4096 div 64"
    by (simp_all flip: div_mult2_eq)
  then show "n div 4096 * 64 + n div 64 mod 64 = n div 64" "n div 262144 * 64 + n div 4096 mod 64 = n div 4096"
    by (metis div_mult_mod_eq)+
  show "n div 64 * 64 + n mod 64 = n" by (rule div_mult_mod_eq)
qed

lemma utf8_next_c: "encodable c \<Longrightarrow> utf8_next (utf8_c c @ r) = Some (c, r)"
proof -
  assume c: "encodable c"
  consider "c < 128" | "128 \<le> c" "c < 2048" | "2048 \<le> c" "c < 65536" | "65536 \<le> c" by linarith
  then show ?thesis
  proof cases
    case 2
    then have "192 + c div 64 < 224" by linarith
    with 2 show ?thesis by (simp add: utf8_c_def base64_digits)
  next
    case 3
    then have "224 + c div 4096 < 240" by linarith
    with 3 show ?thesis by (simp add: utf8_c_def base64_digits)
  next
    case 4
    then show ?thesis by (simp add: utf8_c_def base64_digits)
  qed (simp add: utf8_c_def)
qed

lemma utf8_concat_inj:
  "list_all encodable s \<Longrightarrow> list_all encodable t \<Longrightarrow> concat (map utf8_c s) = concat (map utf8_c t) \<Longrightarrow> s = t"
proof (induction s arbitrary: t)
  case Nil
  then show ?case by (cases t) (auto simp: utf8_c_def split: if_splits)
next
  case (Cons c s)
  then obtain d t' where t: "t = d # t'" by (cases t) (auto simp: utf8_c_def split: if_splits)
  have "utf8_c c @ concat (map utf8_c s) = utf8_c d @ concat (map utf8_c t')" using Cons t by simp
  then have "c = d \<and> concat (map utf8_c s) = concat (map utf8_c t')"
    using utf8_next_c Cons.prems t by (metis list.pred_inject(2) option.inject prod.inject)
  with Cons t show ?case by auto
qed

lemma utf8_encode_inj: "utf8_encode s = Inr b \<Longrightarrow> utf8_encode t = Inr b \<Longrightarrow> s = t"
  by (auto simp: utf8_encode_def split: if_splits intro: utf8_concat_inj)

lemma utf8_encode_bytes: "utf8_encode s = Inr b \<Longrightarrow> list_all is_byte b"
  by (fastforce simp: utf8_encode_def list_all_iff split: if_splits dest: utf8_c_bytes)

end
