(* ===== verification/Param_Names.thy ===== *)
theory Param_Names
  imports Query_Context
begin

text \<open>
  The name of a bound parameter determines the value: the printed forms of values are
  self-delimiting, so \<open>repr\<close> is injective on the values the SQL generator registers, and with it
  \<open>param_name\<close>. The context invariant follows: every name of the context is the name of its value,
  and registering a value never changes what an earlier placeholder is bound to.
\<close>

section \<open>Printed values are self-delimiting\<close>

definition hex_val :: "nat \<Rightarrow> nat" where
  "hex_val h = (if h < 58 then h - 48 else h - 87)"

fun repr_next :: "pstr \<Rightarrow> (nat \<times> pstr) option" where
  "repr_next (c # r) =
     (if c = 92 then
        (case r of
           e # r1 \<Rightarrow>
             if e = 120 then (case r1 of h # l # r2 \<Rightarrow> Some (hex_val h * 16 + hex_val l, r2) | _ \<Rightarrow> None)
             else Some (if e = 116 then 9 else if e = 110 then 10 else if e = 114 then 13 else e, r1)
         | [] \<Rightarrow> None)
      else Some (c, r))"
| "repr_next [] = None"

lemma hex_val_digit: "n < 16 \<Longrightarrow> hex_val (hex_digit n) = n"
  by (simp add: hex_val_def hex_digit_def)

lemma repr_next_c:
  assumes "q = 39 \<or> q = 34"
  shows "repr_next (repr_c q c @ r) = Some (c, r)"
proof (cases "c < 32 \<or> 127 \<le> c \<and> c \<le> 160 \<or> c = 173")
  case True
  then have "c div 16 < 16" by linarith
  with True assms show ?thesis by (auto simp: repr_c_def hex2_def hex_val_digit)
next
  case False
  with assms show ?thesis by (auto simp: repr_c_def)
qed

lemma repr_c_prefix: "q = 39 \<or> q = 34 \<Longrightarrow> repr_c q c @ x = repr_c q d @ y \<Longrightarrow> c = d \<and> x = y"
  by (metis repr_next_c option.inject prod.inject)

lemma repr_c_hd: "q = 39 \<or> q = 34 \<Longrightarrow> \<exists>h t. repr_c q c = h # t \<and> h \<noteq> q"
  by (auto simp: repr_c_def)

lemma repr_body_prefix:
  assumes "q = 39 \<or> q = 34"
  shows "concat (map (repr_c q) s) @ q # x = concat (map (repr_c q) t) @ q # y \<Longrightarrow> s = t \<and> x = y"
proof (induction s arbitrary: t)
  case Nil
  then show ?case using repr_c_hd[OF assms] by (cases t) (auto, metis append_Cons list.inject)
next
  case (Cons c s)
  then obtain d t' where t: "t = d # t'"
    using repr_c_hd[OF assms] by (cases t) (auto, metis append_Cons list.inject)
  with Cons.prems have "repr_c q c @ concat (map (repr_c q) s) @ q # x = repr_c q d @ concat (map (repr_c q) t') @ q # y"
    by simp
  from repr_c_prefix[OF assms this] Cons.IH t show ?case by auto
qed

lemma repr_str_prefix: "repr_str s @ x = repr_str t @ y \<Longrightarrow> s = t \<and> x = y"
  using repr_body_prefix[of "repr_quote s" s x t y] by (auto simp: repr_str_def) (auto simp: repr_quote_def split: if_splits)

lemma nat_str_length: "n < 10 ^ k \<Longrightarrow> 1 \<le> k \<Longrightarrow> length (nat_str n) \<le> k"
proof (induction n arbitrary: k rule: nat_str.induct)
  case (1 n)
  show ?case
  proof (cases "n < 10")
    case False
    then obtain k' where k: "k = Suc (Suc k')"
      using 1(2,3) by (metis One_nat_def Suc_le_D less_irrefl not_less power_one_right Suc_le_mono le_zero_eq nat.exhaust)
    have "n div 10 < 10 ^ Suc k'" using 1(2) k by (simp add: less_mult_imp_div_less)
    with 1(1)[OF False] have "length (nat_str (n div 10)) \<le> Suc k'" by simp
    with False k show ?thesis by (simp add: nat_str.simps[of n])
  qed (use 1 in \<open>simp add: nat_str.simps[of n]\<close>)
qed

definition num_c :: "nat \<Rightarrow> bool" where
  "num_c c \<longleftrightarrow> is_digit_c c \<or> c = 45 \<or> c = 46"

definition frac_text :: "nat \<Rightarrow> nat \<Rightarrow> pstr" where
  "frac_text m k = (if k = 0 then u ''0'' else replicate (k - length (nat_str (m mod 10 ^ k))) 48 @ nat_str (m mod 10 ^ k))"

lemma num_str_float: "num_str (PyFloat m k) = nat_str (m div 10 ^ k) @ 46 # frac_text m k"
  by (simp add: frac_text_def Let_def)

lemma digits_val_zeros: "digits_val (replicate n 48 @ s) = digits_val s"
proof (induction s rule: rev_induct)
  case Nil
  then show ?case
  proof (induction n)
    case (Suc n)
    have "replicate (Suc n) (48::nat) = replicate n 48 @ [48]" by (simp add: replicate_append_same)
    with Suc show ?case by (metis append_Nil2 digits_val_Nil digits_val_snoc diff_self_eq_0 mult_0_right add_0)
  qed simp
next
  case (snoc c s)
  then show ?case by (simp flip: append_assoc)
qed

lemma frac_text_props:
  assumes "k \<noteq> 0"
  shows "length (frac_text m k) = k" "digits_val (frac_text m k) = m mod 10 ^ k"
proof -
  have "length (nat_str (m mod 10 ^ k)) \<le> k" using assms by (intro nat_str_length) auto
  then show "length (frac_text m k) = k" using assms by (simp add: frac_text_def)
  show "digits_val (frac_text m k) = m mod 10 ^ k" using assms by (simp add: frac_text_def digits_val_zeros)
qed

lemma frac_text_inj:
  assumes "num_ok (PyFloat m k)" "num_ok (PyFloat m' k')" "frac_text m k = frac_text m' k'"
  shows "k = k'" "m mod 10 ^ k = m' mod 10 ^ k'"
proof -
  have one: "k = 1 \<Longrightarrow> frac_text m k \<noteq> [48]" if "m mod 10 \<noteq> 0" for m k :: nat
    using frac_text_props(2)[of k m] that by (auto simp: digits_val_def)
  have zero: "frac_text m 0 = [48]" for m :: nat by (simp add: frac_text_def)
  have len: "k \<noteq> 0 \<Longrightarrow> length (frac_text m k) = k" for m k by (rule frac_text_props(1))
  show "k = k'"
  proof (rule ccontr)
    assume "k \<noteq> k'"
    then have "k = 0 \<and> k' = 1 \<or> k' = 0 \<and> k = 1"
      using arg_cong[OF assms(3), of length] len[of k m] len[of k' m'] zero[of m] zero[of m']
      by (cases "k = 0"; cases "k' = 0") auto
    then show False using assms one zero by (metis num_ok.simps(2) zero_neq_one)
  qed
  then show "m mod 10 ^ k = m' mod 10 ^ k'"
    using assms(3) frac_text_props(2)[of k m] frac_text_props(2)[of k' m'] by (cases "k = 0") auto
qed

lemma digit_not_dot: "is_digit_c c \<Longrightarrow> c \<noteq> 46 \<and> c \<noteq> 45"
  by (auto simp: is_digit_c_def)

lemma split_at_unique: "a @ c # x = b @ c # y \<Longrightarrow> c \<notin> set a \<Longrightarrow> c \<notin> set b \<Longrightarrow> a = b \<and> x = y"
proof (induction a arbitrary: b)
  case Nil
  then show ?case by (cases b) auto
next
  case (Cons d a)
  then show ?case by (cases b) auto
qed

lemma dot_notin_nat_str: "46 \<notin> set (nat_str n)" "45 \<notin> set (nat_str n)"
  using nat_str_digits digit_not_dot by blast+

lemma num_str_inj:
  assumes "num_ok a" "num_ok b" "num_str a = num_str b"
  shows "a = b"
proof -
  have dot: "46 \<notin> set (int_str i)" for i
    using dot_notin_nat_str by (auto simp: int_str_def)
  show ?thesis
  proof (cases a)
    case a: (PyInt i)
    show ?thesis
    proof (cases b)
      case (PyInt j)
      with a assms int_str_inj show ?thesis by simp
    next
      case (PyFloat m k)
      with a assms(3) dot[of i] have False by (auto simp only: num_str_float num_str.simps(1) set_append list.set)
      then show ?thesis by simp
    qed
  next
    case a: (PyFloat m k)
    show ?thesis
    proof (cases b)
      case (PyInt j)
      with a assms(3) dot[of j] have False by (metis num_str_float num_str.simps(1) in_set_conv_decomp)
      then show ?thesis by simp
    next
      case b: (PyFloat m' k')
      have "nat_str (m div 10 ^ k) @ 46 # frac_text m k = nat_str (m' div 10 ^ k') @ 46 # frac_text m' k'"
        using assms(3) a b by (simp only: num_str_float)
      note split = split_at_unique[OF this dot_notin_nat_str(1) dot_notin_nat_str(1)]
      have eq: "nat_str (m div 10 ^ k) = nat_str (m' div 10 ^ k')" "frac_text m k = frac_text m' k'"
        using split by (rule conjunct1, rule conjunct2)
      have k: "k = k'" and m: "m mod 10 ^ k = m' mod 10 ^ k'"
        using frac_text_inj[OF assms(1)[unfolded a] assms(2)[unfolded b] eq(2)] by simp_all
      have "m div 10 ^ k = m' div 10 ^ k'" by (rule nat_str_inj[OF eq(1)])
      with k m have "m = m'" by (intro div_mod_inj[of m "10 ^ k" m']) simp_all
      with a b k show ?thesis by simp
    qed
  qed
qed

lemma num_str_chars: "c \<in> set (num_str n) \<Longrightarrow> num_c c"
proof (cases n)
  case (PyInt i)
  then show "c \<in> set (num_str n) \<Longrightarrow> num_c c"
    using nat_str_digits by (auto simp: num_c_def int_str_def split: if_splits)
next
  case (PyFloat m k)
  assume c: "c \<in> set (num_str n)"
  have "set (frac_text m k) \<subseteq> {c. is_digit_c c}"
    using nat_str_digits by (auto simp: frac_text_def is_digit_c_def split: if_splits)
  with c PyFloat nat_str_digits show ?thesis by (auto simp only: num_c_def num_str_float set_append list.set)
qed

lemma num_str_nonempty: "num_str n \<noteq> []"
  by (cases n) (simp_all only: num_str_float num_str.simps(1), simp_all add: int_str_def)

text \<open>What may follow a printed value: nothing, a comma or a closing bracket.\<close>

definition delim :: "pstr \<Rightarrow> bool" where
  "delim x \<longleftrightarrow> x = [] \<or> hd x = 44 \<or> hd x = 93 \<or> hd x = 125"

lemma num_str_prefix:
  assumes "num_ok a" "num_ok b" "delim x" "delim y" "num_str a @ x = num_str b @ y"
  shows "a = b \<and> x = y"
proof -
  have tw: "takeWhile num_c (num_str n @ z) = num_str n" if "delim z" for n z
    using that num_str_chars by (cases z) (auto simp: takeWhile_append2 delim_def num_c_def is_digit_c_def)
  have "num_str a = num_str b" using tw[OF assms(3), of a] tw[OF assms(4), of b] assms(5) by simp
  with num_str_inj[OF assms(1,2)] assms(5) show ?thesis by simp
qed

section \<open>Injectivity of \<open>repr\<close>\<close>

text \<open>The values inside a list or dictionary: strings, numbers, booleans and lists and dictionaries of them.\<close>

fun val_ok_in :: "pyval \<Rightarrow> bool" where
  "val_ok_in (PVNum n) = num_ok n"
| "val_ok_in (PVList vs) \<longleftrightarrow> (\<forall>v \<in> set vs. val_ok_in v)"
| "val_ok_in (PVDict kvs) \<longleftrightarrow> (\<forall>kv \<in> set kvs. val_ok_in (snd kv))"
| "val_ok_in (PVIntArray _) = False"
| "val_ok_in _ = True"

definition pval_ok :: "pyval \<Rightarrow> bool" where
  "pval_ok v \<longleftrightarrow> (case v of PVIntArray _ \<Rightarrow> True | _ \<Rightarrow> val_ok_in v)"

lemma join_prefix:
  assumes elem: "\<And>v w x y. v \<in> set vs \<Longrightarrow> w \<in> set ws \<Longrightarrow> delim x \<Longrightarrow> delim y \<Longrightarrow> f v @ x = f w @ y \<Longrightarrow> v = w \<and> x = y"
    and first: "\<And>v. \<exists>h t. f v = h # t \<and> h \<noteq> e" and e: "e = 93 \<or> e = 125"
    and eq: "py_join (u '', '') (map f vs) @ e # x = py_join (u '', '') (map f ws) @ e # y"
  shows "vs = ws \<and> x = y"
  using elem eq
proof (induction vs arbitrary: ws)
  case Nil
  have "py_join (u '', '') (map f ws) @ e # y \<noteq> e # x" if "ws = w # ws'" for w ws'
    using first[of w] that by (cases ws') auto
  with Nil show ?case by (cases ws) auto
next
  case (Cons v vs)
  show ?case
  proof (cases ws)
    case Nil
    with Cons.prems(2) first[of v] show ?thesis by (cases vs) auto
  next
    case ws: (Cons w ws')
    define rest where "rest zs z = (if zs = [] then e # z else u '', '' @ py_join (u '', '') (map f zs) @ e # z)" for zs z
    have split: "py_join (u '', '') (map f (z # zs)) @ e # r = f z @ rest zs r" for z zs r
      by (cases zs) (simp_all add: rest_def)
    have d: "delim (rest zs z)" for zs z using e by (auto simp: rest_def delim_def)
    have "f v @ rest vs x = f w @ rest ws' y" using Cons.prems(2) ws by (simp only: split)
    then have vw: "v = w" "rest vs x = rest ws' y" using Cons.prems(1)[of v w] d ws by auto
    show ?thesis
    proof (cases "vs = [] \<or> ws' = []")
      case True
      with vw e show ?thesis using ws by (auto simp: rest_def split: if_splits)
    next
      case False
      with vw(2) have "py_join (u '', '') (map f vs) @ e # x = py_join (u '', '') (map f ws') @ e # y"
        by (simp add: rest_def)
      then show ?thesis using Cons.IH[of ws'] Cons.prems(1) ws vw(1) by auto
    qed
  qed
qed

lemma repr_str_hd: "\<exists>h t. repr_str s = h # t \<and> (h = 39 \<or> h = 34)"
  by (auto simp: repr_str_def repr_quote_def)

lemma num_str_hd: "\<exists>h t. num_str n = h # t \<and> num_c h"
  using num_str_nonempty[of n] num_str_chars[of _ n] by (cases "num_str n") auto

lemma val_repr_hd: "\<exists>h t. val_repr v = h # t \<and> h \<noteq> 93 \<and> h \<noteq> 125"
proof (cases v)
  case (PVStr s)
  then show ?thesis using repr_str_hd[of s] by auto
next
  case (PVNum n)
  then show ?thesis using num_str_hd[of n] by (auto simp: num_c_def is_digit_c_def)
qed auto

text \<open>The first character of a printed value tells its type.\<close>

fun kind_of :: "pyval \<Rightarrow> nat" where
  "kind_of (PVStr _) = 0" | "kind_of (PVNum _) = 1" | "kind_of (PVBool b) = 2"
| "kind_of (PVList _) = 3" | "kind_of (PVDict _) = 4" | "kind_of (PVIntArray _) = 3"

definition kind_c :: "nat \<Rightarrow> nat" where
  "kind_c h = (if h = 39 \<or> h = 34 then 0 else if num_c h then 1 else if h = 91 then 3 else if h = 123 then 4 else 2)"

lemma kind_of_hd: "kind_c (hd (val_repr v @ x)) = kind_of v"
proof (cases v)
  case (PVStr s)
  then show ?thesis using repr_str_hd[of s] by (auto simp: kind_c_def)
next
  case (PVNum n)
  then show ?thesis using num_str_hd[of n] by (auto simp: kind_c_def num_c_def is_digit_c_def)
qed (auto simp: kind_c_def num_c_def is_digit_c_def)

lemma val_repr_prefix:
  "val_ok_in v \<Longrightarrow> val_ok_in w \<Longrightarrow> delim x \<Longrightarrow> delim y \<Longrightarrow> val_repr v @ x = val_repr w @ y \<Longrightarrow> v = w \<and> x = y"
proof (induction v arbitrary: w x y)
  case (PVStr s)
  then obtain t where "w = PVStr t" using kind_of_hd[of w y] kind_of_hd[of "PVStr s" x] by (cases w) auto
  with PVStr repr_str_prefix[of s x t y] show ?case by simp
next
  case (PVNum n)
  then obtain m where "w = PVNum m" using kind_of_hd[of w y] kind_of_hd[of "PVNum n" x] by (cases w) auto
  with PVNum num_str_prefix[of n m x y] show ?case by simp
next
  case (PVBool b)
  then obtain c where "w = PVBool c" using kind_of_hd[of w y] kind_of_hd[of "PVBool b" x] by (cases w) auto
  with PVBool show ?case by (auto split: if_splits)
next
  case (PVList vs)
  then obtain ws where w: "w = PVList ws" using kind_of_hd[of w y] kind_of_hd[of "PVList vs" x] by (cases w) auto
  have "vs = ws \<and> x = y"
  proof (rule join_prefix[where f = val_repr and e = 93])
    fix v' w' x y
    assume "v' \<in> set vs" "w' \<in> set ws" "delim x" "delim y" "val_repr v' @ x = val_repr w' @ y"
    then show "v' = w' \<and> x = y" using PVList.IH[of v' w' x y] PVList.prems(1,2) w by simp
  next
    show "\<exists>h t. val_repr v = h # t \<and> h \<noteq> 93" for v using val_repr_hd[of v] by blast
  qed (use PVList.prems w in simp_all)
  with w show ?case by simp
next
  case (PVDict kvs)
  then obtain ws where w: "w = PVDict ws" using kind_of_hd[of w y] kind_of_hd[of "PVDict kvs" x] by (cases w) auto
  have "kvs = ws \<and> x = y"
  proof (rule join_prefix[where f = "\<lambda>(k, v). repr_str k @ u '': '' @ val_repr v" and e = 125])
    fix kv kw x y
    assume *: "kv \<in> set kvs" "kw \<in> set ws" "delim x" "delim y"
      "(case kv of (k, v) \<Rightarrow> repr_str k @ u '': '' @ val_repr v) @ x = (case kw of (k, v) \<Rightarrow> repr_str k @ u '': '' @ val_repr v) @ y"
    obtain k v k' v' where kv: "kv = (k, v)" "kw = (k', v')" by (cases kv, cases kw) auto
    have "repr_str k @ u '': '' @ val_repr v @ x = repr_str k' @ u '': '' @ val_repr v' @ y" using * kv by simp
    from repr_str_prefix[OF this] have "k = k'" "val_repr v @ x = val_repr v' @ y" by auto
    moreover have "val_ok_in v" "val_ok_in v'" using * kv PVDict.prems(1,2) w by auto
    ultimately show "kv = kw \<and> x = y" using PVDict.IH[of kv v v' x y] * kv by auto
  next
    show "\<exists>h t. (case kv of (k, v) \<Rightarrow> repr_str k @ u '': '' @ val_repr v) = h # t \<and> h \<noteq> 125" for kv
      using repr_str_hd[of "fst kv"] by (cases kv) auto
  qed (use PVDict.prems w in simp_all)
  with w show ?case by simp
qed simp

section \<open>Names and the context invariant\<close>

lemma py_join_map_eq: "val_repr (PVIntArray is) = val_repr (PVList (map (\<lambda>i. PVNum (PyInt i)) is))"
  by (simp add: comp_def)

lemma val_repr_inj: "val_ok_in v \<Longrightarrow> val_ok_in w \<Longrightarrow> val_repr v = val_repr w \<Longrightarrow> v = w"
  using val_repr_prefix[of v w "[]" "[]"] by (simp add: delim_def)

lemma int_array_inj: "val_repr (PVIntArray is) = val_repr (PVIntArray js) \<Longrightarrow> is = js"
proof -
  assume "val_repr (PVIntArray is) = val_repr (PVIntArray js)"
  then have "PVList (map (\<lambda>i. PVNum (PyInt i)) is) = PVList (map (\<lambda>i. PVNum (PyInt i)) js)"
    by (intro val_repr_inj) (simp_all only: py_join_map_eq, auto)
  then show ?thesis by (simp add: inj_map_eq_map inj_def)
qed

lemma py_str_inj:
  assumes "pval_ok v" "pval_ok w" "type_name v = type_name w" "py_str v = py_str w"
  shows "v = w"
proof (cases v)
  case (PVStr s)
  with assms show ?thesis by (cases w rule: type_name.cases) (auto simp: py_str_def)
next
  case (PVIntArray xs)
  with assms(3) obtain js where "w = PVIntArray js" by (cases w rule: type_name.cases) auto
  with PVIntArray assms(4) int_array_inj show ?thesis by (simp add: py_str_def del: val_repr.simps)
next
  case (PVNum n)
  with assms(3) obtain m where "w = PVNum m" by (cases n; cases w rule: type_name.cases) auto
  with PVNum assms num_str_inj[of n m] show ?thesis by (simp add: py_str_def pval_ok_def)
next
  case (PVBool b)
  with assms show ?thesis
    by (cases w rule: type_name.cases) (auto simp: py_str_def pval_ok_def split: if_splits)
next
  case (PVList vs)
  with assms(3) obtain ws where "w = PVList ws" by (cases w rule: type_name.cases) auto
  with PVList assms val_repr_inj[of v w] show ?thesis by (simp add: py_str_def pval_ok_def)
next
  case (PVDict kvs)
  with assms(3) obtain ws where "w = PVDict ws" by (cases w rule: type_name.cases) auto
  with PVDict assms val_repr_inj[of v w] show ?thesis by (simp add: py_str_def pval_ok_def)
qed

lemma type_name_plain: "95 \<notin> set (type_name v)"
  by (cases v rule: type_name.cases) auto

lemma param_name_inj:
  assumes "pval_ok v" "pval_ok w" "param_name v = Inr n" "param_name w = Inr n"
  shows "v = w"
proof -
  obtain b c where b: "utf8_encode (py_str v) = Inr b" "utf8_encode (py_str w) = Inr c"
    and n: "type_name v @ 95 # rstrip_of (\<lambda>c. c = 61) (b64encode b) = type_name w @ 95 # rstrip_of (\<lambda>c. c = 61) (b64encode c)"
    using assms(3,4) by (auto simp: param_name_def bindr_Inr_iff)
  from split_at_unique[OF n type_name_plain type_name_plain]
  have t: "type_name v = type_name w" and "b64_raw b = b64_raw c"
    using utf8_encode_bytes[OF b(1)] utf8_encode_bytes[OF b(2)] b64_stripped by auto
  then have "b = c" using b64_raw_inj utf8_encode_bytes b by blast
  then have "py_str v = py_str w" using utf8_encode_inj b by blast
  with py_str_inj[OF assms(1,2) t] show ?thesis by simp
qed

definition ctx_ok :: "query_context \<Rightarrow> bool" where
  "ctx_ok ctx \<longleftrightarrow> (\<forall>(n, v) \<in> set ctx. pval_ok v \<and> param_name v = Inr n)"

lemma set_dict_set: "set (dict_set d k v) \<subseteq> insert (k, v) (set d)"
  by (induction d k v rule: dict_set.induct) auto

lemma context_add_ok:
  assumes "ctx_ok ctx" "pval_ok v" "context_add ctx v = Inr (ph, ctx')"
  shows "ctx_ok ctx' \<and> map_of ctx \<subseteq>\<^sub>m map_of ctx' \<and> (\<exists>n. ph = placeholder n \<and> param_name v = Inr n \<and> map_of ctx' n = Some v)"
proof -
  obtain n where n: "param_name v = Inr n" "ph = placeholder n" "ctx' = dict_set ctx n v"
    using assms(3) by (auto simp: context_add_def bindr_Inr_iff)
  have "w = v" if "map_of ctx n = Some w" for w
    using map_of_SomeD[OF that] assms(1,2) n(1) param_name_inj unfolding ctx_ok_def by fastforce
  then have "map_of ctx \<subseteq>\<^sub>m map_of ctx'" using n(3) by (auto simp: map_le_def)
  moreover have "ctx_ok ctx'" using assms(1,2) n set_dict_set[of ctx n v] unfolding ctx_ok_def by fastforce
  ultimately show ?thesis using n by simp
qed

section \<open>The parameters a statement names\<close>

text \<open>
  The placeholders of a statement in Python's \<open>pyformat\<close> style, in order; \<open>None\<close> when a percent
  sign does not open one.
\<close>

function (sequential) sql_names :: "pstr \<Rightarrow> pstr list option" where
  "sql_names [] = Some []"
| "sql_names (c # s) =
     (if c \<noteq> 37 then sql_names s
      else case s of
        d # r \<Rightarrow>
          (if d = 40 \<and> 41 \<in> set r then
             (case dropWhile (\<lambda>c. c \<noteq> 41) r of
                p # q # t \<Rightarrow> if q = 115 then map_option ((#) (takeWhile (\<lambda>c. c \<noteq> 41) r)) (sql_names t) else None
              | _ \<Rightarrow> None)
           else None)
      | [] \<Rightarrow> None)"
  by pat_completeness auto
termination
proof (relation "measure length", goal_cases)
  case (3 c s d r p x q t)
  have "length (dropWhile (\<lambda>c. c \<noteq> 41) r) \<le> length r" by (rule length_dropWhile_le)
  with 3 show ?case by simp
qed simp_all

lemma sql_names_append:
  "sql_names a = Some ns \<Longrightarrow> sql_names (a @ b) = map_option ((@) ns) (sql_names b)"
proof (induction a arbitrary: ns rule: sql_names.induct)
  case 1
  then show ?case by (simp add: option.map_ident)
next
  case (2 c s)
  show ?case
  proof (cases "c = 37")
    case False
    with 2 show ?thesis by simp
  next
    case True
    with "2.prems" obtain r p t ns' where s: "s = 40 # r" "41 \<in> set r" "dropWhile (\<lambda>c. c \<noteq> 41) r = p # 115 # t"
      and t: "sql_names t = Some ns'" and ns: "ns = takeWhile (\<lambda>c. c \<noteq> 41) r # ns'"
      by (auto split: list.splits if_splits)
    have "sql_names (t @ b) = map_option ((@) ns') (sql_names b)"
      using "2.IH"(2)[OF _ s(1) _ s(3)] s(2) t True by simp
    moreover have "dropWhile (\<lambda>c. c \<noteq> 41) (r @ b) = p # 115 # t @ b" "takeWhile (\<lambda>c. c \<noteq> 41) (r @ b) = takeWhile (\<lambda>c. c \<noteq> 41) r"
      using s(2,3) by auto
    ultimately show ?thesis using True s ns by (simp add: option.map_comp comp_def)
  qed
qed

lemma sql_names_plain: "37 \<notin> set s \<Longrightarrow> sql_names s = Some []"
  by (induction s) auto

lemma sql_names_placeholder: "41 \<notin> set n \<Longrightarrow> sql_names (placeholder n) = Some [n]"
proof -
  assume n: "41 \<notin> set n"
  then have "dropWhile (\<lambda>c. c \<noteq> 41) (n @ [41, 115]) = [41, 115]" "takeWhile (\<lambda>c. c \<noteq> 41) (n @ [41, 115]) = n"
    by (subst dropWhile_append2, auto) (subst takeWhile_append2, auto)
  then show ?thesis by (simp add: placeholder_def)
qed

end
