(* ===== verification/Card_Values.thy ===== *)
theory Card_Values
  imports Param_Names
begin

text \<open>
  The value conversions of \<open>src/api/parsing/card_query_nodes.py\<close> (lines 65 to 494): what a query's
  right-hand side becomes before it is bound as a parameter. Colours, frames, keywords, tags,
  legalities, mana costs, devotion, \<open>LIKE\<close> patterns and accent folding. A dictionary is an
  association list in insertion order.
\<close>

section \<open>Field types and rarities\<close>

definition get_field_type :: "pstr \<Rightarrow> field_type" where
  "get_field_type attr = (case map_of DB_NAME_TO_FIELD_TYPE attr of Some t \<Rightarrow> t | None \<Rightarrow> FT_TEXT)"

definition RARITY_TO_NUMBER :: "(pstr \<times> int) list" where
  "RARITY_TO_NUMBER =
    [(u ''common'', 0), (u ''c'', 0), (u ''uncommon'', 1), (u ''u'', 1), (u ''rare'', 2), (u ''r'', 2),
     (u ''mythic'', 3), (u ''m'', 3), (u ''special'', 4), (u ''s'', 4), (u ''bonus'', 5), (u ''b'', 5)]"

definition get_rarity_number :: "pstr \<Rightarrow> int result" where
  "get_rarity_number rarity =
     (case map_of RARITY_TO_NUMBER (py_strip (py_lower rarity)) of
        None \<Rightarrow> Inl ValueError
      | Some n \<Rightarrow> Inr n)"

section \<open>Colours\<close>

type_synonym pydict = "(pstr \<times> pyval) list"

definition COLOR_BITS :: "(pstr \<times> nat) list" where
  "COLOR_BITS = [(u ''W'', 16), (u ''U'', 8), (u ''B'', 4), (u ''R'', 2), (u ''G'', 1)]"

definition truthy :: "pyval option \<Rightarrow> bool" where
  "truthy v = (case v of
      None \<Rightarrow> False
    | Some (PVBool b) \<Rightarrow> b
    | Some (PVStr s) \<Rightarrow> s \<noteq> []
    | Some (PVNum (PyInt i)) \<Rightarrow> i \<noteq> 0
    | Some (PVNum (PyFloat m k)) \<Rightarrow> m \<noteq> 0
    | Some (PVList vs) \<Rightarrow> vs \<noteq> []
    | Some (PVDict kvs) \<Rightarrow> kvs \<noteq> []
    | Some (PVIntArray vs) \<Rightarrow> vs \<noteq> [])"

definition color_dict_to_mask :: "pydict \<Rightarrow> nat" where
  "color_dict_to_mask d = sum_list (map snd (filter (\<lambda>(color, bit). truthy (map_of d color)) COLOR_BITS))"

text \<open>\<open>v & ~mask == 0\<close>: no bit of \<open>v\<close> outside \<open>mask\<close>.\<close>

definition mask_subset :: "nat \<Rightarrow> nat \<Rightarrow> bool" where
  "mask_subset v m \<longleftrightarrow> and v m = v"

definition subset_masks :: "nat \<Rightarrow> nat list" where
  "subset_masks query_mask = filter (\<lambda>v. mask_subset v query_mask) [0..<32]"

definition proper_subset_masks :: "nat \<Rightarrow> nat list" where
  "proper_subset_masks query_mask = filter (\<lambda>v. mask_subset v query_mask \<and> v \<noteq> query_mask) [0..<32]"

definition true_dict :: "pstr list \<Rightarrow> pydict" where
  "true_dict ks = dict_fromkeys ks (PVBool True)"

definition get_colors_comparison_object :: "pstr \<Rightarrow> pstr \<Rightarrow> pydict result" where
  "get_colors_comparison_object val attr =
     (let colorless_is_value = (attr = u ''produced_mana'') in
      if val \<noteq> [] \<and> list_all (\<lambda>c. [c] \<in> fst ` set COLOR_CODE_TO_NAME) val then
        (if colorless_is_value then Inr (true_dict (map (\<lambda>c. py_upper [c]) val))
         else Inr (true_dict (map (\<lambda>c. py_upper [c]) (filter (\<lambda>c. c \<noteq> ch CHR ''c'') val))))
      else case map_of COLOR_NAME_TO_CODE val of
        None \<Rightarrow> Inl ValueError
      | Some letter_code \<Rightarrow>
          if letter_code = u ''c'' then Inr (if colorless_is_value then true_dict [u ''C''] else [])
          else Inr (true_dict [py_upper letter_code]))"

section \<open>Frames, keywords, tags, legalities\<close>

definition get_frame_data_comparison_object :: "pstr \<Rightarrow> pydict" where
  "get_frame_data_comparison_object val = true_dict [py_title (py_strip val)]"

definition extract_frame_data_from_raw_card :: "pstr option \<Rightarrow> pstr list \<Rightarrow> pydict" where
  "extract_frame_data_from_raw_card frame_version frame_effects =
     foldl (\<lambda>d effect. dict_set d (py_title effect) (PVBool True))
       (case frame_version of Some f \<Rightarrow> if f \<noteq> [] then [(py_title f, PVBool True)] else [] | None \<Rightarrow> [])
       frame_effects"

definition get_keywords_comparison_object :: "pstr \<Rightarrow> pydict" where
  "get_keywords_comparison_object val = true_dict [py_title (py_strip val)]"

definition get_oracle_tags_comparison_object :: "pstr \<Rightarrow> pydict" where
  "get_oracle_tags_comparison_object val = true_dict [py_lower (py_strip val)]"

definition get_art_tags_comparison_object :: "pstr \<Rightarrow> pydict" where
  "get_art_tags_comparison_object val = true_dict [py_lower (py_strip val)]"

definition get_is_tags_comparison_object :: "pstr \<Rightarrow> pydict" where
  "get_is_tags_comparison_object val = true_dict [py_lower (py_strip val)]"

definition get_legality_comparison_object :: "pstr \<Rightarrow> pstr \<Rightarrow> pydict result" where
  "get_legality_comparison_object val attr =
     (let format_name0 = py_lower (py_strip val);
          format_name = (case map_of FORMAT_CODE_TO_NAME format_name0 of Some f \<Rightarrow> f | None \<Rightarrow> format_name0)
      in if attr \<in> {u ''format'', u ''f'', u ''legal''} then Inr [(format_name, PVStr (u ''legal''))]
         else if attr = u ''banned'' then Inr [(format_name, PVStr (u ''banned''))]
         else if attr = u ''restricted'' then Inr [(format_name, PVStr (u ''restricted''))]
         else Inl ValueError)"

section \<open>Mana costs\<close>

text \<open>\<open>re.findall(r"{([^}]*)}", s)\<close> and \<open>re.sub(r"{[^}]*}", " ", s)\<close>.\<close>

function (sequential) braced_symbols :: "pstr \<Rightarrow> pstr list" where
  "braced_symbols [] = []"
| "braced_symbols (c # s) =
     (if c = ch CHR ''{'' \<and> ch CHR ''}'' \<in> set s
      then takeWhile (\<lambda>c. c \<noteq> ch CHR ''}'') s # braced_symbols (tl (dropWhile (\<lambda>c. c \<noteq> ch CHR ''}'') s))
      else braced_symbols s)"
  by pat_completeness auto
termination
  by (relation "measure length") (auto simp: less_Suc_eq_le intro: le_trans[OF diff_le_self length_dropWhile_le])

function (sequential) unbraced_part :: "pstr \<Rightarrow> pstr" where
  "unbraced_part [] = []"
| "unbraced_part (c # s) =
     (if c = ch CHR ''{'' \<and> ch CHR ''}'' \<in> set s
      then ch CHR '' '' # unbraced_part (tl (dropWhile (\<lambda>c. c \<noteq> ch CHR ''}'') s))
      else c # unbraced_part s)"
  by pat_completeness auto
termination
  by (relation "measure length") (auto simp: less_Suc_eq_le intro: le_trans[OF diff_le_self length_dropWhile_le])

definition count_symbol :: "(pstr \<times> nat) list \<Rightarrow> pstr \<Rightarrow> (pstr \<times> nat) list" where
  "count_symbol d k = dict_set d k ((case map_of d k of Some n \<Rightarrow> n | None \<Rightarrow> 0) + 1)"

definition pip_list :: "nat \<Rightarrow> pyval" where
  "pip_list count = PVList (map (\<lambda>i. PVNum (PyInt (int i))) [1..<count + 1])"

definition mana_symbols :: "pstr \<Rightarrow> pstr list" where
  "mana_symbols cost =
     filter (\<lambda>m. py_int m = None) (braced_symbols cost)
     @ map (\<lambda>c. [c]) (filter (\<lambda>c. c \<in> set (u ''WUBRGCX'')) (unbraced_part cost))"

definition mana_cost_str_to_dict :: "pstr \<Rightarrow> pydict" where
  "mana_cost_str_to_dict mana_cost_str =
     map (\<lambda>(s, n). (s, pip_list n)) (foldl count_symbol [] (mana_symbols (py_upper mana_cost_str)))"

text \<open>\<open>re.findall(r"\d+|[WUBRGC]", s)\<close>.\<close>

function (sequential) cost_tokens :: "pstr \<Rightarrow> pstr list" where
  "cost_tokens [] = []"
| "cost_tokens (c # s) =
     (if is_digit_c c then (c # takeWhile is_digit_c s) # cost_tokens (dropWhile is_digit_c s)
      else if c \<in> set (u ''WUBRGC'') then [c] # cost_tokens s
      else cost_tokens s)"
  by pat_completeness auto
termination
  by (relation "measure length") (auto simp: less_Suc_eq_le length_dropWhile_le)

definition symbol_cmc :: "pstr \<Rightarrow> int" where
  "symbol_cmc m = (case py_int m of Some i \<Rightarrow> i | None \<Rightarrow> if m = u ''X'' then 0 else 1)"

text \<open>\<open>int(token)\<close> on a run of more than 4300 digits raises; nothing catches it there.\<close>

definition token_cmc :: "pstr \<Rightarrow> int result" where
  "token_cmc t = (if py_isdigit t then (case py_int t of Some i \<Rightarrow> Inr i | None \<Rightarrow> Inl ValueError) else Inr 1)"

definition calculate_cmc :: "pstr \<Rightarrow> int result" where
  "calculate_cmc mana_cost_str =
     (let cost = py_upper mana_cost_str
      in bindr (mapr token_cmc (cost_tokens (unbraced_part cost))) (\<lambda>ns.
           Inr (sum_list (map symbol_cmc (braced_symbols cost)) + sum_list ns)))"

definition devotion_colors :: "pstr" where
  "devotion_colors = u ''WUBRGC''"

definition calculate_devotion :: "pstr \<Rightarrow> pydict" where
  "calculate_devotion mana_cost_str =
     (let cost = py_strip (py_upper mana_cost_str);
          devotion = map (\<lambda>c. (c, length (filter (\<lambda>d. d = c) cost))) devotion_colors
      in map (\<lambda>(c, n). ([c], pip_list n)) (filter (\<lambda>(c, n). n \<noteq> 0) devotion))"

section \<open>Patterns and accents\<close>

definition escape_like_pattern :: "pstr \<Rightarrow> pstr" where
  "escape_like_pattern value =
     py_replace (u ''_'') [92, 95] (py_replace (u ''%'') [92, 37] (py_replace [92] [92, 92] value))"

definition like_words_pattern :: "pstr \<Rightarrow> pstr" where
  "like_words_pattern txt_val =
     py_join (u ''%'') ([[]] @ map escape_like_pattern (py_split (py_lower txt_val)) @ [[]])"

text \<open>
  \<open>unicodedata.normalize("NFKD", c)\<close> on U+0000 to U+00FF, and \<open>unicodedata.combining\<close> on the marks it
  yields (U+0300 to U+036F but U+034F).
\<close>

definition nfkd_table :: "(nat \<times> nat list) list" where
  "nfkd_table =
    [(160, [32]), (168, [32, 776]), (170, [97]), (175, [32, 772]), (178, [50]), (179, [51]), (180, [32, 769]),
     (181, [956]), (184, [32, 807]), (185, [49]), (186, [111]), (188, [49, 8260, 52]), (189, [49, 8260, 50]),
     (190, [51, 8260, 52]),
     (192, [65, 768]), (193, [65, 769]), (194, [65, 770]), (195, [65, 771]), (196, [65, 776]), (197, [65, 778]),
     (199, [67, 807]), (200, [69, 768]), (201, [69, 769]), (202, [69, 770]), (203, [69, 776]),
     (204, [73, 768]), (205, [73, 769]), (206, [73, 770]), (207, [73, 776]), (209, [78, 771]),
     (210, [79, 768]), (211, [79, 769]), (212, [79, 770]), (213, [79, 771]), (214, [79, 776]),
     (217, [85, 768]), (218, [85, 769]), (219, [85, 770]), (220, [85, 776]), (221, [89, 769]),
     (224, [97, 768]), (225, [97, 769]), (226, [97, 770]), (227, [97, 771]), (228, [97, 776]), (229, [97, 778]),
     (231, [99, 807]), (232, [101, 768]), (233, [101, 769]), (234, [101, 770]), (235, [101, 776]),
     (236, [105, 768]), (237, [105, 769]), (238, [105, 770]), (239, [105, 776]), (241, [110, 771]),
     (242, [111, 768]), (243, [111, 769]), (244, [111, 770]), (245, [111, 771]), (246, [111, 776]),
     (249, [117, 768]), (250, [117, 769]), (251, [117, 770]), (252, [117, 776]), (253, [121, 769]), (255, [121, 776])]"

definition nfkd :: "pstr \<Rightarrow> pstr" where
  "nfkd s = concat (map (\<lambda>c. case map_of nfkd_table c of Some d \<Rightarrow> d | None \<Rightarrow> [c]) s)"

definition combining :: "nat \<Rightarrow> bool" where
  "combining c \<longleftrightarrow> 768 \<le> c \<and> c \<le> 879 \<and> c \<noteq> 847"

definition fold_accents :: "pstr \<Rightarrow> pstr" where
  "fold_accents value = filter (\<lambda>c. \<not> combining c) (nfkd value)"

end
