(* ===== verification/Card_Values_Props.thy ===== *)
theory Card_Values_Props
  imports Card_Values "HOL-Library.Multiset"
begin

text \<open>
  What the bound values mean to the database. The database side is specified by two small
  definitions, \<open>like\<close> (the \<open>LIKE\<close> operator) and \<open>jsonb_contains\<close> (the containment operator of
  \<open>jsonb\<close>); the lemmas show that the masks, patterns and pip lists the program binds select what
  the query asks for.
\<close>

section \<open>Colour masks\<close>

definition has_color :: "pydict \<Rightarrow> pstr \<Rightarrow> bool" where
  "has_color d c = truthy (map_of d c)"

lemma mask_value:
  "color_dict_to_mask d =
     (if has_color d (u ''W'') then 16 else 0) + (if has_color d (u ''U'') then 8 else 0)
     + (if has_color d (u ''B'') then 4 else 0) + (if has_color d (u ''R'') then 2 else 0)
     + (if has_color d (u ''G'') then 1 else 0)"
  by (simp add: color_dict_to_mask_def COLOR_BITS_def has_color_def)

definition bits5 :: "bool \<Rightarrow> bool \<Rightarrow> bool \<Rightarrow> bool \<Rightarrow> bool \<Rightarrow> nat" where
  "bits5 w x b r g = of_bool w * 16 + of_bool x * 8 + of_bool b * 4 + of_bool r * 2 + of_bool g"

lemma mask_bits5:
  "color_dict_to_mask d =
     bits5 (has_color d (u ''W'')) (has_color d (u ''U'')) (has_color d (u ''B'')) (has_color d (u ''R'')) (has_color d (u ''G''))"
  by (simp add: mask_value bits5_def)

lemma bits5_and:
  "and (bits5 w x b r g) (bits5 w' x' b' r' g') = bits5 (w \<and> w') (x \<and> x') (b \<and> b') (r \<and> r') (g \<and> g')"
proof -
  have step: "and (of_bool p + 2 * m) (of_bool q + 2 * n) = of_bool (p \<and> q) + 2 * and m n" for p q :: bool and m n :: nat
    by (subst and_rec) (cases p; cases q; simp)
  have horner: "bits5 w x b r g = of_bool g + 2 * (of_bool r + 2 * (of_bool b + 2 * (of_bool x + 2 * (of_bool w + 2 * 0))))"
    for w x b r g by (simp add: bits5_def)
  show ?thesis by (simp only: horner step and_zero_eq)
qed

lemma bits5_inj:
  "bits5 w x b r g = bits5 w' x' b' r' g' \<longleftrightarrow> w = w' \<and> x = x' \<and> b = b' \<and> r = r' \<and> g = g'"
  by (cases w; cases w'; cases x; cases x'; cases b; cases b'; cases r; cases r'; cases g; cases g') (simp_all add: bits5_def)

lemma bits5_less: "bits5 w x b r g < 32"
  by (cases w; cases x; cases b; cases r; cases g) (simp_all add: bits5_def)

definition color_letters5 :: "pstr list" where
  "color_letters5 = [u ''W'', u ''U'', u ''B'', u ''R'', u ''G'']"

lemma colors_subset:
  "set (filter (has_color e) color_letters5) \<subseteq> set (filter (has_color d) color_letters5) \<longleftrightarrow>
     list_all (\<lambda>c. has_color e c \<longrightarrow> has_color d c) color_letters5"
  by (auto simp: list_all_iff)

lemma subset_masks_colors:
  "color_dict_to_mask e \<in> set (subset_masks (color_dict_to_mask d)) \<longleftrightarrow>
     list_all (\<lambda>c. has_color e c \<longrightarrow> has_color d c) color_letters5"
  by (auto simp: subset_masks_def mask_subset_def mask_bits5 bits5_and bits5_inj bits5_less color_letters5_def)

lemma proper_subset_masks_colors:
  "color_dict_to_mask e \<in> set (proper_subset_masks (color_dict_to_mask d)) \<longleftrightarrow>
     list_all (\<lambda>c. has_color e c \<longrightarrow> has_color d c) color_letters5
     \<and> \<not> list_all (\<lambda>c. has_color d c \<longrightarrow> has_color e c) color_letters5"
  by (auto simp: proper_subset_masks_def mask_subset_def mask_bits5 bits5_and bits5_inj bits5_less color_letters5_def)

text \<open>
  The masks bound for \<open>id:\<close> and \<open>id<=\<close> are exactly those of the
  colour sets contained in the queried one: the mask of any colour object is in
  \<open>_subset_masks\<close> iff each of its colours is a queried colour.
\<close>

lemma mask_in_subset_masks:
  "color_dict_to_mask e \<in> set (subset_masks (color_dict_to_mask d)) \<longleftrightarrow>
     set (filter (has_color e) color_letters5) \<subseteq> set (filter (has_color d) color_letters5)"
  by (simp only: subset_masks_colors colors_subset)

text \<open>
  The masks bound for the strict comparison are exactly those of the colour sets
  strictly contained in the queried one: the mask of any colour object is among them iff
  each of its colours is a queried colour and some queried colour is missing.
\<close>

lemma mask_in_proper_subset_masks:
  "color_dict_to_mask e \<in> set (proper_subset_masks (color_dict_to_mask d)) \<longleftrightarrow>
     set (filter (has_color e) color_letters5) \<subset> set (filter (has_color d) color_letters5)"
  by (simp only: proper_subset_masks_colors colors_subset less_le_not_le)

section \<open>The \<open>LIKE\<close> operator\<close>

text \<open>
  \<open>like p t\<close>: the text \<open>t\<close> matches the pattern \<open>p\<close>; percent stands for any text, underscore for one
  character, and a backslash makes the next character literal.
\<close>

fun like :: "pstr \<Rightarrow> pstr \<Rightarrow> bool" where
  "like [] t = (t = [])"
| "like (p # ps) t =
     (if p = 37 then list_ex (\<lambda>k. like ps (drop k t)) [0..<Suc (length t)]
      else if p = 95 then t \<noteq> [] \<and> like ps (tl t)
      else if p = 92 then (case ps of [] \<Rightarrow> False | q # qs \<Rightarrow> t \<noteq> [] \<and> hd t = q \<and> like qs (tl t))
      else t \<noteq> [] \<and> hd t = p \<and> like ps (tl t))"

lemma escape_like_concat:
  "escape_like_pattern s = concat (map (\<lambda>c. if c = 92 \<or> c = 37 \<or> c = 95 then [92, c] else [c]) s)"
  by (induction s) (auto simp: escape_like_pattern_def py_replace_single)

lemma escape_like_Nil [simp]: "escape_like_pattern [] = []"
  by (simp add: escape_like_concat)

lemma escape_like_Cons [simp]:
  "escape_like_pattern (c # s) = (if c = 92 \<or> c = 37 \<or> c = 95 then [92, c] else [c]) @ escape_like_pattern s"
  by (simp add: escape_like_concat)

lemma like_escape_append:
  "like (escape_like_pattern v @ ps) t \<longleftrightarrow> prefix v t \<and> like ps (drop (length v) t)"
proof (induction v arbitrary: t)
  case (Cons c v)
  then show ?case by (cases t) auto
qed simp

text \<open>
  Escaping for \<open>LIKE\<close> is exact: the pattern
  \<open>_escape_like_pattern(v)\<close> matches the text \<open>v\<close> and nothing else,
  whatever wildcards and backslashes \<open>v\<close> holds.
\<close>

lemma like_escape: "like (escape_like_pattern v) t \<longleftrightarrow> t = v"
  using like_escape_append[of v "[]" t] by (auto simp: prefix_def)

text \<open>The words occur in the text one after the other, without overlap.\<close>

fun words_in_order :: "pstr list \<Rightarrow> pstr \<Rightarrow> bool" where
  "words_in_order [] t = True"
| "words_in_order (w # ws) t \<longleftrightarrow> (\<exists>i \<le> length t. prefix w (drop i t) \<and> words_in_order ws (drop (i + length w) t))"

lemma like_any: "like [37] t"
  by (auto simp: list_ex_iff intro!: bexI[of _ "length t"])

lemma like_pattern_words:
  "like (37 # concat (map (\<lambda>w. escape_like_pattern w @ [37]) ws)) t \<longleftrightarrow> words_in_order ws t"
proof (induction ws arbitrary: t)
  case Nil
  then show ?case using like_any by simp
next
  case (Cons w ws)
  have "like (37 # concat (map (\<lambda>w. escape_like_pattern w @ [37]) (w # ws))) t \<longleftrightarrow>
      (\<exists>i \<le> length t. prefix w (drop i t)
         \<and> like (37 # concat (map (\<lambda>w. escape_like_pattern w @ [37]) ws)) (drop (i + length w) t))"
    by (simp add: list_ex_iff like_escape_append less_Suc_eq_le Bex_def add.commute del: upt_Suc)
  then show ?case by (simp only: words_in_order.simps Cons.IH)
qed

lemma join_percent: "ws \<noteq> [] \<Longrightarrow> py_join [37] (ws @ [[]]) = concat (map (\<lambda>w. w @ [37]) ws)"
proof (induction ws)
  case (Cons w ws)
  then show ?case by (cases ws) (simp_all add: py_join_Cons)
qed simp

lemma like_words_pattern_eq:
  "like_words_pattern s = 37 # concat (map (\<lambda>w. escape_like_pattern w @ [37]) (py_split (py_lower s)))"
  using join_percent[of "[] # map escape_like_pattern (py_split (py_lower s))"]
  by (simp add: like_words_pattern_def comp_def)

text \<open>
  C27: The pattern of a text search matches exactly the texts in which the lower-cased words of
  the search value occur one after the other without overlap.
\<close>

lemma like_words: "like (like_words_pattern s) t \<longleftrightarrow> words_in_order (py_split (py_lower s)) t"
  by (simp only: like_words_pattern_eq like_pattern_words)

section \<open>Mana costs\<close>

text \<open>
  The containment operator of \<open>jsonb\<close>: an object contains another when it has its keys with
  containing values, an array contains another when every element of the other is contained
  in one of its own, anything else only itself.
\<close>

fun jsonb_contains :: "pyval \<Rightarrow> pyval \<Rightarrow> bool" where
  "jsonb_contains (PVDict d) (PVDict e) =
     list_all (\<lambda>(k, v). list_ex (\<lambda>(k', v'). k' = k \<and> jsonb_contains v' v) d) e"
| "jsonb_contains (PVList vs) (PVList ws) = list_all (\<lambda>w. list_ex (\<lambda>v. jsonb_contains v w) vs) ws"
| "jsonb_contains v w = (v = w)"

lemma contains_num [simp]: "jsonb_contains (PVNum a) (PVNum b) \<longleftrightarrow> a = b"
  by simp

lemma pip_list_contains: "jsonb_contains (pip_list m) (pip_list n) \<longleftrightarrow> n \<le> m"
proof
  assume "n \<le> m"
  then show "jsonb_contains (pip_list m) (pip_list n)"
    by (auto simp: pip_list_def list_all_iff list_ex_iff)
next
  assume contains: "jsonb_contains (pip_list m) (pip_list n)"
  show "n \<le> m"
  proof (cases n)
    case (Suc k)
    then have "n \<in> set [1..<n + 1]" by simp
    with contains have "n \<in> set [1..<m + 1]" by (auto simp: pip_list_def list_all_iff list_ex_iff simp del: set_upt)
    then show ?thesis by auto
  qed simp
qed

lemma map_of_count: "map_of (foldl count_symbol d ks) k =
    (if k \<in> set ks then Some (count (mset ks) k + (case map_of d k of Some n \<Rightarrow> n | None \<Rightarrow> 0)) else map_of d k)"
proof (induction ks arbitrary: d)
  case (Cons k' ks)
  then show ?case by (auto simp: count_symbol_def not_in_iff split: option.splits)
qed simp

lemma distinct_count: "distinct (map fst d) \<Longrightarrow> distinct (map fst (foldl count_symbol d ks))"
  by (induction ks arbitrary: d) (simp_all add: count_symbol_def distinct_keys_dict_set)

lemma map_of_mana_dict:
  "map_of (mana_cost_str_to_dict c) k =
     (let n = count (mset (mana_symbols (py_upper c))) k in if n = 0 then None else Some (pip_list n))"
proof -
  have "map_of (map (\<lambda>(s, n). (s, f n)) d) k = map_option f (map_of d k)" for f :: "nat \<Rightarrow> pyval" and d
    by (induction d) auto
  then show ?thesis
    by (simp add: mana_cost_str_to_dict_def map_of_count not_in_iff Let_def)
qed

lemma mana_dict_keys: "distinct (map fst (mana_cost_str_to_dict c))"
proof -
  have "map fst (mana_cost_str_to_dict c) = map fst (foldl count_symbol [] (mana_symbols (py_upper c)))"
    by (simp add: mana_cost_str_to_dict_def comp_def case_prod_beta)
  then show ?thesis using distinct_count[of "[]"] by simp
qed

lemma dict_contains_iff:
  assumes "distinct (map fst d)" "distinct (map fst e)"
  shows "jsonb_contains (PVDict d) (PVDict e) \<longleftrightarrow>
    (\<forall>k v. map_of e k = Some v \<longrightarrow> (\<exists>v'. map_of d k = Some v' \<and> jsonb_contains v' v))"
  using assms by (auto simp: list_all_iff list_ex_iff map_of_eq_Some_iff) fastforce+

text \<open>
  C39: Pip lists make \<open>jsonb\<close> containment the order on mana costs: the object of
  cost \<open>a\<close> contains that of cost \<open>b\<close> iff the coloured symbols of
  \<open>b\<close>, with multiplicity, are among those of \<open>a\<close>.
\<close>

lemma mana_contains_iff:
  "jsonb_contains (PVDict (mana_cost_str_to_dict a)) (PVDict (mana_cost_str_to_dict b)) \<longleftrightarrow>
     mset (mana_symbols (py_upper b)) \<subseteq># mset (mana_symbols (py_upper a))"
proof -
  let ?A = "mset (mana_symbols (py_upper a))" and ?B = "mset (mana_symbols (py_upper b))"
  have "jsonb_contains (PVDict (mana_cost_str_to_dict a)) (PVDict (mana_cost_str_to_dict b)) \<longleftrightarrow>
      (\<forall>k. count ?B k \<noteq> 0 \<longrightarrow> count ?A k \<noteq> 0 \<and> count ?B k \<le> count ?A k)"
    unfolding dict_contains_iff[OF mana_dict_keys mana_dict_keys] map_of_mana_dict Let_def
    using pip_list_contains by (auto split: if_splits)
  also have "\<dots> \<longleftrightarrow> (\<forall>k. count ?B k \<le> count ?A k)" by (metis le_zero_eq nat_le_linear zero_le)
  finally show ?thesis by (simp add: subseteq_mset_def)
qed

text \<open>A cost written with braces around each symbol.\<close>

definition brace :: "pstr \<Rightarrow> pstr" where
  "brace m = u ''{'' @ m @ u ''}''"

definition symbol_ok :: "pstr \<Rightarrow> bool" where
  "symbol_ok m \<longleftrightarrow> py_upper m = m \<and> ch CHR ''}'' \<notin> set m"

lemma brace_step:
  assumes "125 \<notin> set m"
  shows "braced_symbols (brace m @ s) = m # braced_symbols s" "unbraced_part (brace m @ s) = 32 # unbraced_part s"
proof -
  have "takeWhile (\<lambda>c. c \<noteq> 125) (m @ 125 # s) = m" "tl (dropWhile (\<lambda>c. c \<noteq> 125) (m @ 125 # s)) = s"
    using assms by (subst takeWhile_append2, auto) (subst dropWhile_append2, auto)
  then show "braced_symbols (brace m @ s) = m # braced_symbols s" "unbraced_part (brace m @ s) = 32 # unbraced_part s"
    by (simp_all add: brace_def)
qed

lemma braced_cost:
  assumes "list_all (\<lambda>m. 125 \<notin> set m) ms"
  shows "braced_symbols (concat (map brace ms)) = ms" "unbraced_part (concat (map brace ms)) = replicate (length ms) 32"
  using assms by (induction ms) (simp_all add: brace_step)

lemma upper_braced: "list_all symbol_ok ms \<Longrightarrow> py_upper (concat (map brace ms)) = concat (map brace ms)"
  by (induction ms) (auto simp: symbol_ok_def brace_def py_upper_def upper_c_def)

lemma symbols_no_brace: "list_all symbol_ok ms \<Longrightarrow> list_all (\<lambda>m. 125 \<notin> set m) ms"
  by (auto simp: symbol_ok_def list_all_iff)

lemma cost_tokens_blank: "cost_tokens (replicate n 32) = []"
  by (induction n) (auto simp: is_digit_c_def)

lemma calculate_cmc_braced:
  assumes "list_all symbol_ok ms"
  shows "calculate_cmc (concat (map brace ms)) = Inr (sum_list (map symbol_cmc ms))"
  using symbols_no_brace[OF assms]
  by (simp add: calculate_cmc_def upper_braced[OF assms] braced_cost cost_tokens_blank Let_def)

lemma mana_symbols_braced:
  assumes "list_all symbol_ok ms"
  shows "mana_symbols (py_upper (concat (map brace ms))) = filter (\<lambda>m. py_int m = None) ms"
  using symbols_no_brace[OF assms]
  by (simp add: mana_symbols_def upper_braced[OF assms] braced_cost)

text \<open>Colour letters need no braces.\<close>

definition color_c :: "nat \<Rightarrow> bool" where
  "color_c c \<longleftrightarrow> c \<in> set (u ''WUBRGC'')"

lemma color_letters_table:
  "list_all (\<lambda>c. upper_c c = [c] \<and> py_int [c] = None \<and> c \<noteq> 123 \<and> c \<noteq> 125 \<and> \<not> is_digit_c c
     \<and> symbol_cmc [c] = 1 \<and> token_cmc [c] = Inr 1) (u ''WUBRGC'')"
  by code_simp

lemma color_c_facts:
  assumes "color_c c"
  shows "upper_c c = [c]" "py_int [c] = None" "c \<noteq> 123" "c \<noteq> 125" "\<not> is_digit_c c" "symbol_cmc [c] = 1" "token_cmc [c] = Inr 1"
  using color_letters_table assms unfolding color_c_def list_all_iff by blast+

lemma plain_letters:
  assumes "list_all color_c s"
  shows "py_upper s = s" "braced_symbols s = []" "unbraced_part s = s" "cost_tokens s = map (\<lambda>c. [c]) s"
    "mapr token_cmc (map (\<lambda>c. [c]) s) = Inr (replicate (length s) 1)"
  using assms
proof (induction s)
  case (Cons c s)
  {
    case 1
    with Cons show ?case by (simp add: py_upper_def color_c_facts)
  next
    case 2
    with Cons show ?case by (simp add: color_c_facts)
  next
    case 3
    with Cons show ?case by (simp add: color_c_facts)
  next
    case 4
    with Cons show ?case by (simp add: color_c_facts) (simp add: color_c_def)
  next
    case 5
    with Cons show ?case by (simp add: color_c_facts)
  }
qed simp_all

lemma letters_symbols:
  assumes "list_all color_c s"
  shows "mana_symbols s = map (\<lambda>c. [c]) s" "calculate_cmc s = Inr (int (length s))"
proof -
  have "filter (\<lambda>c. c \<in> set (u ''WUBRGCX'')) s = s"
    using assms by (intro filter_True) (auto simp: list_all_iff color_c_def)
  then show "mana_symbols s = map (\<lambda>c. [c]) s" using plain_letters[OF assms] by (simp add: mana_symbols_def)
  show "calculate_cmc s = Inr (int (length s))"
    using plain_letters[OF assms] by (simp add: calculate_cmc_def Let_def sum_list_replicate)
qed

lemma letters_braced:
  assumes "list_all color_c s"
  shows "list_all symbol_ok (map (\<lambda>c. [c]) s)" "filter (\<lambda>m. py_int m = None) (map (\<lambda>c. [c]) s) = map (\<lambda>c. [c]) s"
    "sum_list (map symbol_cmc (map (\<lambda>c. [c]) s)) = int (length s)"
  using assms by (induction s) (simp_all add: symbol_ok_def py_upper_def color_c_facts)

section \<open>Accents\<close>

lemma nfkd_fixed: "d \<in> set (nfkd [c]) \<Longrightarrow> nfkd [d] = [d]"
proof (cases "map_of nfkd_table c")
  case None
  then show "d \<in> set (nfkd [c]) \<Longrightarrow> nfkd [d] = [d]" by (simp add: nfkd_def)
next
  case (Some ds)
  assume "d \<in> set (nfkd [c])"
  then have "d \<in> set ds" using Some by (simp add: nfkd_def)
  moreover have "list_all (\<lambda>(c, ds). list_all (\<lambda>d. map_of nfkd_table d = None) ds) nfkd_table" by code_simp
  ultimately have "map_of nfkd_table d = None" using map_of_SomeD[OF Some] by (auto simp: list_all_iff)
  then show ?thesis by (simp add: nfkd_def)
qed

lemma nfkd_Cons: "nfkd (c # s) = nfkd [c] @ nfkd s"
  by (simp add: nfkd_def)

lemma nfkd_id: "(\<And>c. c \<in> set s \<Longrightarrow> nfkd [c] = [c]) \<Longrightarrow> nfkd s = s"
proof (induction s)
  case (Cons c s)
  then show ?case using nfkd_Cons[of c s] by simp
qed (simp add: nfkd_def)

lemma set_nfkd: "c \<in> set (nfkd s) \<Longrightarrow> \<exists>b \<in> set s. c \<in> set (nfkd [b])"
  by (auto simp: nfkd_def)

text \<open>
  Accent folding is idempotent, so a stored folded name and a folded search value meet on
  the same text.
\<close>

lemma fold_accents_idem: "fold_accents (fold_accents s) = fold_accents s"
proof -
  have "nfkd (fold_accents s) = fold_accents s"
  proof (rule nfkd_id)
    fix c
    assume "c \<in> set (fold_accents s)"
    then have "c \<in> set (nfkd s)" by (simp add: fold_accents_def)
    from set_nfkd[OF this] show "nfkd [c] = [c]" using nfkd_fixed by blast
  qed
  then show ?thesis by (simp add: fold_accents_def)
qed

end
