(* ===== verification/Rewrite.thy ===== *)
theory Rewrite
  imports Parser_Contracts Card_Values_Props
begin

text \<open>
  The post-parse rewrites of \<open>src/api/parsing/rewrite.py\<close>: derived predicates are replaced by the
  parse of their definition, then regexes without metacharacters become substring searches.
  \<open>expand\<close> recurses through the definitions; the set of keys in progress bounds that recursion,
  which is the termination measure here as in the source.
\<close>

section \<open>Derived predicates\<close>

definition DERIVED_EXPANSIONS :: "((pstr \<times> pstr) \<times> pstr) list" where
  "DERIVED_EXPANSIONS =
    [((u ''frame'', u ''modern''), u ''frame:2003''),
     ((u ''frame'', u ''old''), u ''frame:1993 or frame:1997''),
     ((u ''frame'', u ''new''), u ''frame:2003 or frame:2015 or frame:future''),
     ((u ''is'', u ''old''), u ''frame:1993 or frame:1997''),
     ((u ''is'', u ''new''), u ''frame:2015''),
     ((u ''is'', u ''historic''), u ''t:legendary or t:artifact or t:saga''),
     ((u ''is'', u ''permanent''), u ''t:creature or t:artifact or t:enchantment or t:land or t:planeswalker or t:battle''),
     ((u ''is'', u ''party''), u ''t:creature (t:cleric or t:rogue or t:warrior or t:wizard or kw:changeling)''),
     ((u ''is'', u ''outlaw''), u ''t:assassin or t:mercenary or t:pirate or t:rogue or t:warlock or kw:changeling''),
     ((u ''is'', u ''vanilla''), u ''t:creature o=\"\"''),
     ((u ''is'', u ''bear''), u ''t:creature pow=2 tou=2 cmc=2''),
     ((u ''is'', u ''split''), u ''layout:split''),
     ((u ''is'', u ''flip''), u ''layout:flip''),
     ((u ''is'', u ''transform''), u ''layout:transform''),
     ((u ''is'', u ''mdfc''), u ''layout:modal_dfc''),
     ((u ''is'', u ''meld''), u ''layout:meld''),
     ((u ''is'', u ''leveler''), u ''layout:leveler''),
     ((u ''is'', u ''dfc''), u ''layout:transform or layout:modal_dfc or layout:meld''),
     ((u ''is'', u ''colorshifted''), u ''frame:colorshifted''),
     ((u ''is'', u ''manland''), u ''t:land o:become o:creature o:/still a.* land/'')]"

definition derived_keys :: "(pstr \<times> pstr) list" where
  "derived_keys = map fst DERIVED_EXPANSIONS"

text \<open>\<open>getattr(node.lhs, "original_attribute", None)\<close> and \<open>getattr(node.rhs, "value", None)\<close> when it is a string.\<close>

definition node_alias :: "node \<Rightarrow> pstr option" where
  "node_alias n = (case n of CardAttributeNode orig _ _ _ \<Rightarrow> Some orig | _ \<Rightarrow> None)"

definition node_str_value :: "node \<Rightarrow> pstr option" where
  "node_str_value n = (case n of
      StringValueNode s \<Rightarrow> Some s | ManaValueNode s \<Rightarrow> Some s | RegexValueNode s \<Rightarrow> Some s
    | ExactNameNode s \<Rightarrow> Some s | _ \<Rightarrow> None)"

definition binary_key :: "node \<Rightarrow> pstr \<Rightarrow> node \<Rightarrow> (pstr \<times> pstr) option" where
  "binary_key l op r =
     (if op \<noteq> u '':'' then None
      else case node_alias l of
        None \<Rightarrow> None
      | Some a \<Rightarrow> (case node_str_value r of None \<Rightarrow> None | Some v \<Rightarrow> Some (a, py_lower v)))"

definition leaf_key :: "node \<Rightarrow> (pstr \<times> pstr) option" where
  "leaf_key n = (case n of
      BinaryOperatorNode l op r \<Rightarrow> binary_key l op r
    | CardBinaryOperatorNode l op r \<Rightarrow> binary_key l op r
    | _ \<Rightarrow> None)"

definition query_root :: "node \<Rightarrow> node" where
  "query_root q = (case q of Query n \<Rightarrow> n | _ \<Rightarrow> q)"

definition parse_expansion :: "pstr \<Rightarrow> node result" where
  "parse_expansion dsl = bindr (parse_query dsl) (\<lambda>q. Inr (query_root q))"

definition open_keys :: "(pstr \<times> pstr) list \<Rightarrow> nat" where
  "open_keys in_progress = length (filter (\<lambda>k. k \<notin> set in_progress) derived_keys)"

lemma open_keys_less:
  assumes "map_of DERIVED_EXPANSIONS k = Some dsl" "k \<notin> set ip"
  shows "open_keys (k # ip) < open_keys ip"
proof -
  have k: "k \<in> set derived_keys" using map_of_SomeD[OF assms(1)] by (force simp: derived_keys_def)
  have "length (filter (\<lambda>x. x \<notin> set (k # ip)) xs) \<le> length (filter (\<lambda>x. x \<notin> set ip) xs)
     \<and> (k \<in> set xs \<longrightarrow> length (filter (\<lambda>x. x \<notin> set (k # ip)) xs) < length (filter (\<lambda>x. x \<notin> set ip) xs))" for xs
    using assms(2) by (induction xs) auto
  with k show ?thesis by (simp add: open_keys_def)
qed

text \<open>\<open>Some\<close> of the definition that a leaf stands for, unless its key is being expanded already.\<close>

definition expansion_of :: "node \<Rightarrow> (pstr \<times> pstr) list \<Rightarrow> ((pstr \<times> pstr) \<times> pstr) option" where
  "expansion_of n in_progress =
     (case leaf_key n of
        None \<Rightarrow> None
      | Some key \<Rightarrow>
          (case map_of DERIVED_EXPANSIONS key of
             None \<Rightarrow> None
           | Some dsl \<Rightarrow> if key \<in> set in_progress then None else Some (key, dsl)))"

definition is_nary :: "node \<Rightarrow> bool" where
  "is_nary n = (case n of AndNode _ \<Rightarrow> True | OrNode _ \<Rightarrow> True | NotNode _ \<Rightarrow> True | _ \<Rightarrow> False)"

function (sequential) expand :: "node \<Rightarrow> (pstr \<times> pstr) list \<Rightarrow> (node \<times> bool) result" where
  "expand (AndNode ops) ip =
     bindr (mapr (\<lambda>op. expand op ip) ops) (\<lambda>rs.
       Inr (if list_ex snd rs then (AndNode (map fst rs), True) else (AndNode ops, False)))"
| "expand (OrNode ops) ip =
     bindr (mapr (\<lambda>op. expand op ip) ops) (\<lambda>rs.
       Inr (if list_ex snd rs then (OrNode (map fst rs), True) else (OrNode ops, False)))"
| "expand (NotNode n) ip =
     bindr (expand n ip) (\<lambda>(m, changed). Inr (if changed then (NotNode m, True) else (NotNode n, False)))"
| "expand n ip =
     (case expansion_of n ip of
        Some (key, dsl) \<Rightarrow>
          bindr (parse_expansion dsl) (\<lambda>root.
            bindr (expand root (key # ip)) (\<lambda>(subtree, _). Inr (subtree, True)))
      | None \<Rightarrow> Inr (n, False))"
  by pat_completeness auto
termination
proof (relation "measures [\<lambda>(n, ip). open_keys ip, \<lambda>(n, ip). size n]", goal_cases)
  case 1
  then show ?case by simp
qed (auto simp: less_Suc_eq_le size_list_estimation' expansion_of_def intro: open_keys_less split: option.splits if_splits)

definition expand_derived_predicates :: "node \<Rightarrow> node result" where
  "expand_derived_predicates query =
     bindr (expand (query_root query) []) (\<lambda>(root, changed).
       Inr (if changed then flatten_nested_operations (Query root) else query))"

section \<open>Literal regexes\<close>

definition isascii_c :: "nat \<Rightarrow> bool" where
  "isascii_c c \<longleftrightarrow> c < 128"

fun regex_literal_from :: "pstr \<Rightarrow> pstr \<Rightarrow> pstr option" where
  "regex_literal_from out [] = Some out"
| "regex_literal_from out (c # s) =
     (if c = ch CHR 0x5C then
        (case s of
           [] \<Rightarrow> None
         | nxt # s' \<Rightarrow> if isascii_c nxt \<and> py_isalnum_c nxt then None else regex_literal_from (out @ [nxt]) s')
      else if c \<in> set (u ''.*+?()[]{}|^$'') then None
      else regex_literal_from (out @ [c]) s)"

definition regex_plain_literal :: "pstr \<Rightarrow> pstr option" where
  "regex_plain_literal pattern =
     (case regex_literal_from [] pattern of Some out \<Rightarrow> if out = [] then None else Some out | None \<Rightarrow> None)"

definition lower_rhs :: "pstr \<Rightarrow> node \<Rightarrow> node" where
  "lower_rhs op r =
     (if op = u '':'' then
        (case r of
           RegexValueNode p \<Rightarrow> (case regex_plain_literal p of Some literal \<Rightarrow> StringValueNode literal | None \<Rightarrow> r)
         | _ \<Rightarrow> r)
      else r)"

fun lower_regex_leaves :: "node \<Rightarrow> node" where
  "lower_regex_leaves (AndNode ops) = AndNode (map lower_regex_leaves ops)"
| "lower_regex_leaves (OrNode ops) = OrNode (map lower_regex_leaves ops)"
| "lower_regex_leaves (NotNode n) = NotNode (lower_regex_leaves n)"
| "lower_regex_leaves (BinaryOperatorNode l op r) = BinaryOperatorNode l op (lower_rhs op r)"
| "lower_regex_leaves (CardBinaryOperatorNode l op r) = CardBinaryOperatorNode l op (lower_rhs op r)"
| "lower_regex_leaves n = n"

definition lower_literal_regexes :: "node \<Rightarrow> node" where
  "lower_literal_regexes query = (case query of Query n \<Rightarrow> Query (lower_regex_leaves n) | n \<Rightarrow> lower_regex_leaves n)"

definition rewrite_query :: "node \<Rightarrow> node result" where
  "rewrite_query query = bindr (expand_derived_predicates query) (\<lambda>q. Inr (lower_literal_regexes q))"

definition parse_scryfall_query :: "pstr \<Rightarrow> node result" where
  "parse_scryfall_query query = bindr (parse_query query) rewrite_query"

end
