(* ===== verification/Rewrite_Table.thy ===== *)
theory Rewrite_Table
  imports Rewrite
begin

text \<open>
  The table of derived predicates: every definition parses, and its parse holds no derived
  predicate, evaluated entry by entry.
\<close>

section \<open>Every definition parses to primitive predicates\<close>

definition no_derived_leaf :: "node \<Rightarrow> bool" where
  "no_derived_leaf n = (case leaf_key n of None \<Rightarrow> True | Some k \<Rightarrow> k \<notin> set derived_keys)"

fun no_derived :: "node \<Rightarrow> bool" where
  "no_derived (AndNode ops) \<longleftrightarrow> list_all no_derived ops"
| "no_derived (OrNode ops) \<longleftrightarrow> list_all no_derived ops"
| "no_derived (NotNode n) \<longleftrightarrow> no_derived n"
| "no_derived n \<longleftrightarrow> no_derived_leaf n"

definition primitive :: "pstr \<Rightarrow> bool" where
  "primitive dsl = (case parse_expansion dsl of Inr n \<Rightarrow> no_derived n \<and> n \<noteq> TrueNode | Inl _ \<Rightarrow> False)"

lemma prim_frame_modern: "primitive (u ''frame:2003'')" by code_simp
lemma prim_frame_old: "primitive (u ''frame:1993 or frame:1997'')" by code_simp
lemma prim_frame_new: "primitive (u ''frame:2003 or frame:2015 or frame:future'')" by code_simp
lemma prim_is_new: "primitive (u ''frame:2015'')" by code_simp
lemma prim_is_historic: "primitive (u ''t:legendary or t:artifact or t:saga'')" by code_simp
lemma prim_is_permanent: "primitive (u ''t:creature or t:artifact or t:enchantment or t:land or t:planeswalker or t:battle'')" by code_simp
lemma prim_is_party: "primitive (u ''t:creature (t:cleric or t:rogue or t:warrior or t:wizard or kw:changeling)'')" by code_simp
lemma prim_is_outlaw: "primitive (u ''t:assassin or t:mercenary or t:pirate or t:rogue or t:warlock or kw:changeling'')" by code_simp
lemma prim_is_vanilla: "primitive (u ''t:creature o=\"\"'')" by code_simp
lemma prim_is_bear: "primitive (u ''t:creature pow=2 tou=2 cmc=2'')" by code_simp
lemma prim_is_split: "primitive (u ''layout:split'')" by code_simp
lemma prim_is_flip: "primitive (u ''layout:flip'')" by code_simp
lemma prim_is_transform: "primitive (u ''layout:transform'')" by code_simp
lemma prim_is_mdfc: "primitive (u ''layout:modal_dfc'')" by code_simp
lemma prim_is_meld: "primitive (u ''layout:meld'')" by code_simp
lemma prim_is_leveler: "primitive (u ''layout:leveler'')" by code_simp
lemma prim_is_dfc: "primitive (u ''layout:transform or layout:modal_dfc or layout:meld'')" by code_simp
lemma prim_is_colorshifted: "primitive (u ''frame:colorshifted'')" by code_simp
lemma prim_is_manland: "primitive (u ''t:land o:become o:creature o:/still a.* land/'')" by code_simp

lemmas prims = prim_frame_modern
  prim_frame_old
  prim_frame_new
  prim_is_new
  prim_is_historic
  prim_is_permanent
  prim_is_party
  prim_is_outlaw
  prim_is_vanilla
  prim_is_bear
  prim_is_split
  prim_is_flip
  prim_is_transform
  prim_is_mdfc
  prim_is_meld
  prim_is_leveler
  prim_is_dfc
  prim_is_colorshifted
  prim_is_manland

lemma all_primitive: "map_of DERIVED_EXPANSIONS k = Some dsl \<Longrightarrow> primitive dsl"
proof -
  assume "map_of DERIVED_EXPANSIONS k = Some dsl"
  then have "(k, dsl) \<in> set DERIVED_EXPANSIONS" by (rule map_of_SomeD)
  then have "dsl \<in> set (map snd DERIVED_EXPANSIONS)" by force
  then show ?thesis unfolding DERIVED_EXPANSIONS_def using prims
    by (simp only: list.map snd_conv list.set insert_iff empty_iff) (elim disjE; simp only: prims)
qed

end
