(* ===== verification/Node_Text.thy ===== *)
theory Node_Text
  imports Card_Values
begin

text \<open>
  The texts of a query tree: \<open>__repr__\<close> and \<open>to_human_explanation\<close> of the node classes in
  \<open>src/api/parsing/nodes.py\<close> and \<open>src/api/parsing/card_query_nodes.py\<close>.
\<close>

section \<open>\<open>repr\<close>\<close>

fun field_type_str :: "field_type \<Rightarrow> pstr" where
  "field_type_str FT_JSONB_ARRAY = u ''jsonb_array''"
| "field_type_str FT_JSONB_OBJECT = u ''jsonb_object''"
| "field_type_str FT_NUMERIC = u ''numeric''"
| "field_type_str FT_TEXT = u ''text''"
| "field_type_str FT_DATE = u ''date''"

fun parser_class_str :: "parser_class \<Rightarrow> pstr" where
  "parser_class_str PC_NUMERIC = u ''numeric''"
| "parser_class_str PC_MANA = u ''mana''"
| "parser_class_str PC_RARITY = u ''rarity''"
| "parser_class_str PC_LEGALITY = u ''legality''"
| "parser_class_str PC_COLOR = u ''color''"
| "parser_class_str PC_TEXT = u ''text''"
| "parser_class_str PC_DATE = u ''date''"
| "parser_class_str PC_YEAR = u ''year''"

definition field_info_repr :: "field_info \<Rightarrow> pstr" where
  "field_info_repr f =
     u ''FieldInfo(db_column_name='' @ db_column_name f @ u '', field_type='' @ field_type_str (fi_field_type f)
     @ u '', search_aliases='' @ val_repr (PVList (map PVStr (search_aliases f)))
     @ u '', parser_class='' @ parser_class_str (fi_parser_class f) @ u '')''"

fun node_repr :: "node \<Rightarrow> pstr" where
  "node_repr (StringValueNode s) = u ''StringValueNode('' @ repr_str s @ u '')''"
| "node_repr (NumericValueNode n) = u ''NumericValueNode('' @ num_str n @ u '')''"
| "node_repr (ManaValueNode s) = u ''ManaValueNode('' @ repr_str s @ u '')''"
| "node_repr (RegexValueNode s) = u ''RegexValueNode('' @ repr_str s @ u '')''"
| "node_repr (AttributeNode a) = u ''AttributeNode('' @ a @ u '')''"
| "node_repr (CardAttributeNode orig pc fis a) =
     u ''CardAttributeNode(attribute_name='' @ a @ u '', matched_parser_class='' @ parser_class_str pc
     @ u '', field_infos=['' @ py_join (u '', '') (map field_info_repr fis) @ u ''])''"
| "node_repr (BinaryOperatorNode l op r) =
     u ''BinaryOperatorNode('' @ node_repr l @ u '', '' @ op @ u '', '' @ node_repr r @ u '')''"
| "node_repr (CardBinaryOperatorNode l op r) =
     u ''CardBinaryOperatorNode('' @ node_repr l @ u '', '' @ op @ u '', '' @ node_repr r @ u '')''"
| "node_repr (AndNode ops) = u ''AndNode('' @ py_join (u '', '') (map node_repr ops) @ u '')''"
| "node_repr (OrNode ops) = u ''OrNode('' @ py_join (u '', '') (map node_repr ops) @ u '')''"
| "node_repr (NotNode n) = u ''Not('' @ node_repr n @ u '')''"
| "node_repr TrueNode = u ''TrueNode()''"
| "node_repr (ExactNameNode s) = u ''ExactNameNode('' @ repr_str s @ u '')''"
| "node_repr (Query n) = u ''Query('' @ node_repr n @ u '')''"

section \<open>Explanations\<close>

definition attribute_name_map :: "(pstr \<times> pstr) list" where
  "attribute_name_map =
    [(u ''cmc'', u ''mana value''),
     (u ''creature_power'', u ''power''),
     (u ''creature_toughness'', u ''toughness''),
     (u ''card_color_identity'', u ''color identity''),
     (u ''card_colors'', u ''color''),
     (u ''card_name'', u ''name''),
     (u ''oracle_text'', u ''oracle text''),
     (u ''card_types'', u ''type''),
     (u ''card_subtypes'', u ''subtype''),
     (u ''card_rarity_int'', u ''rarity''),
     (u ''card_legalities'', u ''format''),
     (u ''card_artist'', u ''artist''),
     (u ''card_set_code'', u ''set''),
     (u ''mana_cost_jsonb'', u ''mana cost''),
     (u ''planeswalker_loyalty'', u ''loyalty''),
     (u ''type_line'', u ''type line''),
     (u ''flavor_text'', u ''flavor text''),
     (u ''card_keywords'', u ''keyword''),
     (u ''card_layout'', u ''layout''),
     (u ''card_border'', u ''border''),
     (u ''card_watermark'', u ''watermark''),
     (u ''released_at'', u ''release date''),
     (u ''collector_number'', u ''collector number''),
     (u ''price_usd'', u ''price (USD)''),
     (u ''price_eur'', u ''price (EUR)''),
     (u ''price_tix'', u ''price (TIX)''),
     (u ''edhrec_rank'', u ''EDHREC rank'')]"

definition dict_get :: "('k \<times> 'v) list \<Rightarrow> 'k \<Rightarrow> 'v \<Rightarrow> 'v" where
  "dict_get d k dflt = (case map_of d k of Some v \<Rightarrow> v | None \<Rightarrow> dflt)"

definition explain_attribute :: "pstr \<Rightarrow> pstr" where
  "explain_attribute a = dict_get attribute_name_map a (py_replace (u ''_'') (u '' '') a)"

definition operator_map :: "(pstr \<times> pstr) list" where
  "operator_map =
    [(u ''='', u ''is''), (u ''!='', u ''is not''), (u ''>='', [8805]), (u ''<='', [8804]),
     (u '':'', u ''contains''), (u ''*'', [215]), (u ''/'', [247])]"

definition explain_string :: "pstr \<Rightarrow> node \<Rightarrow> pstr" where
  "explain_string raw context_node =
     (let value = py_strip raw in
      case context_node of
        CardAttributeNode _ _ _ a \<Rightarrow>
          (let col = py_lower a; name_of = (\<lambda>c. py_capitalize (dict_get COLOR_CODE_TO_NAME c [])) in
           if col \<in> {u ''card_colors'', u ''card_color_identity''}
              \<and> length value = 1 \<and> py_lower value \<in> fst ` set COLOR_CODE_TO_NAME
           then name_of (py_lower value)
           else if col \<in> {u ''card_colors'', u ''card_color_identity''}
              \<and> length value \<le> 5 \<and> list_all (\<lambda>c. py_lower [c] \<in> fst ` set COLOR_CODE_TO_NAME) value
           then py_join (u ''/'') (map (\<lambda>c. name_of (py_lower [c])) (py_lower value))
           else if col = u ''card_legalities'' \<and> py_lower value \<in> fst ` set FORMAT_CODE_TO_NAME
           then py_capitalize (dict_get FORMAT_CODE_TO_NAME (py_lower value) [])
           else value)
      | _ \<Rightarrow> value)"

definition format_card_attribute_explanation :: "pstr \<Rightarrow> pstr \<Rightarrow> pstr \<Rightarrow> pstr \<Rightarrow> pstr" where
  "format_card_attribute_explanation a operator operator_str rhs_str =
     (let col = py_lower a; eq = (operator = u ''='' \<or> operator = u '':'') in
      if col = u ''card_color_identity'' \<and> eq then u ''the color identity is '' @ rhs_str
      else if col = u ''card_legalities'' \<and> eq then u ''it'' @ [39] @ u ''s legal in '' @ rhs_str
      else if col = u ''card_colors'' \<and> eq then u ''the color is '' @ rhs_str
      else if col = u ''creature_power'' then u ''the power '' @ operator_str @ u '' '' @ rhs_str
      else if col = u ''creature_toughness'' then u ''the toughness '' @ operator_str @ u '' '' @ rhs_str
      else if col = u ''cmc'' then u ''the mana value '' @ operator_str @ u '' '' @ rhs_str
      else if col = u ''card_name'' \<and> eq then u ''the name contains '' @ rhs_str
      else if col = u ''oracle_text'' \<and> eq then u ''the oracle text contains '' @ rhs_str
      else if col = u ''card_types'' \<and> eq then u ''the type contains '' @ rhs_str
      else if col = u ''card_rarity_int'' then u ''the rarity '' @ operator_str @ u '' '' @ rhs_str
      else if col = u ''card_artist'' \<and> eq then u ''the artist contains '' @ rhs_str
      else if col = u ''card_set_code'' \<and> eq then u ''the set contains '' @ rhs_str
      else explain_attribute a @ u '' '' @ operator_str @ u '' '' @ rhs_str)"

text \<open>\<open>CardBinaryOperatorNode.to_human_explanation\<close>, given the explanations of its two operands.\<close>

definition explain_card_binary :: "node \<Rightarrow> pstr \<Rightarrow> node \<Rightarrow> pstr \<Rightarrow> pstr \<Rightarrow> pstr" where
  "explain_card_binary l op r lhs_str rhs_text =
     (let rhs_str = (case r of StringValueNode s \<Rightarrow> explain_string s l | _ \<Rightarrow> rhs_text);
          operator_str = dict_get operator_map op op
      in if (case r of StringValueNode s \<Rightarrow> py_strip s = [] | _ \<Rightarrow> False) then []
         else case l of
           CardAttributeNode _ _ _ a \<Rightarrow> format_card_attribute_explanation a op operator_str rhs_str
         | _ \<Rightarrow> lhs_str @ u '' '' @ operator_str @ u '' '' @ rhs_str)"

text \<open>An operand of an \<open>OrNode\<close> that is an \<open>AndNode\<close> of several operands gets parentheses.\<close>

definition or_part :: "node \<Rightarrow> pstr \<Rightarrow> pstr" where
  "or_part op explanation =
     (case op of AndNode xs \<Rightarrow> if length xs > 1 then u ''('' @ explanation @ u '')'' else explanation
      | _ \<Rightarrow> explanation)"

fun to_human_explanation :: "node \<Rightarrow> pstr" where
  "to_human_explanation (StringValueNode s) = s"
| "to_human_explanation (NumericValueNode n) = num_str n"
| "to_human_explanation (ManaValueNode s) = s"
| "to_human_explanation (RegexValueNode s) = s"
| "to_human_explanation (AttributeNode a) = py_replace (u ''_'') (u '' '') a"
| "to_human_explanation (CardAttributeNode orig pc fis a) = explain_attribute a"
| "to_human_explanation (BinaryOperatorNode l op r) =
     to_human_explanation l @ u '' '' @ dict_get operator_map op op @ u '' '' @ to_human_explanation r"
| "to_human_explanation (CardBinaryOperatorNode l op r) =
     explain_card_binary l op r (to_human_explanation l) (to_human_explanation r)"
| "to_human_explanation (AndNode ops) =
     (case ops of
        [] \<Rightarrow> [] | [x] \<Rightarrow> to_human_explanation x
      | _ \<Rightarrow> py_join (u '' and '') (map to_human_explanation ops))"
| "to_human_explanation (OrNode ops) =
     (case ops of
        [] \<Rightarrow> [] | [x] \<Rightarrow> to_human_explanation x
      | _ \<Rightarrow> u ''('' @ py_join (u '' or '') (map (\<lambda>op. or_part op (to_human_explanation op)) ops) @ u '')'')"
| "to_human_explanation (NotNode n) = u ''not ('' @ to_human_explanation n @ u '')''"
| "to_human_explanation TrueNode = []"
| "to_human_explanation (ExactNameNode s) = u ''exact name is \"'' @ s @ u ''\"''"
| "to_human_explanation (Query n) = to_human_explanation n"

end
