(* ===== verification/Card_Sql.thy ===== *)
theory Card_Sql
  imports Node_Text
begin

text \<open>
  SQL generation: \<open>to_sql\<close> of the node classes (\<open>src/api/parsing/nodes.py\<close>,
  \<open>src/api/parsing/card_query_nodes.py\<close>) and \<open>generate_sql_query\<close>. The methods register parameters in
  the context and some of them assign to \<open>self.operator\<close>, \<open>self.rhs\<close>, \<open>self.rhs.value\<close> or
  \<open>self.lhs.attribute_name\<close>; the model returns the text, the node as the call leaves it, and the
  context. The \<open>titlecase\<close> package is the parameter \<open>tc\<close>.
\<close>

section \<open>Right-hand sides\<close>

fun node_value :: "node \<Rightarrow> pyval option" where
  "node_value (StringValueNode s) = Some (PVStr s)"
| "node_value (NumericValueNode n) = Some (PVNum n)"
| "node_value (ManaValueNode s) = Some (PVStr s)"
| "node_value (RegexValueNode s) = Some (PVStr s)"
| "node_value _ = None"

text \<open>\<open>self.rhs.value\<close> where a string method follows: \<open>AttributeError\<close> on a number or a node without value.\<close>

fun rhs_text :: "node \<Rightarrow> pstr result" where
  "rhs_text (StringValueNode s) = Inr s"
| "rhs_text (ManaValueNode s) = Inr s"
| "rhs_text (RegexValueNode s) = Inr s"
| "rhs_text (ExactNameNode s) = Inr s"
| "rhs_text _ = Inl AttributeError"

fun set_rhs_value :: "node \<Rightarrow> pstr \<Rightarrow> node" where
  "set_rhs_value (StringValueNode _) v = StringValueNode v"
| "set_rhs_value (ManaValueNode _) v = ManaValueNode v"
| "set_rhs_value (RegexValueNode _) v = RegexValueNode v"
| "set_rhs_value (ExactNameNode _) v = ExactNameNode v"
| "set_rhs_value n v = n"

text \<open>
  What a handler does: it returns the text, with the node as it left it, or goes on to
  \<open>super().to_sql(context)\<close> with the operator and right-hand side it assigned.
\<close>

datatype action =
    Finished pstr pstr pstr node query_context
      \<comment> \<open>text, attribute name, operator, right-hand side, context\<close>
  | CallSuper pstr node

definition lhs_to_sql :: "pstr \<Rightarrow> pstr" where
  "lhs_to_sql a = u ''card.'' @ a"

section \<open>Handlers\<close>

definition handle_numeric_comparison :: "pstr \<Rightarrow> node \<Rightarrow> action result" where
  "handle_numeric_comparison op r = Inr (CallSuper (if op = u '':'' then u ''='' else op) r)"

definition handle_rarity_comparison :: "pstr \<Rightarrow> node \<Rightarrow> action result" where
  "handle_rarity_comparison op r =
     (case r of
        StringValueNode s \<Rightarrow>
          bindr (get_rarity_number s) (\<lambda>n. handle_numeric_comparison op (NumericValueNode (PyInt n)))
      | _ \<Rightarrow> handle_numeric_comparison op r)"

definition handle_text_comparison :: "(pstr \<Rightarrow> pstr) \<Rightarrow> pstr \<Rightarrow> pstr \<Rightarrow> node \<Rightarrow> action result" where
  "handle_text_comparison tc a op r =
     (if a \<in> {u ''card_artist'', u ''card_name''} then
        bindr (rhs_text r) (\<lambda>s. Inr (CallSuper op (set_rhs_value r (tc s))))
      else if a \<in> {u ''set'', u ''card_set_code''} then
        bindr (rhs_text r) (\<lambda>s. Inr (CallSuper op (set_rhs_value r (py_lower s))))
      else Inr (CallSuper op r))"

definition handle_text_field_pattern_matching :: "query_context \<Rightarrow> pstr \<Rightarrow> pstr \<Rightarrow> node \<Rightarrow> action result" where
  "handle_text_field_pattern_matching ctx a op r =
     (let like_sql = (\<lambda>s.
            let txt_val = py_strip s;
                lhs_sql = (if a = u ''card_name'' then u ''card.card_name_folded'' else lhs_to_sql a);
                txt_val = (if a = u ''card_name'' then fold_accents txt_val else txt_val)
            in bindr (context_add ctx (PVStr (like_words_pattern txt_val))) (\<lambda>(ph, ctx).
                 Inr (Finished (u ''(lower('' @ lhs_sql @ u '') LIKE '' @ ph @ u '')'') a op r ctx)))
      in case r of
           RegexValueNode s \<Rightarrow>
             bindr (context_add ctx (PVStr s)) (\<lambda>(ph, ctx).
               Inr (Finished (u ''('' @ lhs_to_sql a @ u '' ~* '' @ ph @ u '')'') a op r ctx))
         | StringValueNode s \<Rightarrow> like_sql s
         | ManaValueNode s \<Rightarrow> like_sql s
         | _ \<Rightarrow> Inl TypeError)"

definition has_value :: "node \<Rightarrow> bool" where
  "has_value r \<longleftrightarrow> node_value r \<noteq> None \<or> (case r of ExactNameNode _ \<Rightarrow> True | _ \<Rightarrow> False)"

definition handle_colon_operator :: "query_context \<Rightarrow> field_type \<Rightarrow> pstr \<Rightarrow> pstr \<Rightarrow> node \<Rightarrow> action result" where
  "handle_colon_operator ctx ft a op r =
     (if ft = FT_TEXT then
        (if a \<in> {u ''card_set_code'', u ''card_layout'', u ''card_border'', u ''card_watermark'', u ''collector_number''} then
           bindr (if a \<noteq> u ''collector_number'' \<and> has_value r
                  then bindr (rhs_text r) (\<lambda>s. Inr (set_rhs_value r (py_lower s))) else Inr r) (\<lambda>r.
             Inr (CallSuper (if op = u '':'' then u ''='' else op) r))
         else handle_text_field_pattern_matching ctx a op r)
      else Inl NotImplementedError)"

definition mana_sql :: "pstr \<Rightarrow> pstr \<Rightarrow> pstr \<Rightarrow> pstr result" where
  "mana_sql op mana cmc =
     (let m = u ''card.mana_cost_jsonb''; c = u ''card.cmc'' in
      if op = u ''='' then Inr (u ''('' @ m @ u '' = '' @ mana @ u '' AND '' @ c @ u '' = '' @ cmc @ u '')'')
      else if op = u ''<='' then Inr (u ''('' @ m @ u '' <@ '' @ mana @ u '' AND '' @ c @ u '' <= '' @ cmc @ u '')'')
      else if op = u ''<'' then
        Inr (u ''('' @ m @ u '' <@ '' @ mana @ u '' AND '' @ c @ u '' <= '' @ cmc @ u '' AND '' @ m @ u '' <> '' @ mana @ u '')'')
      else if op = u ''>='' then Inr (u ''('' @ mana @ u '' <@ '' @ m @ u '' AND '' @ c @ u '' >= '' @ cmc @ u '')'')
      else if op = u ''>'' then
        Inr (u ''('' @ mana @ u '' <@ '' @ m @ u '' AND '' @ c @ u '' >= '' @ cmc @ u '' AND '' @ m @ u '' <> '' @ mana @ u '')'')
      else Inl ValueError)"

definition handle_mana_cost_approximate_comparison ::
  "query_context \<Rightarrow> pstr \<Rightarrow> pstr \<Rightarrow> node \<Rightarrow> pstr \<Rightarrow> action result" where
  "handle_mana_cost_approximate_comparison ctx a op r mana_cost_str =
     bindr (calculate_cmc mana_cost_str) (\<lambda>query_cmc.
       bindr (context_add ctx (PVDict (mana_cost_str_to_dict mana_cost_str))) (\<lambda>(mana, ctx).
         bindr (context_add ctx (PVNum (PyInt query_cmc))) (\<lambda>(cmc, ctx).
           bindr (mana_sql op mana cmc) (\<lambda>sql. Inr (Finished sql a op r ctx)))))"

definition handle_mana_cost_comparison :: "query_context \<Rightarrow> pstr \<Rightarrow> pstr \<Rightarrow> node \<Rightarrow> action result" where
  "handle_mana_cost_comparison ctx a op r =
     (if \<not> has_value r then Inl AttributeError
      else let op = (if op = u '':'' then u ''>='' else op) in
        if op \<in> {u ''<='', u ''<'', u ''>='', u ''>'', u ''=''}
        then bindr (rhs_text r) (handle_mana_cost_approximate_comparison ctx a op r)
        else Inl AssertionError)"

definition search_value :: "node \<Rightarrow> pyval" where
  "search_value r = (case r of
      StringValueNode s \<Rightarrow> PVStr s
    | NumericValueNode n \<Rightarrow> PVNum n
    | _ \<Rightarrow> PVStr (node_repr r))"

definition handle_date_search :: "query_context \<Rightarrow> pstr \<Rightarrow> pstr \<Rightarrow> node \<Rightarrow> action result" where
  "handle_date_search ctx a op r =
     (let operator = (if op = u '':'' then u ''='' else op) in
      bindr (context_add ctx (search_value r)) (\<lambda>(ph, ctx).
        Inr (Finished (u ''(card.released_at '' @ operator @ u '' '' @ ph @ u '')'') a op r ctx)))"

definition year_of :: "pyval \<Rightarrow> int result" where
  "year_of v = (case v of
      PVStr s \<Rightarrow> if length s = 4 \<and> py_isdigit s then (case py_int s of Some i \<Rightarrow> Inr i | None \<Rightarrow> Inl ValueError) else Inl ValueError
    | PVNum n \<Rightarrow> Inr (num_int n)
    | _ \<Rightarrow> Inl ValueError)"

definition start_of_year :: "int \<Rightarrow> pyval" where
  "start_of_year y = PVStr (int_str y @ u ''-01-01'')"

definition handle_year_search :: "query_context \<Rightarrow> pstr \<Rightarrow> pstr \<Rightarrow> node \<Rightarrow> action result" where
  "handle_year_search ctx a op r =
     (let operator = (if op = u '':'' then u ''='' else op) in
      bindr (year_of (search_value r)) (\<lambda>year_value.
        if operator = u ''='' then
          bindr (context_add ctx (start_of_year year_value)) (\<lambda>(p_start, ctx).
          bindr (context_add ctx (start_of_year (year_value + 1))) (\<lambda>(p_end, ctx).
            Inr (Finished (u ''('' @ p_start @ u '' <= card.released_at AND card.released_at < '' @ p_end @ u '')'') a op r ctx)))
        else if operator = u ''>'' then
          bindr (context_add ctx (start_of_year (year_value + 1))) (\<lambda>(ph, ctx).
            Inr (Finished (u ''(card.released_at >= '' @ ph @ u '')'') a op r ctx))
        else if operator = u ''<'' then
          bindr (context_add ctx (start_of_year year_value)) (\<lambda>(ph, ctx).
            Inr (Finished (u ''(card.released_at < '' @ ph @ u '')'') a op r ctx))
        else if operator = u ''>='' then
          bindr (context_add ctx (start_of_year year_value)) (\<lambda>(ph, ctx).
            Inr (Finished (u ''(card.released_at >= '' @ ph @ u '')'') a op r ctx))
        else if operator = u ''<='' then
          bindr (context_add ctx (start_of_year (year_value + 1))) (\<lambda>(ph, ctx).
            Inr (Finished (u ''(card.released_at < '' @ ph @ u '')'') a op r ctx))
        else Inl ValueError))"

definition int_array :: "nat list \<Rightarrow> pyval" where
  "int_array ms = PVIntArray (map int ms)"

text \<open>The object to compare with, for every attribute but the colours.\<close>

definition jsonb_object_rhs :: "pstr \<Rightarrow> pstr \<Rightarrow> pstr \<Rightarrow> pydict result" where
  "jsonb_object_rhs orig a val =
     (if a = u ''devotion'' then Inr (calculate_devotion val)
      else if a = u ''card_keywords'' then Inr (get_keywords_comparison_object val)
      else if a = u ''card_frame_data'' then Inr (get_frame_data_comparison_object val)
      else if a = u ''card_oracle_tags'' then Inr (get_oracle_tags_comparison_object val)
      else if a = u ''card_art_tags'' then Inr (get_art_tags_comparison_object val)
      else if a = u ''card_is_tags'' then Inr (get_is_tags_comparison_object val)
      else if a = u ''card_legalities'' then get_legality_comparison_object val orig
      else Inl ValueError)"

definition jsonb_object_attrs :: "pstr list" where
  "jsonb_object_attrs =
    [u ''card_colors'', u ''card_color_identity'', u ''produced_mana'', u ''devotion'', u ''card_keywords'', u ''card_frame_data'',
     u ''card_oracle_tags'', u ''card_art_tags'', u ''card_is_tags'', u ''card_legalities'']"

definition jsonb_object_sql :: "pstr \<Rightarrow> pstr \<Rightarrow> pstr \<Rightarrow> pstr result" where
  "jsonb_object_sql lhs_sql op ph =
     (if op = u ''='' then Inr (u ''('' @ lhs_sql @ u '' = '' @ ph @ u '')'')
      else if op \<in> {u ''>='', u '':''} then Inr (u ''('' @ lhs_sql @ u '' @> '' @ ph @ u '')'')
      else if op = u ''<='' then Inr (u ''('' @ lhs_sql @ u '' <@ '' @ ph @ u '')'')
      else if op = u ''>'' then
        Inr (u ''('' @ lhs_sql @ u '' @> '' @ ph @ u '' AND '' @ lhs_sql @ u '' <> '' @ ph @ u '')'')
      else if op = u ''<'' then
        Inr (u ''('' @ lhs_sql @ u '' <@ '' @ ph @ u '' AND '' @ lhs_sql @ u '' <> '' @ ph @ u '')'')
      else if op \<in> {u ''!='', u ''<>''} then Inr (u ''('' @ lhs_sql @ u '' <> '' @ ph @ u '')'')
      else Inl ValueError)"

definition mask_sql :: "pstr \<Rightarrow> pstr \<Rightarrow> pstr" where
  "mask_sql lhs_sql pmask = u ''(magic.color_identity_mask('' @ lhs_sql @ u '') = ANY('' @ pmask @ u ''::smallint[]))''"

definition handle_jsonb_object :: "query_context \<Rightarrow> pstr \<Rightarrow> pstr \<Rightarrow> pstr \<Rightarrow> node \<Rightarrow> action result" where
  "handle_jsonb_object ctx orig a op r =
     (let lhs_sql = lhs_to_sql a;
          finish = (\<lambda>ph ctx. bindr (jsonb_object_sql lhs_sql op ph) (\<lambda>sql. Inr (Finished sql a op r ctx)))
      in if a \<notin> set jsonb_object_attrs then Inl ValueError
         else bindr (rhs_text r) (\<lambda>value.
           let val = py_strip value in
           if a \<in> {u ''card_colors'', u ''card_color_identity'', u ''produced_mana''} then
             bindr (get_colors_comparison_object (py_lower val) a) (\<lambda>rhs.
               let is_color_identity = (a = u ''card_color_identity'') in
               if is_color_identity \<and> op \<in> {u '':'', u ''<=''} then
                 bindr (context_add ctx (int_array (subset_masks (color_dict_to_mask rhs)))) (\<lambda>(pmask, ctx).
                   Inr (Finished (mask_sql lhs_sql pmask) a op r ctx))
               else if is_color_identity \<and> op = u ''<'' then
                 bindr (context_add ctx (int_array (proper_subset_masks (color_dict_to_mask rhs)))) (\<lambda>(pmask, ctx).
                   Inr (Finished (mask_sql lhs_sql pmask) a op r ctx))
               else
                 bindr (context_add ctx (PVDict rhs)) (\<lambda>(ph, ctx).
                   if rhs = [] \<and> op \<in> {u '':'', u ''>=''}
                   then Inr (Finished (u ''('' @ lhs_sql @ u '' = '' @ ph @ u '')'') a op r ctx)
                   else finish ph ctx))
           else bindr (jsonb_object_rhs orig a val) (\<lambda>rhs.
                  bindr (context_add ctx (PVDict rhs)) (\<lambda>(ph, ctx). finish ph ctx))))"

definition resolve_type_column :: "pstr \<Rightarrow> pstr \<Rightarrow> pstr" where
  "resolve_type_column a rhs_val =
     (if py_lower a \<in> {u ''card_types'', u ''card_subtypes'', u ''type''}
      then (if rhs_val \<in> set (CARD_SUPERTYPES @ CARD_TYPES) then u ''card_types'' else u ''card_subtypes'')
      else a)"

definition jsonb_array_sql :: "pstr \<Rightarrow> pstr \<Rightarrow> pstr \<Rightarrow> pstr result" where
  "jsonb_array_sql col op q =
     (let col_in_q = u ''('' @ col @ u '' <@ '' @ q @ u '')''; q_in_col = u ''('' @ q @ u '' <@ '' @ col @ u '')'' in
      if op = u ''='' then Inr (col_in_q @ u '' AND '' @ q_in_col)
      else if op \<in> {u ''>='', u '':''} then Inr q_in_col
      else if op = u ''<='' then Inr col_in_q
      else if op = u ''>'' then Inr (q_in_col @ u '' AND NOT'' @ col_in_q)
      else if op = u ''<'' then Inr (col_in_q @ u '' AND NOT'' @ q_in_col)
      else if op \<in> {u ''!='', u ''<>''} then Inr (u ''NOT('' @ col_in_q @ u '' AND '' @ q_in_col @ u '')'')
      else Inl ValueError)"

definition handle_jsonb_array :: "query_context \<Rightarrow> pstr \<Rightarrow> pstr \<Rightarrow> node \<Rightarrow> action result" where
  "handle_jsonb_array ctx a op r =
     bindr (rhs_text r) (\<lambda>value.
       let rhs_val = py_title (py_strip value);
           a = resolve_type_column a rhs_val
       in bindr (context_add ctx (PVList [PVStr rhs_val])) (\<lambda>(query, ctx).
            bindr (jsonb_array_sql (lhs_to_sql a) op query) (\<lambda>sql. Inr (Finished sql a op r ctx))))"

definition handle_card_attribute ::
  "(pstr \<Rightarrow> pstr) \<Rightarrow> query_context \<Rightarrow> pstr \<Rightarrow> field_info list \<Rightarrow> pstr \<Rightarrow> pstr \<Rightarrow> node \<Rightarrow> action result" where
  "handle_card_attribute tc ctx orig fis a op r =
     (case fis of
        [] \<Rightarrow> Inl ValueError
      | fi # _ \<Rightarrow>
          (let ft = fi_field_type fi; pc = fi_parser_class fi in
           if a \<in> {u ''mana_cost_text'', u ''mana_cost_jsonb''} then handle_mana_cost_comparison ctx a op r
           else if pc = PC_DATE then handle_date_search ctx a op r
           else if pc = PC_YEAR then handle_year_search ctx a op r
           else if pc = PC_NUMERIC then handle_numeric_comparison op r
           else if pc = PC_RARITY then handle_rarity_comparison op r
           else if ft = FT_JSONB_OBJECT then handle_jsonb_object ctx orig a op r
           else if ft = FT_JSONB_ARRAY then handle_jsonb_array ctx a op r
           else if op = u '':'' then handle_colon_operator ctx ft a op r
           else if ft = FT_TEXT then handle_text_comparison tc a op r
           else Inl NotImplementedError))"

section \<open>\<open>to_sql\<close>\<close>

definition binary_sql :: "pstr \<Rightarrow> pstr \<Rightarrow> pstr \<Rightarrow> pstr" where
  "binary_sql l op r = u ''('' @ l @ u '' '' @ (if op = u '':'' then u ''='' else op) @ u '' '' @ r @ u '')''"

type_synonym sql_result = "(pstr \<times> node \<times> query_context) result"

definition value_sql :: "node \<Rightarrow> pyval \<Rightarrow> query_context \<Rightarrow> sql_result" where
  "value_sql n v ctx = bindr (context_add ctx v) (\<lambda>(ph, ctx). Inr (ph, n, ctx))"

definition nary_sql :: "pstr \<Rightarrow> pstr \<Rightarrow> pstr list \<Rightarrow> pstr" where
  "nary_sql operator empty_result parts =
     (case parts of
        [] \<Rightarrow> empty_result
      | [s] \<Rightarrow> s
      | _ \<Rightarrow> u ''('' @ py_join (u '' '' @ operator @ u '' '') parts @ u '')'')"

text \<open>The operands of an n-ary node, left to right, with the context threaded through.\<close>

fun sql_list :: "('n \<Rightarrow> 'c \<Rightarrow> 'e + ('s \<times> 'm \<times> 'c)) \<Rightarrow> 'n list \<Rightarrow> 'c \<Rightarrow> 'e + ('s list \<times> 'm list \<times> 'c)" where
  "sql_list f [] ctx = Inr ([], [], ctx)"
| "sql_list f (n # ns) ctx =
     bindr (f n ctx) (\<lambda>(s, m, ctx).
       bindr (sql_list f ns ctx) (\<lambda>(ss, ms, ctx). Inr (s # ss, m # ms, ctx)))"

lemma sql_list_cong [fundef_cong]:
  "ns = ms \<Longrightarrow> c = d \<Longrightarrow> (\<And>n c. n \<in> set ms \<Longrightarrow> f n c = g n c) \<Longrightarrow> sql_list f ns c = sql_list g ms d"
proof (induction ms arbitrary: ns c d)
  case (Cons m ms)
  then show ?case by (auto intro!: bindr_cong)
qed simp

fun to_sql :: "(pstr \<Rightarrow> pstr) \<Rightarrow> node \<Rightarrow> query_context \<Rightarrow> sql_result" where
  "to_sql tc (StringValueNode s) ctx = value_sql (StringValueNode s) (PVStr s) ctx"
| "to_sql tc (NumericValueNode n) ctx = value_sql (NumericValueNode n) (PVNum n) ctx"
| "to_sql tc (ManaValueNode s) ctx = value_sql (ManaValueNode s) (PVStr s) ctx"
| "to_sql tc (RegexValueNode s) ctx = value_sql (RegexValueNode s) (PVStr s) ctx"
| "to_sql tc (AttributeNode a) ctx = Inr (lhs_to_sql a, AttributeNode a, ctx)"
| "to_sql tc (CardAttributeNode orig pc fis a) ctx = Inr (lhs_to_sql a, CardAttributeNode orig pc fis a, ctx)"
| "to_sql tc (BinaryOperatorNode l op r) ctx =
     bindr (to_sql tc l ctx) (\<lambda>(ls, l, ctx).
       bindr (to_sql tc r ctx) (\<lambda>(rs, r, ctx). Inr (binary_sql ls op rs, BinaryOperatorNode l op r, ctx)))"
| "to_sql tc (CardBinaryOperatorNode l op r) ctx =
     (case l of
        CardAttributeNode orig pc fis a \<Rightarrow>
          bindr (handle_card_attribute tc ctx orig fis a op r) (\<lambda>act.
            case act of
              Finished sql a op r ctx \<Rightarrow> Inr (sql, CardBinaryOperatorNode (CardAttributeNode orig pc fis a) op r, ctx)
            | CallSuper op r' \<Rightarrow>
                bindr (case node_value r' of Some v \<Rightarrow> value_sql r' v ctx | None \<Rightarrow> to_sql tc r ctx)
                  (\<lambda>(rs, r, ctx). Inr (binary_sql (lhs_to_sql a) op rs, CardBinaryOperatorNode l op r, ctx)))
      | _ \<Rightarrow>
          bindr (to_sql tc l ctx) (\<lambda>(ls, l, ctx).
            bindr (to_sql tc r ctx) (\<lambda>(rs, r, ctx). Inr (binary_sql ls op rs, CardBinaryOperatorNode l op r, ctx))))"
| "to_sql tc (AndNode ops) ctx =
     bindr (sql_list (to_sql tc) ops ctx) (\<lambda>(parts, ops, ctx).
       Inr (nary_sql (u ''AND'') (u ''TRUE'') parts, AndNode ops, ctx))"
| "to_sql tc (OrNode ops) ctx =
     bindr (sql_list (to_sql tc) ops ctx) (\<lambda>(parts, ops, ctx).
       Inr (nary_sql (u ''OR'') (u ''FALSE'') parts, OrNode ops, ctx))"
| "to_sql tc (NotNode n) ctx =
     bindr (to_sql tc n ctx) (\<lambda>(s, n, ctx). Inr (u ''NOT ('' @ s @ u '')'', NotNode n, ctx))"
| "to_sql tc TrueNode ctx = Inr (u ''TRUE'', TrueNode, ctx)"
| "to_sql tc (ExactNameNode v) ctx =
     bindr (context_add ctx (PVStr (escape_like_pattern (py_lower v)))) (\<lambda>(ph, ctx).
       Inr (u ''(lower(card.card_name) LIKE '' @ ph @ u '')'', ExactNameNode v, ctx))"
| "to_sql tc (Query n) ctx = bindr (to_sql tc n ctx) (\<lambda>(s, n, ctx). Inr (s, Query n, ctx))"

definition generate_sql_query :: "(pstr \<Rightarrow> pstr) \<Rightarrow> node \<Rightarrow> sql_result" where
  "generate_sql_query tc parsed_query = to_sql tc parsed_query []"

end
