(* ===== verification/Sql_Safe.thy ===== *)
theory Sql_Safe
  imports Card_Sql Parser_Contracts
begin

text \<open>
  Safety of the SQL generator on the trees the parser returns: the text is made of plain
  characters and of placeholders that the context binds, whatever the query holds, and only
  the documented errors are raised. The composition rules are proved over the interface
  \<open>sql_store\<close> (an invariant of the parameter store, its growth order, and the texts that are safe
  with respect to a store), which the query context provides.
\<close>

section \<open>Safe texts\<close>

text \<open>Characters of the generated text: no quote, semicolon, dollar, backslash, percent or control character.\<close>

definition plain_c :: "nat \<Rightarrow> bool" where
  "plain_c c \<longleftrightarrow> 32 \<le> c \<and> c < 127 \<and> c \<notin> {34, 36, 37, 39, 59, 92, 96}"

definition sql_char :: "nat \<Rightarrow> bool" where
  "sql_char c \<longleftrightarrow> plain_c c \<or> c = 37"

definition sql_part :: "query_context \<Rightarrow> pstr \<Rightarrow> bool" where
  "sql_part ctx s \<longleftrightarrow> list_all sql_char s \<and> (\<exists>ns. sql_names s = Some ns \<and> set ns \<subseteq> dom (map_of ctx))"

definition ctx_le :: "query_context \<Rightarrow> query_context \<Rightarrow> bool" where
  "ctx_le c d \<longleftrightarrow> map_of c \<subseteq>\<^sub>m map_of d"

locale sql_store =
  fixes ok :: "'c \<Rightarrow> bool" and le :: "'c \<Rightarrow> 'c \<Rightarrow> bool" and part :: "'c \<Rightarrow> pstr \<Rightarrow> bool"
  assumes le_refl: "le c c"
    and le_trans: "le c d \<Longrightarrow> le d e \<Longrightarrow> le c e"
    and part_mono: "le c d \<Longrightarrow> part c s \<Longrightarrow> part d s"
    and part_append: "part c s \<Longrightarrow> part c t \<Longrightarrow> part c (s @ t)"
    and part_text: "list_all plain_c s \<Longrightarrow> part c s"
begin

lemma part_Nil: "part c []"
  by (rule part_text) simp

lemma part_Cons: "plain_c x \<Longrightarrow> part c s \<Longrightarrow> part c (x # s)"
  using part_append[of c "[x]" s] part_text[of "[x]" c] by simp

lemma part_lit: "list_all plain_c (u s) \<Longrightarrow> part c (u s)"
  by (rule part_text)

lemma part_join: "list_all plain_c sep \<Longrightarrow> \<forall>s \<in> set ss. part c s \<Longrightarrow> part c (py_join sep ss)"
proof (induction ss)
  case Nil
  then show ?case by (simp add: part_text)
next
  case (Cons s ss)
  then show ?case by (cases ss) (simp_all add: part_append part_text)
qed

text \<open>The post-condition of a call: an error of \<open>E\<close>, or a grown store and a safe text.\<close>

definition post :: "exn set \<Rightarrow> 'c \<Rightarrow> (pstr \<times> 'n \<times> 'c) result \<Rightarrow> bool" where
  "post E c r = (case r of Inl e \<Rightarrow> e \<in> E | Inr (s, n, d) \<Rightarrow> ok d \<and> le c d \<and> part d s)"

lemma post_bind:
  assumes "post E c r" "\<And>s n d. ok d \<Longrightarrow> le c d \<Longrightarrow> part d s \<Longrightarrow> post E c (f (s, n, d))"
  shows "post E c (bindr r f)"
proof (cases r)
  case (Inl e)
  with assms(1) show ?thesis by (simp add: post_def)
next
  case (Inr x)
  then obtain s n d where "r = Inr (s, n, d)" by (cases x) auto
  with assms show ?thesis by (simp add: post_def)
qed

lemma post_later: "le c d \<Longrightarrow> post E d r \<Longrightarrow> post E c r"
  by (auto simp: post_def split: sum.splits intro: le_trans)

lemma sql_list_ok:
  assumes "\<And>n c. n \<in> set ns \<Longrightarrow> ok c \<Longrightarrow> post E c (f n c)" "ok c"
  shows "case sql_list f ns c of Inl e \<Rightarrow> e \<in> E
    | Inr (ss, ms, d) \<Rightarrow> ok d \<and> le c d \<and> length ss = length ns \<and> (\<forall>s \<in> set ss. part d s)"
  using assms
proof (induction ns arbitrary: c)
  case Nil
  then show ?case by (simp add: le_refl)
next
  case (Cons n ns)
  have first: "post E c (f n c)" using Cons.prems by simp
  show ?case
  proof (cases "f n c")
    case (Inl e)
    with first show ?thesis by (simp add: post_def)
  next
    case (Inr r)
    then obtain s m d where r: "f n c = Inr (s, m, d)" by (cases r) auto
    with first have d: "ok d" "le c d" "part d s" by (auto simp: post_def)
    with Cons.IH[of d] Cons.prems(1) show ?thesis
      using r by (auto split: sum.splits intro: le_trans part_mono)
  qed
qed

end

lemma sql_names_concat:
  "sql_names s = Some ms \<Longrightarrow> sql_names t = Some ns \<Longrightarrow> sql_names (s @ t) = Some (ms @ ns)"
  by (simp add: sql_names_append)

interpretation store: sql_store ctx_ok ctx_le sql_part
proof
  show "ctx_le c c" for c by (simp add: ctx_le_def)
  show "ctx_le c d \<Longrightarrow> ctx_le d e \<Longrightarrow> ctx_le c e" for c d e unfolding ctx_le_def by (rule map_le_trans)
  show "ctx_le c d \<Longrightarrow> sql_part c s \<Longrightarrow> sql_part d s" for c d s
    using map_le_implies_dom_le by (fastforce simp: ctx_le_def sql_part_def)
  show "sql_part c s \<Longrightarrow> sql_part c t \<Longrightarrow> sql_part c (s @ t)" for c s t
    by (auto simp: sql_part_def sql_names_concat)
  show "list_all plain_c s \<Longrightarrow> sql_part c s" for c s
    by (auto simp: sql_part_def sql_names_plain list_all_iff sql_char_def plain_c_def)
qed

section \<open>Placeholders\<close>

lemma b64_c_plain: "n < 64 \<Longrightarrow> plain_c (b64_c n) \<and> b64_c n \<noteq> 41 \<and> b64_c n \<noteq> 32"
  by (auto simp: b64_c_def plain_c_def)

lemma b64_raw_plain: "list_all is_byte bs \<Longrightarrow> list_all (\<lambda>c. plain_c c \<and> c \<noteq> 41 \<and> c \<noteq> 32) (b64_raw bs)"
  by (induction bs rule: b64_raw.induct) (simp_all add: b64_c_plain sextets)

lemma type_name_chars: "list_all (\<lambda>c. plain_c c \<and> c \<noteq> 41 \<and> c \<noteq> 32) (type_name v)"
  by (cases v rule: type_name.cases) (simp_all add: plain_c_def)

lemma param_name_chars:
  assumes "param_name v = Inr n"
  shows "list_all (\<lambda>c. plain_c c \<and> c \<noteq> 41 \<and> c \<noteq> 32) n"
proof -
  obtain b where b: "utf8_encode (py_str v) = Inr b" and n: "n = u ''p_'' @ type_name v @ u ''_'' @ b64_raw b"
    using assms by (auto simp: param_name_def bindr_Inr_iff b64_stripped utf8_encode_bytes)
  have "list_all (\<lambda>c. plain_c c \<and> c \<noteq> 41 \<and> c \<noteq> 32) (b64_raw b)" by (rule b64_raw_plain[OF utf8_encode_bytes[OF b]])
  then show ?thesis using type_name_chars[of v] unfolding n by (simp add: plain_c_def)
qed

lemma placeholder_part:
  assumes "param_name v = Inr n" "map_of ctx n = Some v"
  shows "sql_part ctx (placeholder n)"
proof -
  have "sql_names (placeholder n) = Some [n]"
    using param_name_chars[OF assms(1)] by (intro sql_names_placeholder) (auto simp: list_all_iff)
  moreover have "list_all sql_char (placeholder n)"
    using param_name_chars[OF assms(1)] by (auto simp: placeholder_def list_all_iff sql_char_def plain_c_def)
  ultimately show ?thesis using assms(2) by (auto simp: sql_part_def)
qed

lemma context_add_cases:
  assumes "ctx_ok ctx" "pval_ok v"
  obtains "context_add ctx v = Inl ValueError"
  | ph ctx' where "context_add ctx v = Inr (ph, ctx')" "ctx_ok ctx'" "ctx_le ctx ctx'" "sql_part ctx' ph"
proof (cases "context_add ctx v")
  case (Inl e)
  then have "e = ValueError"
    by (auto simp: context_add_def param_name_def utf8_encode_def bindr_Inl_iff split: if_splits)
  with Inl that(1) show ?thesis by simp
next
  case (Inr r)
  then obtain ph ctx' where r: "context_add ctx v = Inr (ph, ctx')" by (cases r) auto
  from context_add_ok[OF assms r] that(2)[OF r] placeholder_part show ?thesis by (auto simp: ctx_le_def)
qed

section \<open>Handlers\<close>

text \<open>The errors a query the parser accepted can still raise.\<close>

definition sql_errors :: "exn set" where
  "sql_errors = {ValueError, AssertionError}"

definition action_ok :: "query_context \<Rightarrow> node \<Rightarrow> action result \<Rightarrow> bool" where
  "action_ok ctx r act = (case act of
      Inl e \<Rightarrow> e \<in> sql_errors
    | Inr (Finished s a op r' ctx') \<Rightarrow> ctx_ok ctx' \<and> ctx_le ctx ctx' \<and> sql_part ctx' s
    | Inr (CallSuper op r') \<Rightarrow> op \<in> set bin_ops \<and>
        (case node_value r' of Some v \<Rightarrow> pval_ok v | None \<Rightarrow> r' = r))"

lemma action_ok_simps [simp]:
  "action_ok ctx r (Inl e) \<longleftrightarrow> e \<in> sql_errors"
  "action_ok ctx r (Inr (Finished s a op r' ctx')) \<longleftrightarrow> ctx_ok ctx' \<and> ctx_le ctx ctx' \<and> sql_part ctx' s"
  "action_ok ctx r (Inr (CallSuper op r')) \<longleftrightarrow> op \<in> set bin_ops \<and>
        (case node_value r' of Some v \<Rightarrow> pval_ok v | None \<Rightarrow> r' = r)"
  by (simp_all add: action_ok_def)

lemma action_later: "ctx_le c d \<Longrightarrow> action_ok d r act \<Longrightarrow> action_ok c r act"
  by (auto simp: action_ok_def split: sum.splits action.splits intro: store.le_trans)

text \<open>A handler registers a value and goes on with its placeholder.\<close>

lemma add_then:
  assumes "ctx_ok ctx" "pval_ok v"
    and "\<And>ph ctx'. ctx_ok ctx' \<Longrightarrow> ctx_le ctx ctx' \<Longrightarrow> sql_part ctx' ph \<Longrightarrow> action_ok ctx r (f (ph, ctx'))"
  shows "action_ok ctx r (bindr (context_add ctx v) f)"
  by (rule context_add_cases[OF assms(1,2)]) (auto simp: sql_errors_def intro: assms(3))

definition text_ok :: "query_context \<Rightarrow> pstr result \<Rightarrow> bool" where
  "text_ok c r = (case r of Inl e \<Rightarrow> e = ValueError | Inr s \<Rightarrow> sql_part c s)"

lemma text_ok_if: "text_ok c x \<Longrightarrow> text_ok c y \<Longrightarrow> text_ok c (if b then x else y)"
  by simp

lemma text_ok_Inr: "sql_part c s \<Longrightarrow> text_ok c (Inr s)"
  by (simp add: text_ok_def)

lemma text_ok_Inl: "text_ok c (Inl ValueError)"
  by (simp add: text_ok_def)

lemmas part_rules = store.part_append store.part_lit text_ok_if text_ok_Inr text_ok_Inl

text \<open>The plain characters, one by one.\<close>

lemma plain_ascii:
  "plain_c 32" "plain_c 33" "plain_c 35" "plain_c 38" "plain_c 40" "plain_c 41" "plain_c 42" "plain_c 43"
  "plain_c 44" "plain_c 45" "plain_c 46" "plain_c 47" "plain_c 48" "plain_c 49" "plain_c 50" "plain_c 51"
  "plain_c 52" "plain_c 53" "plain_c 54" "plain_c 55" "plain_c 56" "plain_c 57" "plain_c 58" "plain_c 60"
  "plain_c 61" "plain_c 62" "plain_c 63" "plain_c 64" "plain_c 65" "plain_c 66" "plain_c 67" "plain_c 68"
  "plain_c 69" "plain_c 70" "plain_c 71" "plain_c 72" "plain_c 73" "plain_c 74" "plain_c 75" "plain_c 76"
  "plain_c 77" "plain_c 78" "plain_c 79" "plain_c 80" "plain_c 81" "plain_c 82" "plain_c 83" "plain_c 84"
  "plain_c 85" "plain_c 86" "plain_c 87" "plain_c 88" "plain_c 89" "plain_c 90" "plain_c 91" "plain_c 93"
  "plain_c 94" "plain_c 95" "plain_c 97" "plain_c 98" "plain_c 99" "plain_c 100" "plain_c 101" "plain_c 102"
  "plain_c 103" "plain_c 104" "plain_c 105" "plain_c 106" "plain_c 107" "plain_c 108" "plain_c 109" "plain_c 110"
  "plain_c 111" "plain_c 112" "plain_c 113" "plain_c 114" "plain_c 115" "plain_c 116" "plain_c 117" "plain_c 118"
  "plain_c 119" "plain_c 120" "plain_c 121" "plain_c 122" "plain_c 123" "plain_c 124" "plain_c 125" "plain_c 126"
  by (simp_all add: plain_c_def)

lemma bin_ops_plain: "op \<in> set bin_ops \<Longrightarrow> list_all plain_c op"
  by (auto simp: bin_ops_def plain_c_def)

lemma binary_sql_part:
  "sql_part c l \<Longrightarrow> sql_part c r \<Longrightarrow> op \<in> set bin_ops \<Longrightarrow> sql_part c (binary_sql l op r)"
  unfolding binary_sql_def
  by (intro part_rules) (simp_all add: store.part_text bin_ops_plain plain_ascii)

lemma pip_list_ok: "val_ok_in (pip_list n)"
  by (auto simp: pip_list_def)

lemma mana_dict_ok: "pval_ok (PVDict (mana_cost_str_to_dict s))"
  by (auto simp: pval_ok_def mana_cost_str_to_dict_def pip_list_ok)

lemma devotion_ok: "pval_ok (PVDict (calculate_devotion s))"
  by (auto simp: pval_ok_def calculate_devotion_def pip_list_ok Let_def)

lemma true_dict_values: "(k, v) \<in> set (true_dict ks) \<Longrightarrow> v = PVBool True"
  using map_of_dict_fromkeys[of ks "PVBool True" k] dict_fromkeys_distinct[of ks "PVBool True"]
    map_of_is_SomeI[of "true_dict ks" k v] by (auto simp: true_dict_def split: if_splits)

lemma true_dict_ok: "pval_ok (PVDict (true_dict ks))"
  by (auto simp: pval_ok_def dest!: true_dict_values)

lemma colors_object_ok: "get_colors_comparison_object val a = Inr d \<Longrightarrow> pval_ok (PVDict d)"
  using true_dict_ok
  by (auto simp: get_colors_comparison_object_def Let_def pval_ok_def split: if_splits option.splits)

lemma colors_object_error: "get_colors_comparison_object val a = Inl e \<Longrightarrow> e = ValueError"
  by (auto simp: get_colors_comparison_object_def Let_def split: if_splits option.splits)

lemma legality_object_ok: "get_legality_comparison_object val a = Inr d \<Longrightarrow> pval_ok (PVDict d)"
  by (auto simp: get_legality_comparison_object_def Let_def pval_ok_def split: if_splits)

lemma jsonb_object_rhs_ok: "jsonb_object_rhs orig a val = Inr d \<Longrightarrow> pval_ok (PVDict d)"
  using true_dict_ok devotion_ok legality_object_ok
  by (auto simp: jsonb_object_rhs_def get_keywords_comparison_object_def get_frame_data_comparison_object_def
        get_oracle_tags_comparison_object_def get_art_tags_comparison_object_def get_is_tags_comparison_object_def
      split: if_splits)

lemma jsonb_object_rhs_error: "jsonb_object_rhs orig a val = Inl e \<Longrightarrow> e = ValueError"
  by (auto simp: jsonb_object_rhs_def get_legality_comparison_object_def Let_def split: if_splits)

lemma mana_sql_ok:
  assumes "sql_part c mana" "sql_part c cmc"
  shows "text_ok c (mana_sql op mana cmc)"
  unfolding mana_sql_def Let_def by (intro part_rules) (simp_all add: assms plain_ascii)

lemma jsonb_object_sql_ok:
  assumes "sql_part c l" "sql_part c ph"
  shows "text_ok c (jsonb_object_sql l op ph)"
  unfolding jsonb_object_sql_def Let_def by (intro part_rules) (simp_all add: assms plain_ascii)

lemma jsonb_array_sql_ok:
  assumes "sql_part c l" "sql_part c ph"
  shows "text_ok c (jsonb_array_sql l op ph)"
  unfolding jsonb_array_sql_def Let_def by (intro part_rules) (simp_all add: assms plain_ascii)

lemma text_then:
  assumes "text_ok ctx' t" "ctx_ok ctx'" "ctx_le ctx ctx'"
  shows "action_ok ctx r (bindr t (\<lambda>sql. Inr (Finished sql a op r' ctx')))"
  using assms by (auto simp: text_ok_def sql_errors_def split: sum.splits)

lemma lhs_part: "list_all plain_c a \<Longrightarrow> sql_part c (lhs_to_sql a)"
  unfolding lhs_to_sql_def by (intro part_rules) (simp_all add: store.part_text plain_ascii)

lemma op_not_colon: "op \<in> set op_texts \<Longrightarrow> (if op = u '':'' then u ''='' else op) \<in> set bin_ops"
  using op_texts_bin_ops by (auto simp: bin_ops_def)

text \<open>A one-parameter text \<open>(before placeholder after)\<close>.\<close>

lemma add_text:
  assumes "ctx_ok ctx" "pval_ok v" "list_all plain_c b" "list_all plain_c e"
  shows "action_ok ctx r (bindr (context_add ctx v) (\<lambda>(ph, ctx). Inr (Finished (b @ ph @ e) a op r' ctx)))"
  by (rule add_then[OF assms(1,2)]) (auto intro!: store.part_append simp: store.part_text assms(3,4))

lemma numeric_action: "op \<in> set op_texts \<Longrightarrow> (case node_value r' of Some v \<Rightarrow> pval_ok v | None \<Rightarrow> r' = r) \<Longrightarrow>
    action_ok ctx r (handle_numeric_comparison op r')"
  using op_not_colon[of op] by (simp add: handle_numeric_comparison_def)

lemma rarity_action:
  assumes "op \<in> set op_texts" "rhs_ok PC_RARITY r"
  shows "action_ok ctx r (handle_rarity_comparison op r)"
proof -
  obtain s where r: "r = StringValueNode s" using assms(2) by (cases r) auto
  show ?thesis
  proof (cases "get_rarity_number s")
    case (Inl e)
    then show ?thesis using r
      by (auto simp: handle_rarity_comparison_def get_rarity_number_def sql_errors_def split: option.splits)
  next
    case (Inr n)
    then show ?thesis using r assms(1) numeric_action[of op "NumericValueNode (PyInt n)" r ctx]
      by (simp add: handle_rarity_comparison_def pval_ok_def)
  qed
qed

lemma date_action:
  assumes "ctx_ok ctx" "op \<in> set op_texts" "rhs_ok PC_DATE r"
  shows "action_ok ctx r (handle_date_search ctx a op r)"
proof -
  obtain s where r: "r = StringValueNode s" using assms(3) by (cases r) auto
  have "action_ok ctx r (bindr (context_add ctx (PVStr s)) (\<lambda>(ph, ctx). Inr (Finished
      ((u ''(card.released_at '' @ (if op = u '':'' then u ''='' else op) @ u '' '') @ ph @ u '')'') a op r ctx)))"
    by (rule add_text) (use assms in \<open>simp_all add: pval_ok_def plain_ascii bin_ops_plain[OF op_texts_bin_ops]\<close>)
  then show ?thesis using r by (simp add: handle_date_search_def search_value_def Let_def)
qed

lemma year_of_error: "year_of v = Inl e \<Longrightarrow> e = ValueError"
  by (auto simp: year_of_def split: pyval.splits option.splits if_splits)

lemma year_ok [simp]: "pval_ok (start_of_year y)"
  by (simp add: start_of_year_def pval_ok_def)

lemma action_ok_if: "action_ok c r x \<Longrightarrow> action_ok c r y \<Longrightarrow> action_ok c r (if b then x else y)"
  by simp

lemma action_ok_Inl: "e = ValueError \<Longrightarrow> action_ok c r (Inl e)"
  by (simp add: sql_errors_def)

lemma year_action:
  assumes "ctx_ok ctx"
  shows "action_ok ctx r (handle_year_search ctx a op r)"
proof (cases "year_of (search_value r)")
  case (Inl e)
  then show ?thesis by (simp add: handle_year_search_def year_of_error sql_errors_def)
next
  case (Inr y)
  have two: "action_ok ctx r (bindr (context_add ctx (start_of_year y)) (\<lambda>(p_start, ctx).
      bindr (context_add ctx (start_of_year (y + 1))) (\<lambda>(p_end, ctx).
        Inr (Finished (u ''('' @ p_start @ u '' <= card.released_at AND card.released_at < '' @ p_end @ u '')'') a op r ctx))))"
  proof (rule add_then[OF assms year_ok], simp only: prod.case)
    fix ph ctx'
    assume c: "ctx_ok ctx'" "ctx_le ctx ctx'" "sql_part ctx' ph"
    show "action_ok ctx r (bindr (context_add ctx' (start_of_year (y + 1))) (\<lambda>(p_end, ctx).
        Inr (Finished (u ''('' @ ph @ u '' <= card.released_at AND card.released_at < '' @ p_end @ u '')'') a op r ctx)))"
    proof (rule action_later[OF c(2)], rule add_then[OF c(1) year_ok])
      fix p_end d
      assume d: "ctx_ok d" "ctx_le ctx' d" "sql_part d p_end"
      have "sql_part d (u ''('' @ ph @ u '' <= card.released_at AND card.released_at < '' @ p_end @ u '')'')"
        by (intro part_rules) (simp_all add: d(3) store.part_mono[OF d(2) c(3)] plain_ascii)
      with d show "action_ok ctx' r (case (p_end, d) of (p_end, ctx) \<Rightarrow>
          Inr (Finished (u ''('' @ ph @ u '' <= card.released_at AND card.released_at < '' @ p_end @ u '')'') a op r ctx))"
        by simp
    qed
  qed
  show ?thesis unfolding handle_year_search_def Inr bindr_simps Let_def
    by (intro action_ok_if add_text two action_ok_Inl) (simp_all add: assms plain_ascii)
qed

lemma mana_action:
  assumes "ctx_ok ctx" "rhs_ok PC_MANA r"
  shows "action_ok ctx r (handle_mana_cost_comparison ctx a op r)"
proof -
  obtain s where s: "rhs_text r = Inr s" "has_value r" using assms(2) by (cases r) (auto simp: has_value_def)
  have "action_ok ctx r (handle_mana_cost_approximate_comparison ctx a op r s)" for op
  proof (cases "calculate_cmc s")
    case (Inl e)
    have "\<exists>xs. mapr token_cmc xs = Inl e \<Longrightarrow> e = ValueError"
    proof -
      have "mapr token_cmc xs = Inl e \<Longrightarrow> e = ValueError" for xs
        by (induction xs) (auto simp: bindr_Inl_iff token_cmc_def split: if_splits option.splits)
      then show "\<exists>xs. mapr token_cmc xs = Inl e \<Longrightarrow> e = ValueError" by blast
    qed
    then show ?thesis using Inl
      by (auto simp: handle_mana_cost_approximate_comparison_def calculate_cmc_def Let_def bindr_Inl_iff sql_errors_def)
  next
    case (Inr cmc)
    show ?thesis unfolding handle_mana_cost_approximate_comparison_def Inr bindr_simps
    proof (rule add_then[OF assms(1) mana_dict_ok], simp only: prod.case)
      fix mana ctx'
      assume c: "ctx_ok ctx'" "ctx_le ctx ctx'" "sql_part ctx' mana"
      show "action_ok ctx r (bindr (context_add ctx' (PVNum (PyInt cmc))) (\<lambda>(c, ctx).
          bindr (mana_sql op mana c) (\<lambda>sql. Inr (Finished sql a op r ctx))))"
        by (rule action_later[OF c(2)], rule add_then[OF c(1)])
           (auto simp: pval_ok_def intro!: text_then mana_sql_ok intro: store.part_mono[OF _ c(3)])
    qed
  qed
  then show ?thesis using s by (simp add: handle_mana_cost_comparison_def Let_def sql_errors_def)
qed

lemma rhs_text_ok: "pc \<noteq> PC_NUMERIC \<Longrightarrow> rhs_ok pc r \<Longrightarrow> \<exists>s. rhs_text r = Inr s"
  by (cases r; cases pc) auto

lemma object_text:
  assumes "ctx_ok ctx" "pval_ok v" "list_all plain_c a"
  shows "action_ok ctx r (bindr (context_add ctx v) (\<lambda>(ph, ctx).
      bindr (jsonb_object_sql (lhs_to_sql a) op ph) (\<lambda>sql. Inr (Finished sql a op r ctx))))"
  by (rule add_then[OF assms(1,2)]) (auto intro!: text_then jsonb_object_sql_ok lhs_part simp: assms(3))

lemma mask_text:
  assumes "ctx_ok ctx" "list_all plain_c a"
  shows "action_ok ctx r (bindr (context_add ctx (int_array ms)) (\<lambda>(pmask, ctx).
      Inr (Finished (mask_sql (lhs_to_sql a) pmask) a op r ctx)))"
proof (rule add_then[OF assms(1)])
  show "pval_ok (int_array ms)" by (simp add: int_array_def pval_ok_def)
  fix ph d
  assume "ctx_ok d" "ctx_le ctx d" "sql_part d ph"
  moreover have "sql_part d (mask_sql (lhs_to_sql a) ph)" if "sql_part d ph"
    unfolding mask_sql_def by (intro part_rules) (simp_all add: that lhs_part[OF assms(2)] plain_ascii)
  ultimately show "action_ok ctx r (case (ph, d) of (pmask, ctx) \<Rightarrow> Inr (Finished (mask_sql (lhs_to_sql a) pmask) a op r ctx))"
    by simp
qed

lemma equal_text:
  assumes "ctx_ok d" "ctx_le ctx d" "sql_part d ph" "list_all plain_c a"
  shows "action_ok ctx r (Inr (Finished (u ''('' @ lhs_to_sql a @ u '' = '' @ ph @ u '')'') a op r d))"
proof -
  have "sql_part d (u ''('' @ lhs_to_sql a @ u '' = '' @ ph @ u '')'')"
    by (intro part_rules) (simp_all add: assms(3) lhs_part[OF assms(4)] plain_ascii)
  with assms show ?thesis by (simp only: action_ok_simps simp_thms)
qed

lemma object_action:
  assumes "ctx_ok ctx" "pc \<noteq> PC_NUMERIC" "rhs_ok pc r" "list_all plain_c a"
  shows "action_ok ctx r (handle_jsonb_object ctx orig a op r)"
proof (cases "a \<in> set jsonb_object_attrs")
  case True
  obtain vs where v: "rhs_text r = Inr vs" using rhs_text_ok assms(2,3) by blast
  let ?val = "py_strip vs"
  show ?thesis
  proof (cases "a \<in> {u ''card_colors'', u ''card_color_identity'', u ''produced_mana''}")
    case color: True
    show ?thesis
    proof (cases "get_colors_comparison_object (py_lower ?val) a")
      case (Inl e)
      with color v True colors_object_error[OF Inl] show ?thesis
        by (simp add: handle_jsonb_object_def Let_def action_ok_Inl del: insert_iff action_ok_simps)
    next
      case (Inr rhs)
      have dict: "action_ok ctx r (bindr (context_add ctx (PVDict rhs)) (\<lambda>(ph, ctx).
          if rhs = [] \<and> op \<in> {u '':'', u ''>=''} then Inr (Finished (u ''('' @ lhs_to_sql a @ u '' = '' @ ph @ u '')'') a op r ctx)
          else bindr (jsonb_object_sql (lhs_to_sql a) op ph) (\<lambda>sql. Inr (Finished sql a op r ctx))))"
        by (rule add_then[OF assms(1) colors_object_ok[OF Inr]], simp only: prod.case)
           (intro action_ok_if equal_text text_then jsonb_object_sql_ok lhs_part assms(4); assumption)
      show ?thesis
        unfolding handle_jsonb_object_def Let_def v bindr_simps if_P[OF color] Inr
        by (intro action_ok_if dict mask_text action_ok_Inl assms(1,4) refl)
    qed
  next
    case False
    show ?thesis
    proof (cases "jsonb_object_rhs orig a ?val")
      case (Inl e)
      then show ?thesis unfolding handle_jsonb_object_def Let_def v bindr_simps if_not_P[OF False]
        by (intro action_ok_if action_ok_Inl) (simp_all add: jsonb_object_rhs_error sql_errors_def)
    next
      case (Inr rhs)
      show ?thesis unfolding handle_jsonb_object_def Let_def v bindr_simps if_not_P[OF False] Inr
        by (intro action_ok_if object_text action_ok_Inl assms(1,4) refl jsonb_object_rhs_ok[OF Inr])
    qed
  qed
qed (simp add: handle_jsonb_object_def sql_errors_def)

lemma resolve_plain: "list_all plain_c a \<Longrightarrow> list_all plain_c (resolve_type_column a v)"
  by (auto simp: resolve_type_column_def plain_ascii)

lemma array_action:
  assumes "ctx_ok ctx" "rhs_ok PC_TEXT r" "list_all plain_c a"
  shows "action_ok ctx r (handle_jsonb_array ctx a op r)"
proof -
  obtain vs where v: "rhs_text r = Inr vs" using rhs_text_ok[OF _ assms(2)] by blast
  show ?thesis unfolding handle_jsonb_array_def v bindr_simps Let_def
    by (rule add_then[OF assms(1)])
       (auto intro!: text_then jsonb_array_sql_ok lhs_part resolve_plain assms(3) simp: pval_ok_def)
qed

lemma text_rhs_cases:
  assumes "rhs_ok PC_TEXT r"
  obtains s where "r = StringValueNode s" | s where "r = RegexValueNode s"
  using assms by (cases r) auto

lemma set_value_ok:
  assumes "rhs_ok PC_TEXT r"
  shows "case node_value (set_rhs_value r s) of Some v \<Rightarrow> pval_ok v | None \<Rightarrow> set_rhs_value r s = r"
    "case node_value r of Some v \<Rightarrow> pval_ok v | None \<Rightarrow> r = r"
  by (rule text_rhs_cases[OF assms]; simp add: pval_ok_def)+

lemma text_action:
  assumes "op \<in> set op_texts" "rhs_ok PC_TEXT r"
  shows "action_ok ctx r (handle_text_comparison tc a op r)"
proof -
  obtain s where "rhs_text r = Inr s" using rhs_text_ok[OF _ assms(2)] by blast
  then show ?thesis
    using set_value_ok[OF assms(2)] op_texts_bin_ops[OF assms(1)] by (simp add: handle_text_comparison_def)
qed

lemma like_text:
  assumes "ctx_ok ctx" "list_all plain_c a"
  shows "action_ok ctx r (bindr (context_add ctx (PVStr p)) (\<lambda>(ph, ctx). Inr (Finished
      (u ''(lower('' @ (if a = u ''card_name'' then u ''card.card_name_folded'' else lhs_to_sql a) @ u '') LIKE '' @ ph @ u '')'') a op r ctx)))"
  using add_text[OF assms(1), of "PVStr p"
      "u ''(lower('' @ (if a = u ''card_name'' then u ''card.card_name_folded'' else lhs_to_sql a) @ u '') LIKE ''" "u '')''" r a op r] assms(2)
  by (simp add: pval_ok_def plain_ascii lhs_to_sql_def)

lemma pattern_action:
  assumes "ctx_ok ctx" "rhs_ok PC_TEXT r" "list_all plain_c a"
  shows "action_ok ctx r (handle_text_field_pattern_matching ctx a op r)"
proof (rule text_rhs_cases[OF assms(2)])
  fix s
  assume r: "r = RegexValueNode s"
  have "action_ok ctx r (bindr (context_add ctx (PVStr s)) (\<lambda>(ph, ctx).
      Inr (Finished ((u ''('' @ lhs_to_sql a @ u '' ~* '') @ ph @ u '')'') a op r ctx)))"
    by (rule add_text) (use assms in \<open>simp_all add: pval_ok_def plain_ascii lhs_to_sql_def\<close>)
  with r show ?thesis by (simp add: handle_text_field_pattern_matching_def Let_def)
next
  fix s
  assume "r = StringValueNode s"
  then show ?thesis
    unfolding handle_text_field_pattern_matching_def Let_def by (simp only: node.case like_text[OF assms(1,3)])
qed

lemma colon_action:
  assumes "ctx_ok ctx" "rhs_ok PC_TEXT r" "list_all plain_c a"
  shows "action_ok ctx r (handle_colon_operator ctx FT_TEXT a (u '':'') r)"
proof -
  obtain s where "rhs_text r = Inr s" using rhs_text_ok[OF _ assms(2)] by blast
  then show ?thesis
    using set_value_ok[OF assms(2)] pattern_action[OF assms, of "u '':''"]
    by (simp add: handle_colon_operator_def bin_ops_def del: set_rhs_value.simps rhs_text.simps)
qed

section \<open>The columns the parser resolves to\<close>

definition attr_row_ok :: "pstr \<Rightarrow> field_info \<Rightarrow> bool" where
  "attr_row_ok orig fi =
     (let a = py_lower (db_column_name fi); ft = fi_field_type fi; pc = fi_parser_class fi in
      list_all plain_c a \<and> (pc = PC_NUMERIC \<longrightarrow> ft \<noteq> FT_JSONB_OBJECT \<and> ft \<noteq> FT_JSONB_ARRAY) \<and>
      (if a \<in> {u ''mana_cost_text'', u ''mana_cost_jsonb''} then pc = PC_MANA
       else if pc \<in> {PC_DATE, PC_YEAR, PC_NUMERIC, PC_RARITY} then True
       else if ft = FT_JSONB_OBJECT then True
       else pc = PC_TEXT \<and> (ft = FT_JSONB_ARRAY \<or> ft = FT_TEXT)))"

lemma attr_rows: "list_all (\<lambda>(orig, fis). list_all (attr_row_ok orig) fis) ALIAS_TO_FIELD_INFOS"
  by code_simp

lemma attr_ok_row:
  assumes "attr_ok (CardAttributeNode orig pc fis a)"
  obtains fi where "fis = [fi]" "fi_parser_class fi = pc" "a = py_lower (db_column_name fi)" "attr_row_ok orig fi"
proof -
  define infos where "infos = filter (\<lambda>f. fi_parser_class f = pc) (case map_of ALIAS_TO_FIELD_INFOS (py_lower orig) of None \<Rightarrow> [] | Some fs \<Rightarrow> fs)"
  have "mk_card_attribute orig pc = Inr (CardAttributeNode orig pc fis a)" using assms by simp
  then have "(case infos of [fi] \<Rightarrow> Inr (CardAttributeNode (py_lower orig) pc infos (py_lower (db_column_name fi))) | _ \<Rightarrow> Inl ValueError)
      = Inr (CardAttributeNode orig pc fis a)"
    unfolding mk_card_attribute_def infos_def Let_def .
  then obtain fi where fi: "infos = [fi]" and eq: "py_lower orig = orig" "fis = [fi]" "a = py_lower (db_column_name fi)"
    by (auto split: list.splits)
  then have "fi \<in> set infos" by simp
  then obtain fs where fs: "map_of ALIAS_TO_FIELD_INFOS orig = Some fs" "fi \<in> set fs" "fi_parser_class fi = pc"
    using eq(1) unfolding infos_def by (cases "map_of ALIAS_TO_FIELD_INFOS orig") auto
  have "attr_row_ok orig fi" using attr_rows map_of_SomeD[OF fs(1)] fs(2) by (auto simp: list_all_iff)
  with that eq fs show ?thesis by blast
qed

lemma attribute_action:
  assumes "ctx_ok ctx" "attr_ok (CardAttributeNode orig pc fis a)"
    "if pc = PC_NUMERIC then op \<in> set bin_ops \<and> wf_node r else op \<in> set op_texts \<and> rhs_ok pc r"
  shows "action_ok ctx r (handle_card_attribute tc ctx orig fis a op r)"
proof -
  obtain fi where fi: "fis = [fi]" "fi_parser_class fi = pc" "a = py_lower (db_column_name fi)" "attr_row_ok orig fi"
    by (rule attr_ok_row[OF assms(2)])
  have plain: "list_all plain_c a" using fi by (simp add: attr_row_ok_def Let_def)
  have num: "pc = PC_NUMERIC \<Longrightarrow> action_ok ctx r (handle_numeric_comparison op r)"
    using assms(3) by (cases r) (auto simp: handle_numeric_comparison_def pval_ok_def bin_ops_def)
  consider (mana) "a \<in> {u ''mana_cost_text'', u ''mana_cost_jsonb''}" "pc = PC_MANA"
    | (special) "a \<notin> {u ''mana_cost_text'', u ''mana_cost_jsonb''}" "pc \<in> {PC_DATE, PC_YEAR, PC_NUMERIC, PC_RARITY}"
    | (object) "a \<notin> {u ''mana_cost_text'', u ''mana_cost_jsonb''}" "pc \<notin> {PC_DATE, PC_YEAR, PC_NUMERIC, PC_RARITY}"
        "fi_field_type fi = FT_JSONB_OBJECT"
    | (textual) "a \<notin> {u ''mana_cost_text'', u ''mana_cost_jsonb''}" "pc = PC_TEXT"
        "fi_field_type fi = FT_JSONB_ARRAY \<or> fi_field_type fi = FT_TEXT"
    using fi by (auto simp: attr_row_ok_def Let_def split: if_splits)
  then show ?thesis
  proof cases
    case mana
    with assms fi mana_action[OF assms(1), of r a op] show ?thesis by (simp add: handle_card_attribute_def del: insert_iff)
  next
    case special
    with assms fi num year_action[OF assms(1)] date_action[OF assms(1)] rarity_action show ?thesis
      by (auto simp: handle_card_attribute_def Let_def)
  next
    case object
    with assms(3) fi object_action[OF assms(1) _ _ plain, of pc r orig op] show ?thesis
      by (auto simp: handle_card_attribute_def Let_def)
  next
    case textual
    with assms fi array_action[OF assms(1) _ plain] colon_action[OF assms(1) _ plain] text_action show ?thesis
      by (auto simp: handle_card_attribute_def Let_def)
  qed
qed

section \<open>The generated statement\<close>

lemma value_post: "ctx_ok ctx \<Longrightarrow> pval_ok v \<Longrightarrow> store.post sql_errors ctx (value_sql n v ctx)"
  by (rule context_add_cases[of ctx v]) (auto simp: value_sql_def store.post_def sql_errors_def)

lemma binary_post:
  assumes "ctx_ok ctx" "op \<in> set bin_ops"
    and "store.post sql_errors ctx (f ctx)" "\<And>c. ctx_ok c \<Longrightarrow> store.post sql_errors c (g c)"
  shows "store.post sql_errors ctx (bindr (f ctx) (\<lambda>(ls, l, ctx).
      bindr (g ctx) (\<lambda>(rs, r, ctx). Inr (binary_sql ls op rs, h l r, ctx))))"
proof (rule store.post_bind[OF assms(3)], simp only: prod.case)
  fix ls :: pstr and l d
  assume d: "ctx_ok d" "ctx_le ctx d" "sql_part d ls"
  have "store.post sql_errors d (bindr (g d) (\<lambda>(rs, r, ctx). Inr (binary_sql ls op rs, h l r, ctx)))"
    by (rule store.post_bind[OF assms(4)[OF d(1)]])
       (use d assms(2) in \<open>auto simp: store.post_def intro!: binary_sql_part intro: store.part_mono\<close>)
  then show "store.post sql_errors ctx (bindr (g d) (\<lambda>(rs, r, ctx). Inr (binary_sql ls op rs, h l r, ctx)))"
    by (rule store.post_later[OF d(2)])
qed

lemma nary_part:
  "list_all plain_c operator \<Longrightarrow> list_all plain_c e \<Longrightarrow> \<forall>s \<in> set ss. sql_part c s \<Longrightarrow> sql_part c (nary_sql operator e ss)"
proof -
  assume ops: "list_all plain_c operator" "list_all plain_c e" "\<forall>s \<in> set ss. sql_part c s"
  have "sql_part c (u ''('' @ py_join (u '' '' @ operator @ u '' '') ss @ u '')'')"
    using ops by (intro part_rules store.part_join) (simp_all add: plain_ascii)
  with ops show "sql_part c (nary_sql operator e ss)"
    unfolding nary_sql_def by (auto simp: store.part_text split: list.split)
qed

lemma nary_post:
  assumes "\<And>n c. n \<in> set ns \<Longrightarrow> ctx_ok c \<Longrightarrow> store.post sql_errors c (f n c)" "ctx_ok ctx"
    and "list_all plain_c operator" "list_all plain_c e"
  shows "store.post sql_errors ctx (bindr (sql_list f ns ctx) (\<lambda>(parts, ops, ctx). Inr (nary_sql operator e parts, h ops, ctx)))"
  using store.sql_list_ok[of ns sql_errors f ctx, OF assms(1,2)] assms(3,4)
  by (auto simp: store.post_def nary_part split: sum.splits)

lemma card_binary_post:
  assumes "ctx_ok ctx" "action_ok ctx r act" "list_all plain_c a"
    and "\<And>c. ctx_ok c \<Longrightarrow> node_value r = None \<Longrightarrow> store.post sql_errors c (f c)"
  shows "store.post sql_errors ctx (bindr act (\<lambda>act. case act of
      Finished sql a' op r' ctx' \<Rightarrow> Inr (sql, g a' op r', ctx')
    | CallSuper op r' \<Rightarrow>
        bindr (case node_value r' of Some v \<Rightarrow> value_sql r' v ctx | None \<Rightarrow> f ctx)
          (\<lambda>(rs, r, ctx). Inr (binary_sql (lhs_to_sql a) op rs, h op r, ctx))))"
proof (cases act)
  case (Inl e)
  with assms(2) show ?thesis by (simp add: store.post_def)
next
  case (Inr x)
  show ?thesis
  proof (cases x)
    case (Finished sql a' op r' ctx')
    with Inr assms(2) show ?thesis by (simp add: store.post_def)
  next
    case (CallSuper op r')
    with Inr assms(2) have op: "op \<in> set bin_ops" "case node_value r' of Some v \<Rightarrow> pval_ok v | None \<Rightarrow> r' = r" by simp_all
    have "store.post sql_errors ctx (case node_value r' of Some v \<Rightarrow> value_sql r' v ctx | None \<Rightarrow> f ctx)"
      using op(2) assms(1,4) by (auto simp: value_post split: option.splits)
    then have "store.post sql_errors ctx (bindr (case node_value r' of Some v \<Rightarrow> value_sql r' v ctx | None \<Rightarrow> f ctx)
          (\<lambda>(rs, r, ctx). Inr (binary_sql (lhs_to_sql a) op rs, h op r, ctx)))"
      by (rule store.post_bind) (use op(1) in \<open>auto simp: store.post_def intro!: binary_sql_part lhs_part assms(3)\<close>)
    with Inr CallSuper show ?thesis by simp
  qed
qed

lemma to_sql_post: "wf_node n \<Longrightarrow> ctx_ok ctx \<Longrightarrow> store.post sql_errors ctx (to_sql tc n ctx)"
proof (induction n arbitrary: ctx)
  case (NumericValueNode n)
  then show ?case by (simp add: value_post pval_ok_def)
next
  case (CardAttributeNode orig pc fis a)
  obtain fi where "fis = [fi]" "a = py_lower (db_column_name fi)" "attr_row_ok orig fi"
    using attr_ok_row[of orig pc fis a] CardAttributeNode.prems(1) by auto
  then have "list_all plain_c a" by (simp add: attr_row_ok_def Let_def)
  with CardAttributeNode.prems show ?case by (simp add: store.post_def store.le_refl lhs_part)
next
  case (CardBinaryOperatorNode l op r)
  show ?case
  proof (cases "\<exists>orig pc fis a. l = CardAttributeNode orig pc fis a")
    case True
    then obtain orig pc fis a where l: "l = CardAttributeNode orig pc fis a" by blast
    with CardBinaryOperatorNode.prems have wf: "attr_ok l" "op \<in> set bin_ops"
      "if pc = PC_NUMERIC then wf_node r else op \<in> set op_texts \<and> rhs_ok pc r" by auto
    obtain fi where "a = py_lower (db_column_name fi)" "attr_row_ok orig fi"
      using attr_ok_row[of orig pc fis a] wf(1) l by auto
    then have a: "list_all plain_c a" by (simp add: attr_row_ok_def Let_def)
    have act: "action_ok ctx r (handle_card_attribute tc ctx orig fis a op r)"
      by (rule attribute_action[OF CardBinaryOperatorNode.prems(2)]) (use wf l in \<open>auto split: if_splits\<close>)
    have "wf_node r" if "node_value r = None" using wf(3) that by (cases r; cases pc) auto
    then show ?thesis unfolding to_sql.simps l node.case
      by (intro card_binary_post[OF CardBinaryOperatorNode.prems(2) act a] CardBinaryOperatorNode.IH(2))
  next
    case False
    with CardBinaryOperatorNode.prems(1) have wf: "wf_node l" "wf_node r" "op \<in> set bin_ops" by (cases l; auto)+
    have "to_sql tc (CardBinaryOperatorNode l op r) ctx = bindr (to_sql tc l ctx) (\<lambda>(ls, l, ctx).
       bindr (to_sql tc r ctx) (\<lambda>(rs, r, ctx). Inr (binary_sql ls op rs, CardBinaryOperatorNode l op r, ctx)))"
      using False by (cases l) auto
    then show ?thesis
      using binary_post[OF CardBinaryOperatorNode.prems(2) wf(3), of "to_sql tc l" "to_sql tc r" "\<lambda>l r. CardBinaryOperatorNode l op r"]
        CardBinaryOperatorNode wf by simp
  qed
next
  case (AndNode ops)
  then show ?case unfolding to_sql.simps by (intro nary_post) (simp_all add: plain_ascii)
next
  case (OrNode ops)
  then show ?case unfolding to_sql.simps by (intro nary_post) (simp_all add: plain_ascii)
next
  case (NotNode n)
  have "store.post sql_errors ctx (bindr (to_sql tc n ctx) (\<lambda>(s, n, ctx). Inr (u ''NOT ('' @ s @ u '')'', NotNode n, ctx)))"
  proof (rule store.post_bind)
    show "store.post sql_errors ctx (to_sql tc n ctx)" using NotNode by simp
    fix s :: pstr and m d
    assume d: "ctx_ok d" "ctx_le ctx d" "sql_part d s"
    have "sql_part d (u ''NOT ('' @ s @ u '')'')" by (intro part_rules) (simp_all add: d(3) plain_ascii)
    with d show "store.post sql_errors ctx (case (s, m, d) of (s, n, ctx) \<Rightarrow> Inr (u ''NOT ('' @ s @ u '')'', NotNode n, ctx))"
      by (simp add: store.post_def)
  qed
  then show ?case by simp
next
  case (ExactNameNode v)
  show ?case
  proof (rule context_add_cases[OF ExactNameNode.prems(2), of "PVStr (escape_like_pattern (py_lower v))"])
    fix ph d
    assume d: "context_add ctx (PVStr (escape_like_pattern (py_lower v))) = Inr (ph, d)" "ctx_ok d" "ctx_le ctx d" "sql_part d ph"
    have "sql_part d (u ''(lower(card.card_name) LIKE '' @ ph @ u '')'')" by (intro part_rules) (simp_all add: d(4) plain_ascii)
    with d show ?thesis by (simp add: store.post_def)
  qed (simp_all add: pval_ok_def store.post_def sql_errors_def)
qed simp_all

end
