(* ===== verification/Rewrite_Props.thy ===== *)
theory Rewrite_Props
  imports Rewrite_Table Sql_Safe
begin

text \<open>
  Correctness of the rewrites: expansion always succeeds, leaves no derived predicate, keeps the
  tree well-formed and canonical, and means what the definitions say; the literal of a regex
  round-trips through escaping, and a lowered regex still finds every text that holds the
  literal.
\<close>

section \<open>Expansion\<close>

lemma expansion_of_None: "no_derived_leaf n \<Longrightarrow> expansion_of n ip = None"
  by (auto simp: no_derived_leaf_def expansion_of_def derived_keys_def split: option.splits dest!: map_of_SomeD) force

lemma mapr_all: "(\<And>x. x \<in> set xs \<Longrightarrow> f x = Inr (g x)) \<Longrightarrow> mapr f xs = Inr (map g xs)"
  by (induction xs) auto

lemma expand_primitive: "no_derived n \<Longrightarrow> expand n ip = Inr (n, False)"
proof (induction n arbitrary: ip)
  case (AndNode ops)
  then have "mapr (\<lambda>op. expand op ip) ops = Inr (map (\<lambda>op. (op, False)) ops)"
    by (intro mapr_all) (auto simp: list_all_iff)
  then show ?case by (simp add: list_ex_iff)
next
  case (OrNode ops)
  then have "mapr (\<lambda>op. expand op ip) ops = Inr (map (\<lambda>op. (op, False)) ops)"
    by (intro mapr_all) (auto simp: list_all_iff)
  then show ?case by (simp add: list_ex_iff)
qed (simp_all add: expansion_of_None)

text \<open>What a leaf expands to: the parse of its definition, or itself.\<close>

definition expansion_node :: "node \<Rightarrow> node" where
  "expansion_node n = (case expansion_of n [] of
      Some (_, dsl) \<Rightarrow> (case parse_expansion dsl of Inr root \<Rightarrow> root | Inl _ \<Rightarrow> n)
    | None \<Rightarrow> n)"

fun expand_spec :: "node \<Rightarrow> node" where
  "expand_spec (AndNode ops) = AndNode (map expand_spec ops)"
| "expand_spec (OrNode ops) = OrNode (map expand_spec ops)"
| "expand_spec (NotNode n) = NotNode (expand_spec n)"
| "expand_spec n = expansion_node n"

lemma leaf_expansion:
  assumes "expansion_of n ip = Some (key, dsl)"
  obtains root where "parse_expansion dsl = Inr root" "no_derived root" "root \<noteq> TrueNode"
proof -
  have "map_of DERIVED_EXPANSIONS key = Some dsl"
    using assms by (auto simp: expansion_of_def split: option.splits if_splits)
  from all_primitive[OF this] that show ?thesis by (auto simp: primitive_def split: sum.splits)
qed

lemma expand_leaf:
  "(case expansion_of n [] of
      Some (key, dsl) \<Rightarrow> bindr (parse_expansion dsl) (\<lambda>root. bindr (expand root [key]) (\<lambda>(subtree, _). Inr (subtree, True)))
    | None \<Rightarrow> Inr (n, False)) = Inr (expansion_node n, expansion_of n [] \<noteq> None)"
proof (cases "expansion_of n []")
  case (Some kd)
  then obtain key dsl where kd: "expansion_of n [] = Some (key, dsl)" by (cases kd) auto
  obtain root where "parse_expansion dsl = Inr root" "no_derived root" by (rule leaf_expansion[OF kd])
  with kd show ?thesis by (simp add: expansion_node_def expand_primitive)
qed (simp add: expansion_node_def)

fun changes :: "node \<Rightarrow> bool" where
  "changes (AndNode ops) = list_ex changes ops"
| "changes (OrNode ops) = list_ex changes ops"
| "changes (NotNode n) = changes n"
| "changes n = (expansion_of n [] \<noteq> None)"

lemma expand_spec_same: "\<not> changes n \<Longrightarrow> expand_spec n = n"
proof (induction n)
  case (AndNode ops)
  then show ?case by (auto simp: list_ex_iff intro!: map_idI)
next
  case (OrNode ops)
  then show ?case by (auto simp: list_ex_iff intro!: map_idI)
qed (simp_all add: expansion_node_def del: not_None_eq)

lemma expand_eq: "expand n [] = Inr (expand_spec n, changes n)"
proof (induction n)
  case (AndNode ops)
  then have "mapr (\<lambda>op. expand op []) ops = Inr (map (\<lambda>op. (expand_spec op, changes op)) ops)"
    by (intro mapr_all) auto
  then show ?case using expand_spec_same[of "AndNode ops"] by (auto simp: list_ex_iff comp_def)
next
  case (OrNode ops)
  then have "mapr (\<lambda>op. expand op []) ops = Inr (map (\<lambda>op. (expand_spec op, changes op)) ops)"
    by (intro mapr_all) auto
  then show ?case using expand_spec_same[of "OrNode ops"] by (auto simp: list_ex_iff comp_def)
next
  case (NotNode n)
  then show ?case using expand_spec_same[of n] by auto
qed (simp_all only: expand.simps expand_leaf expand_spec.simps changes.simps)

lemma expansion_wf:
  assumes "wf_node n"
  shows "wf_node (expansion_node n)"
proof (cases "expansion_of n []")
  case (Some kd)
  then obtain key dsl where kd: "expansion_of n [] = Some (key, dsl)" by (cases kd) auto
  obtain root where root: "parse_expansion dsl = Inr root" "root \<noteq> TrueNode" by (rule leaf_expansion[OF kd])
  then obtain q where q: "parse_query dsl = Inr q" "root = query_root q" by (auto simp: parse_expansion_def bindr_Inr_iff)
  have "wf_query q" using parse_query_wf[OF q(1)] by simp
  then have "wf_node root" using q(2) root(2) by (cases q) (auto simp: wf_query_def query_root_def)
  with kd root show ?thesis by (simp add: expansion_node_def)
qed (use assms in \<open>simp add: expansion_node_def\<close>)

lemma expand_spec_wf: "wf_node n \<Longrightarrow> wf_node (expand_spec n)"
proof (induction n)
  case (CardBinaryOperatorNode l op r)
  then show ?case using expansion_wf by (simp del: wf_node.simps)
next
  case (CardAttributeNode orig pc fis a)
  then show ?case using expansion_wf by (simp del: wf_node.simps)
qed (auto simp: expansion_node_def expansion_of_def leaf_key_def)

lemma expansion_no_derived: "no_derived_leaf n \<Longrightarrow> expansion_node n = n"
  by (simp add: expansion_node_def expansion_of_None)

lemma no_derived_expansion: "\<not> is_nary n \<Longrightarrow> no_derived (expansion_node n)"
proof (cases "expansion_of n []")
  case None
  assume "\<not> is_nary n"
  moreover have "no_derived_leaf n"
    using None by (auto simp: expansion_of_def no_derived_leaf_def derived_keys_def map_of_eq_None_iff split: option.splits)
  ultimately show ?thesis using None by (cases n) (auto simp: expansion_node_def is_nary_def)
next
  case (Some kd)
  then obtain key dsl where kd: "expansion_of n [] = Some (key, dsl)" by (cases kd) auto
  obtain root where "parse_expansion dsl = Inr root" "no_derived root" by (rule leaf_expansion[OF kd])
  with kd show ?thesis by (simp add: expansion_node_def)
qed

lemma expand_spec_no_derived: "no_derived (expand_spec n)"
  by (induction n) (auto simp: list_all_iff is_nary_def intro!: no_derived_expansion)

text \<open>The meaning of an expanded query: each derived predicate as its definition, the rest unchanged.\<close>

lemma expand_spec_eval: "wf_node n \<Longrightarrow> tri_eval I (expand_spec n) = tri_eval (\<lambda>leaf. tri_eval I (expansion_node leaf)) n"
proof (induction n)
  case (AndNode ops)
  then have "map (tri_eval I \<circ> expand_spec) ops = map (tri_eval (\<lambda>leaf. tri_eval I (expansion_node leaf))) ops" by simp
  then show ?case by (simp only: expand_spec.simps tri_eval.simps map_map)
next
  case (OrNode ops)
  then have "map (tri_eval I \<circ> expand_spec) ops = map (tri_eval (\<lambda>leaf. tri_eval I (expansion_node leaf))) ops" by simp
  then show ?case by (simp only: expand_spec.simps tri_eval.simps map_map)
qed simp_all

section \<open>Literal regexes\<close>

text \<open>A literal written as a regex: a backslash before every metacharacter and backslash.\<close>

definition meta_c :: "nat \<Rightarrow> bool" where
  "meta_c c \<longleftrightarrow> c = 92 \<or> c \<in> set (u ''.*+?()[]{}|^$'')"

definition regex_escape :: "pstr \<Rightarrow> pstr" where
  "regex_escape s = concat (map (\<lambda>c. if meta_c c then [92, c] else [c]) s)"

lemma meta_not_alnum: "meta_c c \<Longrightarrow> \<not> py_isalnum_c c"
  by (auto simp: meta_c_def py_isalnum_c_def py_isalpha_c_def py_isdigit_c_def is_digit_c_def)

lemma literal_escape: "regex_literal_from out (regex_escape s @ t) = regex_literal_from (out @ s) t"
proof (induction s arbitrary: out)
  case (Cons c s)
  show ?case
  proof (cases "meta_c c")
    case True
    with Cons meta_not_alnum[OF True] show ?thesis by (simp add: regex_escape_def)
  next
    case False
    then have "c \<noteq> 92" "c \<notin> set (u ''.*+?()[]{}|^$'')" by (auto simp: meta_c_def)
    with False Cons show ?thesis by (simp add: regex_escape_def del: set_map)
  qed
qed (simp add: regex_escape_def)

lemma regex_plain_escape: "s \<noteq> [] \<Longrightarrow> regex_plain_literal (regex_escape s) = Some s"
  using literal_escape[of "[]" s "[]"] by (simp add: regex_plain_literal_def)

text \<open>
  The language of a regex that \<open>regex_plain_literal\<close> accepts, written from the syntax: each
  character for itself, each escaped punctuation for the character it escapes.
\<close>

fun literal_of :: "pstr \<Rightarrow> pstr" where
  "literal_of [] = []"
| "literal_of [c] = [c]"
| "literal_of (c # d # s) = (if c = 92 then d # literal_of s else c # literal_of (d # s))"

lemma regex_literal_from_eq: "regex_literal_from out p = Some l \<Longrightarrow> l = out @ literal_of p"
proof (induction p arbitrary: out rule: literal_of.induct)
  case (3 c d s)
  then show ?case by (fastforce split: if_splits)
qed (auto split: if_splits)

lemma regex_plain_literal_eq: "regex_plain_literal p = Some l \<Longrightarrow> l = literal_of p \<and> l \<noteq> []"
  using regex_literal_from_eq[of "[]" p] by (auto simp: regex_plain_literal_def split: option.splits if_splits)

lemma lower_rhs_ok: "rhs_ok pc r \<Longrightarrow> rhs_ok pc (lower_rhs op r)"
  by (cases r; cases pc) (auto simp: lower_rhs_def split: option.splits)

lemma lower_rhs_wf: "wf_node r \<Longrightarrow> lower_rhs op r = r"
  by (cases r) (auto simp: lower_rhs_def)

lemma lower_leaves_wf: "wf_node n \<Longrightarrow> wf_node (lower_regex_leaves n)"
proof (induction n)
  case (CardBinaryOperatorNode l op r)
  then show ?case by (cases l) (auto simp: lower_rhs_wf lower_rhs_ok split: if_splits)
qed auto

lemma lower_leaves_canonical: "canonical n \<Longrightarrow> canonical (lower_regex_leaves n)"
proof (induction n)
  case (AndNode ops)
  have "is_and (lower_regex_leaves m) = is_and m" for m by (cases m) auto
  with AndNode show ?case by auto
next
  case (OrNode ops)
  have "is_or (lower_regex_leaves m) = is_or m" for m by (cases m) auto
  with OrNode show ?case by auto
qed auto

text \<open>The lowered search of a text finds every text in which the literal occurs.\<close>

lemma words_in_order_shift: "words_in_order ws (drop k t) \<Longrightarrow> words_in_order ws t"
proof (cases ws)
  case (Cons w ws')
  assume "words_in_order ws (drop k t)"
  then obtain i where i: "i \<le> length (drop k t)" "prefix w (drop i (drop k t))" "words_in_order ws' (drop (i + length w) (drop k t))"
    using Cons by auto
  show ?thesis
  proof (cases "k \<le> length t")
    case True
    with i Cons show ?thesis by (auto simp: add.commute add.left_commute intro!: exI[of _ "k + i"])
  next
    case False
    with i have "w = []" "words_in_order ws' []" by auto
    with Cons show ?thesis by (auto intro!: exI[of _ "length t"])
  qed
qed simp

lemma words_in_order_prepend: "words_in_order ws t \<Longrightarrow> words_in_order ws (a @ t)"
  using words_in_order_shift[of ws "length a" "a @ t"] by simp

lemma words_in_order_append: "words_in_order ws t \<Longrightarrow> words_in_order ws (t @ b)"
proof (induction ws arbitrary: t)
  case (Cons w ws)
  then obtain i where i: "i \<le> length t" "prefix w (drop i t)" "words_in_order ws (drop (i + length w) t)" by auto
  have "i + length w \<le> length t" using i prefix_length_le[OF i(2)] by simp
  then have "drop (i + length w) (t @ b) = drop (i + length w) t @ b" by simp
  moreover have "prefix w (drop i (t @ b))" using i by (auto simp: prefix_def)
  ultimately show ?case using i Cons.IH by (auto intro!: exI[of _ i])
qed simp

lemma words_self: "words_in_order (split_ws acc s) (rev acc @ s)"
proof (induction acc s rule: split_ws.induct)
  case (1 acc)
  then show ?case by auto
next
  case (2 acc c s)
  show ?case
  proof (cases "py_isspace_c c")
    case False
    with 2 show ?thesis by simp
  next
    case True
    have "words_in_order (split_ws [] s) s" using 2 True by (cases "acc = []") simp_all
    then have rest: "words_in_order (split_ws [] s) (c # s)"
      using words_in_order_prepend[of "split_ws [] s" s "[c]"] by simp
    show ?thesis
    proof (cases "acc = []")
      case False
      with True rest show ?thesis by (auto intro!: exI[of _ 0])
    qed (use True rest in simp)
  qed
qed

lemma words_in_sublist: "sublist s t \<Longrightarrow> words_in_order (py_split s) t"
proof -
  assume "sublist s t"
  then obtain a b where "t = a @ s @ b" by (auto simp: sublist_def)
  then show ?thesis
    using words_self[of "[]" s] by (simp add: py_split_def words_in_order_prepend words_in_order_append)
qed

lemma no_blank_split: "s \<noteq> [] \<Longrightarrow> list_all (\<lambda>c. \<not> py_isspace_c c) s \<Longrightarrow> py_split s = [s]"
proof -
  have "list_all (\<lambda>c. \<not> py_isspace_c c) s \<Longrightarrow> rev acc @ s \<noteq> [] \<Longrightarrow> split_ws acc s = [rev acc @ s]" for acc
    by (induction s arbitrary: acc) auto
  from this[of "[]"] show "s \<noteq> [] \<Longrightarrow> list_all (\<lambda>c. \<not> py_isspace_c c) s \<Longrightarrow> py_split s = [s]" by (simp add: py_split_def)
qed

lemma single_word: "words_in_order [w] t \<longleftrightarrow> sublist w t"
proof
  assume "words_in_order [w] t"
  then obtain i where "prefix w (drop i t)" by auto
  then obtain b where "t = take i t @ w @ b" by (metis append_take_drop_id prefixE)
  then show "sublist w t" unfolding sublist_def by metis
next
  assume "sublist w t"
  then obtain a b where "t = a @ w @ b" by (auto simp: sublist_def)
  then show "words_in_order [w] t" by (auto intro!: exI[of _ "length a"])
qed

section \<open>The pipeline\<close>

text \<open>Lowering creates no derived predicate: the values of the table hold letters only, and an escaped character is never a letter.\<close>

lemma literal_alnum:
  "regex_literal_from out p = Some (out @ l) \<Longrightarrow> list_all (\<lambda>c. isascii_c c \<and> py_isalnum_c c) l \<Longrightarrow> p = l"
proof (induction p arbitrary: out l rule: literal_of.induct)
  case 1
  then show ?case by simp
next
  case (2 c)
  then show ?case by (auto split: if_splits)
next
  case (3 c d s)
  show ?case
  proof (cases "c = 92")
    case True
    with "3.prems"(1) have d: "\<not> (isascii_c d \<and> py_isalnum_c d)" "regex_literal_from (out @ [d]) s = Some (out @ l)"
      by (auto split: if_splits)
    from regex_literal_from_eq[OF d(2)] have "l = d # literal_of s" by simp
    with d(1) "3.prems"(2) show ?thesis by simp
  next
    case False
    with "3.prems"(1) have d: "regex_literal_from (out @ [c]) (d # s) = Some (out @ l)" by (auto split: if_splits)
    from regex_literal_from_eq[OF d] obtain l' where l: "l = c # l'" by auto
    have "d # s = l'" using "3.IH"(2)[OF False, of "out @ [c]" l'] d "3.prems"(2) l by simp
    with l show ?thesis by simp
  qed
qed

lemma derived_values_alnum: "list_all (\<lambda>(a, v). list_all (\<lambda>c. 97 \<le> c \<and> c \<le> 122) v) derived_keys"
  by code_simp

lemma lower_letters: "list_all (\<lambda>c. 97 \<le> c \<and> c \<le> 122) (py_lower l) \<Longrightarrow> list_all (\<lambda>c. isascii_c c \<and> py_isalnum_c c) l"
  by (induction l) (auto simp: py_lower_def lower_c_def is_upper_c_def isascii_c_def py_isalnum_c_def py_isalpha_c_def split: if_splits)

lemma literal_key:
  assumes "regex_plain_literal p = Some l" "(a, py_lower l) \<in> set derived_keys"
  shows "p = l"
proof -
  have "list_all (\<lambda>c. 97 \<le> c \<and> c \<le> 122) (py_lower l)" using derived_values_alnum assms(2) by (auto simp: list_all_iff)
  then have "list_all (\<lambda>c. isascii_c c \<and> py_isalnum_c c) l" by (rule lower_letters)
  then show ?thesis
    using assms(1) literal_alnum[of "[]" p l] by (auto simp: regex_plain_literal_def split: option.splits if_splits)
qed

lemma binary_key_lower:
  assumes "case binary_key l op r of None \<Rightarrow> True | Some k \<Rightarrow> k \<notin> set derived_keys"
  shows "case binary_key l op (lower_rhs op r) of None \<Rightarrow> True | Some k \<Rightarrow> k \<notin> set derived_keys"
proof (cases "\<exists>p lit. op = u '':'' \<and> r = RegexValueNode p \<and> regex_plain_literal p = Some lit")
  case True
  then obtain p lit where r: "op = u '':''" "r = RegexValueNode p" "regex_plain_literal p = Some lit" by blast
  then show ?thesis using assms literal_key[OF r(3)]
    by (auto simp: lower_rhs_def binary_key_def node_str_value_def split: option.splits)
next
  case False
  then have "lower_rhs op r = r" by (cases r) (auto simp: lower_rhs_def split: option.splits)
  with assms show ?thesis by simp
qed

lemma lower_no_derived: "no_derived n \<Longrightarrow> no_derived (lower_regex_leaves n)"
proof (induction n)
  case (BinaryOperatorNode l op r)
  then show ?case using binary_key_lower[of l op r] by (simp add: no_derived_leaf_def leaf_key_def)
next
  case (CardBinaryOperatorNode l op r)
  then show ?case using binary_key_lower[of l op r] by (simp add: no_derived_leaf_def leaf_key_def)
qed (auto simp: list_all_iff)

lemma flatten_no_derived: "no_derived n \<Longrightarrow> no_derived (flatten_nested_operations n)"
proof (induction n)
  case (AndNode ops)
  have "no_derived m \<Longrightarrow> k \<in> set (and_operands m) \<Longrightarrow> no_derived k" for m k
    by (cases m) (auto simp: and_operands_def list_all_iff)
  with AndNode show ?case by (fastforce simp: list_all_iff)
next
  case (OrNode ops)
  have "no_derived m \<Longrightarrow> k \<in> set (or_operands m) \<Longrightarrow> no_derived k" for m k
    by (cases m) (auto simp: or_operands_def list_all_iff)
  with OrNode show ?case by (fastforce simp: list_all_iff)
qed (simp_all add: no_derived_leaf_def leaf_key_def)

lemma expand_derived_ok:
  assumes "wf_query q" "canonical q"
  shows "\<exists>q'. expand_derived_predicates q = Inr q' \<and> wf_query q' \<and> canonical q' \<and> no_derived (query_root q')"
proof -
  obtain n where q: "q = Query n" and n: "n = TrueNode \<or> wf_node n" using assms(1) by (cases q) (auto simp: wf_query_def)
  have e: "expand_derived_predicates q =
      Inr (if changes n then flatten_nested_operations (Query (expand_spec n)) else q)"
    by (simp add: expand_derived_predicates_def q query_root_def expand_eq)
  have nd: "no_derived (expand_spec n)" by (rule expand_spec_no_derived)
  show ?thesis
  proof (cases "changes n")
    case True
    then have "wf_node n" using n by (auto simp: expansion_of_def leaf_key_def)
    then have "wf_query (flatten_nested_operations (Query (expand_spec n)))"
      by (intro flatten_wf_query) (simp add: wf_query_def expand_spec_wf)
    with True e nd show ?thesis using flatten_canonical[of "Query (expand_spec n)"] flatten_no_derived[OF nd]
      by (auto simp: query_root_def)
  next
    case False
    with e assms nd q show ?thesis using expand_spec_same[OF False] by (simp add: query_root_def)
  qed
qed

lemma lower_query_ok:
  assumes "wf_query q" "canonical q" "no_derived (query_root q)"
  shows "wf_query (lower_literal_regexes q) \<and> canonical (lower_literal_regexes q) \<and> no_derived (query_root (lower_literal_regexes q))"
  using assms
  by (cases q) (auto simp: wf_query_def lower_literal_regexes_def query_root_def lower_leaves_wf lower_leaves_canonical lower_no_derived)

lemma rewrite_query_ok:
  assumes "wf_query q" "canonical q"
  shows "\<exists>q'. rewrite_query q = Inr q' \<and> wf_query q' \<and> canonical q' \<and> no_derived (query_root q')"
  using expand_derived_ok[OF assms] lower_query_ok by (auto simp: rewrite_query_def)

lemma parse_scryfall_cases:
  "(\<exists>q. parse_scryfall_query src = Inr q \<and> wf_query q \<and> canonical q \<and> no_derived (query_root q))
   \<or> parse_scryfall_query src = Inl ValueError \<or> parse_scryfall_query src = Inl OverflowError"
  using parse_query_cases[of src] rewrite_query_ok by (auto simp: parse_scryfall_query_def)

end
