(* ===== verification/Parsing_F.thy ===== *)
theory Parsing_F
  imports Rewrite_Props
begin

text \<open>
  \<open>balance_partial_query\<close> of \<open>src/api/parsing/parsing_f.py\<close>: it closes the quotes and parentheses a
  half-typed query leaves open. The stack is a list with its top first.
\<close>

definition char_to_mirror :: "(nat \<times> nat) list" where
  "char_to_mirror = [(40, 41), (39, 39), (34, 34), (41, 40)]"

definition quote_c :: "nat \<Rightarrow> bool" where
  "quote_c c \<longleftrightarrow> c = 39 \<or> c = 34"

definition balance_step :: "pstr \<Rightarrow> nat \<Rightarrow> pstr result" where
  "balance_step stack c =
     (if stack \<noteq> [] \<and> quote_c (hd stack) then Inr (if c = hd stack then tl stack else stack)
      else case map_of char_to_mirror c of
        None \<Rightarrow> Inr stack
      | Some m \<Rightarrow>
          if stack \<noteq> [] \<and> hd stack = m then Inr (tl stack)
          else if c = 41 then Inl ValueError
          else Inr (c # stack))"

fun balance_loop :: "pstr \<Rightarrow> pstr \<Rightarrow> pstr result" where
  "balance_loop stack [] = Inr stack"
| "balance_loop stack (c # s) = bindr (balance_step stack c) (\<lambda>stack. balance_loop stack s)"

definition mirror :: "nat \<Rightarrow> nat" where
  "mirror c = (case map_of char_to_mirror c of Some m \<Rightarrow> m | None \<Rightarrow> c)"

definition balance_partial_query :: "pstr \<Rightarrow> pstr result" where
  "balance_partial_query query = bindr (balance_loop [] query) (\<lambda>stack. Inr (query @ map mirror stack))"

section \<open>The result is balanced\<close>

text \<open>The stack holds opening parentheses, below at most one quote.\<close>

fun stack_ok :: "pstr \<Rightarrow> bool" where
  "stack_ok [] = True"
| "stack_ok (c # st) \<longleftrightarrow> (c = 40 \<or> quote_c c) \<and> list_all (\<lambda>d. d = 40) st"

lemma char_to_mirror_simps:
  "map_of char_to_mirror c = (if c = 40 then Some 41 else if c = 39 then Some 39 else if c = 34 then Some 34
     else if c = 41 then Some 40 else None)"
  by (simp add: char_to_mirror_def)

lemma balance_step_ok: "stack_ok st \<Longrightarrow> balance_step st c = Inr st' \<Longrightarrow> stack_ok st'"
  by (cases st; cases "tl st")
     (auto simp: balance_step_def char_to_mirror_simps quote_c_def split: if_splits)

lemma balance_loop_ok: "stack_ok st \<Longrightarrow> balance_loop st s = Inr st' \<Longrightarrow> stack_ok st'"
  by (induction s arbitrary: st) (auto simp: bindr_Inr_iff dest: balance_step_ok)

lemma balance_loop_append: "balance_loop st (s @ t) = bindr (balance_loop st s) (\<lambda>st. balance_loop st t)"
proof (induction s arbitrary: st)
  case (Cons c s)
  then show ?case by (cases "balance_step st c") simp_all
qed simp

lemma close_parens: "list_all (\<lambda>d. d = 40) st \<Longrightarrow> balance_loop st (map mirror st) = Inr []"
  by (induction st) (auto simp: balance_step_def quote_c_def mirror_def char_to_mirror_simps)

lemma close_stack: "stack_ok st \<Longrightarrow> balance_loop st (map mirror st) = Inr []"
proof (cases st)
  case (Cons c st')
  assume "stack_ok st"
  then have c: "c = 40 \<or> quote_c c" "balance_loop st' (map mirror st') = Inr []" using Cons close_parens by auto
  have "balance_step (c # st') (mirror c) = Inr st'"
    using c(1) by (auto simp: balance_step_def quote_c_def mirror_def char_to_mirror_simps)
  with c(2) Cons show ?thesis by simp
qed simp

lemma balance_result:
  assumes "balance_partial_query q = Inr r"
  shows "balance_loop [] r = Inr []" "\<exists>t. r = q @ t \<and> set t \<subseteq> {41, 39, 34}"
proof -
  obtain st where st: "balance_loop [] q = Inr st" "r = q @ map mirror st"
    using assms by (auto simp: balance_partial_query_def bindr_Inr_iff)
  have ok: "stack_ok st" using balance_loop_ok[OF _ st(1)] by simp
  then show "balance_loop [] r = Inr []" using st close_stack by (simp add: balance_loop_append)
  have "set st \<subseteq> {40, 39, 34}" using ok by (cases st) (auto simp: quote_c_def list_all_iff)
  then have "set (map mirror st) \<subseteq> {41, 39, 34}" by (auto simp: mirror_def char_to_mirror_simps)
  with st(2) show "\<exists>t. r = q @ t \<and> set t \<subseteq> {41, 39, 34}" by blast
qed

lemma balance_idempotent: "balance_loop [] r = Inr [] \<Longrightarrow> balance_partial_query r = Inr r"
  by (simp add: balance_partial_query_def)

lemma balance_step_error: "balance_step st c = Inl e \<Longrightarrow> e = ValueError \<and> c = 41"
  by (auto simp: balance_step_def split: if_splits option.splits)

lemma balance_error: "balance_partial_query q = Inl e \<Longrightarrow> e = ValueError \<and> 41 \<in> set q"
proof -
  have "balance_loop st q = Inl e \<Longrightarrow> e = ValueError \<and> 41 \<in> set q" for st
    by (induction q arbitrary: st) (auto simp: bindr_Inl_iff dest: balance_step_error)
  then show "balance_partial_query q = Inl e \<Longrightarrow> e = ValueError \<and> 41 \<in> set q"
    by (auto simp: balance_partial_query_def bindr_Inl_iff)
qed

end
