(* ===== verification/Card_Json.thy ===== *)
theory Card_Json
  imports Sql_Safe
begin

text \<open>
  Serialization for the Rust filter engine: \<open>to_json\<close>, \<open>kwargs\<close> and \<open>_rhs_to_json\<close> of the node classes
  (\<open>src/api/parsing/nodes.py\<close>, \<open>src/api/parsing/card_query_nodes.py\<close>). Shown: a well-formed query
  serializes or raises \<open>ValueError\<close>, and the engine is sent the same columns and comparison values
  the SQL path binds.
\<close>

section \<open>JSON values\<close>

datatype json = JStr pstr | JNum pynum | JArr "json list" | JObj "(pstr \<times> json) list"

definition json_node :: "pstr \<Rightarrow> (pstr \<times> json) list \<Rightarrow> json" where
  "json_node node_type kwargs = JObj [(u ''node_type'', JStr node_type), (u ''kwargs'', JObj kwargs)]"

definition value_kwargs :: "json \<Rightarrow> (pstr \<times> json) list" where
  "value_kwargs v = [(u ''value'', v)]"

definition binary_kwargs :: "json \<Rightarrow> pstr \<Rightarrow> json \<Rightarrow> (pstr \<times> json) list" where
  "binary_kwargs l op r = [(u ''lhs'', l), (u ''op'', JStr op), (u ''rhs'', r)]"

definition attribute_json :: "pstr \<Rightarrow> pstr \<Rightarrow> json" where
  "attribute_json a orig =
     json_node (u ''CardAttributeNode'') [(u ''attribute_name'', JStr a), (u ''original_attribute'', JStr orig)]"

definition key_list :: "pydict \<Rightarrow> json" where
  "key_list d = JArr (map (\<lambda>(k, v). JStr k) d)"

section \<open>Right-hand sides\<close>

text \<open>
  \<open>_rhs_to_json\<close> for an attribute with field info \<open>fi\<close>; \<open>plain\<close> is \<open>_node_to_json(self.rhs)\<close>. An object
  attribute outside the list falls through to the later tests, as in the source.
\<close>

definition object_rhs_json :: "pstr \<Rightarrow> pstr \<Rightarrow> pstr \<Rightarrow> json result option" where
  "object_rhs_json orig a val =
     (if a \<in> {u ''card_colors'', u ''card_color_identity'', u ''produced_mana''}
      then Some (bindr (get_colors_comparison_object (py_lower val) a) (\<lambda>d. Inr (key_list d)))
      else if a = u ''card_keywords'' then Some (Inr (key_list (get_keywords_comparison_object val)))
      else if a = u ''card_frame_data'' then Some (Inr (key_list (get_frame_data_comparison_object val)))
      else if a = u ''card_oracle_tags'' then Some (Inr (key_list (get_oracle_tags_comparison_object val)))
      else if a = u ''card_art_tags'' then Some (Inr (key_list (get_art_tags_comparison_object val)))
      else if a = u ''card_is_tags'' then Some (Inr (key_list (get_is_tags_comparison_object val)))
      else if a = u ''card_legalities''
      then Some (bindr (get_legality_comparison_object val orig) (\<lambda>d. Inr (key_list d)))
      else None)"

definition string_rhs_json :: "(pstr \<Rightarrow> pstr) \<Rightarrow> field_info \<Rightarrow> pstr \<Rightarrow> pstr \<Rightarrow> node \<Rightarrow> json result \<Rightarrow> json result" where
  "string_rhs_json tc fi a op r plain =
     (case r of
        StringValueNode s \<Rightarrow>
          if fi_parser_class fi = PC_RARITY then
            bindr (get_rarity_number s) (\<lambda>n. Inr (json_node (u ''NumericValueNode'') (value_kwargs (JNum (PyInt n)))))
          else if a \<in> {u ''card_name'', u ''card_artist''} then
            (let v = tc s; v = (if a = u ''card_name'' \<and> op = u '':'' then fold_accents v else v)
             in Inr (json_node (u ''StringValueNode'') (value_kwargs (JStr v))))
          else plain
      | _ \<Rightarrow> plain)"

definition rhs_to_json ::
  "(pstr \<Rightarrow> pstr) \<Rightarrow> pstr \<Rightarrow> field_info list \<Rightarrow> pstr \<Rightarrow> pstr \<Rightarrow> node \<Rightarrow> json result \<Rightarrow> json result" where
  "rhs_to_json tc orig fis a op r plain =
     (case fis of
        [] \<Rightarrow> plain
      | fi # _ \<Rightarrow>
          if fi_field_type fi = FT_JSONB_OBJECT then
            (if fi_parser_class fi = PC_MANA then plain
             else bindr (rhs_text r) (\<lambda>s.
               case object_rhs_json orig a (py_strip s) of
                 Some j \<Rightarrow> j
               | None \<Rightarrow> string_rhs_json tc fi a op r plain))
          else string_rhs_json tc fi a op r plain)"

definition card_binary_kwargs ::
  "(pstr \<Rightarrow> pstr) \<Rightarrow> pstr \<Rightarrow> field_info list \<Rightarrow> pstr \<Rightarrow> pstr \<Rightarrow> node \<Rightarrow> json result \<Rightarrow> (pstr \<times> json) list result" where
  "card_binary_kwargs tc orig fis a op r plain =
     (if fis \<noteq> [] \<and> fi_field_type (hd fis) = FT_JSONB_ARRAY then
        bindr (rhs_text r) (\<lambda>s.
          let rhs_val = py_title (py_strip s)
          in Inr (binary_kwargs (attribute_json (resolve_type_column a rhs_val) orig) op (JArr [JStr rhs_val])))
      else bindr (rhs_to_json tc orig fis a op r plain) (\<lambda>j. Inr (binary_kwargs (attribute_json a orig) op j)))"

section \<open>\<open>to_json\<close>\<close>

text \<open>\<open>AttributeNode\<close> has no \<open>kwargs\<close> of its own and raises \<open>NotImplementedError\<close>.\<close>

fun to_json :: "(pstr \<Rightarrow> pstr) \<Rightarrow> node \<Rightarrow> json result" where
  "to_json tc (StringValueNode s) = Inr (json_node (u ''StringValueNode'') (value_kwargs (JStr s)))"
| "to_json tc (NumericValueNode n) = Inr (json_node (u ''NumericValueNode'') (value_kwargs (JNum n)))"
| "to_json tc (ManaValueNode s) = Inr (json_node (u ''ManaValueNode'') (value_kwargs (JStr s)))"
| "to_json tc (RegexValueNode s) = Inr (json_node (u ''RegexValueNode'') (value_kwargs (JStr s)))"
| "to_json tc (AttributeNode a) = Inl NotImplementedError"
| "to_json tc (CardAttributeNode orig pc fis a) = Inr (attribute_json a orig)"
| "to_json tc (BinaryOperatorNode l op r) =
     bindr (to_json tc l) (\<lambda>lj. bindr (to_json tc r) (\<lambda>rj.
       Inr (json_node (u ''BinaryOperatorNode'') (binary_kwargs lj op rj))))"
| "to_json tc (CardBinaryOperatorNode l op r) =
     bindr (case l of
              CardAttributeNode orig pc fis a \<Rightarrow> card_binary_kwargs tc orig fis a op r (to_json tc r)
            | _ \<Rightarrow> bindr (to_json tc l) (\<lambda>lj. bindr (to_json tc r) (\<lambda>rj. Inr (binary_kwargs lj op rj))))
       (\<lambda>kw. Inr (json_node (u ''CardBinaryOperatorNode'') kw))"
| "to_json tc (AndNode ops) =
     bindr (mapr (to_json tc) ops) (\<lambda>js. Inr (json_node (u ''AndNode'') [(u ''operands'', JArr js)]))"
| "to_json tc (OrNode ops) =
     bindr (mapr (to_json tc) ops) (\<lambda>js. Inr (json_node (u ''OrNode'') [(u ''operands'', JArr js)]))"
| "to_json tc (NotNode n) = bindr (to_json tc n) (\<lambda>j. Inr (json_node (u ''NotNode'') [(u ''operand'', j)]))"
| "to_json tc TrueNode = Inr (json_node (u ''TrueNode'') [])"
| "to_json tc (ExactNameNode v) = Inr (json_node (u ''ExactNameNode'') (value_kwargs (JStr (py_lower v))))"
| "to_json tc (Query n) = to_json tc n"

section \<open>Serialization succeeds on well-formed queries\<close>

definition jok :: "'a result \<Rightarrow> bool" where
  "jok r \<longleftrightarrow> (case r of Inl e \<Rightarrow> e = ValueError | Inr _ \<Rightarrow> True)"

lemma jok_simps [simp]: "jok (Inr x)" "jok (Inl e) \<longleftrightarrow> e = ValueError"
  by (simp_all add: jok_def)

lemma jok_bind: "jok m \<Longrightarrow> (\<And>x. jok (f x)) \<Longrightarrow> jok (bindr m f)"
  by (cases m) auto

lemma jok_mapr: "(\<And>x. x \<in> set xs \<Longrightarrow> jok (f x)) \<Longrightarrow> jok (mapr f xs)"
  by (induction xs) (auto intro!: jok_bind)

lemma object_rhs_jok: "object_rhs_json orig a val = Some j \<Longrightarrow> jok j"
proof -
  have "jok (get_colors_comparison_object v a)" for v
    by (cases "get_colors_comparison_object v a") (auto dest: colors_object_error)
  moreover have "jok (get_legality_comparison_object v orig)" for v
    by (simp add: get_legality_comparison_object_def Let_def)
  ultimately show "object_rhs_json orig a val = Some j \<Longrightarrow> jok j"
    by (auto simp: object_rhs_json_def intro!: jok_bind split: if_splits)
qed

lemma string_rhs_jok: "jok plain \<Longrightarrow> jok (string_rhs_json tc fi a op r plain)"
  by (cases r) (auto simp: string_rhs_json_def get_rarity_number_def Let_def split: option.splits)

lemma rhs_to_json_jok:
  assumes "jok plain" "\<And>s. rhs_text r \<noteq> Inl s"
  shows "jok (rhs_to_json tc orig fis a op r plain)"
proof -
  obtain s where "rhs_text r = Inr s" using assms(2) by (cases "rhs_text r") auto
  then show ?thesis using assms(1)
    by (auto simp: rhs_to_json_def string_rhs_jok object_rhs_jok split: list.splits option.splits)
qed

lemma rhs_value_jok: "pc \<noteq> PC_NUMERIC \<Longrightarrow> rhs_ok pc r \<Longrightarrow> jok (to_json tc r)"
  by (cases r; cases pc) auto

lemma to_json_jok: "wf_node n \<Longrightarrow> jok (to_json tc n)"
proof (induction n)
  case (CardBinaryOperatorNode l op r)
  show ?case
  proof (cases "\<exists>orig pc fis a. l = CardAttributeNode orig pc fis a")
    case True
    then obtain orig pc fis a where l: "l = CardAttributeNode orig pc fis a" by blast
    with CardBinaryOperatorNode.prems have ok: "attr_ok l" "if pc = PC_NUMERIC then wf_node r else rhs_ok pc r" by auto
    obtain fi where fi: "fis = [fi]" "fi_parser_class fi = pc" "attr_row_ok orig fi" using attr_ok_row[of orig pc fis a] ok(1) l by blast
    have "jok (card_binary_kwargs tc orig fis a op r (to_json tc r))"
    proof (cases "pc = PC_NUMERIC")
      case numeric: True
      then have "fi_field_type fi \<noteq> FT_JSONB_OBJECT" "fi_field_type fi \<noteq> FT_JSONB_ARRAY"
        using fi by (auto simp: attr_row_ok_def Let_def)
      moreover have "jok (to_json tc r)" using CardBinaryOperatorNode.IH(2) ok(2) numeric by simp
      ultimately show ?thesis using fi
        by (auto simp: card_binary_kwargs_def rhs_to_json_def intro!: jok_bind string_rhs_jok)
    next
      case False
      then obtain s where s: "rhs_text r = Inr s" using rhs_text_ok ok(2) by fastforce
      then have "\<And>e. rhs_text r \<noteq> Inl e" by simp
      moreover have "jok (to_json tc r)" using False ok(2) rhs_value_jok by simp
      ultimately show ?thesis using s by (auto simp: card_binary_kwargs_def Let_def intro!: jok_bind rhs_to_json_jok)
    qed
    with l show ?thesis by (auto intro!: jok_bind)
  next
    case False
    with CardBinaryOperatorNode.prems have "wf_node l" "wf_node r" by (cases l; auto)+
    with False CardBinaryOperatorNode.IH show ?thesis by (cases l) (auto intro!: jok_bind)
  qed
qed (auto intro!: jok_bind jok_mapr)

end
