(* ===== verification/Sql_Props.thy ===== *)
theory Sql_Props
  imports Parsing_F Card_Json
begin

text \<open>
  Properties of the whole path from a query string to SQL: parsing, rewriting, generation.
\<close>

definition query_to_sql :: "(pstr \<Rightarrow> pstr) \<Rightarrow> pstr \<Rightarrow> sql_result" where
  "query_to_sql tc src = bindr (parse_scryfall_query src) (generate_sql_query tc)"

lemma wf_query_sql:
  assumes "wf_query q"
  shows "store.post sql_errors [] (generate_sql_query tc q)"
proof -
  have empty: "ctx_ok []" by (simp add: ctx_ok_def)
  obtain n where q: "q = Query n" and n: "n = TrueNode \<or> wf_node n" using assms by (cases q) (auto simp: wf_query_def)
  have "store.post sql_errors [] (to_sql tc n [])"
  proof (cases "n = TrueNode")
    case True
    have "sql_part [] (u ''TRUE'')" by (intro part_rules) (simp add: plain_ascii)
    with True empty show ?thesis by (simp add: store.post_def store.le_refl)
  next
    case False
    with n to_sql_post[OF _ empty] show ?thesis by blast
  qed
  then show ?thesis unfolding generate_sql_query_def q to_sql.simps
    by (rule store.post_bind) (auto simp: store.post_def)
qed

text \<open>
  C1: No query string reaches the database as SQL text. The statement generated for any string is
  made of printable characters without quotes, semicolons, dollars or backslashes; every percent
  sign in it opens a well-formed placeholder, and every placeholder is a key of the returned
  context, whose values are stored under the names computed from them. The only exceptions are
  \<open>ValueError\<close>, \<open>OverflowError\<close> and \<open>AssertionError\<close>.
\<close>

theorem query_to_sql_safe:
  "case query_to_sql tc src of
     Inl e \<Rightarrow> e = ValueError \<or> e = OverflowError \<or> e = AssertionError
   | Inr (sql, q, ctx) \<Rightarrow>
       list_all sql_char sql \<and> (\<exists>ns. sql_names sql = Some ns \<and> set ns \<subseteq> dom (map_of ctx)) \<and> ctx_ok ctx"
proof -
  consider q where "parse_scryfall_query src = Inr q" "wf_query q"
    | "parse_scryfall_query src = Inl ValueError" | "parse_scryfall_query src = Inl OverflowError"
    using parse_scryfall_cases[of src] by blast
  then show ?thesis
  proof cases
    case 1
    from wf_query_sql[OF 1(2), of tc] 1(1) show ?thesis
      by (auto simp: query_to_sql_def store.post_def sql_errors_def sql_part_def split: sum.splits)
  qed (simp_all add: query_to_sql_def)
qed

text \<open>
  C8: The parsing entry point \<open>parse_scryfall_query\<close> returns on every string: a well-formed canonical
  query in which no derived predicate is left, or \<open>ValueError\<close>, or \<open>OverflowError\<close>.
\<close>

theorem parse_scryfall_query_total:
  "(\<exists>q. parse_scryfall_query src = Inr q \<and> wf_query q \<and> canonical q \<and> no_derived (query_root q))
   \<or> parse_scryfall_query src = Inl ValueError \<or> parse_scryfall_query src = Inl OverflowError"
  by (rule parse_scryfall_cases)

text \<open>
  C21: Registering a parameter never disturbs the ones registered before. In a context whose names
  are those of its values, adding a value yields a placeholder bound to it, keeps every earlier
  binding, and keeps the invariant.
\<close>

theorem context_add_keeps_bindings:
  assumes "ctx_ok ctx" "pval_ok v" "context_add ctx v = Inr (ph, ctx')"
  shows "ctx_ok ctx' \<and> map_of ctx \<subseteq>\<^sub>m map_of ctx' \<and> (\<exists>n. ph = placeholder n \<and> map_of ctx' n = Some v)"
  using context_add_ok[OF assms] by blast

theorem context_add_keeps_bindings_witness:
  "let ctx = [(u ''p_int_Mw'', PVNum (PyInt 3))];
       (ph, ctx') = (case context_add ctx (PVStr (u ''a'')) of Inr r \<Rightarrow> r | Inl _ \<Rightarrow> ([], []))
   in ctx_ok ctx' \<and> map_of ctx \<subseteq>\<^sub>m map_of ctx' \<and> (\<exists>n. ph = placeholder n \<and> map_of ctx' n = Some (PVStr (u ''a'')))"
proof -
  let ?ctx = "[(u ''p_int_Mw'', PVNum (PyInt 3))]"
  have 1: "ctx_ok ?ctx" unfolding ctx_ok_def by (simp add: pval_ok_def) code_simp
  have 2: "pval_ok (PVStr (u ''a''))" by (simp add: pval_ok_def)
  have 3: "context_add ?ctx (PVStr (u ''a'')) = Inr (u ''%(p_str_YQ)s'', ?ctx @ [(u ''p_str_YQ'', PVStr (u ''a''))])"
    by code_simp
  from context_add_keeps_bindings[OF 1 2 3] show ?thesis by (simp only: 3 sum.case Let_def prod.case)
qed

text \<open>
  The name of a parameter determines its value: two registered values with the same name are
  equal, so distinct values never share a placeholder.
\<close>

theorem param_name_determines_value:
  assumes "pval_ok v" "pval_ok w" "param_name v = Inr n" "param_name w = Inr n"
  shows "v = w"
  by (rule param_name_inj[OF assms])

theorem param_name_determines_value_witness:
  "PVList [PVStr (u ''Elf'')] = PVList [PVStr (u ''Elf'')]"
  by (rule param_name_determines_value[where n = "u ''p_list_WydFbGYnXQ''"]) (simp add: pval_ok_def, simp add: pval_ok_def, code_simp, code_simp)

text \<open>
  C38: Every well-formed query serializes for the Rust engine: \<open>to_json\<close> returns a document or raises
  \<open>ValueError\<close>, whatever \<open>titlecase\<close> does.
\<close>

theorem to_json_total:
  assumes "parse_scryfall_query src = Inr q"
  shows "(\<exists>j. to_json tc q = Inr j) \<or> to_json tc q = Inl ValueError"
proof -
  obtain n where n: "q = Query n" "n = TrueNode \<or> wf_node n"
    using parse_scryfall_cases[of src] assms by (cases q) (auto simp: wf_query_def)
  then have "jok (to_json tc q)" using to_json_jok by auto
  then show ?thesis by (auto simp: jok_def split: sum.splits)
qed

theorem to_json_total_witness:
  "(\<exists>j. to_json py_title (Query TrueNode) = Inr j) \<or> to_json py_title (Query TrueNode) = Inl ValueError"
  by (rule to_json_total[where src = "u ''  ''"]) code_simp

section \<open>Rewriting\<close>

text \<open>
  C9: Expanding derived predicates preserves meaning. Under any three-valued reading of the
  leaves, the expanded query evaluates to what the parsed one does when each derived leaf is
  read as the parse of its definition.
\<close>

theorem expand_derived_meaning:
  assumes "parse_query src = Inr q" "expand_derived_predicates q = Inr q'"
  shows "tri_eval I q' = tri_eval (\<lambda>leaf. tri_eval I (expansion_node leaf)) q"
proof -
  obtain n where q: "q = Query n" and n: "n = TrueNode \<or> wf_node n"
    using parse_query_wf[OF assms(1)] by (cases q) (auto simp: wf_query_def)
  have q': "q' = (if changes n then flatten_nested_operations (Query (expand_spec n)) else q)"
    using assms(2) by (auto simp: expand_derived_predicates_def q query_root_def expand_eq)
  have "tri_eval I (expand_spec n) = tri_eval (\<lambda>leaf. tri_eval I (expansion_node leaf)) n"
    using n expand_spec_eval by (auto simp: expansion_node_def expansion_of_def leaf_key_def)
  then show ?thesis using q q' expand_spec_same[of n] flatten_tri_eval[of I "expand_spec n"] by (auto split: if_splits)
qed

definition is_meld :: node where
  "is_meld = (case parse_query (u ''is:meld'') of Inr q \<Rightarrow> q | Inl _ \<Rightarrow> TrueNode)"

definition layout_meld :: node where
  "layout_meld = (case parse_query (u ''layout:meld'') of Inr q \<Rightarrow> q | Inl _ \<Rightarrow> TrueNode)"

lemma meld_parses: "parse_query (u ''is:meld'') = Inr is_meld" "expand_derived_predicates is_meld = Inr layout_meld"
  by code_simp+

theorem expand_derived_meaning_witness:
  "tri_eval (\<lambda>_. Some True) layout_meld = tri_eval (\<lambda>leaf. tri_eval (\<lambda>_. Some True) (expansion_node leaf)) is_meld"
  by (rule expand_derived_meaning[OF meld_parses])

text \<open>
  Escaping and recognizing literals are inverse: a nonempty text written as a regex with its
  metacharacters escaped is recognized as that literal.
\<close>

theorem regex_literal_round_trip:
  assumes "s \<noteq> []"
  shows "regex_plain_literal (regex_escape s) = Some s"
  by (rule regex_plain_escape[OF assms])

theorem regex_literal_round_trip_witness: "regex_plain_literal (regex_escape (u ''(a.b)'')) = Some (u ''(a.b)'')"
  by (rule regex_literal_round_trip) simp

lemma strip_sublist: "sublist (py_strip s) s"
proof -
  have "suffix (dropWhile p s) s" for p by (rule suffix_dropWhile)
  moreover have "prefix (rstrip_of p t) t" for p t
    using suffix_dropWhile[of p "rev t"] by (simp add: rstrip_of_def suffix_to_prefix)
  ultimately show ?thesis
    unfolding py_strip_def py_lstrip_def by (meson sublist_order.order_trans prefix_imp_sublist suffix_imp_sublist)
qed

lemma lower_sublist: "sublist s t \<Longrightarrow> sublist (py_lower s) (py_lower t)"
  unfolding py_lower_def by (rule map_mono_sublist)

text \<open>
  A regex recognized as the literal \<open>l\<close> and lowered to a substring search still finds every text
  that holds \<open>l\<close> (ignoring case); when \<open>l\<close> has no blank it finds exactly those.
\<close>

theorem lowered_regex_search:
  assumes "regex_plain_literal p = Some l"
  shows "(sublist (py_lower l) t \<longrightarrow> like (like_words_pattern (py_strip l)) t)
    \<and> (list_all (\<lambda>c. \<not> py_isspace_c c) (py_lower l) \<longrightarrow>
        (like (like_words_pattern (py_strip l)) t \<longleftrightarrow> sublist (py_lower l) t))"
proof -
  have "l \<noteq> []" using regex_plain_literal_eq[OF assms] by blast
  have "sublist (py_lower l) t \<Longrightarrow> words_in_order (py_split (py_lower (py_strip l))) t"
    using lower_sublist[OF strip_sublist[of l]] words_in_sublist sublist_order.order_trans by blast
  moreover have "words_in_order (py_split (py_lower (py_strip l))) t \<longleftrightarrow> sublist (py_lower l) t"
    if blank: "list_all (\<lambda>c. \<not> py_isspace_c c) (py_lower l)"
  proof -
    have "\<not> py_isspace_c c" if "c \<in> set l" for c
      using blank that by (auto simp: list_all_iff py_lower_def lower_c_def is_upper_c_def py_isspace_c_def split: if_splits)
    then have "py_strip l = l" by (rule py_strip_no_space)
    moreover have "py_split (py_lower l) = [py_lower l]" using blank \<open>l \<noteq> []\<close> by (intro no_blank_split) (simp_all add: py_lower_def)
    ultimately show ?thesis by (simp only: single_word)
  qed
  moreover have "like (like_words_pattern (py_strip l)) t \<longleftrightarrow> words_in_order (py_split (py_lower (py_strip l))) t"
    by (simp only: like_words_pattern_eq like_pattern_words)
  ultimately show ?thesis by blast
qed

theorem lowered_regex_search_witness:
  "sublist (py_lower (u ''a.b'')) (u ''xa.by'') \<and> like (like_words_pattern (py_strip (u ''a.b''))) (u ''xa.by'')"
proof -
  have "sublist (py_lower (u ''a.b'')) (u ''xa.by'')"
    unfolding sublist_def by (intro exI [of _ "u ''x''"] exI [of _ "u ''y''"]) code_simp
  moreover have "regex_plain_literal [97, 92, 46, 98] = Some (u ''a.b'')" by code_simp
  ultimately show ?thesis using lowered_regex_search by blast
qed

text \<open>
  A lowered regex with a blank finds too much on the SQL path: the regex \<open>a b\<close> is a literal,
  its lowered search matches \<open>a x b\<close>, and that text does not hold \<open>a b\<close>.
\<close>

theorem lowered_regex_finds_too_much:
  "regex_plain_literal (u ''a b'') = Some (u ''a b'')
   \<and> like (like_words_pattern (py_strip (u ''a b''))) (u ''a x b'') \<and> \<not> py_in (u ''a b'') (u ''a x b'')"
  by code_simp

section \<open>Partial queries\<close>

text \<open>
  \<open>balance_partial_query\<close> appends closing characters only, its result is balanced and a fixed
  point; it fails only with \<open>ValueError\<close>, on a query with a closing parenthesis.
\<close>

theorem balance_partial_query_balances:
  "case balance_partial_query q of
     Inl e \<Rightarrow> e = ValueError \<and> 41 \<in> set q
   | Inr r \<Rightarrow> (\<exists>t. r = q @ t \<and> set t \<subseteq> {41, 39, 34}) \<and> balance_loop [] r = Inr [] \<and> balance_partial_query r = Inr r"
  using balance_result[of q] balance_idempotent balance_error[of q] by (auto split: sum.splits)

section \<open>Errors\<close>

text \<open>
  A mana comparison with \<open>!=\<close> parses and then raises \<open>AssertionError\<close> in SQL generation.
\<close>

theorem mana_not_equal_asserts: "query_to_sql tc (u ''mana!=r'') = Inl AssertionError"
proof -
  have "(case parse_scryfall_query (u ''mana!=r'') of
      Inr (Query (CardBinaryOperatorNode (CardAttributeNode orig pc (fi # fis) a) op r)) \<Rightarrow>
        a = u ''mana_cost_jsonb'' \<and> op = u ''!='' \<and> r = ManaValueNode (u ''R'')
    | _ \<Rightarrow> False)" by code_simp
  then obtain orig pc fi fis where
    "parse_scryfall_query (u ''mana!=r'') =
       Inr (Query (CardBinaryOperatorNode (CardAttributeNode orig pc (fi # fis) (u ''mana_cost_jsonb'')) (u ''!='') (ManaValueNode (u ''R''))))"
    by (auto split: sum.splits node.splits list.splits)
  then show ?thesis
    by (simp add: query_to_sql_def generate_sql_query_def handle_card_attribute_def handle_mana_cost_comparison_def has_value_def)
qed

text \<open>
  A date whose month does not fit a C integer raises \<open>OverflowError\<close>, which the parser does not turn
  into a \<open>ValueError\<close>.
\<close>

theorem huge_month_overflows: "parse_query (u ''date:2020-99999999999-01'') = Inl OverflowError"
  by code_simp

end
