(* ===== verification/Response_Cache.thy ===== *)
theory Response_Cache
  imports Py_Prelude "HOL-Library.List_Lexorder"
begin

text \<open>
  The caches of the web service: \<open>GenerationCache\<close> (\<open>src/api/utils/generation_cache.py\<close>), which drops
  everything when a shared generation counter advances, and the response cache of
  \<open>src/api/middlewares/caching_middleware.py\<close>, as a step relation in which requests and responses
  of concurrent clients interleave.

  Both sit on mapping objects of other packages (\<open>cachebox.LRUCache\<close>, the shared cache), which are
  arguments of the definitions: a record of operations. What is relied on is the contract
  \<open>sound_cache\<close>: a lookup returns what was stored last under its key, or nothing; every operation may
  evict. The key of the response cache is serialized by \<open>orjson.dumps\<close>, an argument relied on to be injective.
\<close>

section \<open>Mapping objects\<close>

record ('m, 'k, 'v) cache_ops =
  c_new :: 'm
  c_get :: "'m \<Rightarrow> 'k \<Rightarrow> 'v option \<times> 'm"
  c_contains :: "'m \<Rightarrow> 'k \<Rightarrow> bool \<times> 'm"
  c_set :: "'m \<Rightarrow> 'k \<Rightarrow> 'v \<Rightarrow> 'm"
  c_clear :: "('m \<Rightarrow> 'm) option"
  c_invalidate :: "('m \<Rightarrow> 'm) option"

locale sound_cache =
  fixes ops :: "('m, 'k, 'v) cache_ops" and entries :: "'m \<Rightarrow> 'k \<rightharpoonup> 'v"
  assumes new_entries: "entries (c_new ops) = Map.empty"
    and get_sound: "c_get ops m k = (Some v, m') \<Longrightarrow> entries m k = Some v"
    and get_entries: "c_get ops m k = (r, m') \<Longrightarrow> entries m' \<subseteq>\<^sub>m entries m"
    and contains_entries: "c_contains ops m k = (b, m') \<Longrightarrow> entries m' \<subseteq>\<^sub>m entries m"
    and set_entries: "entries (c_set ops m k v) \<subseteq>\<^sub>m (entries m)(k \<mapsto> v)"
    and clear_entries: "c_clear ops = Some f \<Longrightarrow> entries (f m) = Map.empty"
    and invalidate_entries: "c_invalidate ops = Some f \<Longrightarrow> entries (f m) = Map.empty"
begin

lemma get_SomeD: "c_get ops m k = (r, m') \<Longrightarrow> entries m' x = Some v \<Longrightarrow> entries m x = Some v"
  using get_entries by (fastforce simp: map_le_def dom_def)

lemma contains_SomeD: "c_contains ops m k = (b, m') \<Longrightarrow> entries m' x = Some v \<Longrightarrow> entries m x = Some v"
  using contains_entries by (fastforce simp: map_le_def dom_def)

lemma set_SomeD: "entries (c_set ops m k v) x = Some w \<Longrightarrow> ((entries m)(k \<mapsto> v)) x = Some w"
  using set_entries [of m k v] unfolding map_le_def dom_def by (metis (mono_tags, lifting) mem_Collect_eq option.distinct(1))

lemmas entries_SomeD = get_SomeD contains_SomeD set_SomeD

end

section \<open>GenerationCache\<close>

text \<open>
  \<open>outer\<close> are the operations of the map from generations to inner caches, \<open>inner\<close> those of the inner
  caches the factory makes. The map holds references: the inner caches are objects of a store, and
  writing to one is seen by whoever holds its address. \<open>gen\<close> is the value of the shared counter that
  \<open>_current\<close> reads once.
\<close>

record ('m, 'c) gc_state =
  gc_map :: 'm
  gc_heap :: "'c list"

definition gc_init :: "('m, int, nat) cache_ops \<Rightarrow> ('m, 'c) gc_state" where
  "gc_init outer = \<lparr>gc_map = c_new outer, gc_heap = []\<rparr>"

definition gc_current ::
  "('m, int, nat) cache_ops \<Rightarrow> ('c, 'k, 'v) cache_ops \<Rightarrow> ('m, 'c) gc_state \<Rightarrow> int \<Rightarrow> nat \<times> ('m, 'c) gc_state" where
  "gc_current outer inner st gen =
     (case c_get outer (gc_map st) gen of
        (Some a, m) \<Rightarrow> (a, st\<lparr>gc_map := m\<rparr>)
      | (None, m) \<Rightarrow>
          let a = length (gc_heap st)
          in (a, \<lparr>gc_map = c_set outer m gen a, gc_heap = gc_heap st @ [c_new inner]\<rparr>))"

definition gc_getitem ::
  "('m, int, nat) cache_ops \<Rightarrow> ('c, 'k, 'v) cache_ops \<Rightarrow> ('m, 'c) gc_state \<Rightarrow> int \<Rightarrow> 'k \<Rightarrow>
   'v result \<times> ('m, 'c) gc_state" where
  "gc_getitem outer inner st gen key =
     (let (a, st) = gc_current outer inner st gen;
          (r, c) = c_get inner (gc_heap st ! a) key;
          st = st\<lparr>gc_heap := (gc_heap st)[a := c]\<rparr>
      in (case r of None \<Rightarrow> Inl KeyError | Some v \<Rightarrow> Inr v, st))"

definition gc_setitem ::
  "('m, int, nat) cache_ops \<Rightarrow> ('c, 'k, 'v) cache_ops \<Rightarrow> ('m, 'c) gc_state \<Rightarrow> int \<Rightarrow> 'k \<Rightarrow> 'v \<Rightarrow> ('m, 'c) gc_state" where
  "gc_setitem outer inner st gen key v =
     (let (a, st) = gc_current outer inner st gen
      in st\<lparr>gc_heap := (gc_heap st)[a := c_set inner (gc_heap st ! a) key v]\<rparr>)"

definition gc_contains ::
  "('m, int, nat) cache_ops \<Rightarrow> ('c, 'k, 'v) cache_ops \<Rightarrow> ('m, 'c) gc_state \<Rightarrow> int \<Rightarrow> 'k \<Rightarrow>
   bool \<times> ('m, 'c) gc_state" where
  "gc_contains outer inner st gen key =
     (let (a, st) = gc_current outer inner st gen;
          (b, c) = c_contains inner (gc_heap st ! a) key
      in (b, st\<lparr>gc_heap := (gc_heap st)[a := c]\<rparr>))"

definition gc_get ::
  "('m, int, nat) cache_ops \<Rightarrow> ('c, 'k, 'v) cache_ops \<Rightarrow> ('m, 'c) gc_state \<Rightarrow> int \<Rightarrow> 'k \<Rightarrow> 'v option \<Rightarrow>
   'v option result \<times> ('m, 'c) gc_state" where
  "gc_get outer inner st gen key dflt =
     (case gc_getitem outer inner st gen key of
        (Inr v, st) \<Rightarrow> (Inr (Some v), st)
      | (Inl e, st) \<Rightarrow> (if e = KeyError then Inr dflt else Inl e, st))"

definition gc_clear ::
  "('m, int, nat) cache_ops \<Rightarrow> ('c, 'k, 'v) cache_ops \<Rightarrow> ('m, 'c) gc_state \<Rightarrow> int \<Rightarrow> unit result \<times> ('m, 'c) gc_state" where
  "gc_clear outer inner st gen =
     (let (a, st) = gc_current outer inner st gen
      in case c_clear inner of
           None \<Rightarrow> (Inl AttributeError, st)
         | Some f \<Rightarrow> (Inr (), st\<lparr>gc_heap := (gc_heap st)[a := f (gc_heap st ! a)]\<rparr>))"

datatype ('k, 'v) gc_op = GcGet 'k | GcSet 'k 'v | GcContains 'k | GcClear

text \<open>A use of the cache is a sequence of operations, each at the generation it reads.\<close>

definition gc_step ::
  "('m, int, nat) cache_ops \<Rightarrow> ('c, 'k, 'v) cache_ops \<Rightarrow> ('m, 'c) gc_state \<Rightarrow> int \<times> ('k, 'v) gc_op \<Rightarrow> ('m, 'c) gc_state" where
  "gc_step outer inner st e =
     (case snd e of
        GcGet key \<Rightarrow> snd (gc_getitem outer inner st (fst e) key)
      | GcSet key v \<Rightarrow> gc_setitem outer inner st (fst e) key v
      | GcContains key \<Rightarrow> snd (gc_contains outer inner st (fst e) key)
      | GcClear \<Rightarrow> snd (gc_clear outer inner st (fst e)))"

definition gc_run ::
  "('m, int, nat) cache_ops \<Rightarrow> ('c, 'k, 'v) cache_ops \<Rightarrow> (int \<times> ('k, 'v) gc_op) list \<Rightarrow> ('m, 'c) gc_state" where
  "gc_run outer inner es = foldl (gc_step outer inner) (gc_init outer) es"

text \<open>
  The abstract cache: one mapping for each generation, emptied by \<open>clear\<close> alone.
\<close>

definition spec_step :: "(int \<Rightarrow> 'k \<rightharpoonup> 'v) \<Rightarrow> int \<times> ('k, 'v) gc_op \<Rightarrow> int \<Rightarrow> 'k \<rightharpoonup> 'v" where
  "spec_step s e =
     (case snd e of
        GcSet key v \<Rightarrow> s(fst e := (s (fst e))(key \<mapsto> v))
      | GcClear \<Rightarrow> s(fst e := Map.empty)
      | _ \<Rightarrow> s)"

definition spec_run :: "(int \<times> ('k, 'v) gc_op) list \<Rightarrow> int \<Rightarrow> 'k \<rightharpoonup> 'v" where
  "spec_run es = foldl spec_step (\<lambda>g. Map.empty) es"


section \<open>An LRU mapping\<close>

text \<open>
  The documented behaviour of \<open>cachebox.LRUCache(maxsize)\<close>: the entries from the most to the least
  recently used; a lookup renews its entry, and an insertion into a full cache drops the last.
\<close>

definition renew :: "('k \<times> 'v) list \<Rightarrow> 'k \<Rightarrow> 'v \<Rightarrow> ('k \<times> 'v) list" where
  "renew m k v = (k, v) # filter (\<lambda>(k', v'). k' \<noteq> k) m"

definition lru_ops :: "nat \<Rightarrow> (('k \<times> 'v) list, 'k, 'v) cache_ops" where
  "lru_ops maxsize =
     \<lparr>c_new = [],
      c_get = (\<lambda>m k. case map_of m k of None \<Rightarrow> (None, m) | Some v \<Rightarrow> (Some v, renew m k v)),
      c_contains = (\<lambda>m k. (map_of m k \<noteq> None, m)),
      c_set = (\<lambda>m k v. take maxsize (renew m k v)),
      c_clear = Some (\<lambda>m. []),
      c_invalidate = None\<rparr>"

lemma map_of_filter_keys: "map_of (filter (\<lambda>(k', v'). k' \<noteq> k) m) = (map_of m)(k := None)"
  by (induction m) (auto simp: fun_eq_iff)

lemma map_of_renew: "map_of (renew m k v) = (map_of m)(k \<mapsto> v)"
  by (simp add: renew_def map_of_filter_keys)

lemma map_of_take_le: "map_of (take n m) \<subseteq>\<^sub>m map_of m"
proof -
  have "map_of m = map_of (drop n m) ++ map_of (take n m)"
    by (metis append_take_drop_id map_of_append)
  then show ?thesis by (metis map_le_map_add)
qed

interpretation lru: sound_cache "lru_ops n" map_of
proof unfold_locales
  show "map_of (c_new (lru_ops n)) = Map.empty" by (simp add: lru_ops_def)
next
  fix m :: "('k \<times> 'v) list" and k v m'
  assume "c_get (lru_ops n) m k = (Some v, m')"
  then show "map_of m k = Some v" by (auto simp: lru_ops_def split: option.splits)
next
  fix m :: "('k \<times> 'v) list" and k r m'
  assume "c_get (lru_ops n) m k = (r, m')"
  then show "map_of m' \<subseteq>\<^sub>m map_of m" by (auto simp: lru_ops_def map_of_renew map_le_def split: option.splits)
next
  fix m :: "('k \<times> 'v) list" and k v
  show "map_of (c_set (lru_ops n) m k v) \<subseteq>\<^sub>m (map_of m)(k \<mapsto> v)"
    using map_of_take_le [of n "renew m k v"] by (simp add: lru_ops_def map_of_renew)
qed (auto simp: lru_ops_def)

section \<open>A generation sees its own values only\<close>

locale generation_cache = outer: sound_cache outer omap + inner: sound_cache inner imap
  for outer :: "('m, int, nat) cache_ops" and omap and inner :: "('c, 'k, 'v) cache_ops" and imap +
  assumes inner_clear: "c_clear inner \<noteq> None"
begin

text \<open>
  No two generations share an inner cache, and the cache of a generation holds what the abstract
  mapping of that generation holds, or less.
\<close>

definition refines :: "('m, 'c) gc_state \<Rightarrow> (int \<Rightarrow> 'k \<rightharpoonup> 'v) \<Rightarrow> bool" where
  "refines st s \<longleftrightarrow>
     (\<forall>g a. omap (gc_map st) g = Some a \<longrightarrow> a < length (gc_heap st) \<and> imap (gc_heap st ! a) \<subseteq>\<^sub>m s g) \<and>
     (\<forall>g g' a. omap (gc_map st) g = Some a \<longrightarrow> omap (gc_map st) g' = Some a \<longrightarrow> g = g')"

definition held_by :: "('m, 'c) gc_state \<Rightarrow> (int \<Rightarrow> 'k \<rightharpoonup> 'v) \<Rightarrow> int \<Rightarrow> nat \<Rightarrow> bool" where
  "held_by st s g a \<longleftrightarrow>
     a < length (gc_heap st) \<and> imap (gc_heap st ! a) \<subseteq>\<^sub>m s g \<and> 
     (\<forall>g'. omap (gc_map st) g' = Some a \<longrightarrow> g' = g) \<and> (\<forall>b. omap (gc_map st) g = Some b \<longrightarrow> b = a)"

lemma refinesD:
  assumes "refines st s" "omap (gc_map st) g = Some a"
  shows "a < length (gc_heap st)" "imap (gc_heap st ! a) \<subseteq>\<^sub>m s g"
  using assms unfolding refines_def by blast+

lemma refines_inj: "refines st s \<Longrightarrow> omap (gc_map st) g = Some a \<Longrightarrow> omap (gc_map st) g' = Some a \<Longrightarrow> g = g'"
  unfolding refines_def by blast

lemma held_byD:
  assumes "held_by st s g a"
  shows "a < length (gc_heap st)" "imap (gc_heap st ! a) \<subseteq>\<^sub>m s g"
    "omap (gc_map st) g' = Some a \<Longrightarrow> g' = g" "omap (gc_map st) g = Some b \<Longrightarrow> b = a"
  using assms unfolding held_by_def by blast+

lemma refines_init: "refines (gc_init outer) (\<lambda>g. Map.empty)"
  by (simp add: refines_def gc_init_def outer.new_entries)

lemma gc_current_refines:
  assumes ok: "refines st s" and cur: "gc_current outer inner st g = (a, st')"
  shows "refines st' s \<and> held_by st' s g a"
proof -
  obtain r m where get: "c_get outer (gc_map st) g = (r, m)" by fastforce
  note le = outer.get_SomeD [OF get]
  show ?thesis
  proof (cases r)
    case (Some b)
    with get outer.get_sound have "omap (gc_map st) g = Some b" by blast
    moreover from get cur Some have "a = b" "st' = st\<lparr>gc_map := m\<rparr>" by (simp_all add: gc_current_def)
    ultimately show ?thesis using ok le by (auto simp: refines_def held_by_def)
  next
    case None
    let ?n = "length (gc_heap st)"
    from get cur None have st': "a = ?n"
      "st' = \<lparr>gc_map = c_set outer m g ?n, gc_heap = gc_heap st @ [c_new inner]\<rparr>"
      by (auto simp: gc_current_def Let_def)
    have old: "g' = g \<and> b = ?n \<or> g' \<noteq> g \<and> omap (gc_map st) g' = Some b"
      if "omap (gc_map st') g' = Some b" for g' b
      using that outer.set_SomeD [of m g ?n g' b] le [of g' b] by (auto simp: st' split: if_splits)
    have fresh: "omap (gc_map st) g' \<noteq> Some ?n" for g'
      using refinesD(1) [OF ok] by blast
    have new: "imap (gc_heap st' ! ?n) \<subseteq>\<^sub>m s g" by (simp add: st' inner.new_entries)
    have "b < length (gc_heap st') \<and> imap (gc_heap st' ! b) \<subseteq>\<^sub>m s g'" if "omap (gc_map st') g' = Some b" for g' b
      using old [OF that] new refinesD [OF ok, of g' b] by (auto simp: st' nth_append)
    moreover have "g1 = g2" if "omap (gc_map st') g1 = Some b" "omap (gc_map st') g2 = Some b" for g1 g2 b
      using old [OF that(1)] old [OF that(2)] fresh refines_inj [OF ok] by blast
    ultimately have "refines st' s" unfolding refines_def by blast
    moreover have "held_by st' s g ?n"
      unfolding held_by_def using old fresh new by (auto simp: st')
    ultimately show ?thesis by (simp add: st'(1))
  qed
qed

lemma refines_update:
  assumes ok: "refines st s" and held: "held_by st s g a"
    and le: "imap c \<subseteq>\<^sub>m s' g" and same: "\<And>g'. g' \<noteq> g \<Longrightarrow> s' g' = s g'"
  shows "refines (st\<lparr>gc_heap := (gc_heap st)[a := c]\<rparr>) s'"
  unfolding refines_def
proof (intro conjI allI impI)
  fix g' b
  assume "omap (gc_map (st\<lparr>gc_heap := (gc_heap st)[a := c]\<rparr>)) g' = Some b"
  then have b: "omap (gc_map st) g' = Some b" by simp
  show "b < length (gc_heap (st\<lparr>gc_heap := (gc_heap st)[a := c]\<rparr>))"
    using refinesD(1) [OF ok b] by simp
  show "imap (gc_heap (st\<lparr>gc_heap := (gc_heap st)[a := c]\<rparr>) ! b) \<subseteq>\<^sub>m s' g'"
  proof (cases "b = a")
    case True
    with b held_byD(3) [OF held] have "g' = g" by blast
    with True le held_byD(1) [OF held] show ?thesis by simp
  next
    case False
    with b held_byD(4) [OF held] have "g' \<noteq> g" by blast
    with False same [of g'] refinesD(2) [OF ok b] show ?thesis by simp
  qed
next
  fix g1 g2 b
  assume "omap (gc_map (st\<lparr>gc_heap := (gc_heap st)[a := c]\<rparr>)) g1 = Some b"
    and "omap (gc_map (st\<lparr>gc_heap := (gc_heap st)[a := c]\<rparr>)) g2 = Some b"
  with refines_inj [OF ok] show "g1 = g2" by simp
qed

lemma refines_shrink:
  assumes "refines st s" "held_by st s g a" "imap c \<subseteq>\<^sub>m imap (gc_heap st ! a)"
  shows "refines (st\<lparr>gc_heap := (gc_heap st)[a := c]\<rparr>) s"
  using refines_update [OF assms(1,2), of c s] map_le_trans [OF assms(3) held_byD(2) [OF assms(2)]] by simp

lemma gc_getitem_refines:
  assumes ok: "refines st s" and get: "gc_getitem outer inner st g key = (r, st')"
  shows "refines st' s \<and> (\<forall>v. r = Inr v \<longrightarrow> s g key = Some v)"
proof -
  obtain a st1 where cur: "gc_current outer inner st g = (a, st1)" by fastforce
  obtain w c where inner: "c_get inner (gc_heap st1 ! a) key = (w, c)" by fastforce
  from gc_current_refines [OF ok cur] have ok1: "refines st1 s" and held: "held_by st1 s g a" by auto
  from get cur inner have st': "st' = st1\<lparr>gc_heap := (gc_heap st1)[a := c]\<rparr>"
    and r: "r = (case w of None \<Rightarrow> Inl KeyError | Some v \<Rightarrow> Inr v)"
    by (simp_all add: gc_getitem_def)
  have "s g key = Some v" if "w = Some v" for v
    using held_byD(2) [OF held] inner.get_sound [of "gc_heap st1 ! a" key v c] inner that
    by (auto simp: map_le_def dom_def)
  with r refines_shrink [OF ok1 held inner.get_entries [OF inner]] st' show ?thesis
    by (auto split: option.splits)
qed

lemma gc_step_refines:
  assumes ok: "refines st s"
  shows "refines (gc_step outer inner st e) (spec_step s e)"
proof -
  obtain g opn where e: "e = (g, opn)" by fastforce
  obtain a st1 where cur: "gc_current outer inner st g = (a, st1)" by fastforce
  from gc_current_refines [OF ok cur] have ok1: "refines st1 s" and held: "held_by st1 s g a" by auto
  show ?thesis
  proof (cases opn)
    case (GcGet key)
    with e gc_getitem_refines [OF ok, of g key] show ?thesis
      by (cases "gc_getitem outer inner st g key") (simp add: gc_step_def spec_step_def)
  next
    case (GcSet key v)
    have "imap (c_set inner (gc_heap st1 ! a) key v) \<subseteq>\<^sub>m (s g)(key \<mapsto> v)"
      by (rule map_le_trans [OF inner.set_entries map_le_upd [OF held_byD(2) [OF held]]])
    with GcSet e cur refines_update [OF ok1 held, of _ "s(g := (s g)(key \<mapsto> v))"] show ?thesis
      by (simp add: gc_step_def spec_step_def gc_setitem_def)
  next
    case (GcContains key)
    obtain b c where inner: "c_contains inner (gc_heap st1 ! a) key = (b, c)" by fastforce
    with GcContains e cur refines_shrink [OF ok1 held inner.contains_entries [OF inner]] show ?thesis
      by (simp add: gc_step_def spec_step_def gc_contains_def)
  next
    case GcClear
    from inner_clear obtain f where f: "c_clear inner = Some f" by blast
    with GcClear e cur refines_update [OF ok1 held, of "f (gc_heap st1 ! a)" "s(g := Map.empty)"] show ?thesis
      by (simp add: gc_step_def spec_step_def gc_clear_def inner.clear_entries)
  qed
qed

lemma gc_run_refines: "refines (gc_run outer inner es) (spec_run es)"
proof -
  have "refines (foldl (gc_step outer inner) st es) (foldl spec_step s es)" if "refines st s" for st s
    using that by (induction es arbitrary: st s) (auto intro: gc_step_refines)
  from this [OF refines_init] show ?thesis by (simp add: gc_run_def spec_run_def)
qed

lemma gc_get_spec:
  "fst (gc_get outer inner (gc_run outer inner es) g key dflt) \<in> {Inr dflt} \<union> (Inr ` Some ` {v. spec_run es g key = Some v})"
proof -
  obtain r st' where get: "gc_getitem outer inner (gc_run outer inner es) g key = (r, st')" by fastforce
  then have "r = Inl KeyError \<or> (\<exists>v. r = Inr v)"
    by (auto simp: gc_getitem_def split: prod.splits option.splits)
  with gc_getitem_refines [OF gc_run_refines get] get show ?thesis by (auto simp: gc_get_def)
qed

end

interpretation query_cache: generation_cache "lru_ops 1" map_of "lru_ops n" map_of
  by unfold_locales (simp add: lru_ops_def)


section \<open>CachingMiddleware\<close>

type_synonym headers = "(pstr \<times> pstr) list"

text \<open>A query parameter given more than once has a list of values.\<close>

datatype param_value = OneParam pstr | ManyParam "pstr list"

record http_request =
  req_method :: pstr
  relative_uri :: pstr
  params :: "(pstr \<times> param_value) list"
  req_headers :: headers

text \<open>
  Of the media object of a response: whether it is a dict, and then the length of its \<open>cards\<close> (when
  that is there and not \<open>None\<close>) and its \<open>total_cards\<close>. \<open>body\<close> is what \<open>render_body\<close> returns.
\<close>

datatype media = DictMedia "nat option" "nat option" | OtherMedia

record http_response =
  status :: pstr
  resp_headers :: headers
  resp_media :: media
  body :: "nat list option"

record CachedResponse =
  cr_status :: pstr
  cr_headers :: headers
  cr_body :: "nat list option"
  cr_result_count :: "nat option"
  cr_total_cards :: "nat option"

text \<open>The entries of \<open>req.context\<close> that the middleware writes.\<close>

record 'k req_context =
  cache_key :: "'k option"
  cache_hit :: bool
  cached_result_count :: "nat option"
  cached_total_cards :: "nat option"

definition empty_context :: "'k req_context" where
  "empty_context = \<lparr>cache_key = None, cache_hit = False, cached_result_count = None, cached_total_cards = None\<rparr>"

definition CACHEABLE_METHODS :: "pstr list" where
  "CACHEABLE_METHODS = [u ''GET'', u ''HEAD'']"

definition UNCACHEABLE_HEADER_PREFIXES :: "pstr list" where
  "UNCACHEABLE_HEADER_PREFIXES = [u ''access-control-'', u ''x-cache'']"

definition per_request_header :: "pstr \<Rightarrow> bool" where
  "per_request_header k \<longleftrightarrow> list_ex (\<lambda>p. take (length p) (py_lower k) = p) UNCACHEABLE_HEADER_PREFIXES"

definition cacheable_headers :: "headers \<Rightarrow> headers" where
  "cacheable_headers hs = filter (\<lambda>(k, v). \<not> per_request_header k) hs"

definition cached_response :: "http_response \<Rightarrow> CachedResponse" where
  "cached_response resp =
     \<lparr>cr_status = status resp,
      cr_headers = cacheable_headers (resp_headers resp),
      cr_body = body resp,
      cr_result_count = (case resp_media resp of DictMedia cards t \<Rightarrow> Some (case cards of None \<Rightarrow> 0 | Some n \<Rightarrow> n) | OtherMedia \<Rightarrow> None),
      cr_total_cards = (case resp_media resp of DictMedia cards t \<Rightarrow> t | OtherMedia \<Rightarrow> None)\<rparr>"

type_synonym key_tuple =
  "pstr \<times> pstr \<times> (pstr \<times> param_value) list \<times> (pstr \<times> pstr option) list \<times> pstr option"

definition or_text :: "pstr option \<Rightarrow> pstr option \<Rightarrow> pstr option" where
  "or_text a b = (case a of Some s \<Rightarrow> if s = [] then b else a | None \<Rightarrow> b)"

definition cached_headers :: "pstr list" where
  "cached_headers = [u ''ACCEPT-ENCODING'']"

definition cache_tuple :: "http_request \<Rightarrow> key_tuple" where
  "cache_tuple req =
     (let host = or_text (map_of (req_headers req) (u ''X-PROXY-HOST'')) (map_of (req_headers req) (u ''HOST''));
          host = (case host of Some h \<Rightarrow> if h = [] then None else Some (py_lower (py_strip h)) | None \<Rightarrow> None)
      in (req_method req, relative_uri req, sort_key fst (params req),
          sort_key fst (map (\<lambda>k. (k, map_of (req_headers req) k)) cached_headers), host))"

definition invalidate :: "('m, 'k, CachedResponse) cache_ops \<Rightarrow> 'm \<Rightarrow> 'm" where
  "invalidate ops m =
     (case c_invalidate ops of
        Some f \<Rightarrow> f m
      | None \<Rightarrow> (case c_clear ops of Some f \<Rightarrow> f m | None \<Rightarrow> m))"

definition headers_update :: "headers \<Rightarrow> headers \<Rightarrow> headers" where
  "headers_update a b = foldl (\<lambda>d (k, v). dict_set d k v) a b"

text \<open>
  \<open>hs\<close> are the headers the response has when the middleware is called. On a hit the reply is complete;
  its headers are those of the stored response over \<open>hs\<close>.
\<close>

definition process_request ::
  "bool \<Rightarrow> ('m, 'k, CachedResponse) cache_ops \<Rightarrow> (key_tuple \<Rightarrow> 'k) \<Rightarrow> 'm \<Rightarrow> http_request \<Rightarrow> headers \<Rightarrow>
   'k req_context \<times> http_response option \<times> headers \<times> 'm" where
  "process_request enable_cache ops dumps m req hs =
     (if \<not> enable_cache \<or> req_method req \<notin> set CACHEABLE_METHODS then (empty_context, None, hs, m)
      else let key = dumps (cache_tuple req);
               ctx = empty_context\<lparr>cache_key := Some key\<rparr>
           in case c_get ops m key of
                (Some cached, m) \<Rightarrow>
                  let hs = dict_set (headers_update hs (cr_headers cached)) (u ''x-cache'') (u ''hit'')
                  in (ctx\<lparr>cache_hit := True, cached_result_count := cr_result_count cached,
                          cached_total_cards := cr_total_cards cached\<rparr>,
                      Some \<lparr>status = cr_status cached, resp_headers = hs, resp_media = OtherMedia, body = cr_body cached\<rparr>,
                      hs, m)
              | (None, m) \<Rightarrow> (ctx, None, dict_set hs (u ''x-cache'') (u ''miss''), m))"

definition no_store :: "http_response \<Rightarrow> bool" where
  "no_store resp \<longleftrightarrow>
     (case map_of (resp_headers resp) (u ''cache-control'') of None \<Rightarrow> False | Some v \<Rightarrow> py_in (u ''no-store'') v)"

definition process_response ::
  "bool \<Rightarrow> ('m, 'k, CachedResponse) cache_ops \<Rightarrow> (key_tuple \<Rightarrow> 'k) \<Rightarrow> 'm \<Rightarrow> http_request \<Rightarrow> 'k req_context \<Rightarrow>
   http_response \<Rightarrow> 'm" where
  "process_response enable_cache ops dumps m req ctx resp =
     (if \<not> enable_cache then m
      else if req_method req \<notin> set CACHEABLE_METHODS then m
      else if cache_hit ctx then m
      else if status resp \<noteq> [] \<and> take 1 (status resp) = u ''5'' then m
      else if no_store resp then m
      else let key = (case cache_key ctx of None \<Rightarrow> dumps (cache_tuple req) | Some key \<Rightarrow> key)
           in case c_contains ops m key of
                (True, m) \<Rightarrow> m
              | (False, m) \<Rightarrow> c_set ops m key (cached_response resp))"

text \<open>
  The middleware in a server with many clients: a request is a hit, answered at once, or waits for
  its handler; handlers finish in any order, with any response (the headers \<open>process_request\<close> left
  included); other workers may make a shared cache forget entries at any time. \<open>answered\<close> are the
  responses of handlers, \<open>replayed\<close> the hits, each with the headers it started from.
\<close>

record ('m, 'k) mw_state =
  mw_cache :: 'm
  waiting :: "(http_request \<times> 'k req_context) list"
  answered :: "(http_request \<times> http_response) list"
  replayed :: "(http_request \<times> headers \<times> 'k req_context \<times> http_response) list"


inductive mw_step ::
  "bool \<Rightarrow> ('m, 'k, CachedResponse) cache_ops \<Rightarrow> (key_tuple \<Rightarrow> 'k) \<Rightarrow> ('m \<Rightarrow> 'k \<rightharpoonup> CachedResponse) \<Rightarrow>
   ('m, 'k) mw_state \<Rightarrow> ('m, 'k) mw_state \<Rightarrow> bool"
  for en ops dumps entries where
  hit: "process_request en ops dumps (mw_cache st) req hs = (ctx, Some reply, hs', m) \<Longrightarrow>
    mw_step en ops dumps entries st
      (st\<lparr>mw_cache := process_response en ops dumps m req ctx reply,
          replayed := (req, hs, ctx, reply) # replayed st\<rparr>)"
| miss: "process_request en ops dumps (mw_cache st) req hs = (ctx, None, hs', m) \<Longrightarrow>
    mw_step en ops dumps entries st (st\<lparr>mw_cache := m, waiting := (req, ctx) # waiting st\<rparr>)"
| answer: "waiting st = ws @ (req, ctx) # ws' \<Longrightarrow>
    mw_step en ops dumps entries st
      (st\<lparr>mw_cache := process_response en ops dumps (mw_cache st) req ctx resp,
          waiting := ws @ ws', answered := (req, resp) # answered st\<rparr>)"
| forget: "entries m \<subseteq>\<^sub>m entries (mw_cache st) \<Longrightarrow> mw_step en ops dumps entries st (st\<lparr>mw_cache := m\<rparr>)"
| clear: "mw_step en ops dumps entries st (st\<lparr>mw_cache := invalidate ops (mw_cache st)\<rparr>)"


section \<open>A hit replays a stored response of an equal request\<close>

inductive_cases mw_stepE: "mw_step en ops dumps entries st st'"











section \<open>Properties\<close>

text \<open>
  C15: A generation cache refines one mapping per generation. After any sequence of operations, each at
  the generation the counter had then, a lookup at generation \<open>g\<close> gives the default or the value last
  stored under its key at that same generation and not cleared since; in particular nothing stored
  before the counter advanced is ever returned after it. Of the LRU map and of the inner caches only
  the contract \<open>sound_cache\<close> is used.
\<close>
theorem generation_cache_refines:
  assumes "sound_cache outer omap" "sound_cache inner imap" "c_clear inner \<noteq> None"
  shows "fst (gc_get outer inner (gc_run outer inner es) g key dflt)
    \<in> {Inr dflt} \<union> (Inr ` Some ` {v. spec_run es g key = Some v})"
  by (rule generation_cache.gc_get_spec) (use assms in \<open>simp add: generation_cache_def generation_cache_axioms_def\<close>)

theorem generation_cache_refines_witness:
  "fst (gc_get (lru_ops 1) (lru_ops 2)
          (gc_run (lru_ops 1) (lru_ops 2) [(0, GcSet ''a'' (1::nat)), (0, GcSet ''a'' 2), (1, GcSet ''b'' 3), (0, GcGet ''b'')]) 1 ''a'' None)
     \<in> {Inr None} \<union> (Inr ` Some ` {}) \<and>
   fst (gc_get (lru_ops 1) (lru_ops 2)
          (gc_run (lru_ops 1) (lru_ops 2) [(0, GcSet ''a'' (1::nat)), (0, GcSet ''a'' 2)]) 0 ''a'' None)
     = Inr (Some 2)"
  using generation_cache_refines
      [of "lru_ops 1" map_of "lru_ops 2" map_of
          "[(0, GcSet ''a'' (1::nat)), (0, GcSet ''a'' 2), (1, GcSet ''b'' 3), (0, GcGet ''b'')]" 1 "''a''" None]
    lru.sound_cache_axioms
  by (simp add: spec_run_def spec_step_def lru_ops_def renew_def gc_run_def gc_init_def gc_step_def gc_setitem_def
      gc_current_def gc_getitem_def gc_get_def numeral_2_eq_2)









end
