(* ===== verification/Search_Service.thy ===== *)
theory Search_Service
  imports Sql_Props Node_Text Response_Cache
begin

text \<open>
  The search endpoint of \<open>src/api/api_resource.py\<close>: \<open>search\<close>, \<open>_search\<close>, \<open>_search_engine\<close>,
  \<open>_search_sql\<close> and their helpers, with the enums of \<open>src/api/enums.py\<close>.

  The Rust engine and PostgreSQL are arguments, collected in a record \<open>backend\<close>: the engine's size and
  its query function, and the function that runs a statement. Results carry values of an arbitrary
  type \<open>'j\<close>. The timings in a result are not modelled. The search cache, a map from the generation to
  a cache of results, is used the way \<open>GenerationCache._current\<close> uses its own.
\<close>

section \<open>Enums, fields, arguments\<close>

datatype UniqueOn = ON_CARD | ON_PRINTING | ON_ARTWORK

datatype PreferOrder = PREFER_DEFAULT | OLDEST | NEWEST | USD_LOW | USD_HIGH | PROMO

datatype CardOrdering = BY_CMC | BY_CUBECOBRA | BY_EDHREC | BY_NAME | BY_POWER | BY_RARITY | BY_TOUGHNESS | BY_USD

datatype ResponseShape = ROWS | COLUMNAR

datatype SortDirection = ASC | DESC

definition RESULT_FIELD_COLUMNS :: "(pstr \<times> pstr) list" where
  "RESULT_FIELD_COLUMNS =
     [(u ''name'', u ''card_name''),
      (u ''set_code'', u ''card_set_code''),
      (u ''collector_number'', u ''collector_number''),
      (u ''power'', u ''creature_power_text''),
      (u ''toughness'', u ''creature_toughness_text''),
      (u ''mana_cost'', u ''mana_cost_text''),
      (u ''oracle_text'', u ''oracle_text''),
      (u ''set_name'', u ''set_name''),
      (u ''type_line'', u ''type_line''),
      (u ''illustration_id'', u ''illustration_id''),
      (u ''scryfall_id'', u ''scryfall_id''),
      (u ''price_usd'', u ''price_usd''),
      (u ''prefer_score'', u ''prefer_score'')]"

definition DEFAULT_RESULT_FIELDS :: "pstr list" where
  "DEFAULT_RESULT_FIELDS =
     [u ''name'', u ''set_code'', u ''collector_number'', u ''power'', u ''toughness'', u ''mana_cost'',
      u ''oracle_text'', u ''set_name'', u ''type_line'']"

text \<open>\<open>HTTPBadRequest\<close> with its title, \<open>HTTPServiceUnavailable\<close>, or another exception.\<close>

datatype search_error = BadRequest pstr | ServiceUnavailable | DatabaseError | EngineError | Raised exn

datatype limit_arg = NoLimit | IntLimit int | OtherLimit

definition validate_limit :: "limit_arg \<Rightarrow> search_error + int option" where
  "validate_limit limit =
     (case limit of
        NoLimit \<Rightarrow> Inr None
      | IntLimit n \<Rightarrow> if n < 0 then Inl (BadRequest (u ''Invalid Limit'')) else Inr (Some n)
      | OtherLimit \<Rightarrow> Inl (BadRequest (u ''Invalid Limit'')))"

definition resolve_result_fields :: "pstr list option \<Rightarrow> search_error + pstr list" where
  "resolve_result_fields requested =
     (case requested of
        None \<Rightarrow> Inr DEFAULT_RESULT_FIELDS
      | Some fs \<Rightarrow>
          let resolved = map fst (dict_fromkeys fs ())
          in if resolved = [] then Inl (BadRequest (u ''Invalid Fields''))
             else if \<not> list_all (\<lambda>name. name \<in> fst ` set RESULT_FIELD_COLUMNS) resolved then Inl (BadRequest (u ''Invalid Fields''))
             else Inr resolved)"

section \<open>The statement\<close>

fun order_column :: "CardOrdering \<Rightarrow> pstr" where
  "order_column BY_CMC = u ''cmc''"
| "order_column BY_EDHREC = u ''edhrec_rank''"
| "order_column BY_NAME = u ''lower(card_name)''"
| "order_column BY_POWER = u ''creature_power''"
| "order_column BY_RARITY = u ''card_rarity_int''"
| "order_column BY_TOUGHNESS = u ''creature_toughness''"
| "order_column BY_USD = u ''price_usd''"
| "order_column BY_CUBECOBRA = u ''cubecobra_score''"

fun sql_direction :: "SortDirection \<Rightarrow> pstr" where
  "sql_direction ASC = u ''ASC''"
| "sql_direction DESC = u ''DESC''"

text \<open>There is no \<open>DISTINCT ON\<close> for printings; the statement for them does not use it.\<close>

fun distinct_on :: "UniqueOn \<Rightarrow> pstr" where
  "distinct_on ON_ARTWORK = u ''illustration_id''"
| "distinct_on ON_CARD = u ''oracle_id''"
| "distinct_on ON_PRINTING = u ''None''"

fun prefer_mapping :: "PreferOrder \<Rightarrow> pstr \<times> pstr" where
  "prefer_mapping OLDEST = (u ''released_at'', u ''ASC'')"
| "prefer_mapping NEWEST = (u ''released_at'', u ''DESC'')"
| "prefer_mapping USD_LOW = (u ''price_usd'', u ''ASC'')"
| "prefer_mapping USD_HIGH = (u ''price_usd'', u ''DESC'')"
| "prefer_mapping PROMO = (u ''edhrec_rank'', u ''ASC'')"
| "prefer_mapping PREFER_DEFAULT = (u ''prefer_score'', u ''DESC'')"

definition field_column :: "pstr \<Rightarrow> search_error + pstr" where
  "field_column name =
     (case map_of RESULT_FIELD_COLUMNS name of None \<Rightarrow> Inl (Raised KeyError) | Some col \<Rightarrow> Inr col)"

definition cte_columns :: "pstr list \<Rightarrow> pstr list" where
  "cte_columns cols = map fst (dict_fromkeys (cols @ [u ''edhrec_rank'', u ''prefer_score'']) ())"

definition rewrap :: "pstr \<Rightarrow> pstr" where
  "rewrap query = py_join (u '' '') (py_split (py_strip query))"

text \<open>
  The two templates. Line breaks and indentation are written as one blank; \<open>rewrap\<close>, which the code
  applies to the whole statement, makes both the same text. \<open>cols\<close> are the columns of \<open>names\<close>.
\<close>

definition select_cols :: "pstr list \<Rightarrow> pstr" where
  "select_cols cols = concat (map (\<lambda>col. u '' '' @ col @ u '','') (cte_columns cols))"

definition result_cols :: "pstr list \<Rightarrow> pstr list \<Rightarrow> pstr" where
  "result_cols names cols = py_join (u '', '') (map (\<lambda>(name, col). col @ u '' AS '' @ name) (zip names cols))"

definition count_nulls :: "pstr list \<Rightarrow> pstr" where
  "count_nulls names = py_join (u '', '') (map (\<lambda>name. u ''null AS '' @ name) names)"

definition order_by :: "SortDirection \<Rightarrow> pstr" where
  "order_by dir = u ''sort_value '' @ sql_direction dir @ u '' NULLS LAST, edhrec_rank ASC NULLS LAST, prefer_score DESC NULLS LAST''"

definition page_and_count :: "pstr \<Rightarrow> SortDirection \<Rightarrow> pstr list \<Rightarrow> pstr list \<Rightarrow> pstr" where
  "page_and_count cte dir names cols =
     u ''( SELECT null::integer AS total_cards_count, '' @ result_cols names cols @ u '' FROM '' @ cte @
     u '' ORDER BY '' @ order_by dir @ u '' LIMIT '' @ placeholder (u ''limit'') @
     u '' ) UNION ALL ( SELECT COUNT(1) AS total_cards_count, '' @ count_nulls names @ u '' FROM '' @ cte @ u '' )''"

definition query_sql ::
  "UniqueOn \<Rightarrow> PreferOrder \<Rightarrow> CardOrdering \<Rightarrow> SortDirection \<Rightarrow> pstr list \<Rightarrow> pstr list \<Rightarrow> pstr \<Rightarrow> pstr" where
  "query_sql unique prefer orderby dir names cols where_clause =
     (if unique = ON_PRINTING then
        u ''WITH matching_cards AS NOT MATERIALIZED ( SELECT'' @ select_cols cols @ u '' '' @ order_column orderby @
        u '' AS sort_value FROM magic.cards AS card WHERE '' @ where_clause @ u '' ) '' @
        page_and_count (u ''matching_cards'') dir names cols
      else
        u ''WITH distinct_cards AS ( SELECT DISTINCT ON ('' @ distinct_on unique @ u '')'' @ select_cols cols @ u '' '' @
        order_column orderby @ u '' AS sort_value FROM magic.cards AS card WHERE '' @ where_clause @
        u '' ORDER BY '' @ distinct_on unique @ u '', '' @ fst (prefer_mapping prefer) @ u '' '' @ snd (prefer_mapping prefer) @
        u '' NULLS LAST, prefer_score DESC NULLS LAST ) '' @ page_and_count (u ''distinct_cards'') dir names cols)"

section \<open>Running a search\<close>

text \<open>The key of the search cache: the validated arguments of a search.\<close>

record search_key =
  k_direction :: SortDirection
  k_limit :: "int option"
  k_orderby :: CardOrdering
  k_prefer :: PreferOrder
  k_query :: "pstr option"
  k_unique :: UniqueOn
  k_fields :: "pstr list"

datatype bound = Bound pyval | BoundLimit "int option"

type_synonym 'j result_row = "(pstr \<times> 'j) list"

datatype db_error = DatatypeMismatch | OtherDbError

datatype engine_error = QueryError | EngineFailure

record 'j backend =
  engine_size :: nat
  engine_query :: "node \<Rightarrow> UniqueOn \<Rightarrow> PreferOrder \<Rightarrow> CardOrdering \<Rightarrow> SortDirection \<Rightarrow> int \<Rightarrow> pstr list \<Rightarrow>
    engine_error + 'j \<times> 'j result_row list"
  run_query :: "pstr \<Rightarrow> (pstr \<times> bound) list \<Rightarrow> db_error + 'j result_row list"

record 'j search_result =
  r_cards :: "'j result_row list"
  r_compiled :: pstr
  r_params :: "(pstr \<times> bound) list"
  r_query :: pstr
  r_explanation :: pstr
  r_total :: 'j

definition explanation :: "pstr \<Rightarrow> node \<Rightarrow> pstr" where
  "explanation query parsed = (if query \<noteq> [] then to_human_explanation parsed else [])"

definition where_error :: "exn \<Rightarrow> search_error" where
  "where_error e = (if e = ValueError then BadRequest (u ''Invalid Search Query'') else Raised e)"

text \<open>The statement of a search and its parameters.\<close>

definition search_statement :: "(pstr \<Rightarrow> pstr) \<Rightarrow> node \<Rightarrow> search_key \<Rightarrow> search_error + pstr \<times> (pstr \<times> bound) list" where
  "search_statement tc parsed key =
     bindr (resolve_result_fields (Some (k_fields key))) (\<lambda>names.
     case generate_sql_query tc parsed of
       Inl e \<Rightarrow> Inl (where_error e)
     | Inr (where_clause, q, ctx) \<Rightarrow>
         bindr (mapr field_column names) (\<lambda>cols.
         let params = dict_set (map (\<lambda>(n, v). (n, Bound v)) ctx) (u ''limit'') (BoundLimit (k_limit key))
         in Inr (rewrap (query_sql (k_unique key) (k_prefer key) (k_orderby key) (k_direction key) names cols where_clause), params)))"

definition pop_count :: "'j result_row \<Rightarrow> search_error + 'j result_row" where
  "pop_count result_row =
     (if u ''total_cards_count'' \<in> fst ` set result_row then Inr (filter (\<lambda>(k, v). k \<noteq> u ''total_cards_count'') result_row)
      else Inl (Raised KeyError))"

definition search_sql :: "(pstr \<Rightarrow> pstr) \<Rightarrow> 'j backend \<Rightarrow> node \<Rightarrow> pstr \<Rightarrow> search_key \<Rightarrow> search_error + 'j search_result" where
  "search_sql tc be parsed query key =
     bindr (search_statement tc parsed key) (\<lambda>(sql, params).
     case run_query be sql params of
       Inl DatatypeMismatch \<Rightarrow> Inl (BadRequest (u ''Invalid Search Query''))
     | Inl OtherDbError \<Rightarrow> Inl DatabaseError
     | Inr rows \<Rightarrow>
         (if rows = [] then Inl (Raised IndexError)
          else case map_of (last rows) (u ''total_cards_count'') of
            None \<Rightarrow> Inl (Raised KeyError)
          | Some num \<Rightarrow>
              bindr (mapr pop_count (butlast rows)) (\<lambda>cards.
              Inr \<lparr>r_cards = cards, r_compiled = sql, r_params = params, r_query = query,
                   r_explanation = explanation query parsed, r_total = num\<rparr>)))"

definition search_engine :: "'j backend \<Rightarrow> node \<Rightarrow> pstr \<Rightarrow> search_key \<Rightarrow> search_error + 'j search_result" where
  "search_engine be parsed query key =
     (case engine_query be parsed (k_unique key) (k_prefer key) (k_orderby key) (k_direction key)
             (case k_limit key of None \<Rightarrow> 1000000 | Some n \<Rightarrow> n) (k_fields key) of
        Inl QueryError \<Rightarrow> Inl (BadRequest (u ''Invalid Search Query''))
      | Inl EngineFailure \<Rightarrow> Inl EngineError
      | Inr (num, cards) \<Rightarrow>
          Inr \<lparr>r_cards = cards, r_compiled = u ''(rust engine)'', r_params = [], r_query = query,
               r_explanation = explanation query parsed, r_total = num\<rparr>)"

text \<open>The part of \<open>_search\<close> that a cache hit skips. Any exception of the engine falls back to SQL.\<close>

definition search_uncached ::
  "bool \<Rightarrow> (pstr \<Rightarrow> pstr) \<Rightarrow> 'j backend \<Rightarrow> search_key \<Rightarrow> search_error + 'j search_result" where
  "search_uncached enable_engine tc be key =
     (let query = (case k_query key of None \<Rightarrow> [] | Some q \<Rightarrow> q)
      in case parse_scryfall_query query of
           Inl e \<Rightarrow> Inl (where_error e)
         | Inr parsed \<Rightarrow>
             (if enable_engine \<and> engine_size be \<noteq> 0 then
                (case search_engine be parsed query key of
                   Inr result \<Rightarrow> Inr result
                 | Inl e \<Rightarrow> search_sql tc be parsed query key)
              else search_sql tc be parsed query key))"

record search_args =
  a_direction :: SortDirection
  a_fields :: "pstr list option"
  a_limit :: limit_arg
  a_orderby :: CardOrdering
  a_prefer :: PreferOrder
  a_query :: "pstr option"
  a_unique :: UniqueOn

record settings =
  enable_cache :: bool
  enable_engine :: bool

definition search_key_of :: "search_args \<Rightarrow> search_error + search_key" where
  "search_key_of args =
     bindr (validate_limit (a_limit args)) (\<lambda>limit.
     bindr (resolve_result_fields (a_fields args)) (\<lambda>fields.
     Inr \<lparr>k_direction = a_direction args, k_limit = limit, k_orderby = a_orderby args, k_prefer = a_prefer args,
          k_query = a_query args, k_unique = a_unique args, k_fields = fields\<rparr>))"

type_synonym ('m, 'c) search_cache = "('m, 'c) gc_state"

definition do_search ::
  "settings \<Rightarrow> (pstr \<Rightarrow> pstr) \<Rightarrow> ('m, int, nat) cache_ops \<Rightarrow> ('c, search_key, 'j search_result) cache_ops \<Rightarrow>
   bool \<Rightarrow> int \<Rightarrow> 'j backend \<Rightarrow> search_args \<Rightarrow> ('m, 'c) search_cache \<Rightarrow>
   (search_error + 'j search_result) \<times> ('m, 'c) search_cache" where
  "do_search settings tc outer inner setup_complete gen be args st =
     (if \<not> setup_complete then (Inl ServiceUnavailable, st)
      else case search_key_of args of
        Inl e \<Rightarrow> (Inl e, st)
      | Inr key \<Rightarrow>
          if \<not> enable_cache settings then (search_uncached (enable_engine settings) tc be key, st)
          else let (a, st) = gc_current outer inner st gen;
                   (hit, c) = c_contains inner (gc_heap st ! a) key;
                   st = st\<lparr>gc_heap := (gc_heap st)[a := c]\<rparr>
               in if hit then
                    (let (r, c) = c_get inner (gc_heap st ! a) key
                     in (case r of None \<Rightarrow> Inl (Raised KeyError) | Some result \<Rightarrow> Inr result,
                         st\<lparr>gc_heap := (gc_heap st)[a := c]\<rparr>))
                  else
                    (case search_uncached (enable_engine settings) tc be key of
                       Inl e \<Rightarrow> (Inl e, st)
                     | Inr result \<Rightarrow>
                         (Inr result, st\<lparr>gc_heap := (gc_heap st)[a := c_set inner (gc_heap st ! a) key result]\<rparr>)))"

section \<open>Shape of the response\<close>

definition columnarize_cards :: "'j result_row list \<Rightarrow> (pstr \<times> 'j list) list result" where
  "columnarize_cards cards =
     (let keys = (case cards of [] \<Rightarrow> [] | c # _ \<Rightarrow> map fst c)
      in mapr (\<lambda>k. bindr (mapr (\<lambda>c. case map_of c k of None \<Rightarrow> Inl KeyError | Some v \<Rightarrow> Inr v) cards) (\<lambda>vs. Inr (k, vs))) keys)"

datatype 'j cards_body = RowCards "'j result_row list" | ColumnCards "(pstr \<times> 'j list) list"

text \<open>\<open>query or q\<close>: the query parameter unless it is absent or empty.\<close>

definition search ::
  "settings \<Rightarrow> (pstr \<Rightarrow> pstr) \<Rightarrow> ('m, int, nat) cache_ops \<Rightarrow> ('c, search_key, 'j search_result) cache_ops \<Rightarrow>
   bool \<Rightarrow> int \<Rightarrow> 'j backend \<Rightarrow> search_args \<Rightarrow> pstr option \<Rightarrow> ResponseShape \<Rightarrow> headers \<Rightarrow> ('m, 'c) search_cache \<Rightarrow>
   (search_error + 'j cards_body \<times> 'j search_result) \<times> headers \<times> ('m, 'c) search_cache" where
  "search settings tc outer inner setup_complete gen be args q shape hs st =
     (let hs = dict_set hs (u ''cache-control'') (u ''public, max-age=90'');
          (r, st) = do_search settings tc outer inner setup_complete gen be (args\<lparr>a_query := or_text (a_query args) q\<rparr>) st
      in (bindr r (\<lambda>result.
            if shape = COLUMNAR then
              (case columnarize_cards (r_cards result) of Inl e \<Rightarrow> Inl (Raised e) | Inr cs \<Rightarrow> Inr (ColumnCards cs, result))
            else Inr (RowCards (r_cards result), result)), hs, st))"

end
