(* ===== verification/Search_Props.thy ===== *)
theory Search_Props
  imports Search_Service
begin

text \<open>
  Properties of the search endpoint: the statement sent to the database, the errors a search can
  end with, the columnar shape of a response, and the transparency of the search cache.
\<close>

section \<open>Normalizing white space keeps the placeholders\<close>

definition no_blank :: "pstr \<Rightarrow> bool" where
  "no_blank s \<longleftrightarrow> (\<forall>c \<in> set s. \<not> py_isspace_c c)"

lemma split_ws_word: "no_blank w \<Longrightarrow> split_ws acc (w @ s) = split_ws (rev w @ acc) s"
  by (induction w arbitrary: acc) (auto simp: no_blank_def)

lemma sql_names_Some_cases:
  assumes "sql_names (c # s) = Some ns"
  obtains (plain) "c \<noteq> 37" "sql_names s = Some ns"
  | (name) n t ns' where "c # s = placeholder n @ t" "41 \<notin> set n" "ns = n # ns'" "sql_names t = Some ns'" "length t < length s"
proof (cases "c = 37")
  case False
  with assms plain show ?thesis by simp
next
  case True
  with assms obtain r where r: "s = 40 # r" "41 \<in> set r" by (auto split: list.splits if_splits)
  let ?n = "takeWhile (\<lambda>c. c \<noteq> 41) r"
  obtain t where t: "dropWhile (\<lambda>c. c \<noteq> 41) r = 41 # 115 # t" and "map_option ((#) ?n) (sql_names t) = Some ns"
    using assms True r hd_dropWhile [of "\<lambda>c. c \<noteq> 41" r]
    by (auto split: list.splits if_splits simp: dropWhile_eq_Nil_conv)
  then obtain ns' where "ns = ?n # ns'" "sql_names t = Some ns'" by auto
  moreover have split: "r = ?n @ 41 # 115 # t" by (metis t takeWhile_dropWhile_id)
  then have "c # s = placeholder ?n @ t" using True r by (simp add: placeholder_def)
  moreover have "length r = length ?n + length (41 # 115 # t)" by (metis split length_append)
  then have "length t < length s" using r by simp
  moreover have "41 \<notin> set ?n" by (auto dest: set_takeWhileD)
  ultimately show ?thesis using name by blast
qed

lemma sql_names_join_words:
  assumes "sql_names (rev acc) = Some ms" "sql_names s = Some ns" "\<forall>n \<in> set ns. no_blank n"
  shows "sql_names (py_join [32] (split_ws acc s)) = Some (ms @ ns)"
  using assms
proof (induction s arbitrary: acc ms ns rule: length_induct)
  case (1 s)
  note IH = "1.IH" [rule_format]
  show ?case
  proof (cases s)
    case Nil
    with "1.prems" show ?thesis by (cases acc) auto
  next
    case (Cons c s')
    from "1.prems"(2) [unfolded Cons] show ?thesis
    proof (cases rule: sql_names_Some_cases)
      case plain
      show ?thesis
      proof (cases "py_isspace_c c")
        case True
        have rest: "sql_names (py_join [32] (split_ws [] s')) = Some ns"
          using IH [of s' "[]" "[]" ns] plain Cons "1.prems"(3) by simp
        show ?thesis
        proof (cases "acc = [] \<or> split_ws [] s' = []")
          case True
          with \<open>py_isspace_c c\<close> rest "1.prems"(1) Cons show ?thesis by auto
        next
          case False
          with \<open>py_isspace_c c\<close> have "py_join [32] (split_ws acc s) = rev acc @ [32] @ py_join [32] (split_ws [] s')"
            by (simp add: Cons py_join_Cons)
          then show ?thesis using rest "1.prems"(1) by (simp add: sql_names_append)
        qed
      next
        case False
        have "sql_names (rev (c # acc)) = Some ms"
          using "1.prems"(1) plain by (simp add: sql_names_append)
        with IH [of s' "c # acc" ms ns] plain Cons False "1.prems"(3) show ?thesis by simp
      qed
    next
      case (name n t ns')
      have "no_blank (placeholder n)"
        using "1.prems"(3) name by (auto simp: placeholder_def no_blank_def py_isspace_c_def)
      then have "split_ws acc s = split_ws (rev (placeholder n) @ acc) t"
        using name Cons by (simp add: split_ws_word)
      moreover have "sql_names (rev (rev (placeholder n) @ acc)) = Some (ms @ [n])"
        using "1.prems"(1) name by (simp add: sql_names_append sql_names_placeholder)
      ultimately show ?thesis
        using IH [of t "rev (placeholder n) @ acc" "ms @ [n]" ns'] name Cons "1.prems"(3)
        by (simp add: placeholder_def)
    qed
  qed
qed

lemma split_ws_lstrip: "split_ws [] (dropWhile py_isspace_c s) = split_ws [] s"
  by (induction s) auto

lemma split_ws_blanks: "\<forall>c \<in> set b. py_isspace_c c \<Longrightarrow> split_ws acc (s @ b) = split_ws acc s"
proof (induction acc s rule: split_ws.induct)
  case (1 acc)
  have "split_ws [] b = []" using 1 by (induction b) auto
  with 1 show ?case by (cases b) auto
qed auto

lemma py_split_strip: "py_split (py_strip s) = py_split s"
proof -
  have "rstrip_of py_isspace_c t @ rev (takeWhile py_isspace_c (rev t)) = t" for t
    by (metis rev_append rev_rev_ident rstrip_of_def takeWhile_dropWhile_id)
  then have "split_ws [] (rstrip_of py_isspace_c t) = split_ws [] t" for t
    using split_ws_blanks [of "rev (takeWhile py_isspace_c (rev t))" "[]" "rstrip_of py_isspace_c t"]
    by (metis set_rev set_takeWhileD)
  then show ?thesis by (simp add: py_split_def py_strip_def py_lstrip_def split_ws_lstrip)
qed

lemma sql_names_rewrap: "sql_names s = Some ns \<Longrightarrow> \<forall>n \<in> set ns. no_blank n \<Longrightarrow> sql_names (rewrap s) = Some ns"
  using sql_names_join_words [of "[]" "[]" s ns, folded py_split_def] by (simp add: rewrap_def py_split_strip)

lemma sql_char_rewrap: "list_all sql_char s \<Longrightarrow> list_all sql_char (rewrap s)"
proof -
  assume s: "list_all sql_char s"
  have "\<Union> (set ` set (py_split s)) \<subseteq> set s" by (intro UN_least set_py_split)
  moreover have "set (rewrap s) \<subseteq> insert 32 (\<Union> (set ` set (py_split s)))"
    using set_py_join [of "u '' ''" "py_split s"] by (simp add: rewrap_def py_split_strip)
  ultimately have "set (rewrap s) \<subseteq> insert 32 (set s)" by (meson insert_mono subset_trans)
  moreover have "sql_char 32" by (simp add: sql_char_def plain_c_def)
  ultimately show ?thesis using s unfolding list_all_iff by blast
qed


section \<open>The statement\<close>

lemma plain_columns: "\<forall>(name, col) \<in> set RESULT_FIELD_COLUMNS. list_all plain_c name \<and> list_all plain_c col"
  by code_simp

lemma resolve_result_fields_ok:
  assumes "resolve_result_fields requested = Inr names"
  shows "names \<noteq> [] \<and> set names \<subseteq> fst ` set RESULT_FIELD_COLUMNS \<and> distinct names \<and>
    (\<forall>fs. requested = Some fs \<longrightarrow> set names = set fs)"
proof (cases requested)
  case None
  then have "names = DEFAULT_RESULT_FIELDS" using assms by (simp add: resolve_result_fields_def)
  moreover have "list_all (\<lambda>n. n \<in> fst ` set RESULT_FIELD_COLUMNS) DEFAULT_RESULT_FIELDS \<and> distinct DEFAULT_RESULT_FIELDS"
    by code_simp
  ultimately show ?thesis using None by (auto simp: list_all_iff DEFAULT_RESULT_FIELDS_def)
next
  case (Some fs)
  then show ?thesis
    using assms dict_fromkeys_keys [of fs "()"] dict_fromkeys_distinct [of fs "()"]
    by (auto simp: resolve_result_fields_def Let_def list_all_iff split: if_splits)
qed

lemma field_columns_ok:
  assumes "set names \<subseteq> fst ` set RESULT_FIELD_COLUMNS"
  shows "\<exists>cols. mapr field_column names = Inr cols \<and> (\<forall>c \<in> set cols. list_all plain_c c)"
  using assms
proof (induction names)
  case (Cons name names)
  then obtain cols where IH: "mapr field_column names = Inr cols" "\<forall>c \<in> set cols. list_all plain_c c" by auto
  obtain col where col: "map_of RESULT_FIELD_COLUMNS name = Some col"
    using Cons.prems by (metis insert_subset list.simps(15) map_of_eq_None_iff not_None_eq)
  then have "list_all plain_c col" using plain_columns map_of_SomeD by fastforce
  moreover have "field_column name = Inr col" using col by (simp add: field_column_def)
  ultimately show ?case using IH by simp
qed simp

lemma plain_enum_texts:
  "list_all plain_c (order_column ob)" "list_all plain_c (sql_direction d)" "list_all plain_c (distinct_on n)"
  "list_all plain_c (fst (prefer_mapping p))" "list_all plain_c (snd (prefer_mapping p))"
  by (cases ob; simp add: plain_ascii) (cases d; cases n; cases p; simp add: plain_ascii)+

lemma cte_columns_plain: "\<forall>c \<in> set cols. list_all plain_c c \<Longrightarrow> \<forall>c \<in> set (cte_columns cols). list_all plain_c c"
  using dict_fromkeys_keys [of "cols @ [u ''edhrec_rank'', u ''prefer_score'']" "()"]
  by (auto simp: cte_columns_def plain_c_def)


lemma sql_part_dom: "dom (map_of c) \<subseteq> dom (map_of d) \<Longrightarrow> sql_part c s \<Longrightarrow> sql_part d s"
  by (auto simp: sql_part_def)

lemma sql_part_concat: "\<forall>s \<in> set ss. sql_part c s \<Longrightarrow> sql_part c (concat ss)"
  by (induction ss) (simp_all add: store.part_append store.part_Nil)

lemma plain_literal: "list_all plain_c s \<Longrightarrow> sql_part c s"
  by (rule store.part_text)

lemma select_cols_part: "\<forall>c \<in> set cols. list_all plain_c c \<Longrightarrow> sql_part ctx (select_cols cols)"
  unfolding select_cols_def using cte_columns_plain [of cols]
  by (intro sql_part_concat) (auto intro!: plain_literal simp: plain_ascii)

lemma result_cols_part:
  assumes "\<forall>c \<in> set cols. list_all plain_c c" "\<forall>n \<in> set names. list_all plain_c n"
  shows "sql_part ctx (result_cols names cols)"
proof -
  have "sql_part ctx (case p of (name, col) \<Rightarrow> col @ u '' AS '' @ name)" if "p \<in> set (zip names cols)" for p
    using assms set_zip_leftD [of "fst p" "snd p"] set_zip_rightD [of "fst p" "snd p"] that
    by (cases p) (auto intro!: plain_literal simp: plain_ascii)
  then show ?thesis unfolding result_cols_def by (intro store.part_join) (auto simp: plain_ascii)
qed

lemma count_nulls_part: "\<forall>n \<in> set names. list_all plain_c n \<Longrightarrow> sql_part ctx (count_nulls names)"
  unfolding count_nulls_def by (intro store.part_join) (auto intro!: plain_literal simp: plain_ascii)

lemma limit_part: "u ''limit'' \<in> dom (map_of ctx) \<Longrightarrow> sql_part ctx (placeholder (u ''limit''))"
  using sql_names_placeholder [of "u ''limit''"] by (auto simp: sql_part_def placeholder_def sql_char_def plain_ascii)

lemma page_and_count_part:
  assumes "u ''limit'' \<in> dom (map_of ctx)" "\<forall>c \<in> set cols. list_all plain_c c" "\<forall>n \<in> set names. list_all plain_c n"
    and "list_all plain_c cte"
  shows "sql_part ctx (page_and_count cte dir names cols)"
  unfolding page_and_count_def order_by_def using assms
  by (intro part_rules result_cols_part count_nulls_part limit_part plain_literal [OF plain_enum_texts(2)] plain_literal [OF assms(4)])
    (simp_all add: plain_ascii)

lemma query_sql_part:
  assumes "u ''limit'' \<in> dom (map_of ctx)" "\<forall>c \<in> set cols. list_all plain_c c" "\<forall>n \<in> set names. list_all plain_c n"
    and "sql_part ctx where_clause"
  shows "sql_part ctx (query_sql unique prefer orderby dir names cols where_clause)"
proof -
  have cte: "list_all plain_c (u ''matching_cards'')" "list_all plain_c (u ''distinct_cards'')" by (simp_all add: plain_ascii)
  note parts = select_cols_part [OF assms(2)] page_and_count_part [OF assms(1-3) cte(1)] page_and_count_part [OF assms(1-3) cte(2)]
    assms(4) plain_enum_texts [THEN plain_literal]
  show ?thesis
  proof (cases "unique = ON_PRINTING")
    case True
    then show ?thesis unfolding query_sql_def if_P [OF True] by (intro part_rules parts) (simp_all add: plain_ascii)
  next
    case False
    then show ?thesis unfolding query_sql_def if_not_P [OF False] by (intro part_rules parts) (simp_all add: plain_ascii)
  qed
qed


definition query_statement :: "(pstr \<Rightarrow> pstr) \<Rightarrow> pstr \<Rightarrow> search_key \<Rightarrow> search_error + pstr \<times> (pstr \<times> bound) list" where
  "query_statement tc src key =
     (case parse_scryfall_query src of Inl e \<Rightarrow> Inl (where_error e) | Inr parsed \<Rightarrow> search_statement tc parsed key)"

definition client_errors :: "search_error set" where
  "client_errors = range BadRequest \<union> {Raised OverflowError, Raised AssertionError}"

lemma plain_not_space: "plain_c c \<Longrightarrow> c \<noteq> 32 \<Longrightarrow> \<not> py_isspace_c c"
  by (simp add: plain_c_def py_isspace_c_def)

lemma ctx_names_no_blank: "ctx_ok ctx \<Longrightarrow> n \<in> dom (map_of ctx) \<Longrightarrow> no_blank n"
proof -
  assume "ctx_ok ctx" "n \<in> dom (map_of ctx)"
  then obtain v where "(n, v) \<in> set ctx" by (auto dest: map_of_SomeD)
  with \<open>ctx_ok ctx\<close> have "param_name v = Inr n" by (auto simp: ctx_ok_def)
  from param_name_chars [OF this] show ?thesis
    unfolding no_blank_def list_all_iff using plain_not_space by blast
qed

lemma resolve_error: "resolve_result_fields requested = Inl e \<Longrightarrow> e \<in> range BadRequest"
  by (auto simp: resolve_result_fields_def Let_def split: option.splits if_splits)

lemma where_error_client: "e = ValueError \<or> e = OverflowError \<or> e = AssertionError \<Longrightarrow> where_error e \<in> client_errors"
  by (auto simp: where_error_def client_errors_def)

lemma rewrap_query_sql_safe:
  assumes "ctx_ok ctx" "sql_part ctx where_clause" "\<forall>c \<in> set cols. list_all plain_c c" "\<forall>n \<in> set names. list_all plain_c n"
    and sql: "sql = rewrap (query_sql unique prefer orderby dir names cols where_clause)"
  shows "list_all sql_char sql \<and> (\<exists>ns. sql_names sql = Some ns \<and> set ns \<subseteq> insert (u ''limit'') (dom (map_of ctx)))"
proof -
  let ?c = "(u ''limit'', PVBool True) # ctx"
  have "sql_part ?c where_clause" by (rule sql_part_dom [OF _ assms(2)]) auto
  then have "sql_part ?c (query_sql unique prefer orderby dir names cols where_clause)"
    by (intro query_sql_part assms(3,4)) auto
  then obtain ns where chars: "list_all sql_char (query_sql unique prefer orderby dir names cols where_clause)"
    and ns: "sql_names (query_sql unique prefer orderby dir names cols where_clause) = Some ns"
    "set ns \<subseteq> insert (u ''limit'') (dom (map_of ctx))"
    by (auto simp: sql_part_def split: if_splits)
  have "no_blank n" if "n \<in> set ns" for n
  proof (cases "n = u ''limit''")
    case True
    then show ?thesis by (simp add: no_blank_def py_isspace_c_def)
  next
    case False
    with that ns(2) ctx_names_no_blank [OF assms(1)] show ?thesis by blast
  qed
  with sql_names_rewrap [OF ns(1)] sql_char_rewrap [OF chars] ns(2) sql show ?thesis by blast
qed

lemma names_plain: "set names \<subseteq> fst ` set RESULT_FIELD_COLUMNS \<Longrightarrow> \<forall>n \<in> set names. list_all plain_c n"
  using plain_columns by fastforce

lemma search_statement_cases:
  assumes "wf_query parsed"
  obtains (err) e where "search_statement tc parsed key = Inl e" "e \<in> client_errors"
  | (ok) sql ctx where
      "search_statement tc parsed key = Inr (sql, dict_set (map (\<lambda>(n, v). (n, Bound v)) ctx) (u ''limit'') (BoundLimit (k_limit key)))"
      "list_all sql_char sql" "\<exists>ns. sql_names sql = Some ns \<and> set ns \<subseteq> insert (u ''limit'') (dom (map_of ctx))" "ctx_ok ctx"
proof (cases "resolve_result_fields (Some (k_fields key))")
  case (Inl e)
  with resolve_error [OF Inl] err show ?thesis by (simp add: search_statement_def client_errors_def)
next
  case (Inr names)
  from resolve_result_fields_ok [OF Inr] have names: "set names \<subseteq> fst ` set RESULT_FIELD_COLUMNS" by blast
  then obtain cols where cols: "mapr field_column names = Inr cols" "\<forall>c \<in> set cols. list_all plain_c c"
    using field_columns_ok by blast
  note post = wf_query_sql [OF assms, of tc]
  show ?thesis
  proof (cases "generate_sql_query tc parsed")
    case (Inl e)
    with post have "e = ValueError \<or> e = AssertionError" by (simp add: store.post_def sql_errors_def)
    with where_error_client [of e] err Inl Inr show ?thesis by (auto simp: search_statement_def)
  next
    case gen: (Inr r)
    then obtain w q ctx where r: "generate_sql_query tc parsed = Inr (w, q, ctx)" by (cases r) auto
    with post have "ctx_ok ctx" "sql_part ctx w" by (simp_all add: store.post_def)
    with rewrap_query_sql_safe [OF this cols(2) names_plain [OF names] refl] ok r Inr cols(1) show ?thesis
      by (simp add: search_statement_def Let_def)
  qed
qed

lemma dom_bound_params: "dom (map_of (map (\<lambda>(n, v). (n, Bound v)) ctx)) = dom (map_of ctx)"
  by (simp add: dom_map_of_conv_image_fst image_image case_prod_beta)


text \<open>
  C2: No search reaches the database with user text in its statement. For every query string and every
  choice of fields, order, direction, preference, uniqueness and limit, the whole statement (after
  white-space normalization) has no quotes, semicolons, dollars or backslashes; every percent sign in it
  opens a placeholder, and every placeholder is bound: \<open>limit\<close> to the limit, every other one to the value
  its name encodes. Otherwise the search ends with a bad request or one of the two exceptions that the
  query compiler lets out.
\<close>
theorem search_statement_safe:
  "case query_statement tc src key of
     Inl e \<Rightarrow> e \<in> range BadRequest \<union> {Raised OverflowError, Raised AssertionError}
   | Inr (sql, ps) \<Rightarrow>
       list_all sql_char sql \<and> (\<exists>ns. sql_names sql = Some ns \<and> set ns \<subseteq> dom (map_of ps)) \<and>
       map_of ps (u ''limit'') = Some (BoundLimit (k_limit key)) \<and>
       (\<exists>ctx. ctx_ok ctx \<and> map_of ps = (map_of (map (\<lambda>(n, v). (n, Bound v)) ctx))(u ''limit'' \<mapsto> BoundLimit (k_limit key)))"
proof -
  consider parsed where "parse_scryfall_query src = Inr parsed" "wf_query parsed"
    | e where "parse_scryfall_query src = Inl e" "e = ValueError \<or> e = OverflowError \<or> e = AssertionError"
    using parse_scryfall_cases [of src] by blast
  then show ?thesis
  proof cases
    case 1
    from 1(2) show ?thesis
    proof (cases rule: search_statement_cases [where tc = tc and key = key])
      case (err e)
      with 1 show ?thesis by (auto simp: query_statement_def client_errors_def)
    next
      case (ok sql ctx)
      with 1 show ?thesis by (auto simp: query_statement_def dom_bound_params)
    qed
  next
    case 2
    with where_error_client [OF 2(2)] show ?thesis by (simp add: query_statement_def client_errors_def)
  qed
qed

section \<open>Errors\<close>

text \<open>
  What the statement returns: the last row is the count, and every row has the column
  \<open>total_cards_count\<close>.
\<close>

definition rows_ok :: "'j backend \<Rightarrow> bool" where
  "rows_ok be \<longleftrightarrow>
     (\<forall>sql ps rows. run_query be sql ps = Inr rows \<longrightarrow>
        rows \<noteq> [] \<and> (\<forall>r \<in> set rows. u ''total_cards_count'' \<in> fst ` set r))"

lemma mapr_all_Inr: "\<forall>x \<in> set xs. \<not> isl (f x) \<Longrightarrow> \<not> isl (mapr f xs)"
proof (induction xs)
  case (Cons x xs)
  then show ?case by (cases "f x"; cases "mapr f xs") auto
qed simp

lemma search_sql_errors:
  assumes "wf_query parsed" "rows_ok be" "search_sql tc be parsed query key = Inl e"
  shows "e \<in> client_errors \<union> {DatabaseError}"
  using assms(1)
proof (cases rule: search_statement_cases [where tc = tc and key = key])
  case (err e')
  with assms(3) show ?thesis by (simp add: search_sql_def)
next
  case (ok sql ctx)
  let ?p = "dict_set (map (\<lambda>(n, v). (n, Bound v)) ctx) (u ''limit'') (BoundLimit (k_limit key))"
  show ?thesis
  proof (cases "run_query be sql ?p")
    case (Inl d)
    with ok assms(3) show ?thesis by (cases d) (auto simp: search_sql_def client_errors_def)
  next
    case (Inr rows)
    with assms(2) have rows: "rows \<noteq> []" "\<forall>r \<in> set rows. u ''total_cards_count'' \<in> fst ` set r"
      unfolding rows_ok_def by blast+
    then obtain n where n: "map_of (last rows) (u ''total_cards_count'') = Some n"
      by (metis last_in_set map_of_eq_None_iff not_None_eq)
    have "\<not> isl (mapr pop_count (butlast rows))"
      using rows(2) in_set_butlastD by (intro mapr_all_Inr) (fastforce simp: pop_count_def)
    then obtain cards where "mapr pop_count (butlast rows) = Inr cards" by (cases "mapr pop_count (butlast rows)") auto
    with ok(1) Inr rows(1) n have "\<exists>r. search_sql tc be parsed query key = Inr r" by (simp add: search_sql_def)
    with assms(3) show ?thesis by simp
  qed
qed

lemma search_uncached_errors:
  assumes "rows_ok be" "search_uncached en tc be key = Inl e"
  shows "e \<in> client_errors \<union> {DatabaseError}"
proof -
  let ?query = "case k_query key of None \<Rightarrow> [] | Some q \<Rightarrow> q"
  consider parsed where "parse_scryfall_query ?query = Inr parsed" "wf_query parsed"
    | e where "parse_scryfall_query ?query = Inl e" "e = ValueError \<or> e = OverflowError \<or> e = AssertionError"
    using parse_scryfall_cases [of ?query] by blast
  then show ?thesis
  proof cases
    case 1
    with assms(2) have "search_sql tc be parsed ?query key = Inl e"
      by (auto simp: search_uncached_def Let_def split: if_splits sum.splits)
    from search_sql_errors [OF 1(2) assms(1) this] show ?thesis .
  next
    case 2
    with assms(2) where_error_client [OF 2(2)] show ?thesis by (simp add: search_uncached_def Let_def)
  qed
qed


section \<open>The search cache is transparent\<close>

text \<open>
  The result of a search without the cache, and a sequence of searches of one worker, each at the
  generation it reads. The data behind a generation does not change: \<open>world g\<close> is the backend as the
  searches of generation \<open>g\<close> see it.
\<close>

definition answer :: "bool \<Rightarrow> (pstr \<Rightarrow> pstr) \<Rightarrow> 'j backend \<Rightarrow> search_args \<Rightarrow> search_error + 'j search_result" where
  "answer en tc be args = bindr (search_key_of args) (search_uncached en tc be)"

fun search_run ::
  "settings \<Rightarrow> (pstr \<Rightarrow> pstr) \<Rightarrow> ('m, int, nat) cache_ops \<Rightarrow> ('c, search_key, 'j search_result) cache_ops \<Rightarrow>
   (int \<Rightarrow> 'j backend) \<Rightarrow> (int \<times> search_args) list \<Rightarrow> ('m, 'c) search_cache \<Rightarrow> (search_error + 'j search_result) list" where
  "search_run settings tc outer inner world [] st = []"
| "search_run settings tc outer inner world ((g, args) # es) st =
     (let (r, st) = do_search settings tc outer inner True g (world g) args st
      in r # search_run settings tc outer inner world es st)"

definition ideal :: "settings \<Rightarrow> (pstr \<Rightarrow> pstr) \<Rightarrow> (int \<Rightarrow> 'j backend) \<Rightarrow> int \<Rightarrow> search_key \<rightharpoonup> 'j search_result" where
  "ideal settings tc world g key =
     (case search_uncached (enable_engine settings) tc (world g) key of Inl e \<Rightarrow> None | Inr r \<Rightarrow> Some r)"

locale cached_search = generation_cache outer omap inner imap
  for outer :: "('m, int, nat) cache_ops" and omap and inner :: "('c, search_key, 'j search_result) cache_ops" and imap
begin

lemma do_search_cached:
  assumes ok: "refines st (ideal settings tc world)" and key: "search_key_of args = Inr key" "enable_cache settings"
    and run: "do_search settings tc outer inner True g (world g) args st = (r, st')"
  shows "refines st' (ideal settings tc world) \<and> (r = search_uncached (enable_engine settings) tc (world g) key \<or> r = Inl (Raised KeyError))"
proof -
  let ?s = "ideal settings tc world"
  obtain a st1 where cur: "gc_current outer inner st g = (a, st1)" by fastforce
  obtain b c where contains: "c_contains inner (gc_heap st1 ! a) key = (b, c)" by fastforce
  let ?st2 = "st1\<lparr>gc_heap := (gc_heap st1)[a := c]\<rparr>"
  from gc_current_refines [OF ok cur] have ok1: "refines st1 ?s" and held: "held_by st1 ?s g a" by auto
  have ok2: "refines ?st2 ?s" by (rule refines_shrink [OF ok1 held inner.contains_entries [OF contains]])
  have nth: "gc_heap ?st2 ! a = c" using held_byD(1) [OF held] by simp
  have le: "imap c \<subseteq>\<^sub>m ?s g"
    by (rule map_le_trans [OF inner.contains_entries [OF contains] held_byD(2) [OF held]])
  have held2: "held_by ?st2 ?s g a"
    unfolding held_by_def
  proof (intro conjI allI impI)
    show "a < length (gc_heap ?st2)" using held_byD(1) [OF held] by simp
    show "imap (gc_heap ?st2 ! a) \<subseteq>\<^sub>m ?s g" using le nth by simp
    show "g' = g" if "omap (gc_map ?st2) g' = Some a" for g' using held_byD(3) [OF held] that by simp
    show "b = a" if "omap (gc_map ?st2) g = Some b" for b using held_byD(4) [OF held] that by simp
  qed
  show ?thesis
  proof (cases b)
    case True
    obtain w c' where get: "c_get inner c key = (w, c')" by fastforce
    with run key cur contains True nth have r: "r = (case w of None \<Rightarrow> Inl (Raised KeyError) | Some v \<Rightarrow> Inr v)"
      and st': "st' = ?st2\<lparr>gc_heap := (gc_heap ?st2)[a := c']\<rparr>"
      by (simp_all add: do_search_def)
    have "?s g key = Some v" if "w = Some v" for v
      using inner.get_sound [of c key v c'] get that le by (auto simp: map_le_def dom_def)
    moreover have "refines st' (ideal settings tc world)"
      unfolding st' by (rule refines_shrink [OF ok2 held2]) (simp only: nth inner.get_entries [OF get])
    ultimately show ?thesis using r by (auto simp: ideal_def split: option.splits sum.splits)
  next
    case False
    show ?thesis
    proof (cases "search_uncached (enable_engine settings) tc (world g) key")
      case (Inl e)
      with run key cur contains False ok2 show ?thesis by (auto simp: do_search_def)
    next
      case (Inr v)
      have "imap (c_set inner c key v) \<subseteq>\<^sub>m ?s g"
      proof -
        have "(?s g)(key \<mapsto> v) = ?s g" using Inr by (auto simp: ideal_def fun_eq_iff)
        with map_le_trans [OF inner.set_entries map_le_upd [OF le]] show ?thesis by metis
      qed
      with refines_update [OF ok2 held2, of "c_set inner c key v" ?s] run key cur contains False Inr nth show ?thesis
        by (auto simp: do_search_def)
    qed
  qed
qed

lemma do_search_answer:
  assumes "refines st (ideal settings tc world)" "do_search settings tc outer inner True g (world g) args st = (r, st')"
  shows "refines st' (ideal settings tc world) \<and> (r = answer (enable_engine settings) tc (world g) args \<or> r = Inl (Raised KeyError))"
proof (cases "search_key_of args")
  case (Inl e)
  with assms show ?thesis by (auto simp: do_search_def answer_def)
next
  case (Inr key)
  show ?thesis
  proof (cases "enable_cache settings")
    case True
    from do_search_cached [OF assms(1) Inr True assms(2)] Inr show ?thesis by (simp add: answer_def)
  next
    case False
    with assms Inr show ?thesis by (auto simp: do_search_def answer_def)
  qed
qed

lemma search_run_answers:
  "refines st (ideal settings tc world) \<Longrightarrow>
   list_all2 (\<lambda>(g, args) r. r = answer (enable_engine settings) tc (world g) args \<or> r = Inl (Raised KeyError))
     es (search_run settings tc outer inner world es st)"
proof (induction es arbitrary: st)
  case (Cons e es)
  obtain g args where e: "e = (g, args)" by fastforce
  obtain r st' where r: "do_search settings tc outer inner True g (world g) args st = (r, st')" by fastforce
  from do_search_answer [OF Cons.prems r] Cons.IH [of st'] r show ?case by (simp add: e)
qed simp

end

interpretation lru_search: cached_search "lru_ops 1" map_of "lru_ops 1000" map_of
  by unfold_locales

lemma do_search_errors:
  assumes "rows_ok be" "fst (do_search settings tc outer inner setup_complete gen be args st) = Inl e"
  shows "e \<in> client_errors \<union> {ServiceUnavailable, DatabaseError} \<or> enable_cache settings \<and> e = Raised KeyError"
proof (cases "setup_complete")
  case False
  with assms show ?thesis by (simp add: do_search_def)
next
  case True
  show ?thesis
  proof (cases "search_key_of args")
    case (Inl e')
    then have "e' \<in> range BadRequest"
      by (auto simp: search_key_of_def bindr_Inl_iff validate_limit_def split: limit_arg.splits if_splits dest: resolve_error)
    with Inl True assms show ?thesis by (auto simp: do_search_def client_errors_def)
  next
    case (Inr key)
    with assms True have "search_uncached (enable_engine settings) tc be key = Inl e \<or> enable_cache settings \<and> e = Raised KeyError"
      by (auto simp: do_search_def Let_def split: if_splits prod.splits sum.splits option.splits)
    with search_uncached_errors [OF assms(1)] show ?thesis by blast
  qed
qed

section \<open>Properties of a search\<close>

text \<open>
  The errors of a search. When the database returns the rows the statement asks for, a search ends with
  a result, with an HTTP error (bad request, or service unavailable before the set-up is complete), with an
  error of the database, or with one of three exceptions that become an internal error: the overflow of
  an oversized date, the assertion of a mana cost compared with \<open>!=\<close>, and, with caching on, a missing key
  when a cached entry expires between the test for it and its lookup. No failure of the engine reaches
  the client.
\<close>
theorem search_errors:
  assumes "rows_ok be" "fst (do_search settings tc outer inner setup_complete gen be args st) = Inl e"
  shows "e \<in> range BadRequest \<union> {ServiceUnavailable, DatabaseError, Raised OverflowError, Raised AssertionError}
    \<or> enable_cache settings \<and> e = Raised KeyError"
  using do_search_errors [OF assms] by (auto simp: client_errors_def)

text \<open>A backend whose engine fails and whose database finds nothing, and a search.\<close>

definition sample_backend :: "int backend" where
  "sample_backend =
     \<lparr>engine_size = 1, engine_query = (\<lambda>_ _ _ _ _ _ _. Inl EngineFailure),
      run_query = (\<lambda>sql ps. Inr [[(u ''total_cards_count'', 0)]])\<rparr>"

definition sample_args :: search_args where
  "sample_args =
     \<lparr>a_direction = ASC, a_fields = Some [u ''name''], a_limit = IntLimit 5, a_orderby = BY_CMC, a_prefer = OLDEST,
      a_query = Some [], a_unique = ON_CARD\<rparr>"

theorem search_errors_witness:
  "rows_ok sample_backend \<and>
   fst (do_search \<lparr>enable_cache = True, enable_engine = True\<rparr> id (lru_ops 1) (lru_ops 1000) True 0 sample_backend
          (sample_args\<lparr>a_limit := IntLimit (-1)\<rparr>) (gc_init (lru_ops 1))) = Inl (BadRequest (u ''Invalid Limit'')) \<and>
   (BadRequest (u ''Invalid Limit'') \<in> range BadRequest \<union> {ServiceUnavailable, DatabaseError, Raised OverflowError, Raised AssertionError}
    \<or> enable_cache \<lparr>enable_cache = True, enable_engine = True\<rparr> \<and> BadRequest (u ''Invalid Limit'') = Raised KeyError)"
proof -
  have rows: "rows_ok sample_backend" by (simp add: rows_ok_def sample_backend_def)
  have err: "fst (do_search \<lparr>enable_cache = True, enable_engine = True\<rparr> id (lru_ops 1) (lru_ops 1000) True 0 sample_backend
      (sample_args\<lparr>a_limit := IntLimit (-1)\<rparr>) (gc_init (lru_ops 1))) = Inl (BadRequest (u ''Invalid Limit''))"
    by (simp add: do_search_def search_key_of_def validate_limit_def sample_args_def)
  from search_errors [OF rows err] rows err show ?thesis by blast
qed

text \<open>
  C11: The search cache is transparent. Over any sequence of searches, with the generation advancing in any
  way, each search gives the result it would give without the cache at its own generation, or the missing-key
  exception of an entry that expires between test and lookup. In particular no result of an earlier
  generation is served, and no result of a search with other arguments.
\<close>
theorem search_cache_transparent:
  assumes "sound_cache outer omap" "sound_cache inner imap" "c_clear inner \<noteq> None"
  shows "list_all2 (\<lambda>(g, args) r. r = answer (enable_engine settings) tc (world g) args \<or> r = Inl (Raised KeyError))
    es (search_run settings tc outer inner world es (gc_init outer))"
proof -
  have gc: "generation_cache outer omap inner imap"
    using assms by (simp add: generation_cache_def generation_cache_axioms_def)
  have "generation_cache.refines omap imap (gc_init outer) (ideal settings tc world)"
    by (simp add: generation_cache.refines_def [OF gc] gc_init_def sound_cache.new_entries [OF assms(1)])
  then show ?thesis by (rule cached_search.search_run_answers [OF cached_search.intro [OF gc]])
qed

theorem search_cache_transparent_witness:
  "list_all2 (\<lambda>(g, args) r. r = answer False id sample_backend args \<or> r = Inl (Raised KeyError))
     [(0::int, sample_args), (1, sample_args)]
     (search_run \<lparr>enable_cache = True, enable_engine = False\<rparr> id (lru_ops 1) (lru_ops 1000) (\<lambda>g. sample_backend)
        [(0, sample_args), (1, sample_args)] (gc_init (lru_ops 1)))"
proof -
  have "c_clear (lru_ops 1000 :: ((search_key \<times> int search_result) list, search_key, int search_result) cache_ops) \<noteq> None"
    by (simp add: lru_ops_def)
  from search_cache_transparent [OF lru.sound_cache_axioms lru.sound_cache_axioms this,
      of "\<lparr>enable_cache = True, enable_engine = False\<rparr>" id "\<lambda>g. sample_backend" "[(0, sample_args), (1, sample_args)]" 1]
  show ?thesis by simp
qed

section \<open>The columnar shape\<close>

text \<open>How a client rebuilds row \<open>i\<close>.\<close>

definition rebuild_row :: "(pstr \<times> 'j list) list \<Rightarrow> nat \<Rightarrow> 'j result_row" where
  "rebuild_row cols i = map (\<lambda>(k, vs). (k, vs ! i)) cols"

definition column :: "'j result_row list \<Rightarrow> pstr \<Rightarrow> 'j list" where
  "column cards k = map (\<lambda>c. the (map_of c k)) cards"

lemma mapr_Inr_map: "\<forall>x \<in> set xs. f x = Inr (g x) \<Longrightarrow> mapr f xs = Inr (map g xs)"
  by (induction xs) auto

lemma map_of_map_keys: "map_of (map (\<lambda>k. (k, f k)) ks) x = (if x \<in> set ks then Some (f x) else None)"
  by (induction ks) auto

lemma columnarize_columns:
  assumes "\<forall>c \<in> set cards. fst ` set c = fst ` set (hd cards)"
  shows "columnarize_cards cards = Inr (map (\<lambda>k. (k, column cards k)) (if cards = [] then [] else map fst (hd cards)))"
proof -
  let ?get = "\<lambda>k c. case map_of c k of None \<Rightarrow> Inl KeyError | Some v \<Rightarrow> Inr v"
  have "mapr (?get k) cards = Inr (column cards k)" if "k \<in> fst ` set (hd cards)" for k
    unfolding column_def
  proof (rule mapr_Inr_map, intro ballI)
    fix c
    assume "c \<in> set cards"
    with assms that have "map_of c k \<noteq> None" by (simp add: map_of_eq_None_iff)
    then show "?get k c = Inr (the (map_of c k))" by auto
  qed
  then show ?thesis
    by (cases cards) (simp_all add: columnarize_cards_def Let_def mapr_Inr_map [where g = "\<lambda>k. (k, column cards k)"])
qed

text \<open>
  The columnar shape of a response loses nothing. When all cards have the same fields, as the cards of
  one result do, the conversion succeeds, and taking element \<open>i\<close> of every column gives a row with
  exactly the values of card \<open>i\<close>.
\<close>
theorem columnarize_round_trip:
  assumes "\<forall>c \<in> set cards. fst ` set c = fst ` set (hd cards)"
  shows "\<exists>cols. columnarize_cards cards = Inr cols \<and> (\<forall>i < length cards. map_of (rebuild_row cols i) = map_of (cards ! i))"
proof (intro exI conjI allI impI)
  show "columnarize_cards cards = Inr (map (\<lambda>k. (k, column cards k)) (if cards = [] then [] else map fst (hd cards)))"
    by (rule columnarize_columns [OF assms])
  fix i
  assume i: "i < length cards"
  define ks where "ks = map fst (hd cards)"
  have keys: "fst ` set (cards ! i) = set ks" using assms i by (simp only: ks_def nth_mem list.set_map)
  have "map_of (map (\<lambda>k. (k, the (map_of (cards ! i) k))) ks) x = map_of (cards ! i) x" for x
    using map_of_eq_None_iff [of "cards ! i" x, unfolded keys] by (auto simp: map_of_map_keys)
  then show "map_of (rebuild_row (map (\<lambda>k. (k, column cards k)) (if cards = [] then [] else map fst (hd cards))) i) = map_of (cards ! i)"
    using i by (auto simp: rebuild_row_def column_def comp_def fun_eq_iff simp flip: ks_def)
qed

theorem columnarize_round_trip_witness:
  "\<exists>cols. columnarize_cards [[(u ''a'', 1::nat), (u ''b'', 2)], [(u ''b'', 3), (u ''a'', 4)]] = Inr cols \<and>
     map_of (rebuild_row cols 1) = map_of [(u ''b'', 3), (u ''a'', 4)]"
  using columnarize_round_trip [of "[[(u ''a'', 1::nat), (u ''b'', 2)], [(u ''b'', 3), (u ''a'', 4)]]"] by fastforce

end
