(* ===== verification/Cuckoo.thy ===== *)
theory Cuckoo
  imports Complex_Main Py_Prelude "HOL-Library.Word"
begin

text \<open>
  The cuckoo filter of \<open>src/shared_cache/sketch.py\<close>: \<open>_next_power_of_two\<close> and the class
  \<open>CuckooFilter\<close> with its sizing, its hashing of keys to a fingerprint and two buckets,
  \<open>lookup\<close>, \<open>insert\<close> with its bounded chain of kicks, \<open>load\<close> and \<open>capacity\<close>. The 64-bit
  hash \<open>xxhash.xxh3_64(key).intdigest()\<close> is a third-party function and an argument \<open>xxh\<close> of
  the definitions; nothing is assumed of it.

  The lemmas show that the alternative bucket of the alternative bucket is the bucket itself,
  that an insertion which returns \<open>True\<close> makes no earlier key unfindable, and that one which
  returns \<open>False\<close> loses a single fingerprint.
\<close>

unbundle bit_operations_syntax

section \<open>The class CuckooFilter\<close>

type_synonym bytes = "nat list"

record cuckoo =
  bucket_count :: nat
  buckets :: "nat list list"

definition SLOTS :: nat where
  "SLOTS = 4"

definition MAX_KICKS :: nat where
  "MAX_KICKS = 500"

fun bit_length :: "nat \<Rightarrow> nat" where
  "bit_length n = (if n = 0 then 0 else Suc (bit_length (n div 2)))"

declare bit_length.simps [simp del]

definition next_power_of_two :: "int \<Rightarrow> nat" where
  "next_power_of_two n = push_bit (bit_length (nat \<bar>n - 1\<bar>)) 1"

definition new_filter :: "nat \<Rightarrow> cuckoo result" where
  "new_filter bc =
     (if bc AND (bc - 1) = 0 then Inr \<lparr>bucket_count = bc, buckets = replicate bc (replicate SLOTS 0)\<rparr>
      else Inl AssertionError)"

definition for_maxsize :: "nat \<Rightarrow> cuckoo result" where
  "for_maxsize maxsize =
     (let slot_count = next_power_of_two (int (maxsize * 4));
          bc = max (slot_count div 4) 16
      in new_filter bc)"

definition alt_bucket :: "nat \<Rightarrow> nat \<Rightarrow> nat \<Rightarrow> nat" where
  "alt_bucket bc idx fp =
     (let h = (fp * 0x5BD1E995 + 0xE6546B64) AND 0xFFFFFFFF in (idx XOR h) AND (bc - 1))"

definition fingerprint :: "(bytes \<Rightarrow> nat) \<Rightarrow> bytes \<Rightarrow> nat" where
  "fingerprint xxh key = (let x = drop_bit 32 (xxh key) AND 0xFFFF in if x = 0 then 1 else x)"

definition both_buckets :: "(bytes \<Rightarrow> nat) \<Rightarrow> nat \<Rightarrow> bytes \<Rightarrow> nat \<Rightarrow> nat \<times> nat" where
  "both_buckets xxh bc key fp = (let b1 = xxh key AND (bc - 1) in (b1, alt_bucket bc b1 fp))"

definition filter_lookup :: "(bytes \<Rightarrow> nat) \<Rightarrow> cuckoo \<Rightarrow> bytes \<Rightarrow> bool" where
  "filter_lookup xxh c key =
     (let fp = fingerprint xxh key; (b1, b2) = both_buckets xxh (bucket_count c) key fp
      in fp \<in> set (buckets c ! b1) \<or> fp \<in> set (buckets c ! b2))"

fun index_of :: "'a \<Rightarrow> 'a list \<Rightarrow> nat" where
  "index_of x [] = 0"
| "index_of x (y # ys) = (if x = y then 0 else Suc (index_of x ys))"

definition put_free :: "nat list list \<Rightarrow> nat \<Rightarrow> nat \<Rightarrow> nat list list" where
  "put_free B b fp = B[b := (B ! b)[index_of 0 (B ! b) := fp]]"

fun kick_loop :: "nat \<Rightarrow> nat \<Rightarrow> nat \<Rightarrow> nat list list \<Rightarrow> nat \<Rightarrow> nat \<Rightarrow> bool \<times> nat list list" where
  "kick_loop bc 0 k B b fp = (False, B)"
| "kick_loop bc (Suc left) k B b fp =
     (let s = k mod SLOTS; out = B ! b ! s; B = B[b := (B ! b)[s := fp]]; fp = out;
          b = alt_bucket bc b fp
      in if 0 \<in> set (B ! b) then (True, put_free B b fp) else kick_loop bc left (Suc k) B b fp)"

definition filter_insert :: "(bytes \<Rightarrow> nat) \<Rightarrow> cuckoo \<Rightarrow> bytes \<Rightarrow> bool \<times> cuckoo" where
  "filter_insert xxh c key =
     (let fp = fingerprint xxh key; (b1, b2) = both_buckets xxh (bucket_count c) key fp; B = buckets c
      in if 0 \<in> set (B ! b1) then (True, c\<lparr>buckets := put_free B b1 fp\<rparr>)
         else if 0 \<in> set (B ! b2) then (True, c\<lparr>buckets := put_free B b2 fp\<rparr>)
         else let (ok, B') = kick_loop (bucket_count c) MAX_KICKS 0 B b1 fp in (ok, c\<lparr>buckets := B'\<rparr>))"

definition used_slots :: "nat list list \<Rightarrow> nat" where
  "used_slots B = sum_list (map (\<lambda>row. length (filter (\<lambda>s. s \<noteq> 0) row)) B)"

definition filter_capacity :: "cuckoo \<Rightarrow> nat" where
  "filter_capacity c = bucket_count c * SLOTS"

definition filter_load :: "cuckoo \<Rightarrow> rat" where
  "filter_load c = of_nat (used_slots (buckets c)) / of_nat (filter_capacity c)"

section \<open>Well-formed filters\<close>

definition filter_ok :: "cuckoo \<Rightarrow> bool" where
  "filter_ok c \<longleftrightarrow> (\<exists>k. bucket_count c = 2 ^ k) \<and> length (buckets c) = bucket_count c \<and>
     (\<forall>row\<in>set (buckets c). length row = SLOTS)"

lemma and_pred_exp: "n AND (2 ^ k - Suc 0) = take_bit k n"
  by (simp add: take_bit_eq_mask mask_eq_exp_minus_1)

lemma alt_bucket_exp: "\<exists>h. \<forall>idx. alt_bucket (2 ^ k) idx fp = take_bit k (idx XOR h)"
  unfolding alt_bucket_def Let_def One_nat_def and_pred_exp by blast

lemma alt_bucket_less: "alt_bucket (2 ^ k) idx fp < 2 ^ k"
  unfolding alt_bucket_def Let_def One_nat_def and_pred_exp by (rule take_bit_nat_less_exp)

lemma alt_bucket_alt: "idx < 2 ^ k \<Longrightarrow> alt_bucket (2 ^ k) (alt_bucket (2 ^ k) idx fp) fp = idx"
proof -
  assume b: "idx < 2 ^ k"
  obtain h where h: "\<And>i. alt_bucket (2 ^ k) i fp = take_bit k (i XOR h)"
    using alt_bucket_exp by blast
  have "take_bit k (take_bit k (idx XOR h) XOR h) = take_bit k idx"
    by (simp add: take_bit_xor xor.assoc)
  then show ?thesis using b by (simp add: h take_bit_nat_eq_self)
qed

lemma fingerprint_pos: "fingerprint xxh key \<noteq> 0"
  by (simp add: fingerprint_def Let_def)

lemma fingerprint_16_bits: "fingerprint xxh key < 2 ^ 16"
  using and_pred_exp [of "drop_bit 32 (xxh key)" 16] take_bit_nat_less_exp [of 16 "drop_bit 32 (xxh key)"]
  by (simp add: fingerprint_def Let_def)

lemma bit_length_bound: "n < 2 ^ bit_length n"
  by (induction n rule: bit_length.induct) (subst bit_length.simps, auto)

lemma next_power_of_two_ge: "n \<le> int (next_power_of_two n)"
  using bit_length_bound [of "nat \<bar>n - 1\<bar>"] unfolding next_power_of_two_def push_bit_eq_mult
  by (simp add: nat_less_iff) 

section \<open>What a bucket table holds\<close>

text \<open>
  \<open>holdings k B\<close> are the pairs of a fingerprint and one of its two buckets that a lookup finds in
  the table \<open>B\<close> of \<open>2 ^ k\<close> buckets; \<open>pair k b fp\<close> are the two places of one fingerprint.
\<close>

definition rows_ok :: "nat \<Rightarrow> nat list list \<Rightarrow> bool" where
  "rows_ok k B \<longleftrightarrow> length B = 2 ^ k \<and> (\<forall>row\<in>set B. length row = SLOTS)"

definition holdings :: "nat \<Rightarrow> nat list list \<Rightarrow> (nat \<times> nat) set" where
  "holdings k B = {(f, c). f \<noteq> 0 \<and> c < 2 ^ k \<and> (f \<in> set (B ! c) \<or> f \<in> set (B ! alt_bucket (2 ^ k) c f))}"

definition pair :: "nat \<Rightarrow> nat \<Rightarrow> nat \<Rightarrow> (nat \<times> nat) set" where
  "pair k b fp = {(fp, b), (fp, alt_bucket (2 ^ k) b fp)}"

lemma rows_ok_row: "rows_ok k B \<Longrightarrow> b < 2 ^ k \<Longrightarrow> length (B ! b) = SLOTS"
  by (auto simp: rows_ok_def)

lemma rows_ok_update: "rows_ok k B \<Longrightarrow> b < 2 ^ k \<Longrightarrow> rows_ok k (B[b := (B ! b)[s := x]])"
  by (auto simp: rows_ok_def dest!: set_update_subset_insert [THEN subsetD])

lemma pair_alt: "b < 2 ^ k \<Longrightarrow> pair k (alt_bucket (2 ^ k) b fp) fp = pair k b fp"
  by (auto simp: pair_def alt_bucket_alt)

lemma set_update_other: "f \<in> set row \<Longrightarrow> f \<in> set (row[s := x]) \<or> f = row ! s"
  by (metis in_set_conv_nth length_list_update nth_list_update_neq)

lemma holdings_replace:
  assumes B: "rows_ok k B" and b: "b < 2 ^ k" and s: "s < SLOTS" and fp: "fp \<noteq> 0"
  shows "holdings k B \<union> pair k b fp \<subseteq> holdings k (B[b := (B ! b)[s := fp]]) \<union> pair k b (B ! b ! s)"
    (is "_ \<subseteq> holdings k ?B \<union> _")
proof (rule subsetI)
  have new: "fp \<in> set (?B ! b)"
    using rows_ok_row [OF B b] s b B by (auto simp: rows_ok_def intro: set_update_memI)
  have row: "f \<in> set (?B ! c) \<or> c = b \<and> f = B ! b ! s" if "f \<in> set (B ! c)" for f c
    using that set_update_other [of f "B ! b" s fp] B b by (cases "c = b") (auto simp: rows_ok_def)
  fix p assume "p \<in> holdings k B \<union> pair k b fp"
  then show "p \<in> holdings k ?B \<union> pair k b (B ! b ! s)"
  proof
    assume "p \<in> pair k b fp"
    then show ?thesis
      using new fp b by (auto simp: pair_def holdings_def alt_bucket_less alt_bucket_alt)
  next
    assume "p \<in> holdings k B"
    then obtain f c where p: "p = (f, c)" "f \<noteq> 0" "c < 2 ^ k"
      and h: "f \<in> set (B ! c) \<or> f \<in> set (B ! alt_bucket (2 ^ k) c f)"
      by (auto simp: holdings_def)
    from h show ?thesis
    proof
      assume "f \<in> set (B ! c)"
      from row [OF this] p show ?thesis by (auto simp: pair_def holdings_def)
    next
      assume "f \<in> set (B ! alt_bucket (2 ^ k) c f)"
      from row [OF this] p alt_bucket_alt [OF p(3), of f] show ?thesis
        by (auto simp: pair_def holdings_def)
    qed
  qed
qed

lemma index_of_nth: "x \<in> set xs \<Longrightarrow> index_of x xs < length xs \<and> xs ! index_of x xs = x"
  by (induction xs) auto

lemma holdings_put_free:
  assumes B: "rows_ok k B" and b: "b < 2 ^ k" and free: "0 \<in> set (B ! b)" and fp: "fp \<noteq> 0"
  shows "holdings k B \<union> pair k b fp \<subseteq> holdings k (put_free B b fp)"
proof -
  have "holdings k B \<union> pair k b fp \<subseteq> holdings k (put_free B b fp) \<union> pair k b 0"
    using holdings_replace [OF B b _ fp, of "index_of 0 (B ! b)"] index_of_nth [OF free] rows_ok_row [OF B b]
    by (simp add: put_free_def)
  moreover have "(0, c) \<notin> holdings k B \<union> pair k b fp" for c
    using fp by (auto simp: holdings_def pair_def)
  ultimately show ?thesis by (auto simp: pair_def)
qed

lemma nonzero_update:
  "s < length xs \<Longrightarrow> length (filter P (xs[s := x])) + (if P (xs ! s) then 1 else 0)
     = length (filter P xs) + (if P x then 1 else 0)"
proof (induction xs arbitrary: s)
  case (Cons y ys)
  show ?case
  proof (cases s)
    case (Suc t)
    with Cons.IH [of t] Cons.prems show ?thesis by (simp split: if_splits)
  qed simp
qed simp

lemma used_slots_update:
  assumes "b < length B" "s < length (B ! b)"
  shows "used_slots (B[b := (B ! b)[s := x]]) + (if B ! b ! s = 0 then 0 else 1)
    = used_slots B + (if x = 0 then 0 else 1)"
proof -
  let ?f = "\<lambda>row. length (filter (\<lambda>s. s \<noteq> 0) row)"
  have le: "?f (B ! b) \<le> sum_list (map ?f B)"
    using assms(1) by (intro member_le_sum_list) auto
  have "used_slots (B[b := (B ! b)[s := x]]) = sum_list (map ?f B) + ?f ((B ! b)[s := x]) - ?f (B ! b)"
    using assms(1) by (simp add: used_slots_def map_update sum_list_update)
  with nonzero_update [OF assms(2), of "\<lambda>s. s \<noteq> 0" x] le show ?thesis
    by (auto simp: used_slots_def split: if_splits)
qed

lemma used_slots_put_free:
  "rows_ok k B \<Longrightarrow> b < 2 ^ k \<Longrightarrow> 0 \<in> set (B ! b) \<Longrightarrow> fp \<noteq> 0 \<Longrightarrow>
   used_slots (put_free B b fp) = used_slots B + 1"
  using used_slots_update [of b B "index_of 0 (B ! b)" fp] index_of_nth [of 0 "B ! b"]
  by (simp add: put_free_def rows_ok_def)

lemma kick_loop_holdings:
  assumes "kick_loop (2 ^ k) left n B b fp = (ok, B')" "rows_ok k B" "b < 2 ^ k" "fp \<noteq> 0" "0 \<notin> set (B ! b)"
  shows "rows_ok k B' \<and> used_slots B' = used_slots B + (if ok then 1 else 0) \<and>
    (\<exists>f c. c < 2 ^ k \<and> holdings k B \<union> pair k b fp \<subseteq> holdings k B' \<union> (if ok then {} else pair k c f))"
  using assms
proof (induction left arbitrary: n B b fp)
  case 0
  then show ?case by auto
next
  case (Suc left)
  define s where "s = n mod SLOTS"
  define out where "out = B ! b ! s"
  define B1 where "B1 = B[b := (B ! b)[s := fp]]"
  define b1 where "b1 = alt_bucket (2 ^ k) b out"
  have s: "s < SLOTS" by (simp add: s_def SLOTS_def)
  have out: "out \<noteq> 0"
    using Suc.prems(5) nth_mem [of s "B ! b"] rows_ok_row [OF Suc.prems(2,3)] s by (metis out_def)
  have B1: "rows_ok k B1" and b1: "b1 < 2 ^ k"
    using Suc.prems(2,3) by (auto simp: B1_def b1_def rows_ok_update alt_bucket_less)
  have step: "holdings k B \<union> pair k b fp \<subseteq> holdings k B1 \<union> pair k b1 out"
    using holdings_replace [OF Suc.prems(2,3) s Suc.prems(4)] pair_alt [OF Suc.prems(3)]
    by (simp add: B1_def out_def b1_def)
  have used: "used_slots B1 = used_slots B"
    using used_slots_update [of b B s fp] rows_ok_row [OF Suc.prems(2,3)] Suc.prems(2-4) s out
    by (simp add: B1_def out_def rows_ok_def)
  have run: "(if 0 \<in> set (B1 ! b1) then (True, put_free B1 b1 out)
      else kick_loop (2 ^ k) left (Suc n) B1 b1 out) = (ok, B')"
    using Suc.prems(1) by (simp only: kick_loop.simps Let_def s_def out_def B1_def b1_def)
  show ?case
  proof (cases "0 \<in> set (B1 ! b1)")
    case True
    with run have "ok" "B' = put_free B1 b1 out" by auto
    with step holdings_put_free [OF B1 b1 True out] used_slots_put_free [OF B1 b1 True out] used rows_ok_update [OF B1 b1] b1 show ?thesis
      by (auto simp: put_free_def)
  next
    case False
    with run have "kick_loop (2 ^ k) left (Suc n) B1 b1 out = (ok, B')" by simp
    from Suc.IH [OF this B1 b1 out False] obtain f d where "rows_ok k B'" "d < 2 ^ k"
      "used_slots B' = used_slots B1 + (if ok then 1 else 0)"
      "holdings k B1 \<union> pair k b1 out \<subseteq> holdings k B' \<union> (if ok then {} else pair k d f)" by blast
    with step used show ?thesis by (intro conjI exI [of _ f] exI [of _ d] order_trans [OF step]) auto
  qed
qed

lemma filter_insert_holdings:
  assumes c: "filter_ok c" "bucket_count c = 2 ^ k" and ins: "filter_insert xxh c key = (ok, c')"
  shows "bucket_count c' = 2 ^ k \<and> rows_ok k (buckets c') \<and>
    used_slots (buckets c') = used_slots (buckets c) + (if ok then 1 else 0) \<and>
    (\<exists>f b. b < 2 ^ k \<and> holdings k (buckets c) \<union> pair k (take_bit k (xxh key)) (fingerprint xxh key)
       \<subseteq> holdings k (buckets c') \<union> (if ok then {} else pair k b f))"
proof -
  define fp where "fp = fingerprint xxh key"
  define b1 where "b1 = take_bit k (xxh key)"
  define b2 where "b2 = alt_bucket (2 ^ k) b1 fp"
  have fp: "fp \<noteq> 0" by (simp add: fp_def fingerprint_pos)
  have b: "b1 < 2 ^ k" "b2 < 2 ^ k" by (simp_all add: b1_def b2_def alt_bucket_less)
  have B: "rows_ok k (buckets c)" using c by (auto simp: filter_ok_def rows_ok_def)
  have run: "(if 0 \<in> set (buckets c ! b1) then (True, c\<lparr>buckets := put_free (buckets c) b1 fp\<rparr>)
      else if 0 \<in> set (buckets c ! b2) then (True, c\<lparr>buckets := put_free (buckets c) b2 fp\<rparr>)
      else let (ok, B') = kick_loop (2 ^ k) MAX_KICKS 0 (buckets c) b1 fp in (ok, c\<lparr>buckets := B'\<rparr>)) = (ok, c')"
    using ins by (simp only: c(2) filter_insert_def both_buckets_def and_pred_exp fp_def b1_def b2_def
      Let_def One_nat_def prod.case)
  consider "0 \<in> set (buckets c ! b1)" | "0 \<notin> set (buckets c ! b1)" "0 \<in> set (buckets c ! b2)"
    | "0 \<notin> set (buckets c ! b1)" "0 \<notin> set (buckets c ! b2)" by blast
  then show ?thesis
  proof cases
    case 1
    with run have "ok" "c' = c\<lparr>buckets := put_free (buckets c) b1 fp\<rparr>" by auto
    with holdings_put_free [OF B b(1) 1 fp] used_slots_put_free [OF B b(1) 1 fp] rows_ok_update [OF B b(1)] b c show ?thesis
      by (auto simp: put_free_def fp_def b1_def)
  next
    case 2
    with run have "ok" "c' = c\<lparr>buckets := put_free (buckets c) b2 fp\<rparr>" by auto
    with holdings_put_free [OF B b(2) 2(2) fp] used_slots_put_free [OF B b(2) 2(2) fp] rows_ok_update [OF B b(2)] b c pair_alt [OF b(1)] show ?thesis
      by (auto simp: put_free_def fp_def b1_def b2_def)
  next
    case 3
    obtain B' where l: "kick_loop (2 ^ k) MAX_KICKS 0 (buckets c) b1 fp = (ok, B')" "c' = c\<lparr>buckets := B'\<rparr>"
      using run 3 by (auto split: prod.splits)
    from kick_loop_holdings [OF l(1) B b(1) fp 3(1)] l(2) c show ?thesis
      by (simp add: fp_def b1_def)
  qed
qed

lemma filter_lookup_holdings:
  "bucket_count c = 2 ^ k \<Longrightarrow>
   filter_lookup xxh c key \<longleftrightarrow> (fingerprint xxh key, take_bit k (xxh key)) \<in> holdings k (buckets c)"
  by (simp add: filter_lookup_def both_buckets_def and_pred_exp holdings_def fingerprint_pos [simplified] Let_def)

section \<open>Sizes\<close>

lemma new_filter_exp: "new_filter (2 ^ k) = Inr \<lparr>bucket_count = 2 ^ k, buckets = replicate (2 ^ k) (replicate SLOTS 0)\<rparr>"
  by (simp add: new_filter_def and_pred_exp)

lemma for_maxsize_ok:
  obtains k where "for_maxsize maxsize = Inr \<lparr>bucket_count = 2 ^ k, buckets = replicate (2 ^ k) (replicate SLOTS 0)\<rparr>"
    and "max maxsize 16 \<le> 2 ^ k"
proof -
  define j where "j = bit_length (nat \<bar>int (maxsize * 4) - 1\<bar>)"
  have sc: "next_power_of_two (int (maxsize * 4)) = 2 ^ j"
    by (simp only: next_power_of_two_def push_bit_eq_mult j_def mult_1)
  have big: "maxsize * 4 \<le> 2 ^ j"
    using next_power_of_two_ge [of "int (maxsize * 4)"] by (simp only: sc of_nat_le_iff)
  define k where "k = max (j - 2) 4"
  have "max (2 ^ j div 4) 16 = (2::nat) ^ k"
  proof (cases "j \<le> 6")
    case True
    then have "(2::nat) ^ j \<le> 2 ^ 6" by (intro power_increasing) auto
    then have "2 ^ j div 4 \<le> (16::nat)" by simp
    moreover have "k = 4" using True by (simp add: k_def)
    ultimately show ?thesis by simp
  next
    case False
    then have "(2::nat) ^ 6 \<le> 2 ^ j" by (intro power_increasing) auto
    moreover have "(2::nat) ^ j = 2 ^ (j - 2) * 4"
      using False by (subst le_add_diff_inverse2 [of 2 j, symmetric]) (simp_all only: power_add, simp_all)
    ultimately show ?thesis using False by (simp add: k_def max_def)
  qed
  then have "for_maxsize maxsize = new_filter (2 ^ k)" "max (2 ^ j div 4) 16 = (2::nat) ^ k"
    by (simp_all only: for_maxsize_def sc Let_def)
  with big show ?thesis by (intro that [of k]) (auto simp: new_filter_exp)
qed

section \<open>The contract of the filter\<close>

lemma filter_insert_ok:
  assumes "filter_ok c" shows "filter_ok (snd (filter_insert xxh c key))"
proof -
  obtain k where k: "bucket_count c = 2 ^ k" using assms by (auto simp: filter_ok_def)
  obtain ok c' where i: "filter_insert xxh c key = (ok, c')" by fastforce
  from filter_insert_holdings [OF assms k i] i show ?thesis by (auto simp: filter_ok_def rows_ok_def)
qed

lemma filter_insert_lookup:
  assumes "filter_ok c" "filter_insert xxh c key = (True, c')"
  shows "filter_lookup xxh c' key" and "filter_lookup xxh c key' \<Longrightarrow> filter_lookup xxh c' key'"
proof -
  obtain k where k: "bucket_count c = 2 ^ k" using assms(1) by (auto simp: filter_ok_def)
  note h = filter_insert_holdings [OF assms(1) k assms(2)]
  from h have k': "bucket_count c' = 2 ^ k" by blast
  show "filter_lookup xxh c' key"
    using h by (auto simp: filter_lookup_holdings [OF k'] pair_def)
  show "filter_lookup xxh c key' \<Longrightarrow> filter_lookup xxh c' key'"
    using h by (auto simp: filter_lookup_holdings [OF k'] filter_lookup_holdings [OF k])
qed

fun insert_all :: "('f \<Rightarrow> 'k \<Rightarrow> bool \<times> 'f) \<Rightarrow> 'f \<Rightarrow> 'k list \<Rightarrow> bool \<times> 'f" where
  "insert_all ins f [] = (True, f)"
| "insert_all ins f (k # ks) = (let (a, f') = ins f k; (b, f'') = insert_all ins f' ks in (a \<and> b, f''))"

text \<open>
  What the cache relies on: an insertion keeps the filter well formed, and one that reports
  success finds the new key and every key found before.
\<close>

locale membership_filter =
  fixes ok :: "'f \<Rightarrow> bool" and lookup :: "'f \<Rightarrow> 'k \<Rightarrow> bool" and ins :: "'f \<Rightarrow> 'k \<Rightarrow> bool \<times> 'f"
  assumes ins_ok: "ok f \<Longrightarrow> ok (snd (ins f k))"
    and ins_new: "ok f \<Longrightarrow> fst (ins f k) \<Longrightarrow> lookup (snd (ins f k)) k"
    and ins_old: "ok f \<Longrightarrow> fst (ins f k) \<Longrightarrow> lookup f k' \<Longrightarrow> lookup (snd (ins f k)) k'"
begin

lemma insert_all_keeps:
  "ok f \<Longrightarrow> insert_all ins f ks = (True, f') \<Longrightarrow> lookup f k \<or> k \<in> set ks \<Longrightarrow> lookup f' k"
proof (induction ks arbitrary: f)
  case (Cons x xs)
  obtain g where i: "ins f x = (True, g)" and r: "insert_all ins g xs = (True, f')"
    using Cons.prems(2) by (auto split: prod.splits simp: Let_def)
  have g: "ok g" using ins_ok [OF Cons.prems(1), of x] by (simp add: i)
  have "lookup g k \<or> k \<in> set xs"
    using Cons.prems(3) ins_new [OF Cons.prems(1), of x] ins_old [OF Cons.prems(1), of x k] by (auto simp: i)
  from Cons.IH [OF g r this] show ?case .
qed simp

lemma insert_all_ok: "ok f \<Longrightarrow> insert_all ins f ks = (b, f') \<Longrightarrow> ok f'"
proof (induction ks arbitrary: f b)
  case (Cons x xs)
  obtain a g c where i: "ins f x = (a, g)" and r: "insert_all ins g xs = (c, f')"
    using Cons.prems(2) by (auto split: prod.splits simp: Let_def)
  have "ok g" using ins_ok [OF Cons.prems(1), of x] by (simp add: i)
  from Cons.IH [OF this r] show ?case .
qed simp

end

interpretation cuckoo: membership_filter filter_ok "filter_lookup xxh" "filter_insert xxh"
proof unfold_locales
  fix f k k'
  assume f: "filter_ok f"
  show "filter_ok (snd (filter_insert xxh f k))" by (rule filter_insert_ok [OF f])
  assume "fst (filter_insert xxh f k)"
  then have i: "filter_insert xxh f k = (True, snd (filter_insert xxh f k))" by (simp add: prod_eq_iff)
  from filter_insert_lookup(1) [OF f i] show "filter_lookup xxh (snd (filter_insert xxh f k)) k" .
  assume "filter_lookup xxh f k'"
  from filter_insert_lookup(2) [OF f i this] show "filter_lookup xxh (snd (filter_insert xxh f k)) k'" .
qed

section \<open>Properties\<close>

text \<open>
  \<open>CuckooFilter.insert\<close> keeps the filter well formed and never makes a stored key unfindable
  when it returns \<open>True\<close>: the inserted key and every key found before are found after it, and one
  more slot is in use. When it returns \<open>False\<close> after its last kick, the number of slots in use is
  unchanged and the keys that are lost share one fingerprint \<open>f\<close> and one pair of buckets.
\<close>

theorem filter_insert_contract:
  assumes "filter_ok c"
  shows "\<exists>ok c'. filter_insert xxh c key = (ok, c') \<and> filter_ok c'
    \<and> used_slots (buckets c') = used_slots (buckets c) + (if ok then 1 else 0)
    \<and> (\<exists>f b. \<forall>k. (filter_lookup xxh c k \<or> k = key) \<and> \<not> filter_lookup xxh c' k \<longrightarrow>
         \<not> ok \<and> fingerprint xxh k = f
         \<and> fst (both_buckets xxh (bucket_count c) k f) \<in> {b, alt_bucket (bucket_count c) b f})"
proof -
  obtain n where n: "bucket_count c = 2 ^ n" using assms by (auto simp: filter_ok_def)
  obtain ok c' where i: "filter_insert xxh c key = (ok, c')" by fastforce
  note h = filter_insert_holdings [OF assms n i]
  then obtain f b where n': "bucket_count c' = 2 ^ n"
    and fb: "holdings n (buckets c) \<union> pair n (take_bit n (xxh key)) (fingerprint xxh key)
       \<subseteq> holdings n (buckets c') \<union> (if ok then {} else pair n b f)" by blast
  have "\<not> ok \<and> fingerprint xxh k = f \<and> take_bit n (xxh k) \<in> {b, alt_bucket (2 ^ n) b f}"
    if "filter_lookup xxh c k \<or> k = key" "\<not> filter_lookup xxh c' k" for k
  proof -
    have "(fingerprint xxh k, take_bit n (xxh k)) \<in> holdings n (buckets c') \<union> (if ok then {} else pair n b f)"
      using fb that(1) by (auto simp: filter_lookup_holdings [OF n] pair_def)
    with that(2) show ?thesis by (auto simp: filter_lookup_holdings [OF n'] pair_def split: if_splits)
  qed
  with h i show ?thesis
    by (intro exI [of _ ok] exI [of _ c'] conjI exI [of _ f] exI [of _ b])
      (auto simp: filter_ok_def rows_ok_def both_buckets_def n and_pred_exp Let_def)
qed

theorem filter_insert_contract_witness:
  "\<exists>ok c'. filter_insert (\<lambda>_. 7) \<lparr>bucket_count = 1, buckets = [[0, 0, 0, 0]]\<rparr> [1] = (ok, c') \<and> filter_ok c'"
proof -
  have "filter_ok \<lparr>bucket_count = 1, buckets = [[0, 0, 0, 0]]\<rparr>"
    by (auto simp: filter_ok_def SLOTS_def intro: exI [of _ 0])
  from filter_insert_contract [OF this, of "\<lambda>_. 7" "[1]"] show ?thesis by blast
qed

text \<open>
  C30: Over any sequence of insertions into a fresh filter that all return \<open>True\<close>, no key is ever
  missed: \<open>lookup\<close> answers \<open>True\<close> on each inserted key. \<open>for_maxsize\<close> always builds a filter.
\<close>

theorem filter_no_false_negatives:
  "\<exists>f. for_maxsize maxsize = Inr f \<and> filter_ok f \<and> 4 * max maxsize 16 \<le> filter_capacity f \<and>
     (\<forall>keys f'. insert_all (filter_insert xxh) f keys = (True, f') \<longrightarrow> list_all (filter_lookup xxh f') keys)"
proof -
  obtain k where f: "for_maxsize maxsize = Inr \<lparr>bucket_count = 2 ^ k, buckets = replicate (2 ^ k) (replicate SLOTS 0)\<rparr>"
    and k: "max maxsize 16 \<le> 2 ^ k" by (rule for_maxsize_ok)
  let ?f = "\<lparr>bucket_count = 2 ^ k, buckets = replicate (2 ^ k) (replicate SLOTS 0)\<rparr>"
  have ok: "filter_ok ?f" by (auto simp: filter_ok_def)
  have "list_all (filter_lookup xxh f') keys" if "insert_all (filter_insert xxh) ?f keys = (True, f')" for keys f'
    using cuckoo.insert_all_keeps [OF ok that] by (simp add: list_all_iff)
  with f ok k show ?thesis by (intro exI [of _ ?f]) (auto simp: filter_capacity_def SLOTS_def)
qed

theorem filter_no_false_negatives_witness:
  "insert_all (filter_insert (\<lambda>_. 7)) \<lparr>bucket_count = 16, buckets = replicate 16 (replicate SLOTS 0)\<rparr> [[1]]
     = (True, snd (insert_all (filter_insert (\<lambda>_. 7))
          \<lparr>bucket_count = 16, buckets = replicate 16 (replicate SLOTS 0)\<rparr> [[1]]))
   \<and> filter_lookup (\<lambda>_. 7) (snd (insert_all (filter_insert (\<lambda>_. 7))
        \<lparr>bucket_count = 16, buckets = replicate 16 (replicate SLOTS 0)\<rparr> [[1]])) [1]"
proof -
  have f: "for_maxsize 8 = Inr \<lparr>bucket_count = 16, buckets = replicate 16 (replicate SLOTS 0)\<rparr>" by code_simp
  have i: "fst (insert_all (filter_insert (\<lambda>_. 7))
      \<lparr>bucket_count = 16, buckets = replicate 16 (replicate SLOTS 0)\<rparr> [[1]])" by code_simp
  define f where "f = \<lparr>bucket_count = 16, buckets = replicate 16 (replicate SLOTS 0)\<rparr>"
  have i': "insert_all (filter_insert (\<lambda>_. 7)) f [[1]] = (True, snd (insert_all (filter_insert (\<lambda>_. 7)) f [[1]]))"
    using i by (simp add: prod_eq_iff f_def)
  have "list_all (filter_lookup (\<lambda>_. 7) f') keys"
    if "insert_all (filter_insert (\<lambda>_. 7)) f keys = (True, f')" for keys f'
    using filter_no_false_negatives [of 8 "\<lambda>_. 7"] f that unfolding f_def by auto
  from this [OF i'] i' show ?thesis by (simp only: f_def list.pred_inject(2) HOL.simp_thms)
qed

end
