(* ===== verification/Gen_Cache.thy ===== *)
theory Gen_Cache
  imports Cuckoo
begin

text \<open>
  The generational cache of \<open>src/shared_cache/sketch.py\<close>: the classes \<open>Entry\<close>, \<open>Page\<close> and
  \<open>GenerationalCache\<close>. Pages are mutable objects shared between threads, so they live in a
  store (\<open>heap\<close>, a list of pages indexed by address) and the ring \<open>pages\<close> holds addresses.
  The public \<open>get\<close> and \<open>set\<close> are split into the phases their lock blocks delimit: \<open>get\<close> is a
  filter lookup, a probe of the active page under the lock, and probes of a snapshot of the
  sealed pages; \<open>set\<close> is a snapshot under the lock, a lock-free build of the replacement
  page, and a commit under the lock. \<open>cache_step\<close> interleaves the phases of any number of
  threads. A stored value is an \<open>option\<close>: \<open>None\<close> is Python's \<open>None\<close>.
\<close>

section \<open>Entry and Page\<close>

record 'v entry =
  e_value :: "'v option"
  visited :: bool

record 'v page =
  entries :: "(bytes \<times> 'v entry) list"
  is_sealed :: bool

definition new_page :: "'v page" where
  "new_page = \<lparr>entries = [], is_sealed = False\<rparr>"

definition page_seal :: "'v page \<Rightarrow> 'v page result" where
  "page_seal p =
     (if is_sealed p then Inl RuntimeError
      else Inr \<lparr>entries = map (\<lambda>(k, e). (k, e\<lparr>visited := False\<rparr>)) (entries p), is_sealed = True\<rparr>)"

definition page_get :: "'v page \<Rightarrow> bytes \<Rightarrow> 'v option \<times> 'v page" where
  "page_get p key =
     (case map_of (entries p) key of
        None \<Rightarrow> (None, p)
      | Some e \<Rightarrow> (e_value e, p\<lparr>entries := dict_set (entries p) key (e\<lparr>visited := True\<rparr>)\<rparr>))"

definition page_insert :: "'v page \<Rightarrow> bytes \<Rightarrow> 'v option \<Rightarrow> 'v page result" where
  "page_insert p key v =
     (if is_sealed p then Inl RuntimeError
      else Inr (p\<lparr>entries := dict_set (entries p) key \<lparr>e_value = v, visited = False\<rparr>\<rparr>))"

definition survivors :: "'v page \<Rightarrow> (bytes \<times> 'v option) list result" where
  "survivors p =
     (if is_sealed p then Inr (map (\<lambda>(k, e). (k, e_value e)) (filter (\<lambda>(k, e). visited e) (entries p)))
      else Inl RuntimeError)"

fun page_insert_all :: "'v page \<Rightarrow> (bytes \<times> 'v option) list \<Rightarrow> 'v page result" where
  "page_insert_all p [] = Inr p"
| "page_insert_all p ((k, v) # kvs) = bindr (page_insert p k v) (\<lambda>p. page_insert_all p kvs)"

section \<open>GenerationalCache\<close>

record 'v gcache =
  gen_maxsize :: nat
  heap :: "'v page list"
  pages :: "nat list"
  counter :: nat
  gfilter :: cuckoo

definition new_cache :: "nat \<Rightarrow> nat \<Rightarrow> 'v gcache result" where
  "new_cache maxsize n_pages =
     (if n_pages = 0 then Inl ZeroDivisionError
      else bindr (mapr page_seal (replicate (n_pages - 1) new_page)) (\<lambda>sealed.
           bindr (for_maxsize maxsize) (\<lambda>f.
           Inr \<lparr>gen_maxsize = maxsize div n_pages, heap = new_page # sealed, pages = [0..<n_pages],
                counter = 0, gfilter = f\<rparr>)))"

definition active_idx :: "'v gcache \<Rightarrow> nat" where
  "active_idx c = counter c mod length (pages c)"

definition active :: "'v gcache \<Rightarrow> nat" where
  "active c = pages c ! active_idx c"

definition sealed_pages :: "'v gcache \<Rightarrow> nat list" where
  "sealed_pages c =
     (let n = length (pages c) in map (\<lambda>i. pages c ! nat ((int (active_idx c) - int i) mod int n)) [1..<n])"

definition probe :: "'v gcache \<Rightarrow> nat \<Rightarrow> bytes \<Rightarrow> 'v option \<times> 'v gcache" where
  "probe c a key = (let (v, p) = page_get (heap c ! a) key in (v, c\<lparr>heap := (heap c)[a := p]\<rparr>))"

fun probe_sealed :: "'v gcache \<Rightarrow> nat list \<Rightarrow> bytes \<Rightarrow> 'v option \<times> 'v gcache" where
  "probe_sealed c [] key = (None, c)"
| "probe_sealed c (a # as) key =
     (case probe c a key of
        (Some v, c') \<Rightarrow> (Some v, c')
      | (None, c') \<Rightarrow> probe_sealed c' as key)"

definition cache_get :: "(bytes \<Rightarrow> nat) \<Rightarrow> 'v gcache \<Rightarrow> bytes \<Rightarrow> 'v option \<times> 'v gcache" where
  "cache_get xxh c key =
     (if \<not> filter_lookup xxh (gfilter c) key then (None, c)
      else case probe c (active c) key of
             (Some v, c') \<Rightarrow> (Some v, c')
           | (None, c') \<Rightarrow> probe_sealed c' (sealed_pages c') key)"

definition set_snapshot :: "'v gcache \<Rightarrow> (nat \<times> nat) option" where
  "set_snapshot c =
     (if gen_maxsize c \<le> length (entries (heap c ! active c))
      then Some (counter c, pages c ! ((counter c + 1) mod length (pages c)))
      else None)"

definition set_build ::
  "'v gcache \<Rightarrow> (nat \<times> nat) option \<Rightarrow> ((nat \<times> nat \<times> nat) option \<times> 'v gcache) result" where
  "set_build c plan =
     (case plan of
        None \<Rightarrow> Inr (None, c)
      | Some (gen, retiring) \<Rightarrow>
          bindr (survivors (heap c ! retiring)) (\<lambda>sv.
            let dropped = length (entries (heap c ! retiring)) - length sv
            in bindr (page_insert_all new_page sv) (\<lambda>p.
               Inr (Some (gen, length (heap c), dropped), c\<lparr>heap := heap c @ [p]\<rparr>))))"

definition commit_rotation :: "'v gcache \<Rightarrow> nat \<Rightarrow> nat \<Rightarrow> 'v gcache result" where
  "commit_rotation c new_addr dropped =
     (let n = length (pages c); oldest_idx = (counter c + 1) mod n
      in bindr (page_seal (heap c ! active c)) (\<lambda>p.
         Inr (c\<lparr>heap := (heap c)[active c := p], pages := (pages c)[oldest_idx := new_addr],
                counter := counter c + 1\<rparr>)))"

definition set_commit ::
  "(bytes \<Rightarrow> nat) \<Rightarrow> 'v gcache \<Rightarrow> bytes \<Rightarrow> 'v option \<Rightarrow> (nat \<times> nat \<times> nat) option \<Rightarrow> 'v gcache result" where
  "set_commit xxh c key v plan =
     bindr (case plan of
              Some (gen, new_addr, dropped) \<Rightarrow>
                if counter c = gen then commit_rotation c new_addr dropped else Inr c
            | None \<Rightarrow> Inr c) (\<lambda>c.
     bindr (page_insert (heap c ! active c) key v) (\<lambda>p.
     Inr (c\<lparr>heap := (heap c)[active c := p], gfilter := snd (filter_insert xxh (gfilter c) key)\<rparr>)))"

definition cache_set :: "(bytes \<Rightarrow> nat) \<Rightarrow> 'v gcache \<Rightarrow> bytes \<Rightarrow> 'v option \<Rightarrow> 'v gcache result" where
  "cache_set xxh c key v =
     bindr (set_build c (set_snapshot c)) (\<lambda>(plan, c). set_commit xxh c key v plan)"

datatype 'v cache_op = Get bytes | Set bytes 'v

fun cache_run :: "(bytes \<Rightarrow> nat) \<Rightarrow> 'v gcache \<Rightarrow> 'v cache_op list \<Rightarrow> ('v option list \<times> 'v gcache) result" where
  "cache_run xxh c [] = Inr ([], c)"
| "cache_run xxh c (Get key # ops) =
     (let (v, c) = cache_get xxh c key in bindr (cache_run xxh c ops) (\<lambda>(vs, c). Inr (v # vs, c)))"
| "cache_run xxh c (Set key v # ops) = bindr (cache_set xxh c key (Some v)) (\<lambda>c. cache_run xxh c ops)"

section \<open>Threads\<close>

text \<open>
  A thread is idle or between two phases of a call. \<open>cache_step\<close> runs one phase of one thread;
  \<open>Crashed e\<close> is the state of a thread whose phase raised \<open>e\<close>.
\<close>

datatype 'v thread =
    Idle
  | Snapped bytes "'v option" "(nat \<times> nat) option"
  | Built bytes "'v option" "(nat \<times> nat \<times> nat) option"
  | Probing bytes
  | Missed bytes
  | Scanning bytes "nat list"
  | Crashed exn


section \<open>The ring invariant\<close>

text \<open>
  \<open>ring_ok\<close> is the invariant of the class comment: \<open>pages[counter % n]\<close> is unsealed and every other
  page is sealed. \<open>sys_ok\<close> adds what each thread relies on between its phases: the page it
  is about to scan is sealed, the page it built is unsealed and still private to it.
\<close>

definition ring_ok :: "'v gcache \<Rightarrow> bool" where
  "ring_ok c \<longleftrightarrow> 2 \<le> length (pages c) \<and> distinct (pages c) \<and> (\<forall>a\<in>set (pages c). a < length (heap c)) \<and>
     (\<forall>i<length (pages c). is_sealed (heap c ! (pages c ! i)) \<longleftrightarrow> i \<noteq> active_idx c) \<and> filter_ok (gfilter c)"

fun thread_ok :: "'v gcache \<Rightarrow> 'v thread \<Rightarrow> bool" where
  "thread_ok c (Snapped k v (Some (gen, a))) = (a < length (heap c) \<and> is_sealed (heap c ! a))"
| "thread_ok c (Built k v (Some (gen, a, d))) =
     (a < length (heap c) \<and> \<not> is_sealed (heap c ! a) \<and> a \<notin> set (pages c))"
| "thread_ok c (Scanning k as) = (\<forall>a\<in>set as. a < length (heap c))"
| "thread_ok c (Crashed e) = False"
| "thread_ok c _ = True"

fun owned :: "'v thread \<Rightarrow> nat set" where
  "owned (Built k v (Some (gen, a, d))) = {a}"
| "owned _ = {}"


text \<open>
  \<open>frame S c c'\<close>: what a phase of one thread leaves alone of the others, \<open>S\<close> being the pages it
  owns. Sealed pages stay sealed, pages outside the ring keep their state, and the ring only takes
  in pages of \<open>S\<close>.
\<close>

definition frame :: "nat set \<Rightarrow> 'v gcache \<Rightarrow> 'v gcache \<Rightarrow> bool" where
  "frame S c c' \<longleftrightarrow> length (heap c) \<le> length (heap c') \<and> set (pages c') \<subseteq> set (pages c) \<union> S \<and>
     (\<forall>a<length (heap c). (is_sealed (heap c ! a) \<longrightarrow> is_sealed (heap c' ! a)) \<and>
        (a \<notin> set (pages c) \<union> S \<longrightarrow> is_sealed (heap c' ! a) = is_sealed (heap c ! a)))"


lemma frame_refl: "frame S c c"
  by (simp add: frame_def)

lemma ring_pos: "ring_ok c \<Longrightarrow> 0 < length (pages c)"
  unfolding ring_ok_def by linarith

lemma active_idx_less: "ring_ok c \<Longrightarrow> active_idx c < length (pages c)"
  unfolding active_idx_def by (rule mod_less_divisor [OF ring_pos])

lemma oldest_idx:
  assumes "ring_ok c"
  shows "(counter c + 1) mod length (pages c) < length (pages c)"
    and "(counter c + 1) mod length (pages c) \<noteq> active_idx c"
proof -
  have n: "2 \<le> length (pages c)" using assms by (simp add: ring_ok_def)
  then show "(counter c + 1) mod length (pages c) < length (pages c)" by (intro mod_less_divisor) linarith
  show "(counter c + 1) mod length (pages c) \<noteq> active_idx c"
    using n mod_Suc [of "counter c" "length (pages c)"] by (auto simp: active_idx_def)
qed

lemma active_in: "ring_ok c \<Longrightarrow> active c \<in> set (pages c)"
  using active_idx_less [of c] by (auto simp: active_def)

lemma active_less: "ring_ok c \<Longrightarrow> active c < length (heap c)"
  using active_in by (auto simp: ring_ok_def)

lemma active_unsealed: "ring_ok c \<Longrightarrow> \<not> is_sealed (heap c ! active c)"
  using active_idx_less by (auto simp: ring_ok_def active_def)

lemma retiring_sealed:
  assumes "ring_ok c"
  shows "pages c ! ((counter c + 1) mod length (pages c)) < length (heap c)"
    and "is_sealed (heap c ! (pages c ! ((counter c + 1) mod length (pages c))))"
  using assms oldest_idx [OF assms] by (auto simp: ring_ok_def)

lemma sealed_pages_in: "ring_ok c \<Longrightarrow> set (sealed_pages c) \<subseteq> set (pages c)"
  using ring_pos [of c] by (auto simp: sealed_pages_def Let_def nat_less_iff intro!: nth_mem)

subsection \<open>Each phase keeps it\<close>

lemma sealed_update:
  "is_sealed (h[a := p] ! b) = (if a = b \<and> a < length h then is_sealed p else is_sealed (h ! b))"
  by (cases "a < length h") (auto simp: list_update_beyond)

lemma sealed_update_same: "is_sealed p = is_sealed (h ! a) \<Longrightarrow> is_sealed (h[a := p] ! b) = is_sealed (h ! b)"
  by (simp add: sealed_update)

lemma page_get_sealed: "is_sealed (snd (page_get p key)) = is_sealed p"
  by (simp add: page_get_def split: option.splits)

lemma probe_phase:
  assumes "ring_ok c" "probe c a key = (v, c')"
  shows "ring_ok c'" "frame S c c'"
proof -
  obtain p where "page_get (heap c ! a) key = (v, p)" "c' = c\<lparr>heap := (heap c)[a := p]\<rparr>"
    using assms(2) by (auto simp: probe_def split: prod.splits)
  with assms(1) page_get_sealed [of "heap c ! a" key] show "ring_ok c'" "frame S c c'"
    by (simp_all add: ring_ok_def frame_def active_idx_def sealed_update_same)
qed

lemma page_insert_all_ok: "\<not> is_sealed p \<Longrightarrow> \<exists>q. page_insert_all p kvs = Inr q \<and> \<not> is_sealed q"
  by (induction p kvs rule: page_insert_all.induct) (auto simp: page_insert_def)

lemma build_phase:
  assumes "ring_ok c" "thread_ok c (Snapped key v plan)"
  shows "\<exists>plan' c'. set_build c plan = Inr (plan', c') \<and> ring_ok c' \<and> frame S c c' \<and>
    thread_ok c' (Built key v plan') \<and> owned (Built key v plan') \<inter> {..<length (heap c)} = {}"
proof (cases plan)
  case None
  then show ?thesis using assms by (simp add: set_build_def frame_refl)
next
  case (Some p)
  obtain gen a where p: "p = (gen, a)" by fastforce
  have a: "a < length (heap c)" "is_sealed (heap c ! a)" using assms(2) by (auto simp: Some p)
  obtain sv where sv: "survivors (heap c ! a) = Inr sv" using a by (simp add: survivors_def)
  obtain q where q: "page_insert_all new_page sv = Inr q" "\<not> is_sealed q"
    using page_insert_all_ok [of new_page sv] by (auto simp: new_page_def)
  show ?thesis
    using assms(1) q by (auto simp: set_build_def Some p sv frame_def ring_ok_def active_idx_def nth_append)
qed

lemma insert_phase:
  assumes "ring_ok c"
  shows "\<exists>p. page_insert (heap c ! active c) key v = Inr p \<and>
    ring_ok (c\<lparr>heap := (heap c)[active c := p], gfilter := snd (filter_insert xxh (gfilter c) key)\<rparr>) \<and>
    frame S c (c\<lparr>heap := (heap c)[active c := p], gfilter := snd (filter_insert xxh (gfilter c) key)\<rparr>)"
  using assms active_unsealed [OF assms] filter_insert_ok [of "gfilter c" xxh key]
  by (simp add: page_insert_def ring_ok_def frame_def active_idx_def sealed_update_same)

lemma rotation_phase:
  assumes c: "ring_ok c" and new: "new < length (heap c)" "\<not> is_sealed (heap c ! new)" "new \<notin> set (pages c)"
  shows "\<exists>c'. commit_rotation c new d = Inr c' \<and> ring_ok c' \<and> frame {new} c c'"
proof -
  let ?n = "length (pages c)" let ?o = "(counter c + 1) mod ?n"
  have n: "2 \<le> ?n" using c by (simp add: ring_ok_def)
  note o = oldest_idx [OF c]
  obtain p where p: "page_seal (heap c ! active c) = Inr p" "is_sealed p"
    using active_unsealed [OF c] by (simp add: page_seal_def)
  define c' where "c' = c\<lparr>heap := (heap c)[active c := p], pages := (pages c)[?o := new], counter := counter c + 1\<rparr>"
  have new': "new \<noteq> active c" using active_in [OF c] new(3) by auto
  have a: "active_idx c' = ?o" by (simp add: c'_def active_idx_def)
  have seal: "is_sealed (heap c' ! (pages c' ! i)) \<longleftrightarrow> i \<noteq> ?o" if i: "i < ?n" for i
  proof (cases "i = ?o")
    case True
    then show ?thesis using new new' o by (simp add: c'_def)
  next
    case False
    have "is_sealed (heap c ! (pages c ! i)) \<or> pages c ! i = active c"
      using c i by (auto simp: ring_ok_def active_def)
    then show ?thesis using False p(2) active_less [OF c] by (auto simp: c'_def sealed_update)
  qed
  have "ring_ok c'"
    unfolding ring_ok_def a
    using c seal new n by (auto simp: c'_def ring_ok_def distinct_list_update dest!: set_update_subset_insert [THEN subsetD])
  moreover have "frame {new} c c'"
    using p(2) active_in [OF c] set_update_subset_insert [of "pages c" ?o new]
    by (auto simp: frame_def c'_def sealed_update)
  ultimately show ?thesis using p by (auto simp: commit_rotation_def c'_def Let_def)
qed

lemma frame_trans: "frame S c c1 \<Longrightarrow> frame S c1 c2 \<Longrightarrow> frame S c c2"
  unfolding frame_def
proof (elim conjE, intro conjI allI impI)
  assume le: "length (heap c) \<le> length (heap c1)" "length (heap c1) \<le> length (heap c2)"
  then show "length (heap c) \<le> length (heap c2)" by (rule order_trans)
  assume ps: "set (pages c1) \<subseteq> set (pages c) \<union> S" "set (pages c2) \<subseteq> set (pages c1) \<union> S"
  then show "set (pages c2) \<subseteq> set (pages c) \<union> S" by blast
  assume s1: "\<forall>a<length (heap c). (is_sealed (heap c ! a) \<longrightarrow> is_sealed (heap c1 ! a)) \<and>
        (a \<notin> set (pages c) \<union> S \<longrightarrow> is_sealed (heap c1 ! a) = is_sealed (heap c ! a))"
    and s2: "\<forall>a<length (heap c1). (is_sealed (heap c1 ! a) \<longrightarrow> is_sealed (heap c2 ! a)) \<and>
        (a \<notin> set (pages c1) \<union> S \<longrightarrow> is_sealed (heap c2 ! a) = is_sealed (heap c1 ! a))"
  fix a assume a: "a < length (heap c)"
  then have a1: "a < length (heap c1)" using le(1) by simp
  show "is_sealed (heap c2 ! a)" if "is_sealed (heap c ! a)" using that s1 s2 a a1 by simp
  show "is_sealed (heap c2 ! a) = is_sealed (heap c ! a)" if "a \<notin> set (pages c) \<union> S"
  proof -
    have "a \<notin> set (pages c1) \<union> S" using that ps(1) by blast
    then show ?thesis using that s1 s2 a a1 by simp
  qed
qed

lemma rotation_choice:
  assumes "ring_ok c" "thread_ok c (Built key v plan)"
  shows "\<exists>c1. (case plan of
              Some (gen, new_addr, dropped) \<Rightarrow>
                if counter c = gen then commit_rotation c new_addr dropped else Inr c
            | None \<Rightarrow> Inr c) = Inr c1 \<and> ring_ok c1 \<and> frame (owned (Built key v plan)) c c1"
  using assms rotation_phase [OF assms(1)] by (auto split: option.split simp: frame_refl)

lemma commit_phase:
  assumes c: "ring_ok c" "thread_ok c (Built key v plan)"
  shows "\<exists>c'. set_commit xxh c key v plan = Inr c' \<and> ring_ok c' \<and> frame (owned (Built key v plan)) c c'"
proof -
  from rotation_choice [OF c] obtain c1 where c1: "(case plan of
              Some (gen, new_addr, dropped) \<Rightarrow>
                if counter c = gen then commit_rotation c new_addr dropped else Inr c
            | None \<Rightarrow> Inr c) = Inr c1" "ring_ok c1" "frame (owned (Built key v plan)) c c1" by blast
  obtain p where p: "page_insert (heap c1 ! active c1) key v = Inr p"
    "ring_ok (c1\<lparr>heap := (heap c1)[active c1 := p], gfilter := snd (filter_insert xxh (gfilter c1) key)\<rparr>)"
    "frame (owned (Built key v plan)) c1
       (c1\<lparr>heap := (heap c1)[active c1 := p], gfilter := snd (filter_insert xxh (gfilter c1) key)\<rparr>)"
    using insert_phase [OF c1(2), where S = "owned (Built key v plan)" and key = key and v = v and xxh = xxh] by blast
  from p(2) frame_trans [OF c1(3) p(3)] show ?thesis by (simp add: set_commit_def c1(1) p(1))
qed

subsection \<open>Every interleaving keeps it\<close>











section \<open>One thread: what a cache call returns\<close>

text \<open>\<open>page_values\<close> is what the store holds, visited bits aside; \<open>first_value\<close> the newest value of a key.\<close>

definition page_values :: "'v gcache \<Rightarrow> (bytes \<times> 'v option) list list" where
  "page_values c = map (\<lambda>p. map (\<lambda>(k, e). (k, e_value e)) (entries p)) (heap c)"

fun first_value :: "'v gcache \<Rightarrow> nat list \<Rightarrow> bytes \<Rightarrow> 'v option" where
  "first_value c [] key = None"
| "first_value c (a # as) key =
     (case map_of (entries (heap c ! a)) key of
        Some e \<Rightarrow> if e_value e = None then first_value c as key else e_value e
      | None \<Rightarrow> first_value c as key)"

lemma dict_set_values:
  "map_of kes key = Some e \<Longrightarrow>
   map (\<lambda>(k, e). (k, e_value e)) (dict_set kes key (e\<lparr>visited := b\<rparr>)) = map (\<lambda>(k, e). (k, e_value e)) kes"
  by (induction kes) (auto split: if_splits)

lemma page_get_values:
  "map (\<lambda>(k, e). (k, e_value e)) (entries (snd (page_get p key))) = map (\<lambda>(k, e). (k, e_value e)) (entries p)"
  by (simp add: page_get_def dict_set_values split: option.splits)

lemma probe_values: "probe c a key = (v, c') \<Longrightarrow> page_values c' = page_values c"
  using page_get_values [of "heap c ! a" key]
  by (cases "a < length (heap c)")
    (auto simp: probe_def page_values_def map_update list_update_beyond split: prod.splits
      intro!: list_update_same_conv [THEN iffD2])

lemma probe_ring: "probe c a key = (v, c') \<Longrightarrow> pages c' = pages c \<and> counter c' = counter c \<and> gfilter c' = gfilter c
   \<and> gen_maxsize c' = gen_maxsize c"
  by (auto simp: probe_def split: prod.splits)

lemma first_value_cong:
  assumes "page_values c' = page_values c" "\<forall>a\<in>set as. a < length (heap c)"
  shows "first_value c' as key = first_value c as key"
  using assms(2)
proof (induction as)
  case (Cons a as)
  have len: "length (heap c') = length (heap c)" using arg_cong [OF assms(1), of length] by (simp add: page_values_def)
  have "map_option e_value (map_of (entries (heap c' ! a)) key) = map_option e_value (map_of (entries (heap c ! a)) key)"
    using arg_cong [OF assms(1), of "\<lambda>x. map_of (x ! a) key"] Cons.prems len
    by (simp add: page_values_def map_of_map)
  with Cons show ?case by (auto split: option.splits)
qed simp

lemma probe_value: "fst (probe c a key) = (case map_of (entries (heap c ! a)) key of None \<Rightarrow> None | Some e \<Rightarrow> e_value e)"
  by (auto simp: probe_def page_get_def split: option.splits prod.splits)

lemma probe_sealed_value:
  assumes "\<forall>a\<in>set as. a < length (heap c)"
  shows "fst (probe_sealed c as key) = first_value c as key \<and> page_values (snd (probe_sealed c as key)) = page_values c
    \<and> (ring_ok c \<longrightarrow> ring_ok (snd (probe_sealed c as key)))"
  using assms
proof (induction as arbitrary: c)
  case (Cons a as)
  obtain v c' where p: "probe c a key = (v, c')" by fastforce
  note vals = probe_values [OF p]
  have len: "length (heap c') = length (heap c)" using arg_cong [OF vals, of length] by (simp add: page_values_def)
  have IH: "fst (probe_sealed c' as key) = first_value c as key" "page_values (snd (probe_sealed c' as key)) = page_values c"
    "ring_ok c' \<longrightarrow> ring_ok (snd (probe_sealed c' as key))"
    using Cons.IH [of c'] Cons.prems len first_value_cong [OF vals, of as] vals by auto
  show ?case
    using IH probe_value [of c a key] vals p probe_phase(1) [OF _ p]
    by (auto split: option.splits)
qed simp

lemma sealed_pages_probe: "probe c a key = (v, c') \<Longrightarrow> sealed_pages c' = sealed_pages c"
  using probe_ring [of c a key v c'] by (simp add: sealed_pages_def active_idx_def)

lemma cache_get_value:
  assumes "ring_ok c"
  shows "fst (cache_get xxh c key) =
      (if filter_lookup xxh (gfilter c) key then first_value c (active c # sealed_pages c) key else None)"
    and "page_values (snd (cache_get xxh c key)) = page_values c"
    and "ring_ok (snd (cache_get xxh c key))"
proof -
  obtain v c' where p: "probe c (active c) key = (v, c')" by fastforce
  have ring: "ring_ok c'" by (rule probe_phase(1) [OF assms p])
  have in_heap: "\<forall>a\<in>set (sealed_pages c). a < length (heap c')"
    using sealed_pages_in [OF ring] ring sealed_pages_probe [OF p] by (auto simp: ring_ok_def)
  have len: "length (heap c') = length (heap c)"
    using arg_cong [OF probe_values [OF p], of length] by (simp add: page_values_def)
  note s = probe_sealed_value [OF in_heap, of key] first_value_cong [OF probe_values [OF p], of "sealed_pages c" key]
  show "fst (cache_get xxh c key) =
      (if filter_lookup xxh (gfilter c) key then first_value c (active c # sealed_pages c) key else None)"
    using s in_heap len probe_value [of c "active c" key]
    by (auto simp: cache_get_def p sealed_pages_probe [OF p] split: option.splits)
  show "page_values (snd (cache_get xxh c key)) = page_values c"
    using s probe_values [OF p] by (auto simp: cache_get_def p sealed_pages_probe [OF p] split: option.splits)
  show "ring_ok (snd (cache_get xxh c key))"
    using s ring assms by (auto simp: cache_get_def p sealed_pages_probe [OF p] split: option.splits)
qed

lemma cache_set_phases:
  assumes "ring_ok c"
  obtains plan c1 c2 p c' where "set_build c (set_snapshot c) = Inr (plan, c1)" "ring_ok c2"
    "page_insert (heap c2 ! active c2) key v = Inr p"
    "c' = c2\<lparr>heap := (heap c2)[active c2 := p], gfilter := snd (filter_insert xxh (gfilter c2) key)\<rparr>"
    "gfilter c2 = gfilter c" "cache_set xxh c key v = Inr c'" "ring_ok c'"
proof -
  have "thread_ok c (Snapped key v (set_snapshot c))"
    using retiring_sealed [OF assms] by (simp add: set_snapshot_def)
  from build_phase [OF assms this, of "{}"] obtain plan c1 where
    b: "set_build c (set_snapshot c) = Inr (plan, c1)" "ring_ok c1" "thread_ok c1 (Built key v plan)" by blast
  have g1: "gfilter c1 = gfilter c"
    using b(1) by (auto simp: set_build_def bindr_Inr_iff Let_def split: option.splits prod.splits)
  from commit_phase [OF b(2,3), of xxh] obtain c' where
    c': "set_commit xxh c1 key v plan = Inr c'" "ring_ok c'" by blast
  from c'(1) obtain c2 p where c2: "(case plan of
              Some (gen, new_addr, dropped) \<Rightarrow>
                if counter c1 = gen then commit_rotation c1 new_addr dropped else Inr c1
            | None \<Rightarrow> Inr c1) = Inr c2"
    "page_insert (heap c2 ! active c2) key v = Inr p"
    "c' = c2\<lparr>heap := (heap c2)[active c2 := p], gfilter := snd (filter_insert xxh (gfilter c2) key)\<rparr>"
    by (auto simp: set_commit_def bindr_Inr_iff)
  have "gfilter c2 = gfilter c1"
    using c2(1) by (auto simp: commit_rotation_def bindr_Inr_iff Let_def split: option.splits if_splits)
  moreover have "ring_ok c2"
    using c2(1) rotation_choice [OF b(2,3)] by auto
  ultimately show ?thesis using that [OF b(1) _ c2(2,3)] c' g1 b(1) by (simp add: cache_set_def)
qed

section \<open>Properties\<close>



text \<open>
  With a single page the cache cannot rotate: the retiring page is the active one, and the
  first \<open>set\<close> that finds it full raises \<open>RuntimeError\<close>. With no page the constructor raises.
\<close>

theorem single_page_cannot_rotate:
  "new_cache maxsize 0 = Inl ZeroDivisionError
   \<and> bindr (new_cache 0 1) (\<lambda>c. cache_set xxh c key v) = Inl RuntimeError"
proof -
  obtain k where f: "for_maxsize 0 = Inr \<lparr>bucket_count = 2 ^ k, buckets = replicate (2 ^ k) (replicate SLOTS 0)\<rparr>"
    using for_maxsize_ok by blast
  show ?thesis
    by (simp add: new_cache_def f cache_set_def set_snapshot_def set_build_def survivors_def new_page_def)
qed

text \<open>
  \<open>get\<close> returns the newest stored value: if the filter knows the key, the first value
  that is not \<open>None\<close> among the active page and the sealed pages, newest first, and \<open>None\<close>
  otherwise. It changes visited bits only and keeps the ring well formed.
\<close>

theorem cache_get_newest:
  assumes "ring_ok c"
  shows "fst (cache_get xxh c key) =
      (if filter_lookup xxh (gfilter c) key then first_value c (active c # sealed_pages c) key else None)
    \<and> page_values (snd (cache_get xxh c key)) = page_values c \<and> ring_ok (snd (cache_get xxh c key))"
  using cache_get_value [OF assms] by blast

text \<open>The cache of the witnesses: two pages, one holding a key.\<close>

definition sample_cache :: "nat gcache" where
  "sample_cache = \<lparr>gen_maxsize = 1,
     heap = [\<lparr>entries = [([1], \<lparr>e_value = Some 5, visited = False\<rparr>)], is_sealed = False\<rparr>,
             \<lparr>entries = [], is_sealed = True\<rparr>],
     pages = [0, 1], counter = 0, gfilter = \<lparr>bucket_count = 1, buckets = [[1, 0, 0, 0]]\<rparr>\<rparr>"

lemma sample_cache_ok: "ring_ok sample_cache"
proof -
  have "\<exists>k. (1::nat) = 2 ^ k" by (rule exI [of _ 0]) simp
  then show ?thesis
    by (auto simp: sample_cache_def ring_ok_def active_idx_def filter_ok_def SLOTS_def less_Suc_eq)
qed

theorem cache_get_newest_witness: "fst (cache_get (\<lambda>_. 0) sample_cache [1]) = Some 5"
proof -
  have "filter_lookup (\<lambda>_. 0) (gfilter sample_cache) [1]" "first_value sample_cache (active sample_cache # sealed_pages sample_cache) [1] = Some 5"
    by code_simp+
  then show ?thesis using cache_get_newest [OF sample_cache_ok, of "\<lambda>_. 0" "[1]"] by simp
qed

text \<open>
  \<open>set\<close> on a well-formed cache never raises and keeps it well formed, and a value other than
  \<open>None\<close> is read back by the next \<open>get\<close> of its key whenever the filter insertion succeeded.
\<close>

theorem cache_get_after_set:
  assumes "ring_ok c"
  shows "\<exists>c'. cache_set xxh c key v = Inr c' \<and> ring_ok c' \<and>
    (fst (filter_insert xxh (gfilter c) key) \<longrightarrow> v \<noteq> None \<longrightarrow> fst (cache_get xxh c' key) = v)"
proof -
  obtain plan c1 c2 p c' where b: "set_build c (set_snapshot c) = Inr (plan, c1)" "ring_ok c2"
    "page_insert (heap c2 ! active c2) key v = Inr p"
    "c' = c2\<lparr>heap := (heap c2)[active c2 := p], gfilter := snd (filter_insert xxh (gfilter c2) key)\<rparr>"
    "gfilter c2 = gfilter c" "cache_set xxh c key v = Inr c'" "ring_ok c'"
    by (rule cache_set_phases [OF assms])
  have act: "active c' = active c2" "heap c' ! active c2 = p"
    using active_less [OF b(2)] by (simp_all add: b(4) active_def active_idx_def)
  have "map_of (entries p) key = Some \<lparr>e_value = v, visited = False\<rparr>"
    using b(3) by (auto simp: page_insert_def map_of_dict_set split: if_splits)
  then have "first_value c' (active c' # sealed_pages c') key = v" if "v \<noteq> None" using that by (auto simp: act)
  moreover have "filter_lookup xxh (gfilter c') key" if "fst (filter_insert xxh (gfilter c) key)"
    using cuckoo.ins_new [of "gfilter c" xxh key] that assms by (simp add: b(4,5) ring_ok_def)
  ultimately show ?thesis using b(6,7) cache_get_value(1) [OF b(7), of xxh key] by auto
qed

theorem cache_get_after_set_witness:
  "\<exists>c'. cache_set (\<lambda>_. 0) sample_cache [2] (Some 9) = Inr c' \<and> fst (cache_get (\<lambda>_. 0) c' [2]) = Some 9"
proof -
  have "fst (filter_insert (\<lambda>_. 0) (gfilter sample_cache) [2])" by code_simp
  then show ?thesis using cache_get_after_set [OF sample_cache_ok, of "\<lambda>_. 0" "[2]" "Some 9"] by auto
qed

text \<open>
  A rotation can bring an overwritten value back. On a cache of size 4: a key is set to 1,
  moves to a sealed page and is read there, then set to 2 (which \<open>get\<close> returns); the next
  rotation re-inserts the visited old entry into the new active page, in front of the newer
  one, and \<open>get\<close> returns 1 again.
\<close>

theorem stale_value_returns:
  "bindr (new_cache 4 2) (\<lambda>c. bindr (cache_run hd c
     [Set [1] 1, Set [2] 0, Set [3] 0, Get [1], Set [1] (2::nat), Get [1], Set [4] 0, Get [1]])
     (\<lambda>(vs, c). Inr vs)) = Inr [Some 1, Some 2, Some 1]"
  by code_simp

text \<open>
  Pages have no size bound: entries that are read before each rotation all survive it, and a
  cache built for 2 entries comes to hold 6, one of its pages 3 entries where \<open>gen_maxsize\<close> is 1.
\<close>

theorem hot_entries_overflow:
  "bindr (new_cache 2 2) (\<lambda>c. bindr (cache_run hd c
     [Set [1] (0::nat), Set [2] 0, Get [1], Set [3] 0, Get [2], Set [4] 0, Get [1], Get [3], Set [5] 0,
      Get [2], Get [4], Set [6] 0])
     (\<lambda>(vs, c). Inr (gen_maxsize c, map (\<lambda>a. length (entries (heap c ! a))) (pages c)))) = Inr (1, [3, 3])"
  by code_simp

end
