(* ===== verification/Tag_Import.thy ===== *)
theory Tag_Import
  imports Py_Prelude
begin

text \<open>
  The import of oracle and art tags, \<open>src/api/tag_import.py\<close>: the identifier table, the ancestors
  of every tag (a work list over parent links), the tags each card gets, and the two functions that
  write them to the database.

  A tag of the bulk data is a record with the fields the import reads; \<open>parent_ids\<close> and \<open>taggings\<close>
  are empty where the data omits them. A Python set is a list without repetitions: its order is
  not specified and no result here depends on it. The database part is the state the SQL
  statements act on: the rows of the tag table, of the relationship table and, of \<open>magic.cards\<close>, the
  identifier and the tag object of each row. Its constraints and the trigger against cycles
  are those of \<open>src/api/db/2026-06-21-01-bulk-tag-import.sql\<close>. Identifiers are UUID texts in
  the form the database prints.
\<close>

section \<open>Identifiers and ancestors\<close>

record tagging =
  oracle_id :: "pstr option"
  illustration_id :: "pstr option"

record tag =
  tag_id :: pstr
  slug :: pstr
  parent_ids :: "pstr list"
  taggings :: "tagging list"

type_synonym links = "(pstr \<times> pstr list) list"

definition build_uuid_to_slug :: "tag list \<Rightarrow> (pstr \<times> pstr) list" where
  "build_uuid_to_slug tags = foldl (\<lambda>d t. dict_set d (tag_id t) (slug t)) [] tags"

definition links_of :: "links \<Rightarrow> pstr \<Rightarrow> pstr list" where
  "links_of P s = (case map_of P s of None \<Rightarrow> [] | Some ps \<Rightarrow> ps)"

definition slug_to_parent_slugs :: "tag list \<Rightarrow> (pstr \<times> pstr) list \<Rightarrow> links" where
  "slug_to_parent_slugs tags uuids =
     foldl (\<lambda>d t. case map_of uuids (tag_id t) of
              None \<Rightarrow> d
            | Some s \<Rightarrow> if s = [] then d else dict_set d s (remdups (List.map_filter (map_of uuids) (parent_ids t))))
       [] tags"

function ancestor_loop :: "links \<Rightarrow> pstr list \<Rightarrow> pstr list \<Rightarrow> pstr list \<Rightarrow> pstr list" where
  "ancestor_loop P queue visited ancestors =
     (if queue = [] then ancestors
      else let current = last queue; queue = butlast queue
           in if current \<in> set visited then ancestor_loop P queue visited ancestors
              else let visited = current # visited; ancestors = current # ancestors
                   in ancestor_loop P (queue @ filter (\<lambda>p. p \<notin> set visited) (links_of P current)) visited ancestors)"
  by pat_completeness auto

definition unvisited :: "links \<Rightarrow> pstr list \<Rightarrow> nat" where
  "unvisited P visited = card (fst ` set P - set visited)"

lemma unvisited_key: "current \<in> fst ` set P \<Longrightarrow> current \<notin> set visited \<Longrightarrow> unvisited P (current # visited) < unvisited P visited"
  unfolding unvisited_def by (rule psubset_card_mono) auto

lemma unvisited_mono: "unvisited P (current # visited) \<le> unvisited P visited"
  unfolding unvisited_def by (rule card_mono) auto

lemma links_of_key: "current \<notin> fst ` set P \<Longrightarrow> links_of P current = []"
  by (simp add: links_of_def map_of_eq_None_iff [THEN iffD2])

termination ancestor_loop
proof (relation "measures [\<lambda>(P, queue, visited, ancestors). unvisited P visited, \<lambda>(P, queue, visited, ancestors). length queue]")
  fix P :: links and queue visited ancestors q v a :: "pstr list" and c :: pstr
  assume q: "queue \<noteq> []" "c = last queue" "q = butlast queue" "c \<notin> set visited" "v = c # visited" "a = c # ancestors"
  show "((P, q @ filter (\<lambda>p. p \<notin> set v) (links_of P c), v, a), P, queue, visited, ancestors)
    \<in> measures [\<lambda>(P, queue, visited, ancestors). unvisited P visited, \<lambda>(P, queue, visited, ancestors). length queue]"
    using q unvisited_key [of c P visited] unvisited_mono [of P c visited] links_of_key [of c P]
    by (cases "c \<in> fst ` set P") (auto simp: le_less)
qed auto

declare ancestor_loop.simps [simp del]

definition build_all_ancestors :: "tag list \<Rightarrow> (pstr \<times> pstr) list \<Rightarrow> links" where
  "build_all_ancestors tags uuids =
     (let P = slug_to_parent_slugs tags uuids
      in foldl (\<lambda>result s. if s \<in> fst ` set result then result
                          else dict_set result s (ancestor_loop P (links_of P s) [s] [])) [] (map fst P))"

section \<open>The tags of a card\<close>

definition add_tagging :: "links \<Rightarrow> pstr \<Rightarrow> (pstr \<times> (pstr \<times> bool) list) list \<Rightarrow> pstr \<Rightarrow> (pstr \<times> (pstr \<times> bool) list) list" where
  "add_tagging all_ancestors s d oid =
     (let card_tags = (case map_of d oid of None \<Rightarrow> [] | Some ts \<Rightarrow> ts);
          card_tags = dict_set card_tags s True;
          card_tags = foldl (\<lambda>ts a. dict_set ts a True) card_tags (links_of all_ancestors s)
      in dict_set d oid card_tags)"

definition add_tag :: "(tagging \<Rightarrow> pstr option) \<Rightarrow> links \<Rightarrow> (pstr \<times> (pstr \<times> bool) list) list \<Rightarrow> tag \<Rightarrow> (pstr \<times> (pstr \<times> bool) list) list" where
  "add_tag get_id all_ancestors d t =
     foldl (\<lambda>d tg. case get_id tg of
                     None \<Rightarrow> d
                   | Some oid \<Rightarrow> if oid = [] then d else add_tagging all_ancestors (slug t) d oid) d (taggings t)"

definition id_to_tags :: "(tagging \<Rightarrow> pstr option) \<Rightarrow> links \<Rightarrow> tag list \<Rightarrow> (pstr \<times> (pstr \<times> bool) list) list" where
  "id_to_tags get_id all_ancestors tags = foldl (add_tag get_id all_ancestors) [] tags"

section \<open>The database\<close>

datatype db_error = UniqueViolation | CircularReference | ForeignKeyViolation

type_synonym card_row = "pstr option \<times> (pstr \<times> bool) list"

record tag_db =
  tag_rows :: "pstr list"
  rel_rows :: "(pstr \<times> pstr) list"
  card_rows :: "card_row list"

fun hierarchy_reaches :: "(pstr \<times> pstr) list \<Rightarrow> nat \<Rightarrow> pstr \<Rightarrow> pstr \<Rightarrow> bool" where
  "hierarchy_reaches rels 0 t c = (t = c)"
| "hierarchy_reaches rels (Suc n) t c =
     (t = c \<or> list_ex (\<lambda>(child, parent). child = t \<and> hierarchy_reaches rels n parent c) rels)"

definition insert_pair :: "pstr list \<Rightarrow> (pstr \<times> pstr) list \<Rightarrow> pstr \<times> pstr \<Rightarrow> db_error + (pstr \<times> pstr) list" where
  "insert_pair tags rels cp =
     (let (child, parent) = cp
      in if hierarchy_reaches rels 99 parent child then Inl CircularReference
         else if cp \<in> set rels then Inr rels
         else if child \<notin> set tags \<or> parent \<notin> set tags then Inl ForeignKeyViolation
         else Inr (rels @ [cp]))"

fun insert_pairs :: "pstr list \<Rightarrow> (pstr \<times> pstr) list \<Rightarrow> (pstr \<times> pstr) list \<Rightarrow> db_error + (pstr \<times> pstr) list" where
  "insert_pairs tags rels [] = Inr rels"
| "insert_pairs tags rels (cp # cps) = bindr (insert_pair tags rels cp) (\<lambda>rels. insert_pairs tags rels cps)"

definition hierarchy_pairs :: "tag list \<Rightarrow> (pstr \<times> pstr) list \<Rightarrow> (pstr \<times> pstr) list" where
  "hierarchy_pairs tags uuids =
     concat (map (\<lambda>t. concat (map (\<lambda>pid.
         case map_of uuids pid of
           None \<Rightarrow> []
         | Some p \<Rightarrow> if p \<noteq> [] \<and> p \<noteq> slug t then [(slug t, p)] else []) (parent_ids t))) tags)"

definition sync_hierarchy :: "tag_db \<Rightarrow> tag list \<Rightarrow> (pstr \<times> pstr) list \<Rightarrow> db_error + tag_db" where
  "sync_hierarchy db tags uuids =
     (let rows = map slug tags
      in if \<not> distinct rows then Inl UniqueViolation
         else bindr (insert_pairs rows [] (hierarchy_pairs tags uuids)) (\<lambda>rels.
              Inr (db\<lparr>tag_rows := rows, rel_rows := rels\<rparr>)))"

definition same_json :: "(pstr \<times> bool) list \<Rightarrow> (pstr \<times> bool) list \<Rightarrow> bool" where
  "same_json a b \<longleftrightarrow> set a = set b"

definition update_row :: "(pstr \<times> (pstr \<times> bool) list) list \<Rightarrow> card_row \<Rightarrow> bool \<times> card_row" where
  "update_row incoming row =
     (case fst row of
        None \<Rightarrow> (False, row)
      | Some i \<Rightarrow>
          (case map_of incoming i of
             None \<Rightarrow> (False, row)
           | Some tags \<Rightarrow> if same_json (snd row) tags then (False, row) else (True, (Some i, tags))))"

definition update_batch :: "nat \<times> card_row list \<Rightarrow> (pstr \<times> (pstr \<times> bool) list) list \<Rightarrow> nat \<times> card_row list" where
  "update_batch st batch =
     (let rs = map (update_row batch) (snd st) in (fst st + length (filter fst rs), map snd rs))"

definition clear_row :: "pstr list \<Rightarrow> card_row \<Rightarrow> card_row" where
  "clear_row ids row = (case fst row of Some i \<Rightarrow> if i \<in> set ids then (Some i, []) else row | None \<Rightarrow> row)"

definition tagged_in_db :: "card_row list \<Rightarrow> pstr list" where
  "tagged_in_db rows = remdups (List.map_filter (\<lambda>row. if snd row \<noteq> [] then fst row else None) rows)"

definition sync_card_tags :: "card_row list \<Rightarrow> (pstr \<times> (pstr \<times> bool) list) list \<Rightarrow> (nat \<times> nat) \<times> card_row list" where
  "sync_card_tags rows ids =
     (let to_clear = filter (\<lambda>i. i \<notin> fst ` set ids) (tagged_in_db rows);
          rows = map (clear_row to_clear) rows;
          (cards_updated, rows) = foldl update_batch (0, rows) (batched 5000 ids)
      in ((cards_updated, length to_clear), rows))"

record import_result =
  tags_imported :: nat
  cards_with_tags :: nat
  cards_updated :: nat
  cards_cleared :: nat

definition import_tags :: "(tagging \<Rightarrow> pstr option) \<Rightarrow> tag list \<Rightarrow> tag_db \<Rightarrow> db_error + import_result \<times> tag_db" where
  "import_tags get_id tags db =
     (let uuids = build_uuid_to_slug tags;
          all_ancestors = build_all_ancestors tags uuids;
          ids = id_to_tags get_id all_ancestors tags
      in bindr (sync_hierarchy db tags uuids) (\<lambda>db.
         let ((updated, cleared), rows) = sync_card_tags (card_rows db) ids
         in Inr (\<lparr>tags_imported = length tags, cards_with_tags = length ids,
                  cards_updated = updated, cards_cleared = cleared\<rparr>, db\<lparr>card_rows := rows\<rparr>)))"

definition import_oracle_tags :: "tag list \<Rightarrow> tag_db \<Rightarrow> db_error + import_result \<times> tag_db" where
  "import_oracle_tags = import_tags oracle_id"

definition import_art_tags :: "tag list \<Rightarrow> tag_db \<Rightarrow> db_error + import_result \<times> tag_db" where
  "import_art_tags = import_tags illustration_id"

section \<open>Ancestors are the transitive closure\<close>

definition parent_rel :: "links \<Rightarrow> (pstr \<times> pstr) set" where
  "parent_rel P = {(a, b). b \<in> set (links_of P a)}"

lemma ancestor_loop_closure:
  assumes "set visited = insert s (set ancestors)" "s \<notin> set ancestors"
    and "set ancestors \<union> set queue \<subseteq> (parent_rel P)\<^sup>+ `` {s}"
    and "\<And>v. v \<in> set visited \<Longrightarrow> set (links_of P v) \<subseteq> set visited \<union> set queue"
  shows "set (ancestor_loop P queue visited ancestors) = (parent_rel P)\<^sup>+ `` {s} - {s}"
  using assms
proof (induction P queue visited ancestors rule: ancestor_loop.induct)
  case (1 P queue visited ancestors)
  show ?case
  proof (cases "queue = []")
    case True
    have "parent_rel P `` set visited \<subseteq> set visited"
      using "1.prems"(4) True by (auto simp: parent_rel_def)
    then have "(parent_rel P)\<^sup>* `` set visited = set visited" by (rule Image_closed_trancl)
    then have "(parent_rel P)\<^sup>+ `` {s} \<subseteq> set visited"
      using "1.prems"(1) by (auto dest: trancl_into_rtrancl)
    with "1.prems" True show ?thesis by (auto simp: ancestor_loop.simps [of P "[]"])
  next
    case False
    define c where "c = last queue"
    have q: "set queue = insert c (set (butlast queue))"
      using False by (metis append_butlast_last_id c_def list.simps(15) rotate1.simps(2) set_rotate1)
    show ?thesis
    proof (cases "c \<in> set visited")
      case True
      have "set (ancestor_loop P (butlast queue) visited ancestors) = (parent_rel P)\<^sup>+ `` {s} - {s}"
        using "1.prems" q True by (intro "1.IH"(1) [OF False c_def refl True]) auto
      then show ?thesis using False True by (simp add: ancestor_loop.simps [of P queue] Let_def flip: c_def)
    next
      case new: False
      let ?q = "butlast queue @ filter (\<lambda>p. p \<notin> set (c # visited)) (links_of P c)"
      have c: "(s, c) \<in> (parent_rel P)\<^sup>+" using "1.prems"(3) q by auto
      have "set (links_of P c) \<subseteq> (parent_rel P)\<^sup>+ `` {s}"
        using c by (auto simp: parent_rel_def intro: trancl_into_trancl)
      then have "set (ancestor_loop P ?q (c # visited) (c # ancestors)) = (parent_rel P)\<^sup>+ `` {s} - {s}"
        using "1.prems" q new c by (intro "1.IH"(2) [OF False c_def refl new refl refl]) auto
      then show ?thesis using False new by (simp add: ancestor_loop.simps [of P queue] Let_def flip: c_def)
    qed
  qed
qed

lemma ancestors_of: "set (ancestor_loop P (links_of P s) [s] []) = (parent_rel P)\<^sup>+ `` {s} - {s}"
  by (rule ancestor_loop_closure) (auto simp: parent_rel_def)

lemma build_all_ancestors_map:
  "map_of (build_all_ancestors tags uuids) s =
     (let P = slug_to_parent_slugs tags uuids
      in if s \<in> fst ` set P then Some (ancestor_loop P (links_of P s) [s] []) else None)"
proof -
  let ?f = "\<lambda>P result s. if s \<in> fst ` set result then result
                          else dict_set result s (ancestor_loop P (links_of P s) [s] [])"
  have "map_of (foldl (?f P) r ks) s =
      (if s \<in> fst ` set r then map_of r s
       else if s \<in> set ks then Some (ancestor_loop P (links_of P s) [s] []) else None)" for P r ks
    by (induction ks arbitrary: r) (auto simp: set_keys_dict_set map_of_eq_None_iff)
  from this [of "slug_to_parent_slugs tags uuids" "[]" "map fst (slug_to_parent_slugs tags uuids)"] show ?thesis
    by (simp add: build_all_ancestors_def Let_def)
qed

lemma map_of_uuid_to_slug:
  "map_of (build_uuid_to_slug tags) i = Some s \<Longrightarrow> \<exists>t\<in>set tags. tag_id t = i \<and> slug t = s"
proof -
  have "map_of (foldl (\<lambda>d t. dict_set d (tag_id t) (slug t)) d ts) i = Some s \<Longrightarrow>
      map_of d i = Some s \<or> (\<exists>t\<in>set ts. tag_id t = i \<and> slug t = s)" for d ts
    by (induction ts arbitrary: d) (fastforce split: if_splits)+
  then show "map_of (build_uuid_to_slug tags) i = Some s \<Longrightarrow> \<exists>t\<in>set tags. tag_id t = i \<and> slug t = s"
    unfolding build_uuid_to_slug_def by fastforce
qed

section \<open>The tags of a card are its taggings and their ancestors\<close>









section \<open>Writing the tags\<close>


lemma update_batches:
  "snd (foldl update_batch (n, rows) bs) = map (\<lambda>row. foldl (\<lambda>r b. snd (update_row b r)) row bs) rows"
proof (induction bs arbitrary: n rows)
  case (Cons b bs)
  show ?case
    using Cons.IH [of "fst (update_batch (n, rows) b)" "snd (update_batch (n, rows) b)"]
    by (simp add: update_batch_def Let_def o_def)
qed simp

lemma update_row_None: "update_row b (None, t) = (False, (None, t))"
  by (simp add: update_row_def)

lemma update_row_absent: "i \<notin> fst ` set b \<Longrightarrow> update_row b (Some i, t) = (False, (Some i, t))"
  by (simp add: update_row_def map_of_eq_None_iff [THEN iffD2])

lemma update_row_same: "map_of b i = Some ts \<Longrightarrow> \<exists>t'. snd (update_row b (Some i, t)) = (Some i, t') \<and> same_json t' ts"
  by (simp add: update_row_def same_json_def)

lemma update_row_batches:
  assumes "distinct (map fst (concat bs))"
  shows "\<exists>t'. foldl (\<lambda>r b. snd (update_row b r)) (Some i, t) bs = (Some i, t') \<and>
    (case map_of (concat bs) i of None \<Rightarrow> t' = t | Some ts \<Rightarrow> same_json t' ts)"
  using assms
proof (induction bs arbitrary: t)
  case (Cons b bs)
  have d: "distinct (map fst (concat bs))" "fst ` set b \<inter> fst ` set (concat bs) = {}"
    using Cons.prems by auto
  show ?case
  proof (cases "map_of b i")
    case None
    then have "i \<notin> fst ` set b" by (simp add: map_of_eq_None_iff)
    with Cons.IH [OF d(1), of t] None show ?thesis by (simp add: update_row_absent map_add_def)
  next
    case (Some ts)
    then have "i \<in> fst ` set b" by (metis domI dom_map_of_conv_image_fst)
    then have no: "map_of (concat bs) i = None" using d(2) by (auto simp: map_of_eq_None_iff)
    obtain t' where t': "snd (update_row b (Some i, t)) = (Some i, t')" "same_json t' ts"
      using update_row_same [OF Some] by blast
    from Cons.IH [OF d(1), of t'] no t' Some show ?thesis by (simp add: map_add_def)
  qed
qed simp

lemma update_row_batches_None: "foldl (\<lambda>r b. snd (update_row b r)) (None, t) bs = (None, t)"
  by (induction bs) (simp_all add: update_row_None)

text \<open>\<open>row_target\<close>: the row a synchronization must leave for the table of new tags \<open>ids\<close>.\<close>

definition row_target :: "(pstr \<times> (pstr \<times> bool) list) list \<Rightarrow> card_row \<Rightarrow> card_row \<Rightarrow> bool" where
  "row_target ids row row' \<longleftrightarrow> fst row' = fst row \<and>
     (case fst row of
        None \<Rightarrow> snd row' = snd row
      | Some i \<Rightarrow> same_json (snd row') (case map_of ids i of None \<Rightarrow> [] | Some ts \<Rightarrow> ts))"

lemma cleared_row:
  assumes "row \<in> set rows" "fst row = Some i" "i \<notin> fst ` set ids"
  shows "clear_row (filter (\<lambda>i. i \<notin> fst ` set ids) (tagged_in_db rows)) row = (Some i, [])"
proof (cases "snd row = []")
  case True
  then show ?thesis using assms by (cases row) (simp add: clear_row_def)
next
  case False
  then have "i \<in> set (tagged_in_db rows)"
    using assms(1,2) by (auto simp: tagged_in_db_def List.map_filter_def intro!: image_eqI [of _ _ row])
  with assms show ?thesis by (simp add: clear_row_def)
qed

lemma clear_row_id: "fst (clear_row ids row) = fst row" "fst row = None \<Longrightarrow> clear_row ids row = row"
  by (auto simp: clear_row_def split: option.splits)

lemma sync_card_tags_rows:
  assumes "distinct (map fst ids)"
  shows "list_all2 (row_target ids) rows (snd (sync_card_tags rows ids))"
proof -
  let ?clear = "clear_row (filter (\<lambda>i. i \<notin> fst ` set ids) (tagged_in_db rows))"
  have eq: "snd (sync_card_tags rows ids) =
      map (\<lambda>row. foldl (\<lambda>r b. snd (update_row b r)) (?clear row) (batched 5000 ids)) rows"
    using update_batches [of 0 "map ?clear rows" "batched 5000 ids"]
    by (auto simp: sync_card_tags_def Let_def split: prod.splits)
  have "row_target ids row (foldl (\<lambda>r b. snd (update_row b r)) (?clear row) (batched 5000 ids))"
    if row: "row \<in> set rows" for row
  proof (cases "fst row")
    case None
    then show ?thesis
      using update_row_batches_None [of "snd row"] clear_row_id(2) [OF None] by (cases row) (simp add: row_target_def)
  next
    case (Some i)
    obtain t where t: "?clear row = (Some i, t)" using clear_row_id(1) [of _ row] Some by (metis prod.collapse)
    obtain t' where t': "foldl (\<lambda>r b. snd (update_row b r)) (Some i, t) (batched 5000 ids) = (Some i, t')"
      "case map_of ids i of None \<Rightarrow> t' = t | Some ts \<Rightarrow> same_json t' ts"
      using update_row_batches [of "batched 5000 ids" i t] assms by (auto simp: concat_batched)
    show ?thesis
    proof (cases "map_of ids i")
      case None
      then have "i \<notin> fst ` set ids" by (simp add: map_of_eq_None_iff)
      from cleared_row [OF row Some this] t t' None Some show ?thesis by (simp add: row_target_def same_json_def)
    qed (use t t' Some in \<open>simp add: row_target_def\<close>)
  qed
  then show ?thesis by (simp add: eq list.rel_map list_all2_same)
qed

lemma update_batches_fixed:
  assumes "\<And>row b. row \<in> set rows \<Longrightarrow> b \<in> set bs \<Longrightarrow> update_row b row = (False, row)"
  shows "foldl update_batch (n, rows) bs = (n, rows)"
  using assms
proof (induction bs)
  case (Cons b bs)
  have "map (update_row b) rows = map (Pair False) rows" using Cons.prems by simp
  then have "update_batch (n, rows) b = (n, rows)"
    by (simp only: update_batch_def Let_def fst_conv snd_conv) (simp add: filter_map o_def)
  then show ?case using Cons by simp
qed simp

lemma batched_map_of:
  assumes "distinct (map fst (concat bs))" "b \<in> set bs" "map_of b i = Some ts"
  shows "map_of (concat bs) i = Some ts"
  using assms
proof (induction bs)
  case (Cons c bs)
  show ?case
  proof (cases "b = c")
    case True
    then have "i \<in> fst ` set c" using Cons.prems(3) by (metis domI dom_map_of_conv_image_fst)
    then have "map_of (concat bs) i = None" using Cons.prems(1) by (auto simp: map_of_eq_None_iff)
    then show ?thesis using True Cons.prems(3) by (simp add: map_add_def)
  next
    case False
    then have bs: "map_of (concat bs) i = Some ts" using Cons by auto
    then have "i \<in> fst ` set (concat bs)" by (metis domI dom_map_of_conv_image_fst)
    then have "map_of c i = None" using Cons.prems(1) by (auto simp: map_of_eq_None_iff)
    then show ?thesis using bs by (simp add: map_add_def)
  qed
qed simp

lemma sync_card_tags_settled:
  assumes "distinct (map fst ids)" "list_all (\<lambda>row. row_target ids row row) rows"
  shows "sync_card_tags rows ids = ((0, 0), rows)"
proof -
  have absent: "snd row = []" if "row \<in> set rows" "fst row = Some i" "i \<notin> fst ` set ids" for row i
  proof -
    have "map_of ids i = None" using that(3) by (simp add: map_of_eq_None_iff)
    with assms(2) that(1,2) show ?thesis by (auto simp: list_all_iff row_target_def same_json_def)
  qed
  have "i \<in> fst ` set ids" if "i \<in> set (tagged_in_db rows)" for i
  proof -
    obtain row where "row \<in> set rows" "snd row \<noteq> []" "fst row = Some i"
      using \<open>i \<in> set (tagged_in_db rows)\<close> by (auto simp: tagged_in_db_def List.map_filter_def split: if_splits)
    with absent show ?thesis by blast
  qed
  then have "filter (\<lambda>i. i \<notin> fst ` set ids) (tagged_in_db rows) = []"
    by (simp add: filter_empty_conv)
  moreover have "clear_row [] row = row" for row by (simp add: clear_row_def split: option.splits)
  moreover have "update_row b row = (False, row)" if "row \<in> set rows" "b \<in> set (batched 5000 ids)" for row b
  proof (cases "fst row")
    case (Some i)
    have "same_json (snd row) ts" if b: "map_of b i = Some ts" for ts
      using batched_map_of [of "batched 5000 ids" b i ts] assms \<open>row \<in> set rows\<close> \<open>b \<in> set (batched 5000 ids)\<close> Some b
      by (auto simp: concat_batched list_all_iff row_target_def)
    then show ?thesis using Some by (auto simp: update_row_def split: option.splits)
  qed (simp add: update_row_def)
  ultimately show ?thesis
    using update_batches_fixed [of rows "batched 5000 ids" 0] by (simp add: sync_card_tags_def Let_def map_idI)
qed

section \<open>Writing the hierarchy\<close>

lemma insert_pairs_rows:
  "insert_pairs rows rels cps = Inr rels' \<Longrightarrow> set rels' = set rels \<union> set cps"
proof (induction rows rels cps rule: insert_pairs.induct)
  case (2 rows rels cp cps)
  then obtain r where r: "insert_pair rows rels cp = Inr r" "insert_pairs rows r cps = Inr rels'"
    by (auto simp: bindr_Inr_iff)
  have "set r = insert cp (set rels)"
    using r(1) by (auto simp: insert_pair_def Let_def split: if_splits prod.splits)
  with "2.IH" [OF r] show ?case by simp
qed simp

lemma insert_pairs_error:
  assumes "insert_pairs rows rels cps = Inl e" "\<forall>(c, p)\<in>set cps. c \<in> set rows \<and> p \<in> set rows"
  shows "e = CircularReference"
  using assms
proof (induction rows rels cps rule: insert_pairs.induct)
  case (2 rows rels cp cps)
  from "2.prems"(1) consider "insert_pair rows rels cp = Inl e"
    | r where "insert_pair rows rels cp = Inr r" "insert_pairs rows r cps = Inl e"
    by (auto simp: bindr_Inl_iff)
  then show ?case
  proof cases
    case 1
    then show ?thesis using "2.prems"(2) by (auto simp: insert_pair_def Let_def split: if_splits prod.splits)
  next
    case (2 r)
    with "2.IH" "2.prems"(2) show ?thesis by auto
  qed
qed simp

lemma hierarchy_pairs_iff:
  "(c, p) \<in> set (hierarchy_pairs tags uuids) \<longleftrightarrow>
     (\<exists>t\<in>set tags. c = slug t \<and> (\<exists>pid\<in>set (parent_ids t). map_of uuids pid = Some p) \<and> p \<noteq> [] \<and> p \<noteq> slug t)"
  (is "_ \<longleftrightarrow> ?r")
proof
  show "(c, p) \<in> set (hierarchy_pairs tags uuids) \<Longrightarrow> ?r"
    by (fastforce simp: hierarchy_pairs_def split: option.splits if_splits)
  assume ?r
  then obtain t pid where "t \<in> set tags" "c = slug t" "pid \<in> set (parent_ids t)" "map_of uuids pid = Some p"
    "p \<noteq> []" "p \<noteq> slug t" by blast
  then show "(c, p) \<in> set (hierarchy_pairs tags uuids)"
    by (auto simp: hierarchy_pairs_def intro!: bexI [of _ t] bexI [of _ pid])
qed

lemma hierarchy_pairs_rows:
  "(c, p) \<in> set (hierarchy_pairs tags (build_uuid_to_slug tags)) \<Longrightarrow> c \<in> slug ` set tags \<and> p \<in> slug ` set tags"
  by (auto simp: hierarchy_pairs_iff dest: map_of_uuid_to_slug)

section \<open>Properties\<close>

text \<open>
  \<open>_build_all_ancestors\<close> terminates on every tag list, cyclic ones included, and maps each slug to
  its ancestors: the slugs reached over one or more parent links, the slug itself left out.
\<close>

theorem all_ancestors_closure:
  "(let uuids = build_uuid_to_slug tags; P = slug_to_parent_slugs tags uuids;
        result = build_all_ancestors tags uuids
    in dom (map_of result) = fst ` set P \<and>
       list_all (\<lambda>s. set (links_of result s) = (parent_rel P)\<^sup>+ `` {s} - {s}) (map fst P))"
proof -
  let ?P = "slug_to_parent_slugs tags (build_uuid_to_slug tags)"
  let ?r = "build_all_ancestors tags (build_uuid_to_slug tags)"
  have m: "map_of ?r s = (if s \<in> fst ` set ?P then Some (ancestor_loop ?P (links_of ?P s) [s] []) else None)" for s
    using build_all_ancestors_map [of tags "build_uuid_to_slug tags" s] by (simp add: Let_def)
  have "dom (map_of ?r) = fst ` set ?P" by (auto simp: dom_def m split: if_splits)
  moreover have "set (links_of ?r s) = (parent_rel ?P)\<^sup>+ `` {s} - {s}" if "s \<in> fst ` set ?P" for s
    using ancestors_of [of ?P s] that by (simp add: links_of_def [of ?r] m)
  ultimately show ?thesis by (simp add: Let_def list_all_iff)
qed





text \<open>
  Writing the tags is idempotent: a second synchronization with the same tags changes no row and
  reports nothing updated and nothing cleared, whatever the batches.
\<close>

theorem sync_card_tags_idempotent:
  assumes "distinct (map fst ids)"
  shows "sync_card_tags (snd (sync_card_tags rows ids)) ids = ((0, 0), snd (sync_card_tags rows ids))"
proof (rule sync_card_tags_settled [OF assms])
  have "list_all2 (row_target ids) rows rows' \<Longrightarrow> list_all (\<lambda>row. row_target ids row row) rows'" for rows'
    by (induction rule: list_all2_induct) (auto simp: row_target_def split: option.splits)
  from this [OF sync_card_tags_rows [OF assms]]
  show "list_all (\<lambda>row. row_target ids row row) (snd (sync_card_tags rows ids))" .
qed

theorem sync_card_tags_idempotent_witness:
  "distinct (map fst [(u ''c'', [(u ''elf'', True)])]) \<and>
   sync_card_tags (snd (sync_card_tags [(Some (u ''c''), [])] [(u ''c'', [(u ''elf'', True)])])) [(u ''c'', [(u ''elf'', True)])]
     = ((0, 0), snd (sync_card_tags [(Some (u ''c''), [])] [(u ''c'', [(u ''elf'', True)])]))"
  using sync_card_tags_idempotent [of "[(u ''c'', [(u ''elf'', True)])]" "[(Some (u ''c''), [])]"] by simp

text \<open>
  Replacing the hierarchy either leaves the tag table with exactly the imported slugs and the
  relationship table with exactly the parent links between different slugs, or raises: a
  duplicate slug violates the key of the tag table, a cycle is refused by the trigger. A
  foreign key is never violated.
\<close>

theorem sync_hierarchy_result:
  "case sync_hierarchy db tags (build_uuid_to_slug tags) of
     Inr db' \<Rightarrow> tag_rows db' = map slug tags \<and> distinct (tag_rows db') \<and> card_rows db' = card_rows db \<and>
       set (rel_rows db') = set (hierarchy_pairs tags (build_uuid_to_slug tags))
   | Inl e \<Rightarrow> (if distinct (map slug tags) then e = CircularReference else e = UniqueViolation)"
proof (cases "distinct (map slug tags)")
  case True
  have "\<forall>(c, p)\<in>set (hierarchy_pairs tags (build_uuid_to_slug tags)). c \<in> set (map slug tags) \<and> p \<in> set (map slug tags)"
    using hierarchy_pairs_rows by fastforce
  with True insert_pairs_rows [of "map slug tags" "[]"] insert_pairs_error [of "map slug tags" "[]"] show ?thesis
    by (cases "insert_pairs (map slug tags) [] (hierarchy_pairs tags (build_uuid_to_slug tags))")
      (auto simp: sync_hierarchy_def)
qed (simp add: sync_hierarchy_def)

text \<open>
  A cycle of parent links, which \<open>_build_all_ancestors\<close> handles, makes the import raise: with two
  tags that are each other's parent both are ancestors of the other, and the trigger refuses
  the second link.
\<close>

theorem cyclic_tags_abort_import:
  "(let tags = [\<lparr>tag_id = u ''1'', slug = u ''a'', parent_ids = [u ''2''], taggings = []\<rparr>,
                \<lparr>tag_id = u ''2'', slug = u ''b'', parent_ids = [u ''1''], taggings = []\<rparr>]
    in build_all_ancestors tags (build_uuid_to_slug tags) = [(u ''a'', [u ''b'']), (u ''b'', [u ''a''])]
       \<and> import_oracle_tags tags db = Inl CircularReference \<and> import_art_tags tags db = Inl CircularReference)"
proof -
  have "build_all_ancestors tags (build_uuid_to_slug tags) = [(u ''a'', [u ''b'']), (u ''b'', [u ''a''])]
      \<and> distinct (map slug tags)
      \<and> insert_pairs (map slug tags) [] (hierarchy_pairs tags (build_uuid_to_slug tags)) = Inl CircularReference"
    if "tags = [\<lparr>tag_id = u ''1'', slug = u ''a'', parent_ids = [u ''2''], taggings = []\<rparr>,
                \<lparr>tag_id = u ''2'', slug = u ''b'', parent_ids = [u ''1''], taggings = []\<rparr>]" for tags
    unfolding that by code_simp
  then show ?thesis by (simp add: import_oracle_tags_def import_art_tags_def import_tags_def sync_hierarchy_def Let_def)
qed

end
