(* ===== verification/Card_Processing.thy ===== *)
theory Card_Processing
  imports Complex_Main Card_Values
begin

text \<open>
  The import of a card, \<open>src/api/card_processing.py\<close>: the type line, the numeric conversions, the
  collector number, the rarity, and \<open>preprocess_card\<close>, which filters a card of the bulk data,
  splits it into its faces and adds the columns of the cards table.

  A card is a Python dict; its keys and values are JSON values (\<open>cval\<close>). What the code
  does with a value of an unexpected type is modelled as the exception Python raises. A float is
  the rational number its text denotes, or an infinity or \<open>nan\<close>; the rounding of the rational to 53
  bits is not modelled.
\<close>

section \<open>Values\<close>

datatype pyfloat = Fin rat | PInf | NInf | NaN

datatype cval =
    CNull
  | CBool bool
  | CInt int
  | CFloat pyfloat
  | CStr pstr
  | CList "cval list"
  | CObj "(cval \<times> cval) list"

type_synonym card_dict = "(cval \<times> cval) list"

fun truthy_c :: "cval \<Rightarrow> bool" where
  "truthy_c CNull = False"
| "truthy_c (CBool b) = b"
| "truthy_c (CInt i) = (i \<noteq> 0)"
| "truthy_c (CFloat f) = (f \<noteq> Fin 0)"
| "truthy_c (CStr s) = (s \<noteq> [])"
| "truthy_c (CList xs) = (xs \<noteq> [])"
| "truthy_c (CObj d) = (d \<noteq> [])"

fun hashable :: "cval \<Rightarrow> bool" where
  "hashable (CList xs) = False"
| "hashable (CObj d) = False"
| "hashable v = True"

definition cget :: "card_dict \<Rightarrow> string \<Rightarrow> cval" where
  "cget cd k = (case map_of cd (CStr (u k)) of None \<Rightarrow> CNull | Some v \<Rightarrow> v)"

definition cget_default :: "card_dict \<Rightarrow> string \<Rightarrow> cval \<Rightarrow> cval" where
  "cget_default cd k d = (case map_of cd (CStr (u k)) of None \<Rightarrow> d | Some v \<Rightarrow> v)"

definition cindex :: "card_dict \<Rightarrow> string \<Rightarrow> cval result" where
  "cindex cd k = (case map_of cd (CStr (u k)) of None \<Rightarrow> Inl KeyError | Some v \<Rightarrow> Inr v)"

definition has_key :: "card_dict \<Rightarrow> string \<Rightarrow> bool" where
  "has_key cd k \<longleftrightarrow> map_of cd (CStr (u k)) \<noteq> None"

fun str_of :: "cval \<Rightarrow> pstr result" where
  "str_of (CStr s) = Inr s"
| "str_of _ = Inl AttributeError"

fun contains_str :: "pstr \<Rightarrow> cval \<Rightarrow> bool result" where
  "contains_str s (CStr t) = Inr (py_in s t)"
| "contains_str s (CList xs) = Inr (CStr s \<in> set xs)"
| "contains_str s (CObj d) = Inr (CStr s \<in> fst ` set d)"
| "contains_str s _ = Inl TypeError"

fun values_of :: "cval \<Rightarrow> cval list result" where
  "values_of (CObj d) = Inr (map snd d)"
| "values_of _ = Inl AttributeError"

fun iter_of :: "cval \<Rightarrow> cval list result" where
  "iter_of (CList xs) = Inr xs"
| "iter_of (CObj d) = Inr (map fst d)"
| "iter_of (CStr s) = Inr (map (\<lambda>c. CStr [c]) s)"
| "iter_of _ = Inl TypeError"

text \<open>\<open>dict.fromkeys(v, True)\<close>.\<close>

definition fromkeys_true :: "cval \<Rightarrow> cval result" where
  "fromkeys_true v =
     bindr (iter_of v) (\<lambda>ks. if list_all hashable ks then Inr (CObj (dict_fromkeys ks (CBool True))) else Inl TypeError)"

fun cval_of_pyval :: "pyval \<Rightarrow> cval" where
  "cval_of_pyval (PVStr s) = CStr s"
| "cval_of_pyval (PVNum (PyInt i)) = CInt i"
| "cval_of_pyval (PVNum (PyFloat m k)) = CFloat (Fin (of_nat m / 10 ^ k))"
| "cval_of_pyval (PVBool b) = CBool b"
| "cval_of_pyval (PVList vs) = CList (map cval_of_pyval vs)"
| "cval_of_pyval (PVDict d) = CObj (map (\<lambda>(k, v). (CStr k, cval_of_pyval v)) d)"
| "cval_of_pyval (PVIntArray is) = CList (map CInt is)"

definition cobj_of_pydict :: "pydict \<Rightarrow> cval" where
  "cobj_of_pydict d = CObj (map (\<lambda>(k, v). (CStr k, cval_of_pyval v)) d)"

section \<open>Numbers\<close>

text \<open>\<open>float(text)\<close>: a sign, then \<open>inf\<close>, \<open>infinity\<close>, \<open>nan\<close> or a decimal with an optional exponent.\<close>

definition digits_or_empty :: "pstr \<Rightarrow> pstr option" where
  "digits_or_empty s = (if s = [] then Some [] else int_digits s)"

definition exponent_of :: "pstr \<Rightarrow> int option" where
  "exponent_of s =
     (case s of
        [] \<Rightarrow> None
      | c # s' \<Rightarrow> if c = ch CHR ''-'' then map_option (\<lambda>d. - int (digits_val d)) (int_digits s')
                   else if c = ch CHR ''+'' then map_option (\<lambda>d. int (digits_val d)) (int_digits s')
                   else map_option (\<lambda>d. int (digits_val d)) (int_digits s))"

definition scale10 :: "rat \<Rightarrow> int \<Rightarrow> rat" where
  "scale10 q e = (if 0 \<le> e then q * 10 ^ nat e else q / 10 ^ nat (- e))"

definition to_float :: "rat \<Rightarrow> pyfloat" where
  "to_float q = (if 2 ^ 1024 \<le> q then PInf else if q \<le> - (2 ^ 1024) then NInf else Fin q)"

definition unsigned_float :: "pstr \<Rightarrow> rat option" where
  "unsigned_float s =
     (let (m, ee, e) = py_partition s [ch CHR ''e'']; (ip, d, fp) = py_partition m [ch CHR ''.'']
      in case (digits_or_empty ip, digits_or_empty fp, if ee = [] then Some 0 else exponent_of e) of
           (Some i, Some f, Some x) \<Rightarrow>
             if i = [] \<and> f = [] then None
             else Some (scale10 (of_nat (digits_val (i @ f))) (x - int (length f)))
         | _ \<Rightarrow> None)"

definition py_float :: "pstr \<Rightarrow> pyfloat option" where
  "py_float t =
     (let s = py_lower (py_strip t);
          (neg, s) = (case s of c # r \<Rightarrow> if c = ch CHR ''-'' then (True, r) else if c = ch CHR ''+'' then (False, r) else (False, s)
                              | [] \<Rightarrow> (False, s))
      in if s = u ''inf'' \<or> s = u ''infinity'' then Some (if neg then NInf else PInf)
         else if s = u ''nan'' then Some NaN
         else case unsigned_float s of None \<Rightarrow> None | Some q \<Rightarrow> Some (to_float (if neg then - q else q)))"

fun float_of :: "cval \<Rightarrow> pyfloat result" where
  "float_of (CStr s) = (case py_float s of None \<Rightarrow> Inl ValueError | Some f \<Rightarrow> Inr f)"
| "float_of (CInt i) = (if \<bar>i\<bar> < 2 ^ 1024 then Inr (Fin (of_int i)) else Inl OverflowError)"
| "float_of (CBool b) = Inr (Fin (if b then 1 else 0))"
| "float_of (CFloat f) = Inr f"
| "float_of _ = Inl TypeError"

definition trunc :: "rat \<Rightarrow> int" where
  "trunc q = (if 0 \<le> q then \<lfloor>q\<rfloor> else \<lceil>q\<rceil>)"

fun int_of_float :: "pyfloat \<Rightarrow> int result" where
  "int_of_float (Fin q) = Inr (trunc q)"
| "int_of_float NaN = Inl ValueError"
| "int_of_float _ = Inl OverflowError"

definition maybeify :: "(cval \<Rightarrow> cval result) \<Rightarrow> cval \<Rightarrow> cval result" where
  "maybeify f v =
     (if v = CNull then Inr CNull
      else case f v of
             Inl e \<Rightarrow> if e = ValueError \<or> e = TypeError then Inr CNull else Inl e
           | Inr x \<Rightarrow> Inr x)"

definition maybe_float :: "cval \<Rightarrow> cval result" where
  "maybe_float = maybeify (\<lambda>v. bindr (float_of v) (\<lambda>f. Inr (CFloat f)))"

definition maybe_int :: "cval \<Rightarrow> cval result" where
  "maybe_int = maybeify (\<lambda>v. bindr (float_of v) (\<lambda>f. bindr (int_of_float f) (\<lambda>i. Inr (CInt i))))"

section \<open>The helpers\<close>

fun after_last :: "nat \<Rightarrow> pstr \<Rightarrow> pstr" where
  "after_last c s = last (split_on c s)"

fun first_jpg :: "cval list \<Rightarrow> pstr result" where
  "first_jpg [] = Inl AssertionError"
| "first_jpg (v # vs) =
     bindr (contains_str (u ''.jpg'') v) (\<lambda>b.
       if b then bindr (str_of v) (\<lambda>loc. Inr (fst (py_partition (after_last (ch CHR ''/'') loc) (u ''.''))))
       else first_jpg vs)"

definition extract_image_location_uuid :: "card_dict \<Rightarrow> pstr result" where
  "extract_image_location_uuid cd = bindr (values_of (cget_default cd ''image_uris'' (CObj []))) first_jpg"

definition PERMANENT_CARD_TYPES :: "pstr list" where
  "PERMANENT_CARD_TYPES =
     [u ''Artifact'', u ''Battle'', u ''Creature'', u ''Enchantment'', u ''Land'', u ''Planeswalker'']"

definition parse_type_line :: "pstr \<Rightarrow> pstr list \<times> pstr list" where
  "parse_type_line type_line =
     (let (a, _, b) = py_partition (py_title type_line) [8212]
      in (py_split (py_strip a), py_split (py_strip b)))"

definition rarity_map :: "(pstr \<times> int) list" where
  "rarity_map = [(u ''common'', 0), (u ''uncommon'', 1), (u ''rare'', 2), (u ''mythic'', 3),
     (u ''special'', 4), (u ''bonus'', 5)]"

definition rarity_text_to_int :: "pstr \<Rightarrow> int" where
  "rarity_text_to_int rarity_text =
     (case map_of rarity_map (py_lower rarity_text) of None \<Rightarrow> - 1 | Some n \<Rightarrow> n)"

text \<open>
  \<open>str(collector_number)\<close> of a text or an integer, the forms the data has; \<open>strf\<close> stands for the text of
  any other value.
\<close>

fun collector_text :: "(cval \<Rightarrow> pstr) \<Rightarrow> cval \<Rightarrow> pstr" where
  "collector_text strf (CStr s) = s"
| "collector_text strf (CInt i) = int_str i"
| "collector_text strf v = strf v"

definition extract_collector_number_int :: "(cval \<Rightarrow> pstr) \<Rightarrow> cval \<Rightarrow> cval" where
  "extract_collector_number_int strf v =
     (if v = CNull then CNull
      else let numeric_part = filter is_digit_c (collector_text strf v)
           in if numeric_part = [] then CNull
              else case py_int numeric_part of
                     None \<Rightarrow> CNull
                   | Some n \<Rightarrow> if - (2 ^ 31) \<le> n \<and> n \<le> 2 ^ 31 - 1 then CInt n else CNull)"

section \<open>preprocess_card\<close>

definition put :: "card_dict \<Rightarrow> string \<Rightarrow> cval \<Rightarrow> card_dict" where
  "put cd k v = dict_set cd (CStr (u k)) v"

definition set_default :: "card_dict \<Rightarrow> string \<Rightarrow> cval \<Rightarrow> card_dict" where
  "set_default cd k v = (if has_key cd k then cd else put cd k v)"

definition pop :: "card_dict \<Rightarrow> string \<Rightarrow> card_dict" where
  "pop cd k = filter (\<lambda>(k', v). k' \<noteq> CStr (u k)) cd"

definition dict_union :: "card_dict \<Rightarrow> card_dict \<Rightarrow> card_dict" where
  "dict_union a b = foldl (\<lambda>d (k, v). dict_set d k v) a b"

text \<open>The early returns of an empty list: \<open>rejected cd\<close> is \<open>Inr True\<close> where the code returns \<open>[]\<close>.\<close>

definition token_type_line :: "card_dict \<Rightarrow> bool result" where
  "token_type_line cd =
     (let type_line = cget cd ''type_line''
      in if truthy_c type_line
         then bindr (str_of type_line) (\<lambda>t. let (card_types, card_subtypes) = parse_type_line t
                in Inr (u ''Card'' \<in> set card_types \<or> u ''Token'' \<in> set card_types))
         else Inr False)"

definition same_name_faces :: "card_dict \<Rightarrow> bool result" where
  "same_name_faces cd =
     (let card_name = cget_default cd ''name'' (CStr [])
      in bindr (contains_str (u ''//'') card_name) (\<lambda>b.
           if b then bindr (str_of card_name) (\<lambda>n. let (left_name, _, right_name) = py_partition n (u ''//'')
                  in Inr (py_strip left_name = py_strip right_name))
           else Inr False))"

definition rejected :: "card_dict \<Rightarrow> bool result" where
  "rejected cd =
     bindr (cindex cd ''legalities'') (\<lambda>l. bindr (values_of l) (\<lambda>vs.
     if \<not> list_all hashable vs then Inl TypeError
     else if \<not> list_ex (\<lambda>v. v = CStr (u ''legal'') \<or> v = CStr (u ''restricted'')) vs then Inr True
     else bindr (contains_str (u ''playtest'') (cget_default cd ''promo_types'' (CList []))) (\<lambda>playtest.
     if playtest then Inr True
     else bindr (contains_str (u ''paper'') (cget_default cd ''games'' (CList []))) (\<lambda>paper.
     if \<not> paper then Inr True
     else if cget cd ''set_type'' = CStr (u ''funny'') then Inr True
     else bindr (token_type_line cd) (\<lambda>token. if token then Inr True else same_name_faces cd)))))"

text \<open>The fields of one face, in the order the code assigns them.\<close>

definition face_fields :: "card_dict \<Rightarrow> card_dict" where
  "face_fields cd =
     (let cd = set_default cd ''face_name'' (cget cd ''name'');
          cd = set_default cd ''face_idx'' (CInt 1);
          flavor = cget cd ''flavor_text'';
          cd = put cd ''flavor_text'' (if truthy_c flavor then flavor else CStr [])
      in put cd ''raw_card_blob'' (CObj cd))"

definition type_fields :: "card_dict \<Rightarrow> (pstr list \<times> pstr list \<times> card_dict) result" where
  "type_fields cd =
     bindr (cindex cd ''id'') (\<lambda>i.
     let cd = put cd ''scryfall_id'' i
     in bindr (cindex cd ''type_line'') (\<lambda>tl. bindr (str_of tl) (\<lambda>tl.
        let (card_types, card_subtypes) = parse_type_line tl;
            cd = put cd ''card_types'' (CList (map CStr card_types));
            cd = put cd ''card_subtypes'' (CList (map CStr card_subtypes))
        in Inr (card_types, card_subtypes, cd))))"

definition is_creature :: "pstr list \<Rightarrow> pstr list \<Rightarrow> bool" where
  "is_creature card_types card_subtypes \<longleftrightarrow>
     u ''Creature'' \<in> set card_types \<or> u ''Vehicle'' \<in> set card_subtypes \<or> u ''Spacecraft'' \<in> set card_subtypes"

definition creature_fields :: "pstr list \<Rightarrow> pstr list \<Rightarrow> card_dict \<Rightarrow> card_dict result" where
  "creature_fields card_types card_subtypes cd =
     bindr (maybe_int (cget cd ''loyalty'')) (\<lambda>loyalty.
     let cd = put cd ''planeswalker_loyalty'' loyalty
     in if is_creature card_types card_subtypes
        then bindr (maybe_int (cget cd ''power'')) (\<lambda>power.
             let cd = put cd ''creature_power'' power
             in bindr (maybe_int (cget cd ''toughness'')) (\<lambda>toughness.
                let cd = put cd ''creature_toughness'' toughness;
                    cd = put cd ''creature_power_text'' (cget cd ''power'');
                    cd = put cd ''creature_toughness_text'' (cget cd ''toughness'')
                in Inr cd))
        else let cd = put cd ''creature_power_text'' CNull;
                 cd = put cd ''creature_toughness_text'' CNull;
                 cd = put cd ''creature_power'' CNull;
                 cd = put cd ''creature_toughness'' CNull
             in Inr cd)"

definition color_fields :: "card_dict \<Rightarrow> card_dict result" where
  "color_fields cd =
     bindr (bindr (cindex cd ''colors'') fromkeys_true) (\<lambda>v. let cd = put cd ''card_colors'' v in
     bindr (bindr (cindex cd ''color_identity'') fromkeys_true) (\<lambda>v. let cd = put cd ''card_color_identity'' v in
     bindr (fromkeys_true (cget_default cd ''keywords'' (CList []))) (\<lambda>v. let cd = put cd ''card_keywords'' v in
     bindr (fromkeys_true (cget_default cd ''produced_mana'' (CList []))) (\<lambda>v. let cd = put cd ''produced_mana'' v in
     Inr (put cd ''edhrec_rank'' (cget cd ''edhrec_rank''))))))"

definition frame_fields :: "card_dict \<Rightarrow> card_dict result" where
  "frame_fields cd =
     (let frame_version = cget cd ''frame''
      in bindr (if truthy_c frame_version then bindr (str_of frame_version) (\<lambda>t. Inr [py_title t]) else Inr []) (\<lambda>version.
         bindr (iter_of (cget_default cd ''frame_effects'' (CList []))) (\<lambda>frame_effects.
         bindr (mapr (\<lambda>e. bindr (str_of e) (\<lambda>t. Inr (py_title t))) frame_effects) (\<lambda>effects.
         Inr (put cd ''card_frame_data'' (CObj (dict_fromkeys (map CStr (version @ effects)) (CBool True))))))))"

fun price_of :: "cval \<Rightarrow> string \<Rightarrow> cval result" where
  "price_of (CObj prices) k = maybe_float (cget prices k)"
| "price_of _ k = Inl AttributeError"

definition price_fields :: "card_dict \<Rightarrow> card_dict result" where
  "price_fields cd =
     (let prices = cget_default cd ''prices'' (CObj [])
      in bindr (price_of prices ''usd'') (\<lambda>v. let cd = put cd ''price_usd'' v in
         bindr (price_of prices ''eur'') (\<lambda>v. let cd = put cd ''price_eur'' v in
         bindr (price_of prices ''tix'') (\<lambda>v. Inr (put cd ''price_tix'' v)))))"

definition lowered :: "card_dict \<Rightarrow> string \<Rightarrow> string \<Rightarrow> card_dict result" where
  "lowered cd k column =
     (if has_key cd k then bindr (str_of (cget cd k)) (\<lambda>t. Inr (put cd column (CStr (py_lower t)))) else Inr cd)"

definition layout_fields :: "card_dict \<Rightarrow> card_dict result" where
  "layout_fields cd =
     (let set_code = cget cd ''set'';
          cd = put cd ''card_set_code'' (case set_code of CStr t \<Rightarrow> CStr (py_lower t) | _ \<Rightarrow> set_code)
      in bindr (lowered cd ''layout'' ''card_layout'') (\<lambda>cd.
         bindr (lowered cd ''border_color'' ''card_border'') (\<lambda>cd.
         lowered cd ''watermark'' ''card_watermark'')))"

definition mana_fields :: "pstr list \<Rightarrow> card_dict \<Rightarrow> card_dict result" where
  "mana_fields card_types cd =
     bindr (str_of (cget_default cd ''mana_cost'' (CStr []))) (\<lambda>mana_cost_text.
     let cd = put cd ''mana_cost_jsonb'' (cobj_of_pydict (mana_cost_str_to_dict mana_cost_text));
         is_permanent = list_ex (\<lambda>t. t \<in> set card_types) PERMANENT_CARD_TYPES
     in Inr (put cd ''devotion'' (if is_permanent then cobj_of_pydict (calculate_devotion mana_cost_text) else CObj [])))"

definition name_fields :: "card_dict \<Rightarrow> card_dict result" where
  "name_fields cd =
     (let cd = set_default cd ''card_name'' (cget cd ''name'')
      in bindr (str_of (cget cd ''card_name'')) (\<lambda>n.
         let cd = put cd ''card_name_folded'' (CStr (fold_accents (py_lower n)));
             cd = put cd ''mana_cost_text'' (cget cd ''mana_cost'');
             cd = put cd ''planeswalker_loyalty_text'' (cget cd ''loyalty'');
             cd = put cd ''card_artist'' (cget cd ''artist'')
         in bindr (maybe_int (cget cd ''cmc'')) (\<lambda>v. Inr (put cd ''cmc'' v))))"

definition rarity_fields :: "(cval \<Rightarrow> pstr) \<Rightarrow> card_dict \<Rightarrow> card_dict result" where
  "rarity_fields strf cd =
     bindr (str_of (cget_default cd ''rarity'' (CStr []))) (\<lambda>r.
     let rarity_text = py_lower r;
         cd = (if rarity_text = [] then cd
               else put (put cd ''card_rarity_text'' (CStr rarity_text)) ''card_rarity_int'' (CInt (rarity_text_to_int rarity_text)));
         collector_number = cget cd ''collector_number'';
         cd = put cd ''collector_number'' collector_number;
         cd = put cd ''collector_number_int'' (extract_collector_number_int strf collector_number)
     in Inr (put cd ''illustration_id'' (cget cd ''illustration_id'')))"

definition default_fields :: "card_dict \<Rightarrow> card_dict" where
  "default_fields cd =
     (let cd = set_default cd ''card_legalities'' (cget_default cd ''legalities'' (CObj []))
      in foldl (\<lambda>cd k. set_default cd k (CObj []))
           cd [''produced_mana'', ''card_oracle_tags'', ''card_art_tags'', ''card_is_tags''])"

definition process_face :: "(cval \<Rightarrow> pstr) \<Rightarrow> card_dict \<Rightarrow> card_dict result" where
  "process_face strf cd =
     bindr (type_fields (face_fields cd)) (\<lambda>(card_types, card_subtypes, cd).
     bindr (creature_fields card_types card_subtypes cd) (\<lambda>cd.
     bindr (color_fields cd) (\<lambda>cd.
     bindr (frame_fields cd) (\<lambda>cd.
     bindr (price_fields cd) (\<lambda>cd.
     bindr (layout_fields cd) (\<lambda>cd.
     bindr (mana_fields card_types cd) (\<lambda>cd.
     bindr (name_fields cd) (\<lambda>cd.
     bindr (rarity_fields strf cd) (\<lambda>cd.
     Inr (default_fields cd))))))))))"

definition lift_name :: "card_dict \<Rightarrow> card_dict" where
  "lift_name cd =
     (if \<not> has_key cd ''card_name'' then put cd ''card_name'' (cget cd ''name'')
      else put cd ''face_name'' (cget cd ''name''))"

definition drop_creature :: "card_dict \<Rightarrow> card_dict" where
  "drop_creature cd =
     foldl pop cd [''creature_power'', ''creature_power_text'', ''creature_toughness'', ''creature_toughness_text'']"

definition merge_face :: "card_dict \<Rightarrow> nat \<Rightarrow> card_dict \<Rightarrow> card_dict" where
  "merge_face cd face_idx face_data =
     pop (dict_union (dict_union cd face_data) [(CStr (u ''face_idx''), CInt (int face_idx))]) ''card_faces''"

lemma map_of_filter_key: "map_of (filter (\<lambda>(k, v). k \<noteq> x) d) y = (if y = x then None else map_of d y)"
  by (induction d) auto

lemma has_key_pop: "\<not> has_key (pop cd k) k"
  unfolding has_key_def pop_def map_of_filter_key by simp

function preprocess_card :: "(cval \<Rightarrow> pstr) \<Rightarrow> card_dict \<Rightarrow> card_dict list result" where
  "preprocess_card strf cd =
     bindr (rejected cd) (\<lambda>skip.
     if skip then Inr []
     else if has_key cd ''raw_card_blob'' then Inr [cd]
     else let cd' = lift_name cd; card_faces = cget cd' ''card_faces''
          in if truthy_c card_faces
             then (case card_faces of
                     CList faces \<Rightarrow>
                       bindr (mapr (\<lambda>(face_idx, face).
                           case face of
                             CObj face_data \<Rightarrow> preprocess_card strf (merge_face (drop_creature cd') face_idx face_data)
                           | _ \<Rightarrow> Inl TypeError) (enumerate 1 faces)) (\<lambda>processed.
                       Inr (concat processed))
                   | _ \<Rightarrow> Inl TypeError)
             else bindr (process_face strf cd') (\<lambda>c. Inr [c]))"
  by pat_completeness auto

lemma faces_in_card: "truthy_c (cget (lift_name cd) ''card_faces'') \<Longrightarrow> has_key cd ''card_faces''"
  by (auto simp: lift_name_def cget_def put_def has_key_def split: if_splits option.splits)

termination preprocess_card
proof (relation "measure (\<lambda>(strf, cd). if has_key cd ''card_faces'' then 1 else 0)")
  fix strf :: "cval \<Rightarrow> pstr" and cd cd' fs fi face fd x k
  assume "cd' = lift_name cd" "x = cget cd' ''card_faces''" "truthy_c x"
  then have "has_key cd ''card_faces''" using faces_in_card by blast
  then show "((strf, merge_face (drop_creature cd') k fd), strf, cd) \<in> measure (\<lambda>(strf, cd). if has_key cd ''card_faces'' then 1 else 0)"
    by (simp add: merge_face_def has_key_pop)
qed simp_all

declare preprocess_card.simps [simp del]

end
