(* ===== verification/Http_Dispatch.thy ===== *)
theory Http_Dispatch
  imports Card_Processing
begin

text \<open>
  How a request reaches its handler: the binding of raw request parameters to typed arguments
  (\<open>src/api/utils/param_binding.py\<close>), the marking of handlers as routes
  (\<open>src/api/utils/routing.py\<close>), and the route table, path resolution and dispatch of
  \<open>src/api/api_resource.py\<close>.

  A handler is its signature and a function from keyword arguments to an outcome; what its body
  does is an argument of the model. Annotations are the resolved type hints. An argument is a raw
  string, a converted value, or an opaque object that the framework injects (\<open>AObj\<close>).
\<close>

section \<open>Arguments, hints, converters\<close>

datatype 'o arg =
    AStr pstr
  | AInt int
  | AFloat pyfloat
  | ABool bool
  | AStrs "pstr list"
  | AEnum pstr
  | ANone
  | AObj 'o

datatype hint =
    HStr
  | HInt
  | HFloat
  | HBool
  | HNone
  | HEnum pstr "pstr list"
  | HSequence hint
  | HUnion "hint list"
  | HOther pstr

datatype converter = CvStr | CvInt | CvFloat | CvBool | CvEnum "pstr list" | CvStrList

fun unwrap_optional :: "hint \<Rightarrow> hint" where
  "unwrap_optional (HUnion ms) =
     (case filter (\<lambda>m. m \<noteq> HNone) ms of [m] \<Rightarrow> m | _ \<Rightarrow> HUnion ms)"
| "unwrap_optional h = h"

definition converter_for :: "hint \<Rightarrow> converter option" where
  "converter_for h =
     (case unwrap_optional h of
        HEnum name members \<Rightarrow> Some (CvEnum members)
      | HStr \<Rightarrow> Some CvStr
      | HInt \<Rightarrow> Some CvInt
      | HFloat \<Rightarrow> Some CvFloat
      | HBool \<Rightarrow> Some CvBool
      | HSequence a \<Rightarrow> if a = HStr then Some CvStrList else None
      | _ \<Rightarrow> None)"

fun hint_name :: "hint \<Rightarrow> pstr" where
  "hint_name HStr = u ''str''"
| "hint_name HInt = u ''int''"
| "hint_name HFloat = u ''float''"
| "hint_name HBool = u ''bool''"
| "hint_name HNone = u ''NoneType''"
| "hint_name (HEnum name members) = name"
| "hint_name (HSequence a) = u ''Sequence''"
| "hint_name (HUnion ms) = u ''Union''"
| "hint_name (HOther name) = name"

definition describe :: "hint \<Rightarrow> pstr" where
  "describe h = hint_name (unwrap_optional h)"

definition bool_texts :: "pstr list" where
  "bool_texts = [u ''true'', u ''1'', u ''yes'', u ''on'', u ''t'']"

definition convert_to_str_list :: "pstr \<Rightarrow> pstr list" where
  "convert_to_str_list raw = filter (\<lambda>p. p \<noteq> []) (map py_strip (split_on (ch CHR '','') raw))"

fun convert :: "converter \<Rightarrow> pstr \<Rightarrow> 'o arg option" where
  "convert CvStr s = Some (AStr s)"
| "convert CvInt s = map_option AInt (py_int s)"
| "convert CvFloat s = map_option AFloat (py_float s)"
| "convert CvBool s = Some (ABool (py_lower s \<in> set bool_texts))"
| "convert (CvEnum members) s = (if s \<in> set members then Some (AEnum s) else None)"
| "convert CvStrList s = Some (AStrs (convert_to_str_list s))"

fun allowed_values :: "converter \<Rightarrow> pstr list" where
  "allowed_values (CvEnum members) = members"
| "allowed_values _ = []"

section \<open>ParamBinder\<close>

datatype pkind = POSITIONAL_ONLY | POSITIONAL_OR_KEYWORD | VAR_POSITIONAL | KEYWORD_ONLY | VAR_KEYWORD

record 'o param =
  p_name :: pstr
  p_kind :: pkind
  p_hint :: hint
  p_default :: "'o arg option"

definition positional_kind :: "pkind \<Rightarrow> bool" where
  "positional_kind k \<longleftrightarrow> k = POSITIONAL_ONLY \<or> k = POSITIONAL_OR_KEYWORD"

datatype 'o plan_row = PlanRow pstr "converter option" pstr "'o arg option"

record 'o pbinder =
  plan :: "'o plan_row list"
  positional_names :: "pstr list"

fun row_name :: "'o plan_row \<Rightarrow> pstr" where
  "row_name (PlanRow n c e d) = n"

definition declared :: "'o param list \<Rightarrow> 'o param list" where
  "declared sig = filter (\<lambda>p. p_name p \<noteq> u ''self'' \<and> p_kind p \<noteq> VAR_POSITIONAL \<and> p_kind p \<noteq> VAR_KEYWORD) sig"

definition make_plan :: "'o param list \<Rightarrow> 'o pbinder" where
  "make_plan sig =
     \<lparr>plan = map (\<lambda>p. PlanRow (p_name p) (converter_for (p_hint p)) (describe (p_hint p)) (p_default p)) (declared sig),
      positional_names = map p_name (filter (\<lambda>p. positional_kind (p_kind p)) (declared sig))\<rparr>"

definition known :: "'o pbinder \<Rightarrow> pstr list" where
  "known b = map row_name (plan b)"

datatype bind_error = BindTypeError | ParamCoercionError pstr pstr pstr "pstr list"

type_synonym 'o kwargs = "(pstr \<times> 'o arg) list"

definition bind_row :: "'o kwargs \<Rightarrow> 'o plan_row \<Rightarrow> bind_error + 'o kwargs" where
  "bind_row supplied row =
     (case row of PlanRow name conv expected dflt \<Rightarrow>
        (case map_of supplied name of
           Some (AStr value) \<Rightarrow>
             (case conv of
                None \<Rightarrow> Inl (ParamCoercionError name value expected [])
              | Some cv \<Rightarrow>
                  (case convert cv value of
                     None \<Rightarrow> Inl (ParamCoercionError name value expected (allowed_values cv))
                   | Some v \<Rightarrow> Inr [(name, v)]))
         | Some value \<Rightarrow> Inr [(name, value)]
         | None \<Rightarrow> (case dflt of None \<Rightarrow> Inr [] | Some d \<Rightarrow> Inr [(name, d)])))"

fun is_raw :: "'o arg \<Rightarrow> bool" where
  "is_raw (AStr s) = True"
| "is_raw _ = False"

definition dict_update :: "'o kwargs \<Rightarrow> 'o kwargs \<Rightarrow> 'o kwargs" where
  "dict_update a b = foldl (\<lambda>d (k, v). dict_set d k v) a b"

definition bind :: "'o pbinder \<Rightarrow> 'o arg list \<Rightarrow> 'o kwargs \<Rightarrow> bind_error + 'o kwargs" where
  "bind b args kwargs =
     (if length (positional_names b) < length args then Inl BindTypeError
      else let supplied = dict_update [] (zip (positional_names b) args)
           in if list_ex (\<lambda>(k, v). k \<in> fst ` set kwargs) supplied then Inl BindTypeError
              else let supplied = dict_update supplied kwargs
                   in bindr (mapr (bind_row supplied) (plan b)) (\<lambda>rows.
                        let bound = dict_update [] (concat rows)
                        in Inr (dict_update bound (filter (\<lambda>(k, v). k \<notin> set (known b) \<and> \<not> is_raw v) supplied))))"

section \<open>Calling a handler\<close>

datatype outcome =
    Returned
  | RaisedTypeError
  | RaisedHTTPError nat
  | RaisedHTTPStatus nat
  | RaisedOther

record 'o handler =
  h_name :: pstr
  h_params :: "'o param list"
  h_body :: "'o kwargs \<Rightarrow> outcome"




section \<open>Routes\<close>

record route_spec =
  r_paths :: "pstr list"
  r_methods :: "pstr list"
  r_advertise :: bool
  r_ignore_unknown :: bool

definition GET_IMPLIES :: "pstr list" where
  "GET_IMPLIES = [u ''HEAD'']"

definition route :: "pstr list \<Rightarrow> pstr list option \<Rightarrow> bool \<Rightarrow> bool \<Rightarrow> pstr \<Rightarrow> route_spec" where
  "route methods paths advertise ignore_unknown func_name =
     (let allowed = remdups (map py_upper methods);
          allowed = (if u ''GET'' \<in> set allowed then List.union allowed GET_IMPLIES else allowed)
      in \<lparr>r_paths = (case paths of None \<Rightarrow> [func_name] | Some ps \<Rightarrow> ps), r_methods = allowed,
          r_advertise = advertise, r_ignore_unknown = ignore_unknown\<rparr>)"

text \<open>The number of positional arguments a handler takes; \<open>None\<close> stands for \<open>inf\<close>.\<close>

definition max_positional_args :: "'o param list \<Rightarrow> nat option" where
  "max_positional_args sig =
     (if list_ex (\<lambda>p. p_kind p = VAR_POSITIONAL) sig then None
      else Some (length (filter (\<lambda>p. positional_kind (p_kind p)) sig)))"

record 'o bound_route =
  b_handler :: "'o handler"
  b_capacity :: "nat option"
  b_spec :: route_spec

type_synonym 'o routes = "(pstr \<times> 'o bound_route) list"

fun register_paths :: "'o bound_route \<Rightarrow> pstr list \<Rightarrow> 'o routes \<Rightarrow> 'o routes result" where
  "register_paths entry [] routes = Inr routes"
| "register_paths entry (path # paths) routes =
     (if path \<in> fst ` set routes then Inl RuntimeError
      else register_paths entry paths (dict_set routes path entry))"

fun build_routes :: "('o handler \<times> route_spec) list \<Rightarrow> 'o routes \<Rightarrow> 'o routes result" where
  "build_routes [] routes = Inr routes"
| "build_routes ((h, spec) # marked) routes =
     bindr (register_paths \<lparr>b_handler = h, b_capacity = max_positional_args (h_params h), b_spec = spec\<rparr> (r_paths spec) routes)
       (build_routes marked)"



definition DISALLOWED_QUERY_ARGS :: "pstr list" where
  "DISALLOWED_QUERY_ARGS = [u ''falcon_response'', u ''request_host'']"

text \<open>
  A query parameter given once is a string; given several times it is the list of its values, as the
  framework documents for \<open>req.params\<close>.
\<close>

datatype qvalue = One pstr | Many "pstr list"

record request =
  q_method :: pstr
  q_path :: pstr
  q_params :: "(pstr \<times> qvalue) list"
  q_host :: pstr

fun qarg :: "qvalue \<Rightarrow> 'o arg" where
  "qarg (One s) = AStr s"
| "qarg (Many ss) = AStrs ss"




definition request_kwargs :: "'o \<Rightarrow> request \<Rightarrow> 'o kwargs" where
  "request_kwargs resp req =
     [(u ''falcon_response'', AObj resp), (u ''request_host'', AStr (q_host req))]
     @ map (\<lambda>(k, v). (k, qarg v)) (filter (\<lambda>(k, v). k \<notin> set DISALLOWED_QUERY_ARGS) (q_params req))"



section \<open>What binding yields\<close>

lemma map_of_dict_update: "map_of (dict_update a b) = map_of a ++ map_of (rev b)"
  by (induction b arbitrary: a) (auto simp: dict_update_def map_add_def fun_eq_iff split: option.splits)

lemma map_of_rev_distinct: "distinct (map fst b) \<Longrightarrow> map_of (rev b) = map_of b"
proof (induction b)
  case (Cons x b)
  obtain k v where x: "x = (k, v)" by fastforce
  have "map_of b k = None" using Cons.prems by (auto simp: x map_of_eq_None_iff)
  then show ?case using Cons by (auto simp: x map_add_def fun_eq_iff split: option.splits)
qed simp

lemma bind_row_name: "bind_row supplied row = Inr r \<Longrightarrow> set r \<subseteq> {row_name row} \<times> UNIV \<and> length r \<le> 1"
proof (cases row)
  case (PlanRow n cv e d)
  assume r: "bind_row supplied row = Inr r"
  show ?thesis
  proof (cases "map_of supplied n")
    case None
    then show ?thesis using r by (cases d) (auto simp: bind_row_def PlanRow)
  next
    case (Some v)
    then show ?thesis using r by (cases v; cases cv) (auto simp: bind_row_def PlanRow split: option.splits)
  qed
qed

lemma mapr_bind_rows:
  assumes "mapr (bind_row supplied) rows = Inr rs" "distinct (map row_name rows)"
  shows "distinct (map fst (concat rs)) \<and> fst ` set (concat rs) \<subseteq> row_name ` set rows \<and>
    (\<forall>row\<in>set rows. \<exists>r. bind_row supplied row = Inr r \<and> map_of (concat rs) (row_name row) = map_of r (row_name row))"
  using assms
proof (induction rows arbitrary: rs)
  case (Cons row rows)
  obtain r rs' where r: "bind_row supplied row = Inr r" "mapr (bind_row supplied) rows = Inr rs'" "rs = r # rs'"
    using Cons.prems(1) by (auto simp: bindr_Inr_iff)
  note IH = Cons.IH [OF r(2)] 
  have d: "distinct (map row_name rows)" "row_name row \<notin> row_name ` set rows" using Cons.prems(2) by auto
  note n = bind_row_name [OF r(1)]
  have fr: "fst ` set r \<subseteq> {row_name row}" using n by auto
  have sub: "fst ` set (concat rs') \<subseteq> row_name ` set rows" using IH [OF d(1)] by (elim conjE)
  have dr: "distinct (map fst r)" using n by (cases r) auto
  have disj: "fst ` set r \<inter> fst ` set (concat rs') = {}"
  proof -
    have "row_name row \<notin> fst ` set (concat rs')" using sub d(2) by (rule contra_subsetD)
    then have "{row_name row} \<inter> fst ` set (concat rs') = {}" by simp
    with Int_mono [OF fr order_refl] show ?thesis by (metis subset_empty)
  qed
  have other: "map_of r k = None" if "k \<noteq> row_name row" for k
    using fr that by (auto simp: map_of_eq_None_iff)
  have own: "map_of (concat rs') (row_name row) = None"
    unfolding map_of_eq_None_iff using sub d(2) by (rule contra_subsetD)
  have rows: "\<exists>q. bind_row supplied x = Inr q \<and> map_of (r @ concat rs') (row_name x) = map_of q (row_name x)"
    if "x \<in> set (row # rows)" for x
  proof (cases "row_name x = row_name row")
    case True
    have "x \<notin> set rows" using True d(2) imageI [of x "set rows" row_name] by auto
    then have "x = row" using that by simp
    then show ?thesis using r(1) own by (auto simp: map_add_def split: option.splits)
  next
    case False
    then have "x \<in> set rows" using that by auto
    then show ?thesis using IH [OF d(1)] other [OF False] by (auto simp: map_add_def)
  qed
  have "distinct (map fst (r @ concat rs'))" using dr disj IH [OF d(1)] by simp
  moreover have "fst ` set (r @ concat rs') \<subseteq> row_name ` set (row # rows)"
    unfolding set_append image_Un list.set image_insert
    by (intro Un_least subset_trans [OF fr] subset_trans [OF sub subset_insertI]) simp
  ultimately show ?case using rows by (simp only: r(3) concat.simps) blast
qed simp

definition supplied_args :: "'o pbinder \<Rightarrow> 'o arg list \<Rightarrow> 'o kwargs \<Rightarrow> 'o kwargs" where
  "supplied_args b args kwargs = dict_update (dict_update [] (zip (positional_names b) args)) kwargs"

lemma bind_cases:
  assumes "bind b args kwargs = Inr kw" "distinct (known b)"
  obtains rs where "mapr (bind_row (supplied_args b args kwargs)) (plan b) = Inr rs"
    "distinct (map fst (concat rs))" "fst ` set (concat rs) \<subseteq> set (known b)"
    "map_of kw = map_of (concat rs) ++
       map_of (rev (filter (\<lambda>(k, v). k \<notin> set (known b) \<and> \<not> is_raw v) (supplied_args b args kwargs)))"
proof -
  obtain rs where rs: "mapr (bind_row (supplied_args b args kwargs)) (plan b) = Inr rs"
    "kw = dict_update (dict_update [] (concat rs))
       (filter (\<lambda>(k, v). k \<notin> set (known b) \<and> \<not> is_raw v) (supplied_args b args kwargs))"
    using assms(1) by (auto simp: bind_def supplied_args_def Let_def bindr_Inr_iff split: if_splits)
  have "distinct (map row_name (plan b))" using assms(2) by (simp add: known_def)
  from mapr_bind_rows [OF rs(1) this] have d: "distinct (map fst (concat rs))" "fst ` set (concat rs) \<subseteq> set (known b)"
    by (auto simp: known_def)
  show ?thesis
    by (rule that [OF rs(1) d]) (simp add: rs(2) map_of_dict_update map_of_rev_distinct [OF d(1)])
qed

lemma bind_declared:
  assumes "bind b args kwargs = Inr kw" "distinct (known b)" "row \<in> set (plan b)"
  shows "\<exists>r. bind_row (supplied_args b args kwargs) row = Inr r \<and> map_of kw (row_name row) = map_of r (row_name row)"
proof -
  obtain rs where rs: "mapr (bind_row (supplied_args b args kwargs)) (plan b) = Inr rs"
    "map_of kw = map_of (concat rs) ++
       map_of (rev (filter (\<lambda>(k, v). k \<notin> set (known b) \<and> \<not> is_raw v) (supplied_args b args kwargs)))"
    using bind_cases [OF assms(1,2)] by metis
  have "row_name row \<in> set (known b)" using assms(3) by (simp add: known_def)
  then have "map_of (rev (filter (\<lambda>(k, v). k \<notin> set (known b) \<and> \<not> is_raw v) (supplied_args b args kwargs))) (row_name row) = None"
    by (auto simp: map_of_eq_None_iff)
  moreover have "distinct (map row_name (plan b))" using assms(2) by (simp add: known_def)
  ultimately show ?thesis using mapr_bind_rows [OF rs(1)] assms(3) rs(2) by (auto simp: map_add_def)
qed

lemma bind_undeclared:
  assumes "bind b args kwargs = Inr kw" "distinct (known b)" "k \<notin> set (known b)" "map_of kw k = Some v"
  shows "\<not> is_raw v"
proof -
  obtain rs where rs: "fst ` set (concat rs) \<subseteq> set (known b)"
    "map_of kw = map_of (concat rs) ++
       map_of (rev (filter (\<lambda>(k, v). k \<notin> set (known b) \<and> \<not> is_raw v) (supplied_args b args kwargs)))"
    using bind_cases [OF assms(1,2)] by metis
  have "map_of (concat rs) k = None" using rs(1) assms(3) by (auto simp: map_of_eq_None_iff)
  then have "map_of (rev (filter (\<lambda>(k, v). k \<notin> set (known b) \<and> \<not> is_raw v) (supplied_args b args kwargs))) k = Some v"
    using assms(4) by (simp add: rs(2) map_add_Some_iff)
  from map_of_SomeD [OF this] show ?thesis by simp
qed

lemma distinct_dict_update: "distinct (map fst a) \<Longrightarrow> distinct (map fst (dict_update a b))"
  by (induction b arbitrary: a) (auto simp: dict_update_def distinct_keys_dict_set)

lemma map_of_filter_rev:
  "distinct (map fst d) \<Longrightarrow> map_of d k = Some v \<Longrightarrow> P (k, v) \<Longrightarrow> map_of (rev (filter P d)) k = Some v"
proof -
  assume d: "distinct (map fst d)" "map_of d k = Some v" "P (k, v)"
  have "distinct (map fst (filter P d))" using d(1) by (rule distinct_map_filter)
  moreover have "(k, v) \<in> set (filter P d)" using map_of_SomeD [OF d(2)] d(3) by simp
  ultimately show ?thesis by (simp add: map_of_rev_distinct map_of_is_SomeI)
qed

section \<open>Route tables\<close>

lemma register_paths_ok:
  "register_paths entry paths routes = Inr routes' \<Longrightarrow> distinct (map fst routes) \<Longrightarrow>
   distinct (map fst routes') \<and>
   map_of routes' = (\<lambda>p. if p \<in> set paths then Some entry else map_of routes p)"
proof (induction entry paths routes rule: register_paths.induct)
  case (2 entry path paths routes)
  then have fresh: "path \<notin> fst ` set routes" and reg: "register_paths entry paths (dict_set routes path entry) = Inr routes'"
    by (auto split: if_splits)
  from "2.IH" [OF fresh reg] "2.prems"(2) show ?case by (auto simp: distinct_keys_dict_set fun_eq_iff)
qed (simp add: fun_eq_iff)

lemma register_paths_error:
  "isl (register_paths entry paths routes) \<longleftrightarrow> \<not> distinct paths \<or> set paths \<inter> fst ` set routes \<noteq> {}"
  by (induction entry paths routes rule: register_paths.induct) (auto simp: set_keys_dict_set)

lemma build_routes_ok:
  assumes "build_routes marked routes = Inr routes'" "distinct (map fst routes)"
  shows "distinct (map fst routes') \<and>
    (\<forall>p e. map_of routes p = Some e \<longrightarrow> map_of routes' p = Some e) \<and>
    (\<forall>(h, spec)\<in>set marked. \<forall>p\<in>set (r_paths spec).
       map_of routes' p = Some \<lparr>b_handler = h, b_capacity = max_positional_args (h_params h), b_spec = spec\<rparr>)"
  using assms
proof (induction marked arbitrary: routes)
  case (Cons m marked)
  obtain h spec where m: "m = (h, spec)" by fastforce
  let ?e = "\<lparr>b_handler = h, b_capacity = max_positional_args (h_params h), b_spec = spec\<rparr>"
  obtain r where r: "register_paths ?e (r_paths spec) routes = Inr r" "build_routes marked r = Inr routes'"
    using Cons.prems(1) by (auto simp: m bindr_Inr_iff)
  have fresh: "set (r_paths spec) \<inter> fst ` set routes = {}"
    using register_paths_error [of ?e "r_paths spec" routes] r(1) by auto
  note reg = register_paths_ok [OF r(1) Cons.prems(2)]
  note IH = Cons.IH [OF r(2)]
  have "map_of routes' p = Some ?e" if "p \<in> set (r_paths spec)" for p
    using IH reg that by auto
  moreover have "map_of routes' p = Some e" if "map_of routes p = Some e" for p e
  proof -
    have "p \<in> fst ` set routes" using that by (metis domI dom_map_of_conv_image_fst)
    then have "map_of r p = Some e" using fresh reg that by auto
    then show ?thesis using IH reg by auto
  qed
  ultimately show ?case using IH reg by (auto simp: m)
qed simp

section \<open>Properties\<close>

text \<open>
  C34: What a handler gets for a parameter it declares: a raw string only after conversion to the type of
  its annotation (so an enum parameter holds a member, an \<open>int\<close> parameter an integer), a value that is
  not a string unchanged, and its default when nothing was supplied. A string under a name it
  does not declare never reaches it.
\<close>

theorem bind_converts:
  assumes "bind (make_plan sig) args kwargs = Inr kw" "distinct (map p_name (declared sig))"
  shows "(\<forall>p\<in>set (declared sig).
      case map_of (supplied_args (make_plan sig) args kwargs) (p_name p) of
        None \<Rightarrow> map_of kw (p_name p) = p_default p
      | Some v \<Rightarrow>
          (case v of
             AStr s \<Rightarrow> (\<exists>cv w. converter_for (p_hint p) = Some cv \<and> convert cv s = Some w \<and> map_of kw (p_name p) = Some w)
           | _ \<Rightarrow> map_of kw (p_name p) = Some v))
    \<and> (\<forall>k s. map_of kw k = Some (AStr s) \<longrightarrow> k \<in> p_name ` set (declared sig))"
proof -
  have k: "known (make_plan sig) = map p_name (declared sig)" by (simp add: known_def make_plan_def)
  have d: "distinct (known (make_plan sig))" using assms(2) by (simp add: k)
  have "case map_of (supplied_args (make_plan sig) args kwargs) (p_name p) of
        None \<Rightarrow> map_of kw (p_name p) = p_default p
      | Some v \<Rightarrow>
          (case v of
             AStr s \<Rightarrow> (\<exists>cv w. converter_for (p_hint p) = Some cv \<and> convert cv s = Some w \<and> map_of kw (p_name p) = Some w)
           | _ \<Rightarrow> map_of kw (p_name p) = Some v)" if p: "p \<in> set (declared sig)" for p
  proof -
    let ?row = "PlanRow (p_name p) (converter_for (p_hint p)) (describe (p_hint p)) (p_default p)"
    have "?row \<in> set (plan (make_plan sig))" using p by (auto simp: make_plan_def)
    from bind_declared [OF assms(1) d this] obtain r where
      r: "bind_row (supplied_args (make_plan sig) args kwargs) ?row = Inr r" "map_of kw (p_name p) = map_of r (p_name p)"
      by auto
    show ?thesis
    proof (cases "map_of (supplied_args (make_plan sig) args kwargs) (p_name p)")
      case None
      then show ?thesis using r by (cases "p_default p") (auto simp: bind_row_def)
    next
      case (Some v)
      then show ?thesis
        using r by (cases v; cases "converter_for (p_hint p)") (auto simp: bind_row_def split: option.splits)
    qed
  qed
  moreover have "k \<in> p_name ` set (declared sig)" if "map_of kw k = Some (AStr s)" for k s
    using bind_undeclared [OF assms(1) d, of k "AStr s"] that by (auto simp: k)
  ultimately show ?thesis by blast
qed

text \<open>A handler with an enum parameter and an injected response, for the witnesses.\<close>

definition sample_sig :: "unit param list" where
  "sample_sig =
     [\<lparr>p_name = u ''falcon_response'', p_kind = KEYWORD_ONLY, p_hint = HUnion [HOther (u ''Response''), HNone], p_default = Some ANone\<rparr>,
      \<lparr>p_name = u ''orderby'', p_kind = KEYWORD_ONLY, p_hint = HEnum (u ''CardOrdering'') [u ''cmc'', u ''name''], p_default = Some (AEnum (u ''cmc''))\<rparr>,
      \<lparr>p_name = u ''_'', p_kind = VAR_KEYWORD, p_hint = HOther (u ''object''), p_default = None\<rparr>]"

theorem bind_converts_witness:
  "\<exists>kw. bind (make_plan sample_sig) [] [(u ''orderby'', AStr (u ''name''))] = Inr kw \<and>
     distinct (map p_name (declared sample_sig)) \<and> map_of kw (u ''orderby'') = Some (AEnum (u ''name''))"
proof -
  have ok: "\<not> isl (bind (make_plan sample_sig) [] [(u ''orderby'', AStr (u ''name''))])" "distinct (map p_name (declared sample_sig))"
    by code_simp+
  then obtain kw where kw: "bind (make_plan sample_sig) [] [(u ''orderby'', AStr (u ''name''))] = Inr kw"
    by (metis sum.collapse(2))
  obtain p where p: "p \<in> set (declared sample_sig)" "p_name p = u ''orderby''"
    and hint: "p_hint p = HEnum (u ''CardOrdering'') [u ''cmc'', u ''name'']"
    by (rule that [of "sample_sig ! 1"]) (simp_all add: declared_def sample_sig_def)
  have supplied: "map_of (supplied_args (make_plan sample_sig) [] [(u ''orderby'', AStr (u ''name''))]) (u ''orderby'') = Some (AStr (u ''name''))"
    by code_simp
  from bind_converts [OF kw ok(2), THEN conjunct1, THEN bspec, OF p(1), unfolded p(2) hint supplied]
  have "map_of kw (u ''orderby'') = Some (AEnum (u ''name''))"
    by (auto simp: converter_for_def)
  with kw ok(2) show ?thesis by blast
qed

text \<open>
  A query parameter given twice is not converted or rejected: its list of values is passed through
  to a handler that declares an enum.
\<close>

theorem repeated_parameter_unconverted:
  "bind (make_plan sample_sig) [] (request_kwargs ()
      \<lparr>q_method = u ''GET'', q_path = u ''search'', q_params = [(u ''orderby'', Many [u ''x'', u ''y''])], q_host = u ''h''\<rparr>)
   = Inr [(u ''falcon_response'', AObj ()), (u ''orderby'', AStrs [u ''x'', u ''y''])]"
  by code_simp

text \<open>
  A request parameter can never take the place of the injected response object: whatever the query
  and the path hold, the arguments of a handler that runs bind \<open>falcon_response\<close> to the response of
  its own request.
\<close>

theorem injected_response_kept:
  assumes "bind (make_plan sig) args (request_kwargs resp req) = Inr kw" "distinct (map p_name (declared sig))"
  shows "map_of kw (u ''falcon_response'') = Some (AObj resp)"
proof -
  let ?b = "make_plan sig" let ?k = "u ''falcon_response''"
  have known: "known ?b = map p_name (declared sig)" by (simp add: known_def make_plan_def)
  have d: "distinct (known ?b)" using assms(2) by (simp add: known)
  have "map_of (rev (request_kwargs resp req)) ?k = Some (AObj resp)"
  proof -
    have no: "map_of (rev (map (\<lambda>(k, v). (k, qarg v)) (filter (\<lambda>(k, v). k \<notin> set DISALLOWED_QUERY_ARGS) (q_params req)))) ?k = None"
      unfolding map_of_eq_None_iff by (auto simp: DISALLOWED_QUERY_ARGS_def)
    have "rev (request_kwargs resp req) = rev (map (\<lambda>(k, v). (k, qarg v))
        (filter (\<lambda>(k, v). k \<notin> set DISALLOWED_QUERY_ARGS) (q_params req))) @ [(u ''request_host'', AStr (q_host req)), (?k, AObj resp)]"
      by (simp only: request_kwargs_def rev_append rev.simps append.simps append_assoc)
    then show ?thesis by (simp only: map_of_append map_add_def no option.case) simp
  qed
  then have s: "map_of (supplied_args ?b args (request_kwargs resp req)) ?k = Some (AObj resp)"
    by (simp only: supplied_args_def map_of_dict_update map_add_Some_iff simp_thms)
  show ?thesis
  proof (cases "?k \<in> set (known ?b)")
    case True
    then obtain row where row: "row \<in> set (plan ?b)" "row_name row = ?k" by (auto simp only: known_def set_map)
    obtain c e f where "row = PlanRow ?k c e f" using row(2) by (cases row) simp
    then have "bind_row (supplied_args ?b args (request_kwargs resp req)) row = Inr [(?k, AObj resp)]"
      by (simp only: bind_row_def plan_row.case s option.case arg.case)
    with bind_declared [OF assms(1) d row(1)] row(2) show ?thesis by (auto simp only: map_of.simps fst_conv snd_conv fun_upd_same sum.inject)
  next
    case False
    obtain rs where rs: "fst ` set (concat rs) \<subseteq> set (known ?b)"
      "map_of kw = map_of (concat rs) ++ map_of (rev (filter (\<lambda>(k, v). k \<notin> set (known ?b) \<and> \<not> is_raw v)
         (supplied_args ?b args (request_kwargs resp req))))"
      using bind_cases [OF assms(1) d] by metis
    have "distinct (map fst (supplied_args ?b args (request_kwargs resp req)))"
      by (simp add: supplied_args_def distinct_dict_update)
    then have "map_of (rev (filter (\<lambda>(k, v). k \<notin> set (known ?b) \<and> \<not> is_raw v)
        (supplied_args ?b args (request_kwargs resp req)))) ?k = Some (AObj resp)"
      using map_of_filter_rev [OF _ s, of "\<lambda>(k, v). k \<notin> set (known ?b) \<and> \<not> is_raw v"] False by simp
    then show ?thesis by (simp only: rs(2) map_add_Some_iff simp_thms)
  qed
qed

theorem injected_response_kept_witness:
  "\<exists>kw. bind (make_plan sample_sig) [] (request_kwargs ()
      \<lparr>q_method = u ''GET'', q_path = u ''search'', q_params = [(u ''falcon_response'', One (u ''x''))], q_host = u ''h''\<rparr>) = Inr kw
    \<and> map_of kw (u ''falcon_response'') = Some (AObj ())"
proof -
  let ?r = "\<lparr>q_method = u ''GET'', q_path = u ''search'', q_params = [(u ''falcon_response'', One (u ''x''))], q_host = u ''h''\<rparr>"
  have ok: "\<not> isl (bind (make_plan sample_sig) [] (request_kwargs () ?r))" "distinct (map p_name (declared sample_sig))"
    by code_simp+
  then obtain kw where "bind (make_plan sample_sig) [] (request_kwargs () ?r) = Inr kw"
    by (metis sum.collapse(2))
  with injected_response_kept [OF this ok(2)] show ?thesis by blast
qed

lemma build_routes_error:
  "distinct (map fst routes) \<Longrightarrow> isl (build_routes marked routes) \<longleftrightarrow>
     \<not> distinct (concat (map (\<lambda>(h, spec). r_paths spec) marked)) \<or>
     set (concat (map (\<lambda>(h, spec). r_paths spec) marked)) \<inter> fst ` set routes \<noteq> {}"
proof (induction marked arbitrary: routes)
  case (Cons m marked)
  obtain h spec where m: "m = (h, spec)" by fastforce
  let ?e = "\<lparr>b_handler = h, b_capacity = max_positional_args (h_params h), b_spec = spec\<rparr>"
  show ?case
  proof (cases "register_paths ?e (r_paths spec) routes")
    case (Inl x)
    then show ?thesis using register_paths_error [of ?e "r_paths spec" routes] by (auto simp: m)
  next
    case (Inr r)
    note e = register_paths_error [of ?e "r_paths spec" routes]
    note ok = register_paths_ok [OF Inr Cons.prems]
    have "fst ` set r = dom (map_of r)" by (simp add: dom_map_of_conv_image_fst)
    also have "\<dots> = set (r_paths spec) \<union> dom (map_of routes)" using ok by (auto simp: dom_def)
    finally have "fst ` set r = set (r_paths spec) \<union> fst ` set routes" by (simp add: dom_map_of_conv_image_fst)
    then have "isl (build_routes marked r) \<longleftrightarrow>
        \<not> distinct (concat (map (\<lambda>(h, spec). r_paths spec) marked)) \<or>
        set (concat (map (\<lambda>(h, spec). r_paths spec) marked)) \<inter> (set (r_paths spec) \<union> fst ` set routes) \<noteq> {}"
      using Cons.IH [of r] ok by simp
    moreover have "distinct (r_paths spec)" "set (r_paths spec) \<inter> fst ` set routes = {}" using e Inr by simp_all
    ultimately show ?thesis using Inr by (simp add: m Int_Un_distrib Int_Un_distrib2 Int_commute) blast
  qed
qed simp

text \<open>
  The route table is unambiguous: building it raises exactly when two handlers, or one handler twice,
  claim a path, and otherwise each declared path leads to the handler that declared it, with that handler's
  positional capacity and methods.
\<close>

theorem route_table_unambiguous:
  "case build_routes marked [] of
     Inl e \<Rightarrow> \<not> distinct (concat (map (\<lambda>(h, spec). r_paths spec) marked))
   | Inr routes \<Rightarrow> distinct (concat (map (\<lambda>(h, spec). r_paths spec) marked)) \<and> distinct (map fst routes) \<and>
       list_all (\<lambda>(h, spec). list_all (\<lambda>p. map_of routes p =
         Some \<lparr>b_handler = h, b_capacity = max_positional_args (h_params h), b_spec = spec\<rparr>) (r_paths spec)) marked"
proof (cases "build_routes marked []")
  case (Inl e)
  then show ?thesis using build_routes_error [of "[]" marked] by simp
next
  case (Inr routes)
  with build_routes_error [of "[]" marked] build_routes_ok [OF Inr] show ?thesis by (auto simp: list_all_iff)
qed



end
