(* ===== verification/Site_Name.thy ===== *)
theory Site_Name
  imports Py_Prelude
begin

text \<open>
  The site name shown on the pages, derived from the host of a request:
  \<open>_split_words\<close> and \<open>_hostname_to_site_name\<close> of \<open>src/api/api_resource.py\<close>. The word set, which the code reads from the
  dictionary of the system, and the host name that \<open>urllib\<close> extracts are arguments.
\<close>

section \<open>Splitting into words\<close>

fun first_some :: "('a \<Rightarrow> 'b option) \<Rightarrow> 'a list \<Rightarrow> 'b option" where
  "first_some f [] = None"
| "first_some f (x # xs) = (case f x of Some y \<Rightarrow> Some y | None \<Rightarrow> first_some f xs)"

lemma first_some_cong [fundef_cong]:
  "xs = ys \<Longrightarrow> (\<And>x. x \<in> set ys \<Longrightarrow> f x = g x) \<Longrightarrow> first_some f xs = first_some g ys"
  by (induction ys arbitrary: xs) (auto split: option.splits)

lemma first_some_None: "first_some f xs = None \<longleftrightarrow> (\<forall>x \<in> set xs. f x = None)"
  by (induction xs) (auto split: option.splits)

lemma first_some_SomeD: "first_some f xs = Some y \<Longrightarrow> \<exists>x \<in> set xs. f x = Some y"
  by (induction xs) (auto split: option.splits)

definition MIN_WORD_LEN :: nat where
  "MIN_WORD_LEN = 3"

text \<open>The split points of a text of length \<open>n\<close>, those nearest the middle first.\<close>

definition split_points :: "nat \<Rightarrow> nat list" where
  "split_points n = sort_key (\<lambda>k. \<bar>int k - int (n div 2)\<bar>) [1..<n]"

lemma set_split_points [simp]: "set (split_points n) = {1..<n}"
  by (simp add: split_points_def)

function split_sub :: "pstr set \<Rightarrow> pstr \<Rightarrow> pstr list option" where
  "split_sub words sub =
     (if sub \<in> words then Some [sub]
      else if length sub < MIN_WORD_LEN then None
      else first_some
        (\<lambda>k. let left = take k sub; right = drop k sub
             in case (if left \<in> words then map_option (\<lambda>rest. left # rest) (split_sub words right) else None) of
                  Some ws \<Rightarrow> Some ws
                | None \<Rightarrow> if right \<in> words then map_option (\<lambda>rest. rest @ [right]) (split_sub words left) else None)
        (split_points (length sub)))"
  by pat_completeness auto
termination by (relation "measure (\<lambda>(words, sub). length sub)") auto

declare split_sub.simps [simp del]

definition split_words :: "pstr \<Rightarrow> pstr set \<Rightarrow> pstr list option" where
  "split_words s words = (if py_isalpha s then split_sub words s else None)"

section \<open>The site name\<close>

definition FALLBACK_SITE_NAME :: pstr where
  "FALLBACK_SITE_NAME = u ''MTG Search''"

definition STRIP_TLDS :: "pstr list" where
  "STRIP_TLDS = map u [''app'', ''biz'', ''co'', ''com'', ''dev'', ''edu'', ''gov'', ''info'', ''io'', ''me'', ''net'', ''org'', ''us'']"

text \<open>In a Python pattern \<open>$\<close> also matches before a line break at the end.\<close>

definition before_end :: "pstr \<Rightarrow> pstr" where
  "before_end s = (if s \<noteq> [] \<and> last s = 10 then butlast s else s)"

definition safe_host_char :: "nat \<Rightarrow> bool" where
  "safe_host_char c \<longleftrightarrow> 97 \<le> c \<and> c \<le> 122 \<or> is_digit_c c \<or> c = 46 \<or> c = 45"

definition SAFE_HOSTNAME_RE :: "pstr \<Rightarrow> bool" where
  "SAFE_HOSTNAME_RE s \<longleftrightarrow> before_end s \<noteq> [] \<and> list_all safe_host_char (before_end s)"

definition IP_RE :: "pstr \<Rightarrow> bool" where
  "IP_RE s \<longleftrightarrow>
     (let parts = split_on (ch CHR ''.'') (before_end s)
      in length parts = 4 \<and> list_all (\<lambda>p. p \<noteq> [] \<and> list_all is_digit_c p) parts)"

definition last_two :: "'a list \<Rightarrow> 'a list" where
  "last_two xs = drop (length xs - 2) xs"

definition host_words :: "pstr \<Rightarrow> pstr" where
  "host_words hostname =
     (let parts = last_two (split_on (ch CHR ''.'') hostname);
          tld = py_lower (last parts);
          name = (if tld \<in> set STRIP_TLDS then hd parts else py_join (u ''.'') parts)
      in py_strip (py_replace (u ''-'') (u '' '') (py_replace (u ''.'') [] name)))"

definition hostname_to_site_name :: "pstr set \<Rightarrow> pstr \<Rightarrow> pstr" where
  "hostname_to_site_name words hostname =
     (if hostname = [] \<or> hostname = u ''localhost'' \<or> IP_RE hostname \<or> \<not> SAFE_HOSTNAME_RE hostname then FALLBACK_SITE_NAME
      else let name = host_words hostname;
               name = (if \<not> py_in (u '' '') name \<and> words \<noteq> {}
                       then (case split_words name words of None \<Rightarrow> name | Some ws \<Rightarrow> py_join (u '' '') ws)
                       else name);
               name = py_title name
           in if list_ex py_isalnum_c name then name else FALLBACK_SITE_NAME)"

section \<open>Correctness of the splitting\<close>

text \<open>The attempt at one split point.\<close>

definition try_split :: "pstr set \<Rightarrow> pstr \<Rightarrow> nat \<Rightarrow> pstr list option" where
  "try_split words sub k =
     (case (if take k sub \<in> words then map_option (\<lambda>rest. take k sub # rest) (split_sub words (drop k sub)) else None) of
        Some ws \<Rightarrow> Some ws
      | None \<Rightarrow> if drop k sub \<in> words then map_option (\<lambda>rest. rest @ [drop k sub]) (split_sub words (take k sub)) else None)"

lemma split_sub_cases:
  "split_sub words sub =
     (if sub \<in> words then Some [sub]
      else if length sub < MIN_WORD_LEN then None else first_some (try_split words sub) (split_points (length sub)))"
  by (subst split_sub.simps) (simp add: try_split_def Let_def cong: first_some_cong)

lemma try_split_SomeE:
  assumes "try_split words sub k = Some ws"
  obtains (left) rest where "take k sub \<in> words" "split_sub words (drop k sub) = Some rest" "ws = take k sub # rest"
  | (right) rest where "drop k sub \<in> words" "split_sub words (take k sub) = Some rest" "ws = rest @ [drop k sub]"
  using assms by (auto simp: try_split_def split: option.splits if_splits)

lemma split_sub_sound: "split_sub words sub = Some ws \<Longrightarrow> ws \<noteq> [] \<and> concat ws = sub \<and> set ws \<subseteq> words"
proof (induction "length sub" arbitrary: sub ws rule: less_induct)
  case less
  show ?case
  proof (cases "sub \<in> words")
    case True
    with less.prems show ?thesis by (auto simp: split_sub_cases)
  next
    case False
    with less.prems have "first_some (try_split words sub) (split_points (length sub)) = Some ws"
      by (auto simp: split_sub_cases [of words sub] split: if_splits)
    then obtain k where k: "1 \<le> k" "k < length sub" and ws: "try_split words sub k = Some ws"
      by (auto dest!: first_some_SomeD)
    from ws show ?thesis
    proof (cases rule: try_split_SomeE)
      case (left rest)
      with less.hyps [of "drop k sub" rest] k show ?thesis by auto
    next
      case (right rest)
      with less.hyps [of "take k sub" rest] k show ?thesis by auto
    qed
  qed
qed

lemma split_sub_complete:
  assumes "\<forall>w \<in> words. MIN_WORD_LEN \<le> length w" "ws \<noteq> []" "set ws \<subseteq> words"
  shows "split_sub words (concat ws) \<noteq> None"
  using assms(2,3)
proof (induction ws)
  case (Cons w ws)
  show ?case
  proof (cases "ws = [] \<or> concat (w # ws) \<in> words")
    case True
    with Cons.prems show ?thesis by (auto simp: split_sub_cases)
  next
    case False
    let ?s = "concat (w # ws)"
    have w: "MIN_WORD_LEN \<le> length w" "MIN_WORD_LEN \<le> length (concat ws)"
      using assms(1) Cons.prems False by (cases ws; auto)+
    have "length ?s = length w + length (concat ws)" by simp
    with w have k: "length w \<in> set (split_points (length ?s))"
      unfolding set_split_points MIN_WORD_LEN_def atLeastLessThan_iff by linarith
    have "split_sub words (concat ws) \<noteq> None" using Cons False by auto
    then have "try_split words ?s (length w) \<noteq> None" using Cons.prems by (auto simp: try_split_def)
    with k have "first_some (try_split words ?s) (split_points (length ?s)) \<noteq> None"
      by (auto simp: first_some_None simp del: concat.simps)
    moreover have "\<not> length ?s < MIN_WORD_LEN" "?s \<notin> words" using w False by simp_all
    ultimately show ?thesis by (simp only: split_sub_cases [of words ?s] if_False not_False_eq_True)
  qed
qed simp

section \<open>The site name has no markup\<close>

definition name_char :: "nat \<Rightarrow> bool" where
  "name_char c \<longleftrightarrow> 97 \<le> c \<and> c \<le> 122 \<or> 65 \<le> c \<and> c \<le> 90 \<or> is_digit_c c \<or> c = 32"

lemma name_char_cases: "name_char c \<Longrightarrow> name_char (lower_c c) \<and> list_all name_char (title_c c)"
  by (auto simp: name_char_def lower_c_def is_upper_c_def title_c_def upper_c_def is_digit_c_def)

lemma py_title_name_chars: "list_all name_char s \<Longrightarrow> list_all name_char (py_title_from b s)"
  by (induction b s rule: py_title_from.induct) (auto simp: name_char_cases)

lemma split_on_parts: "p \<in> set (split_on d s) \<Longrightarrow> set p \<subseteq> set s"
proof (induction s arbitrary: p)
  case (Cons c s)
  then show ?case by (fastforce split: if_splits list.splits)
qed simp

lemma split_on_snoc:
  "c \<noteq> d \<Longrightarrow> split_on d (s @ [c]) = butlast (split_on d s) @ [last (split_on d s) @ [c]]"
  by (induction s) (auto split: list.splits)

lemma py_join_snoc: "ws \<noteq> [] \<Longrightarrow> py_join sep (butlast ws @ [last ws @ t]) = py_join sep ws @ t"
  by (induction sep ws rule: py_join.induct) auto

lemma last_two_snoc: "ws \<noteq> [] \<Longrightarrow> last_two (butlast ws @ [last ws @ t]) = butlast (last_two ws) @ [last (last_two ws) @ t]"
  by (cases ws rule: rev_cases) (auto simp: last_two_def)

lemma last_two_Nil [simp]: "last_two ws = [] \<longleftrightarrow> ws = []"
  by (cases ws) (auto simp: last_two_def)

lemma set_last_two: "set (last_two ws) \<subseteq> set ws"
  by (auto simp: last_two_def dest: in_set_dropD)

text \<open>The text before dots and hyphens are replaced, for a host with only safe characters.\<close>

lemma host_parts_chars:
  assumes "list_all safe_host_char s"
  shows "\<forall>p \<in> set (last_two (split_on d s)). list_all safe_host_char p"
proof
  fix p
  assume "p \<in> set (last_two (split_on d s))"
  then have "set p \<subseteq> set s" by (meson split_on_parts set_last_two subsetD)
  with assms show "list_all safe_host_char p" by (auto simp: list_all_iff)
qed

lemma join_safe_chars: "\<forall>p \<in> set ps. list_all safe_host_char p \<Longrightarrow> list_all safe_host_char (py_join (u ''.'') ps)"
proof -
  assume ps: "\<forall>p \<in> set ps. list_all safe_host_char p"
  have "safe_host_char 46" by (simp add: safe_host_char_def)
  with ps set_py_join [of "u ''.''" ps] show ?thesis by (auto simp: list_all_iff)
qed

definition host_text :: "pstr \<Rightarrow> pstr" where
  "host_text name = py_replace (u ''-'') (u '' '') (py_replace (u ''.'') [] name)"

lemma host_text_append: "host_text (s @ t) = host_text s @ host_text t"
  by (simp add: host_text_def py_replace_single)

lemma host_text_chars: "list_all safe_host_char s \<Longrightarrow> list_all name_char (host_text s)"
  by (auto simp: host_text_def py_replace_single list_all_iff safe_host_char_def name_char_def)

lemma strip_chars: "list_all P s \<Longrightarrow> list_all P (py_strip s)"
  using set_py_strip [of s] by (auto simp: list_all_iff)

lemma strip_line_break: "py_strip (s @ [10]) = py_strip s"
proof (cases "\<forall>c \<in> set s. py_isspace_c c")
  case True
  then have "dropWhile py_isspace_c s = []" "dropWhile py_isspace_c (s @ [10]) = []"
    by (auto simp: py_isspace_c_def)
  then show ?thesis unfolding py_strip_def py_lstrip_def by (simp only:)
next
  case False
  then have "dropWhile py_isspace_c (s @ [10]) = dropWhile py_isspace_c s @ [10]"
    by (simp add: dropWhile_append)
  then show ?thesis by (simp add: py_strip_def py_lstrip_def rstrip_of_def py_isspace_c_def)
qed

lemma host_words_chars:
  assumes "SAFE_HOSTNAME_RE hostname"
  shows "list_all name_char (host_words hostname)"
proof -
  let ?d = "ch CHR ''.''"
  define s where "s = before_end hostname"
  define ps where "ps = last_two (split_on ?d s)"
  have safe: "list_all safe_host_char s" using assms by (simp add: SAFE_HOSTNAME_RE_def s_def)
  have ps: "ps \<noteq> []" "\<forall>p \<in> set ps. list_all safe_host_char p"
    using host_parts_chars [OF safe] by (auto simp: ps_def)
  then have "list_all safe_host_char (hd ps)" "list_all safe_host_char (py_join (u ''.'') ps)"
    using join_safe_chars by auto
  note ok = this [THEN host_text_chars, THEN strip_chars]
  consider "hostname = s" | "hostname = s @ [10]"
    unfolding s_def before_end_def by (metis append_butlast_last_id)
  then show ?thesis
  proof cases
    case 1
    with ok show ?thesis by (simp add: host_words_def Let_def ps_def host_text_def)
  next
    case 2
    have parts: "last_two (split_on ?d hostname) = butlast ps @ [last ps @ [10]]"
      unfolding 2 ps_def by (subst split_on_snoc) (simp_all add: last_two_snoc)
    have "10 \<notin> \<Union> (set ` set STRIP_TLDS)" by code_simp
    then have "py_lower (last ps @ [10]) \<notin> set STRIP_TLDS"
      by (auto simp: lower_c_def is_upper_c_def)
    then have "host_words hostname = py_strip (host_text (py_join (u ''.'') (butlast ps @ [last ps @ [10]])))"
      unfolding host_words_def Let_def parts host_text_def by (simp only: last_snoc if_False)
    also have "\<dots> = py_strip (host_text (py_join (u ''.'') ps) @ [10])"
      using ps(1) by (simp add: py_join_snoc host_text_append) (simp add: host_text_def py_replace_single)
    finally show ?thesis using ok(2) by (simp add: strip_line_break)
  qed
qed

section \<open>Properties\<close>

text \<open>
  Splitting a host name into words is exact: a result is a list of dictionary words that spell the
  text, and when every word of the dictionary has the minimum length there is a result whenever the text
  can be spelled at all, although the search only ever takes a word off one end.
\<close>
theorem split_words_correct:
  assumes "\<forall>w \<in> words. MIN_WORD_LEN \<le> length w" "py_isalpha s"
  shows "(case split_words s words of
            Some ws \<Rightarrow> concat ws = s \<and> set ws \<subseteq> words
          | None \<Rightarrow> \<not> (\<exists>ws. concat ws = s \<and> set ws \<subseteq> words))"
proof (cases "split_sub words s")
  case (Some ws)
  with split_sub_sound [OF Some] assms(2) show ?thesis by (simp add: split_words_def)
next
  case None
  have "ws \<noteq> []" if "concat ws = s" for ws using that assms(2) by (auto simp: py_isalpha_def)
  then have "\<not> set ws \<subseteq> words" if "concat ws = s" for ws
    using split_sub_complete [OF assms(1), of ws] None that by metis
  with None assms(2) show ?thesis by (auto simp: split_words_def)
qed

theorem split_words_correct_witness:
  "case split_words (u ''brushwagg'') {u ''brush'', u ''wagg'', u ''rush''} of
     Some ws \<Rightarrow> concat ws = u ''brushwagg'' \<and> set ws \<subseteq> {u ''brush'', u ''wagg'', u ''rush''}
   | None \<Rightarrow> \<not> (\<exists>ws. concat ws = u ''brushwagg'' \<and> set ws \<subseteq> {u ''brush'', u ''wagg'', u ''rush''})"
  by (rule split_words_correct) (simp_all add: MIN_WORD_LEN_def py_isalpha_def py_isalpha_c_def)

text \<open>
  Whatever the host header holds, the site name put into the pages is not empty and has letters,
  digits and blanks only: no markup can be injected through it.
\<close>
theorem site_name_safe:
  "hostname_to_site_name words hostname \<noteq> [] \<and> list_all name_char (hostname_to_site_name words hostname)"
proof -
  have fallback: "list_all name_char FALLBACK_SITE_NAME" "FALLBACK_SITE_NAME \<noteq> []" by code_simp+
  show ?thesis
  proof (cases "hostname = [] \<or> hostname = u ''localhost'' \<or> IP_RE hostname \<or> \<not> SAFE_HOSTNAME_RE hostname")
    case True
    with fallback show ?thesis by (simp add: hostname_to_site_name_def)
  next
    case False
    define name where "name = host_words hostname"
    define split where "split =
      (if \<not> py_in (u '' '') name \<and> words \<noteq> {}
       then (case split_words name words of None \<Rightarrow> name | Some ws \<Rightarrow> py_join (u '' '') ws) else name)"
    have name: "list_all name_char name" unfolding name_def using False by (intro host_words_chars) simp
    have joined: "list_all name_char (py_join (u '' '') ws)" if "split_words name words = Some ws" for ws
    proof -
      have "\<Union> (set ` set ws) = set name"
        using that split_sub_sound [of words name ws] by (auto simp: split_words_def split: if_splits)
      moreover have "name_char 32" by (simp add: name_char_def)
      ultimately show ?thesis using name set_py_join [of "u '' ''" ws] by (auto simp: list_all_iff)
    qed
    then have "list_all name_char split" using name by (auto simp: split_def split: option.split)
    then have "list_all name_char (py_title split)" by (simp add: py_title_def py_title_name_chars)
    moreover have "hostname_to_site_name words hostname =
        (if list_ex py_isalnum_c (py_title split) then py_title split else FALLBACK_SITE_NAME)"
      unfolding split_def name_def hostname_to_site_name_def Let_def using False by (simp only: if_False)
    ultimately show ?thesis using fallback by auto
  qed
qed

end
