(* ===== verification/Bulk_Upsert.thy ===== *)
theory Bulk_Upsert
  imports Py_Prelude
begin

text \<open>
  The bulk upsert of \<open>src/api/db/bulk_upsert.py\<close>: the planning of the statement from the schema and the rows, and the
  meaning of the statement on a table. The catalogue queries of \<open>_schema_info\<close> are arguments, as is the conversion of a JSON value
  to a column of a type by the database. The constraints of the table other than the key of the conflict are not modelled.
\<close>

section \<open>Values and types\<close>

datatype 'a jval = JNull | JVal 'a

datatype 'd dbval = Null | Db 'd

type_synonym 'a dict_row = "(pstr \<times> 'a jval) list"

type_synonym 'd table_row = "pstr \<Rightarrow> 'd dbval"

record column_info =
  column_name :: pstr
  data_type :: pstr
  udt_name :: pstr

definition PG_TYPE :: "(pstr \<times> pstr) list" where
  "PG_TYPE =
     [(u ''bigint'', u ''bigint''), (u ''boolean'', u ''boolean''), (u ''character'', u ''text''),
      (u ''character varying'', u ''text''), (u ''date'', u ''date''), (u ''double precision'', u ''float8''),
      (u ''integer'', u ''integer''), (u ''json'', u ''json''), (u ''jsonb'', u ''jsonb''), (u ''numeric'', u ''numeric''),
      (u ''real'', u ''float4''), (u ''smallint'', u ''smallint''), (u ''text'', u ''text''),
      (u ''timestamp with time zone'', u ''timestamptz''), (u ''timestamp without time zone'', u ''timestamp''), (u ''uuid'', u ''uuid'')]"

definition col_pg_type :: "column_info \<Rightarrow> pstr" where
  "col_pg_type col =
     (if data_type col = u ''USER-DEFINED'' then udt_name col
      else case map_of PG_TYPE (data_type col) of Some t \<Rightarrow> t | None \<Rightarrow> u ''text'')"

section \<open>Planning\<close>

definition row_key :: "pstr list \<Rightarrow> 'a dict_row \<Rightarrow> 'a jval list result" where
  "row_key key_cols row = mapr (\<lambda>c. case map_of row c of None \<Rightarrow> Inl KeyError | Some v \<Rightarrow> Inr v) key_cols"

definition dedupe_rows :: "'a dict_row list \<Rightarrow> pstr list \<Rightarrow> 'a dict_row list result" where
  "dedupe_rows rows key_cols =
     bindr (mapr (row_key key_cols) rows) (\<lambda>keys.
     Inr (map snd (foldl (\<lambda>d (k, row). dict_set d k row) [] (zip keys rows))))"

text \<open>
  A statement: the columns it inserts, those it sets on a conflict, the columns of the conflict and the types
  the values are cast to.
\<close>

record upsert_stmt =
  active :: "pstr list"
  non_pk :: "pstr list"
  key_cols :: "pstr list"
  pg_types :: "(pstr \<times> pstr) list"

definition present_cols :: "column_info list \<Rightarrow> 'a dict_row list \<Rightarrow> pstr list" where
  "present_cols schema_cols rows =
     filter (\<lambda>c. list_ex (\<lambda>r. c \<in> set (map fst r)) rows) (map column_name schema_cols)"

definition plan_upsert ::
  "column_info list \<Rightarrow> pstr list \<Rightarrow> pstr list \<Rightarrow> pstr list \<Rightarrow> 'a dict_row list \<Rightarrow> (upsert_stmt \<times> 'a dict_row list) result" where
  "plan_upsert schema_cols pk_cols conflict_target skip_columns rows =
     (let pk_cols = (if conflict_target = [] then pk_cols else conflict_target)
      in if pk_cols = [] then Inl ValueError
         else bindr (dedupe_rows rows pk_cols) (\<lambda>rows.
           let active_cols = present_cols schema_cols rows
           in if list_ex (\<lambda>c. c \<notin> set active_cols) pk_cols then Inl ValueError
              else Inr (\<lparr>active = active_cols,
                         non_pk = filter (\<lambda>c. c \<notin> set pk_cols \<and> c \<notin> set skip_columns) active_cols,
                         key_cols = pk_cols,
                         pg_types = map (\<lambda>col. (column_name col, col_pg_type col)) (rev schema_cols)\<rparr>, rows)))"

section \<open>The statement\<close>

definition type_of :: "upsert_stmt \<Rightarrow> pstr \<Rightarrow> pstr" where
  "type_of stmt c = (case map_of (pg_types stmt) c of Some t \<Rightarrow> t | None \<Rightarrow> u ''text'')"

text \<open>
  \<open>obj->key\<close> keeps a JSON null as a JSON value; \<open>obj->>key\<close> with its cast makes it a null of the database. \<open>cast\<close> is the
  conversion of the database.
\<close>

definition extract_value :: "(pstr \<Rightarrow> 'a jval \<Rightarrow> 'd) \<Rightarrow> pstr \<Rightarrow> 'a jval \<Rightarrow> 'd dbval" where
  "extract_value cast t v =
     (if t = u ''jsonb'' \<or> t = u ''json'' then Db (cast t v)
      else case v of JNull \<Rightarrow> Null | JVal a \<Rightarrow> Db (cast t v))"

definition select_expr :: "(pstr \<Rightarrow> 'a jval \<Rightarrow> 'd) \<Rightarrow> upsert_stmt \<Rightarrow> 'd table_row option \<Rightarrow> 'a dict_row \<Rightarrow> pstr \<Rightarrow> 'd dbval" where
  "select_expr cast stmt existing obj c =
     (case map_of obj c of
        Some v \<Rightarrow> extract_value cast (type_of stmt c) v
      | None \<Rightarrow> (case existing of Some e \<Rightarrow> e c | None \<Rightarrow> Null))"

definition join_val :: "(pstr \<Rightarrow> 'a jval \<Rightarrow> 'd) \<Rightarrow> upsert_stmt \<Rightarrow> 'a dict_row \<Rightarrow> pstr \<Rightarrow> 'd dbval" where
  "join_val cast stmt obj c =
     (case map_of obj c of Some (JVal a) \<Rightarrow> Db (cast (type_of stmt c) (JVal a)) | _ \<Rightarrow> Null)"

definition join_key :: "(pstr \<Rightarrow> 'a jval \<Rightarrow> 'd) \<Rightarrow> upsert_stmt \<Rightarrow> 'a dict_row \<Rightarrow> 'd dbval list" where
  "join_key cast stmt obj = map (join_val cast stmt obj) (key_cols stmt)"

text \<open>The row of a table with a key; a null equals nothing.\<close>

definition find_row :: "pstr list \<Rightarrow> 'd dbval list \<Rightarrow> 'd table_row list \<Rightarrow> 'd table_row option" where
  "find_row kc k t = (if Null \<in> set k then None else List.find (\<lambda>r. map r kc = k) t)"

datatype upsert_error = Py exn | CardinalityViolation

definition new_row :: "(pstr \<Rightarrow> 'd dbval) \<Rightarrow> upsert_stmt \<Rightarrow> 'd table_row \<Rightarrow> 'd table_row" where
  "new_row dflt stmt proposed = (\<lambda>c. if c \<in> set (active stmt) then proposed c else dflt c)"

definition updated_row :: "upsert_stmt \<Rightarrow> 'd table_row \<Rightarrow> 'd table_row \<Rightarrow> 'd table_row" where
  "updated_row stmt proposed e = (\<lambda>c. if c \<in> set (non_pk stmt) then proposed c else e c)"

definition replace_row :: "pstr list \<Rightarrow> 'd dbval list \<Rightarrow> 'd table_row \<Rightarrow> 'd table_row list \<Rightarrow> 'd table_row list" where
  "replace_row kc k r t = map (\<lambda>r'. if map r' kc = k then r else r') t"

text \<open>
  The rows are inserted one after the other. The joined rows are those of the table before the statement, \<open>t0\<close>; a conflict is
  with a row of the table as it is. A row the same statement has inserted cannot be updated by it.
\<close>

fun insert_rows ::
  "(pstr \<Rightarrow> 'a jval \<Rightarrow> 'd) \<Rightarrow> (pstr \<Rightarrow> 'd dbval) \<Rightarrow> upsert_stmt \<Rightarrow> 'd table_row list \<Rightarrow>
   'd dbval list list \<Rightarrow> 'd table_row list \<Rightarrow> 'a dict_row list \<Rightarrow> upsert_error + (nat \<times> nat \<times> 'd table_row list)" where
  "insert_rows cast dflt stmt t0 touched t [] = Inr (0, 0, t)"
| "insert_rows cast dflt stmt t0 touched t (obj # objs) =
     (let kc = key_cols stmt;
          proposed = select_expr cast stmt (find_row kc (join_key cast stmt obj) t0) obj;
          k = map proposed kc
      in case find_row kc k t of
           None \<Rightarrow>
             bindr (insert_rows cast dflt stmt t0 (k # touched) (t @ [new_row dflt stmt proposed]) objs) (\<lambda>(ins, upd, t).
             Inr (Suc ins, upd, t))
         | Some e \<Rightarrow>
             if non_pk stmt = [] then insert_rows cast dflt stmt t0 touched t objs
             else if k \<in> set touched then Inl CardinalityViolation
             else if map e (non_pk stmt) = map proposed (non_pk stmt) then insert_rows cast dflt stmt t0 touched t objs
             else bindr (insert_rows cast dflt stmt t0 (k # touched) (replace_row kc k (updated_row stmt proposed e) t) objs)
                    (\<lambda>(ins, upd, t). Inr (ins, Suc upd, t)))"

record upsert_counts =
  inserted :: nat
  updated :: nat
  unchanged :: int

definition bulk_upsert ::
  "(pstr \<Rightarrow> 'a jval \<Rightarrow> 'd) \<Rightarrow> (pstr \<Rightarrow> 'd dbval) \<Rightarrow> column_info list \<Rightarrow> pstr list \<Rightarrow> pstr list \<Rightarrow> pstr list \<Rightarrow>
   'a dict_row list \<Rightarrow> 'd table_row list \<Rightarrow> upsert_error + (upsert_counts \<times> 'd table_row list)" where
  "bulk_upsert cast dflt schema_cols pk_cols conflict_target skip_columns rows t =
     (if rows = [] then Inr (\<lparr>inserted = 0, updated = 0, unchanged = 0\<rparr>, t)
      else case plan_upsert schema_cols pk_cols conflict_target skip_columns rows of
             Inl e \<Rightarrow> Inl (Py e)
           | Inr (stmt, rows) \<Rightarrow>
               bindr (insert_rows cast dflt stmt t [] t rows) (\<lambda>(ins, upd, t).
               Inr (\<lparr>inserted = ins, updated = upd, unchanged = int (length rows) - int (ins + upd)\<rparr>, t)))"

section \<open>Rows of a table by their key\<close>

lemma find_row_append:
  assumes "Null \<notin> set (map r kc)" and "find_row kc (map r kc) t = None"
  shows "find_row kc k (t @ [r]) = (if k = map r kc then Some r else find_row kc k t)"
  using assms by (auto simp: find_row_def find_append split: option.splits)

lemma find_row_replace:
  assumes "map r kc = k0" and "find_row kc k0 t \<noteq> None"
  shows "find_row kc k (replace_row kc k0 r t) = (if k = k0 then Some r else find_row kc k t)"
proof -
  have "List.find (\<lambda>r. map r kc = k) (replace_row kc k0 r t) =
      (if k = k0 then (if List.find (\<lambda>r. map r kc = k0) t = None then None else Some r) else List.find (\<lambda>r. map r kc = k) t)"
    using assms(1) by (induction t) (auto simp: replace_row_def)
  with assms(2) show ?thesis by (auto simp: find_row_def split: if_splits)
qed

lemma find_row_Some: "find_row kc k t = Some e \<Longrightarrow> map e kc = k \<and> e \<in> set t"
  by (auto simp: find_row_def find_Some_iff split: if_splits)

lemma keys_replace: "map r kc = k0 \<Longrightarrow> map (\<lambda>r. map r kc) (replace_row kc k0 r t) = map (\<lambda>r. map r kc) t"
  by (auto simp: replace_row_def)

lemma keys_append:
  assumes "Null \<notin> set (map r kc)" and "find_row kc (map r kc) t = None" and "distinct (map (\<lambda>r. map r kc) t)"
  shows "distinct (map (\<lambda>r. map r kc) (t @ [r]))"
  using assms by (auto simp: find_row_def find_None_iff)

section \<open>The effect of the statement\<close>

definition typed_keys :: "upsert_stmt \<Rightarrow> bool" where
  "typed_keys stmt \<longleftrightarrow>
     list_all (\<lambda>c. type_of stmt c \<noteq> u ''json'' \<and> type_of stmt c \<noteq> u ''jsonb'' \<and> c \<in> set (active stmt) \<and> c \<notin> set (non_pk stmt)) (key_cols stmt)"

definition keyed :: "upsert_stmt \<Rightarrow> 'a dict_row \<Rightarrow> bool" where
  "keyed stmt obj \<longleftrightarrow> list_all (\<lambda>c. \<exists>a. map_of obj c = Some (JVal a)) (key_cols stmt)"

lemma proposed_key:
  "typed_keys stmt \<Longrightarrow> keyed stmt obj \<Longrightarrow> map (select_expr cast stmt e obj) (key_cols stmt) = join_key cast stmt obj"
  by (fastforce simp: typed_keys_def keyed_def list_all_iff join_key_def join_val_def select_expr_def extract_value_def)

lemma keyed_not_null: "keyed stmt obj \<Longrightarrow> Null \<notin> set (join_key cast stmt obj)"
  by (fastforce simp: keyed_def list_all_iff join_key_def join_val_def)

text \<open>What becomes of the row a dictionary names: a new row, or the existing one with the columns set.\<close>

definition upserted :: "(pstr \<Rightarrow> 'a jval \<Rightarrow> 'd) \<Rightarrow> (pstr \<Rightarrow> 'd dbval) \<Rightarrow> upsert_stmt \<Rightarrow> 'a dict_row \<Rightarrow> 'd table_row option \<Rightarrow> 'd table_row" where
  "upserted cast dflt stmt obj existing =
     (case existing of
        None \<Rightarrow> new_row dflt stmt (select_expr cast stmt None obj)
      | Some e \<Rightarrow> updated_row stmt (select_expr cast stmt (Some e) obj) e)"

lemma new_row_key:
  "typed_keys stmt \<Longrightarrow> map (new_row dflt stmt p) (key_cols stmt) = map p (key_cols stmt)"
  by (auto simp: typed_keys_def list_all_iff new_row_def)

lemma updated_row_key: "typed_keys stmt \<Longrightarrow> map (updated_row stmt p e) (key_cols stmt) = map e (key_cols stmt)"
  by (auto simp: typed_keys_def list_all_iff updated_row_def)

lemma updated_row_same: "updated_row stmt p e = e \<longleftrightarrow> map e (non_pk stmt) = map p (non_pk stmt)"
  by (auto simp: updated_row_def fun_eq_iff)

definition inserts :: "(pstr \<Rightarrow> 'a jval \<Rightarrow> 'd) \<Rightarrow> upsert_stmt \<Rightarrow> 'd table_row list \<Rightarrow> 'a dict_row \<Rightarrow> bool" where
  "inserts cast stmt t obj \<longleftrightarrow> find_row (key_cols stmt) (join_key cast stmt obj) t = None"

definition changes :: "(pstr \<Rightarrow> 'a jval \<Rightarrow> 'd) \<Rightarrow> (pstr \<Rightarrow> 'd dbval) \<Rightarrow> upsert_stmt \<Rightarrow> 'd table_row list \<Rightarrow> 'a dict_row \<Rightarrow> bool" where
  "changes cast dflt stmt t obj \<longleftrightarrow>
     (\<exists>e. find_row (key_cols stmt) (join_key cast stmt obj) t = Some e \<and> upserted cast dflt stmt obj (Some e) \<noteq> e)"

lemma insert_rows_correct:
  assumes "typed_keys stmt" and "\<And>obj. obj \<in> set objs \<Longrightarrow> keyed stmt obj"
    and "distinct (map (join_key cast stmt) objs)"
    and "\<And>obj. obj \<in> set objs \<Longrightarrow> join_key cast stmt obj \<notin> set touched \<and>
           find_row (key_cols stmt) (join_key cast stmt obj) t = find_row (key_cols stmt) (join_key cast stmt obj) t0"
    and "distinct (map (\<lambda>r. map r (key_cols stmt)) t)"
  shows "\<exists>t'. insert_rows cast dflt stmt t0 touched t objs =
             Inr (length (filter (inserts cast stmt t0) objs), length (filter (changes cast dflt stmt t0) objs), t') \<and>
           distinct (map (\<lambda>r. map r (key_cols stmt)) t') \<and>
           (\<forall>k. find_row (key_cols stmt) k t' =
             (case List.find (\<lambda>obj. join_key cast stmt obj = k) objs of
                None \<Rightarrow> find_row (key_cols stmt) k t
              | Some obj \<Rightarrow> Some (upserted cast dflt stmt obj (find_row (key_cols stmt) k t0))))"
  using assms
proof (induction objs arbitrary: touched t)
  case (Cons obj objs)
  let ?kc = "key_cols stmt"
  let ?k = "join_key cast stmt obj"
  let ?p = "select_expr cast stmt (find_row ?kc ?k t0) obj"
  have obj: "keyed stmt obj" using Cons.prems(2) by simp
  have k: "map ?p ?kc = ?k" "Null \<notin> set ?k" "?k \<notin> set touched" "find_row ?kc ?k t = find_row ?kc ?k t0"
    "?k \<notin> set (map (join_key cast stmt) objs)"
    using Cons.prems(3) Cons.prems(4) [of obj] proposed_key [OF Cons.prems(1) obj] keyed_not_null [OF obj] by auto
  have none: "List.find (\<lambda>obj. join_key cast stmt obj = ?k) objs = None"
    using k(5) by (auto simp: find_None_iff) (metis image_eqI)
  have rest: "\<exists>t''. insert_rows cast dflt stmt t0 touched' t' objs =
             Inr (length (filter (inserts cast stmt t0) objs), length (filter (changes cast dflt stmt t0) objs), t'') \<and>
           distinct (map (\<lambda>r. map r ?kc) t'') \<and>
           (\<forall>k. find_row ?kc k t'' =
             (case List.find (\<lambda>obj. join_key cast stmt obj = k) objs of
                None \<Rightarrow> find_row ?kc k t'
              | Some obj \<Rightarrow> Some (upserted cast dflt stmt obj (find_row ?kc k t0))))"
    if "set touched' \<subseteq> insert ?k (set touched)" "\<And>k. k \<noteq> ?k \<Longrightarrow> find_row ?kc k t' = find_row ?kc k t" "distinct (map (\<lambda>r. map r ?kc) t')"
    for touched' t'
  proof (rule Cons.IH)
    fix obj' assume mem: "obj' \<in> set objs"
    then have "join_key cast stmt obj' \<noteq> ?k" using k(5) by (metis image_eqI image_set)
    with mem that Cons.prems(2) [of obj'] Cons.prems(4) [of obj']
    show "join_key cast stmt obj' \<notin> set touched' \<and>
        find_row ?kc (join_key cast stmt obj') t' = find_row ?kc (join_key cast stmt obj') t0" by auto
  qed (use that Cons.prems in auto)
  have final: "\<forall>k. find_row ?kc k t'' =
      (case List.find (\<lambda>obj. join_key cast stmt obj = k) (obj # objs) of
         None \<Rightarrow> find_row ?kc k t
       | Some obj \<Rightarrow> Some (upserted cast dflt stmt obj (find_row ?kc k t0)))"
    if "\<forall>k. find_row ?kc k t'' =
      (case List.find (\<lambda>obj. join_key cast stmt obj = k) objs of
         None \<Rightarrow> find_row ?kc k t'
       | Some obj \<Rightarrow> Some (upserted cast dflt stmt obj (find_row ?kc k t0)))"
      and "\<And>k. find_row ?kc k t' = (if k = ?k then Some (upserted cast dflt stmt obj (find_row ?kc ?k t0)) else find_row ?kc k t)"
    for t' t''
  proof
    fix k
    show "find_row ?kc k t'' =
      (case List.find (\<lambda>obj. join_key cast stmt obj = k) (obj # objs) of
         None \<Rightarrow> find_row ?kc k t
       | Some obj \<Rightarrow> Some (upserted cast dflt stmt obj (find_row ?kc k t0)))"
      using none spec [OF that(1), of k] that(2) [of k] by (cases "k = ?k") (simp_all split: option.splits)
  qed
  show ?case
  proof (cases "find_row ?kc ?k t0")
    case None
    define r where "r = new_row dflt stmt ?p"
    have r: "map r ?kc = ?k" using Cons.prems(1) k(1) by (simp add: r_def new_row_key)
    then have find: "find_row ?kc k (t @ [r]) = (if k = ?k then Some r else find_row ?kc k t)" for k
      using k None find_row_append [of r ?kc t k] by simp
    have dist: "distinct (map (\<lambda>r. map r ?kc) (t @ [r]))"
      using k None r Cons.prems(5) by (intro keys_append) simp_all
    have up: "upserted cast dflt stmt obj None = r" by (simp add: upserted_def r_def None)
    have step: "insert_rows cast dflt stmt t0 touched t (obj # objs) =
        bindr (insert_rows cast dflt stmt t0 (?k # touched) (t @ [r]) objs) (\<lambda>(ins, upd, t). Inr (Suc ins, upd, t))"
      using k None by (simp add: r_def Let_def)
    have flags: "inserts cast stmt t0 obj" "\<not> changes cast dflt stmt t0 obj"
      using None by (simp_all add: inserts_def changes_def)
    obtain t'' where t'': "insert_rows cast dflt stmt t0 (?k # touched) (t @ [r]) objs =
        Inr (length (filter (inserts cast stmt t0) objs), length (filter (changes cast dflt stmt t0) objs), t'')"
      "distinct (map (\<lambda>r. map r ?kc) t'')"
      and find'': "\<forall>k. find_row ?kc k t'' = (case List.find (\<lambda>obj. join_key cast stmt obj = k) objs of
         None \<Rightarrow> find_row ?kc k (t @ [r]) | Some obj \<Rightarrow> Some (upserted cast dflt stmt obj (find_row ?kc k t0)))"
      using rest [of "?k # touched" "t @ [r]"] find dist by auto
    show ?thesis
      using final [OF find''] find up None t'' by (intro exI [of _ t'']) (simp add: step flags del: insert_rows.simps)
  next
    case (Some e)
    define r where "r = updated_row stmt ?p e"
    have e: "map e ?kc = ?k" using Some find_row_Some by blast
    have r: "map r ?kc = ?k" using Cons.prems(1) e by (simp add: r_def updated_row_key)
    have up: "upserted cast dflt stmt obj (Some e) = r" by (simp add: upserted_def r_def Some)
    have flags: "\<not> inserts cast stmt t0 obj" "changes cast dflt stmt t0 obj \<longleftrightarrow> r \<noteq> e"
      using Some up by (simp_all add: inserts_def changes_def)
    show ?thesis
    proof (cases "r = e")
      case True
      then have step: "insert_rows cast dflt stmt t0 touched t (obj # objs) = insert_rows cast dflt stmt t0 touched t objs"
        using k Some updated_row_same [of stmt ?p e] by (simp add: r_def Let_def)
      obtain t'' where t'': "insert_rows cast dflt stmt t0 touched t objs =
          Inr (length (filter (inserts cast stmt t0) objs), length (filter (changes cast dflt stmt t0) objs), t'')"
        "distinct (map (\<lambda>r. map r ?kc) t'')"
        and find'': "\<forall>k. find_row ?kc k t'' = (case List.find (\<lambda>obj. join_key cast stmt obj = k) objs of
           None \<Rightarrow> find_row ?kc k t | Some obj \<Rightarrow> Some (upserted cast dflt stmt obj (find_row ?kc k t0)))"
        using rest [of touched t] Cons.prems(5) by auto
      show ?thesis
        using final [OF find''] up Some t'' True k(4) by (intro exI [of _ t'']) (simp add: step flags del: insert_rows.simps)
    next
      case False
      have find: "find_row ?kc k (replace_row ?kc ?k r t) = (if k = ?k then Some r else find_row ?kc k t)" for k
        using r k Some by (intro find_row_replace) simp_all
      have dist: "distinct (map (\<lambda>r. map r ?kc) (replace_row ?kc ?k r t))"
        using Cons.prems(5) keys_replace [OF r] by simp
      have "map e (non_pk stmt) \<noteq> map ?p (non_pk stmt)" "non_pk stmt \<noteq> []"
        using False updated_row_same [of stmt ?p e] by (auto simp: r_def)
      then have step: "insert_rows cast dflt stmt t0 touched t (obj # objs) =
          bindr (insert_rows cast dflt stmt t0 (?k # touched) (replace_row ?kc ?k r t) objs) (\<lambda>(ins, upd, t). Inr (ins, Suc upd, t))"
        using k Some by (auto simp: r_def Let_def)
      obtain t'' where t'': "insert_rows cast dflt stmt t0 (?k # touched) (replace_row ?kc ?k r t) objs =
          Inr (length (filter (inserts cast stmt t0) objs), length (filter (changes cast dflt stmt t0) objs), t'')"
        "distinct (map (\<lambda>r. map r ?kc) t'')"
        and find'': "\<forall>k. find_row ?kc k t'' = (case List.find (\<lambda>obj. join_key cast stmt obj = k) objs of
           None \<Rightarrow> find_row ?kc k (replace_row ?kc ?k r t) | Some obj \<Rightarrow> Some (upserted cast dflt stmt obj (find_row ?kc k t0)))"
        using rest [of "?k # touched" "replace_row ?kc ?k r t"] find dist by auto
      show ?thesis
        using final [OF find''] find up Some t'' False by (intro exI [of _ t'']) (simp add: step flags del: insert_rows.simps)
    qed
  qed
qed simp

section \<open>Duplicate rows\<close>

lemma mapr_Inr_set: "mapr f xs = Inr ys \<Longrightarrow> (x, y) \<in> set (zip xs ys) \<Longrightarrow> f x = Inr y"
  by (induction xs arbitrary: ys) (auto simp: bindr_Inr_iff)

lemma dedupe_rows_spec:
  assumes "dedupe_rows rows kc = Inr rows'"
  shows "\<exists>d. rows' = map snd d \<and> distinct (map fst d) \<and> (\<forall>(k, row) \<in> set d. row_key kc row = Inr k \<and> row \<in> set rows) \<and>
    (\<forall>row \<in> set rows. \<exists>k. row_key kc row = Inr k \<and> k \<in> set (map fst d)) \<and>
    (\<forall>k. map_of d k = List.find (\<lambda>row. row_key kc row = Inr k) (rev rows))"
proof -
  obtain keys where keys: "mapr (row_key kc) rows = Inr keys"
    and rows': "rows' = map snd (foldl (\<lambda>d (k, row). dict_set d k row) [] (zip keys rows))"
    using assms by (auto simp: dedupe_rows_def bindr_Inr_iff)
  define d where "d = foldl (\<lambda>d (k, row). dict_set d k row) [] (zip keys rows)"
  have d: "distinct (map fst d)" "map_of d = map_of (rev (zip keys rows))"
    using distinct_foldl_dict_set [of "[]" "zip keys rows"] by (simp_all add: d_def map_of_foldl_dict_set)
  have len: "length keys = length rows" using keys by (rule mapr_Inr_length)
  have pair: "row_key kc row = Inr k \<and> row \<in> set rows" if "(k, row) \<in> set (zip keys rows)" for k row
    using that mapr_Inr_set [OF keys, of row k] by (auto simp: set_zip)
  have "(k, row) \<in> set (zip keys rows)" if "(k, row) \<in> set d" for k row
    using that d by (metis map_of_eq_Some_iff map_of_SomeD set_rev)
  then have "\<forall>(k, row) \<in> set d. row_key kc row = Inr k \<and> row \<in> set rows" using pair by auto
  moreover have "map_of (rev (zip keys rows)) k = List.find (\<lambda>row. row_key kc row = Inr k) (rev rows)" for k
    using keys
  proof (induction rows arbitrary: keys)
    case (Cons row rows)
    then obtain k' keys' where "keys = k' # keys'" "row_key kc row = Inr k'" "mapr (row_key kc) rows = Inr keys'"
      by (auto simp: bindr_Inr_iff)
    with Cons.IH show ?case
      by (auto simp: map_add_def find_append split: option.splits)
  qed simp
  moreover have "\<exists>k. row_key kc row = Inr k \<and> k \<in> set (map fst d)" if row: "row \<in> set rows" for row
  proof -
    obtain i where i: "i < length rows" "row = rows ! i" using row by (auto simp: in_set_conv_nth)
    then have mem: "(keys ! i, row) \<in> set (zip keys rows)" using len by (auto simp: set_zip)
    then have "map_of (rev (zip keys rows)) (keys ! i) \<noteq> None" by (auto simp: map_of_eq_None_iff) (metis fst_conv image_eqI)
    then have "keys ! i \<in> fst ` set d" using d(2) by (metis map_of_eq_None_iff)
    then show ?thesis using pair [OF mem] by auto
  qed
  ultimately show ?thesis using d rows' by (intro exI [of _ d]) (simp add: d_def)
qed

lemma row_key_join:
  assumes "keyed stmt obj" and "row_key (key_cols stmt) obj = Inr k"
  shows "join_key cast stmt obj = map2 (\<lambda>c v. Db (cast (type_of stmt c) v)) (key_cols stmt) k"
proof -
  have "mapr (\<lambda>c. case map_of obj c of None \<Rightarrow> Inl KeyError | Some v \<Rightarrow> Inr v) cs = Inr k \<Longrightarrow>
      list_all (\<lambda>c. \<exists>a. map_of obj c = Some (JVal a)) cs \<Longrightarrow>
      map (join_val cast stmt obj) cs = map2 (\<lambda>c v. Db (cast (type_of stmt c) v)) cs k" for cs
    by (induction cs arbitrary: k) (auto simp: bindr_Inr_iff join_val_def)
  with assms show ?thesis unfolding row_key_def keyed_def join_key_def by blast
qed

definition key_casts_inj :: "(pstr \<Rightarrow> 'a jval \<Rightarrow> 'd) \<Rightarrow> upsert_stmt \<Rightarrow> bool" where
  "key_casts_inj cast stmt \<longleftrightarrow> (\<forall>c \<in> set (key_cols stmt). inj (\<lambda>a. cast (type_of stmt c) (JVal a)))"

lemma join_key_iff:
  assumes "keyed stmt a" and "keyed stmt b" and "key_casts_inj cast stmt"
    and "row_key (key_cols stmt) a = Inr k" and "row_key (key_cols stmt) b = Inr k'"
  shows "join_key cast stmt a = join_key cast stmt b \<longleftrightarrow> k = k'"
proof
  assume "join_key cast stmt a = join_key cast stmt b"
  then have "map_of a c = map_of b c" if "c \<in> set (key_cols stmt)" for c
    using that assms(1,2,3) by (fastforce simp: join_key_def join_val_def keyed_def key_casts_inj_def list_all_iff inj_def)
  then have "row_key (key_cols stmt) a = row_key (key_cols stmt) b"
    unfolding row_key_def by (intro mapr_cong) simp_all
  with assms(4,5) show "k = k'" by simp
next
  assume "k = k'"
  with assms row_key_join show "join_key cast stmt a = join_key cast stmt b" by metis
qed

section \<open>The upsert\<close>

lemma plan_upsert_stmt:
  assumes "plan_upsert schema_cols pk_cols conflict_target skip_columns rows = Inr (stmt, rows')"
  shows "dedupe_rows rows (key_cols stmt) = Inr rows'"
    and "list_all (\<lambda>c. c \<in> set (active stmt) \<and> c \<notin> set (non_pk stmt)) (key_cols stmt)"
    and "set (non_pk stmt) \<subseteq> set (active stmt)"
  using assms by (auto simp: plan_upsert_def bindr_Inr_iff Let_def list_all_iff list_ex_iff split: if_splits)

lemma find_map_of:
  assumes "distinct (map fst d)" and "\<forall>(k, row) \<in> set d. f row = g k" and "inj_on g (insert k (fst ` set d))"
  shows "List.find (\<lambda>row. f row = g k) (map snd d) = map_of d k"
  using assms
proof (induction d)
  case (Cons p d)
  obtain k' row where p: "p = (k', row)" by fastforce
  have "inj_on g (insert k (fst ` set d))"
    using Cons.prems(3) by (auto intro: inj_on_subset)
  with Cons p have IH: "List.find (\<lambda>row. f row = g k) (map snd d) = map_of d k" by auto
  have "f row = g k'" using Cons.prems(2) p by simp
  moreover have "g k' = g k \<longleftrightarrow> k' = k"
    using Cons.prems(3) p by (auto simp: inj_on_def)
  ultimately show ?case using IH p by simp
qed simp

text \<open>
  The rows a statement works on: one for each key, the last one given.
\<close>

lemma deduped:
  assumes "dedupe_rows rows (key_cols stmt) = Inr rows'" and "list_all (keyed stmt) rows" and "key_casts_inj cast stmt"
  shows "distinct (map (join_key cast stmt) rows')" and "set rows' \<subseteq> set rows"
    and "join_key cast stmt ` set rows' = join_key cast stmt ` set rows"
    and "List.find (\<lambda>obj. join_key cast stmt obj = k) rows' = List.find (\<lambda>obj. join_key cast stmt obj = k) (rev rows)"
proof -
  obtain d where rows': "rows' = map snd d" and dist: "distinct (map fst d)"
    and keys: "\<forall>(k, row) \<in> set d. row_key (key_cols stmt) row = Inr k \<and> row \<in> set rows"
    and all: "\<forall>row \<in> set rows. \<exists>k. row_key (key_cols stmt) row = Inr k \<and> k \<in> set (map fst d)"
    and last: "\<forall>k. map_of d k = List.find (\<lambda>row. row_key (key_cols stmt) row = Inr k) (rev rows)"
    using dedupe_rows_spec [OF assms(1)] by blast
  have keyed: "keyed stmt row" if "row \<in> set rows" for row using that assms(2) by (simp add: list_all_iff)
  show sub: "set rows' \<subseteq> set rows" using keys rows' by auto
  have iff: "join_key cast stmt a = join_key cast stmt b \<longleftrightarrow> k = k'"
    if "a \<in> set rows" "b \<in> set rows" "row_key (key_cols stmt) a = Inr k" "row_key (key_cols stmt) b = Inr k'" for a b k k'
    using that keyed assms(3) by (intro join_key_iff) simp_all
  show "distinct (map (join_key cast stmt) rows')"
  proof -
    have "distinct (map (\<lambda>p. join_key cast stmt (snd p)) d)"
      unfolding distinct_map
    proof
      show "distinct d" using dist distinct_map by blast
      show "inj_on (\<lambda>p. join_key cast stmt (snd p)) (set d)"
      proof (rule inj_onI)
        fix p q
        assume "p \<in> set d" "q \<in> set d" and eq: "join_key cast stmt (snd p) = join_key cast stmt (snd q)"
        then have "fst p = fst q" using keys iff [of "snd p" "snd q" "fst p" "fst q"] by fastforce
        with \<open>p \<in> set d\<close> \<open>q \<in> set d\<close> dist show "p = q" by (metis eq_key_imp_eq_value prod.collapse)
      qed
    qed
    then show ?thesis by (simp add: rows' comp_def)
  qed
  have pick: "\<exists>row' \<in> set rows'. join_key cast stmt row' = join_key cast stmt row" if row: "row \<in> set rows" for row
  proof -
    obtain k where k: "row_key (key_cols stmt) row = Inr k" "k \<in> set (map fst d)" using all row by blast
    then obtain row' where "(k, row') \<in> set d" by auto
    then have row': "row' \<in> set rows'" "row' \<in> set rows" "row_key (key_cols stmt) row' = Inr k"
      using keys by (force simp: rows')+
    with iff [OF row'(2) row row'(3) k(1)] show ?thesis by blast
  qed
  show "join_key cast stmt ` set rows' = join_key cast stmt ` set rows"
  proof
    show "join_key cast stmt ` set rows' \<subseteq> join_key cast stmt ` set rows" using sub by blast
    show "join_key cast stmt ` set rows \<subseteq> join_key cast stmt ` set rows'"
    proof
      fix k assume "k \<in> join_key cast stmt ` set rows"
      then obtain row where "row \<in> set rows" "k = join_key cast stmt row" by blast
      with pick [of row] show "k \<in> join_key cast stmt ` set rows'" by (metis image_eqI)
    qed
  qed
  show "List.find (\<lambda>obj. join_key cast stmt obj = k) rows' = List.find (\<lambda>obj. join_key cast stmt obj = k) (rev rows)"
  proof (cases "\<exists>row \<in> set rows. join_key cast stmt row = k")
    case False
    with sub show ?thesis by (metis (mono_tags, lifting) find_None_iff set_rev subsetD)
  next
    case True
    then obtain row pk where row: "row \<in> set rows" "join_key cast stmt row = k" "row_key (key_cols stmt) row = Inr pk"
      using all by blast
    have same: "join_key cast stmt x = k \<longleftrightarrow> row_key (key_cols stmt) x = Inr pk" if "x \<in> set rows" for x
      using that row iff [of x row] all by (metis sum.inject(2))
    have "List.find (\<lambda>obj. join_key cast stmt obj = k) rows' = List.find (\<lambda>x. row_key (key_cols stmt) x = Inr pk) rows'"
      using same sub by (intro find_cong) auto
    also have "\<dots> = map_of d pk"
      unfolding rows' using dist keys by (intro find_map_of) (auto simp: inj_on_def)
    also have "\<dots> = List.find (\<lambda>x. row_key (key_cols stmt) x = Inr pk) (rev rows)" using last by simp
    also have "\<dots> = List.find (\<lambda>obj. join_key cast stmt obj = k) (rev rows)"
      using same by (intro find_cong) auto
    finally show ?thesis .
  qed
qed

lemma bulk_upsert_refines:
  assumes plan: "plan_upsert schema_cols pk_cols conflict_target skip_columns rows = Inr (stmt, rows')"
    and "rows \<noteq> []" and keyed: "list_all (keyed stmt) rows"
    and types: "list_all (\<lambda>c. type_of stmt c \<noteq> u ''json'' \<and> type_of stmt c \<noteq> u ''jsonb'') (key_cols stmt)"
    and inj: "key_casts_inj cast stmt" and dist: "distinct (map (\<lambda>r. map r (key_cols stmt)) t)"
  shows "\<exists>counts t'. bulk_upsert cast dflt schema_cols pk_cols conflict_target skip_columns rows t = Inr (counts, t') \<and>
    distinct (map (\<lambda>r. map r (key_cols stmt)) t') \<and>
    (\<forall>k. find_row (key_cols stmt) k t' =
       (case List.find (\<lambda>row. join_key cast stmt row = k) (rev rows) of
          None \<Rightarrow> find_row (key_cols stmt) k t
        | Some row \<Rightarrow> Some (upserted cast dflt stmt row (find_row (key_cols stmt) k t)))) \<and>
    inserted counts = card {k \<in> join_key cast stmt ` set rows. find_row (key_cols stmt) k t = None} \<and>
    updated counts = card {k \<in> join_key cast stmt ` set rows.
      \<exists>e. find_row (key_cols stmt) k t = Some e \<and> find_row (key_cols stmt) k t' \<noteq> Some e} \<and>
    unchanged counts = int (card {k \<in> join_key cast stmt ` set rows.
      find_row (key_cols stmt) k t \<noteq> None \<and> find_row (key_cols stmt) k t' = find_row (key_cols stmt) k t})"
proof -
  let ?K = "join_key cast stmt" and ?f = "find_row (key_cols stmt)"
  note d = deduped [OF plan_upsert_stmt(1) [OF plan] keyed inj]
  have typed: "typed_keys stmt"
    using types plan_upsert_stmt(2) [OF plan] by (auto simp: typed_keys_def list_all_iff)
  obtain t' where run: "insert_rows cast dflt stmt t [] t rows' =
        Inr (length (filter (inserts cast stmt t) rows'), length (filter (changes cast dflt stmt t) rows'), t')"
    and dist': "distinct (map (\<lambda>r. map r (key_cols stmt)) t')"
    and find': "\<forall>k. ?f k t' = (case List.find (\<lambda>row. ?K row = k) (rev rows) of
        None \<Rightarrow> ?f k t | Some row \<Rightarrow> Some (upserted cast dflt stmt row (?f k t)))"
    using insert_rows_correct [OF typed _ d(1) _ dist, of "[]" t dflt] keyed d(2) dist unfolding d(4)
    by (auto simp: list_all_iff)
  have lookup: "?f (?K row) t' = Some (upserted cast dflt stmt row (?f (?K row) t))" if "row \<in> set rows'" for row
  proof -
    have "List.find (\<lambda>x. ?K x = ?K row) rows' = Some row"
      using that d(1) by (induction rows') auto
    then show ?thesis using find' d(4) by simp
  qed
  have count: "length (filter P rows') = card {k \<in> ?K ` set rows. Q k}"
    if "\<And>row. row \<in> set rows' \<Longrightarrow> P row \<longleftrightarrow> Q (?K row)" for P Q
  proof -
    have "{k \<in> ?K ` set rows. Q k} = set (map ?K (filter P rows'))"
      using that by (auto simp: d(3) [symmetric])
    moreover have "distinct (map ?K (filter P rows'))" using d(1) by (rule distinct_map_filter)
    ultimately show ?thesis by (metis distinct_card length_map)
  qed
  have ins: "length (filter (inserts cast stmt t) rows') = card {k \<in> ?K ` set rows. ?f k t = None}"
    by (rule count) (simp add: inserts_def)
  have upd: "length (filter (changes cast dflt stmt t) rows') = card {k \<in> ?K ` set rows. \<exists>e. ?f k t = Some e \<and> ?f k t' \<noteq> Some e}"
    by (rule count) (auto simp: changes_def lookup)
  have same: "length (filter (\<lambda>row. \<not> inserts cast stmt t row \<and> \<not> changes cast dflt stmt t row) rows') =
      card {k \<in> ?K ` set rows. ?f k t \<noteq> None \<and> ?f k t' = ?f k t}"
    by (rule count) (auto simp: changes_def inserts_def lookup)
  have "length rows' = length (filter (inserts cast stmt t) rows') + length (filter (changes cast dflt stmt t) rows') +
      length (filter (\<lambda>row. \<not> inserts cast stmt t row \<and> \<not> changes cast dflt stmt t row) rows')"
    by (induction rows') (auto simp: inserts_def changes_def)
  with run plan \<open>rows \<noteq> []\<close> dist' find' ins upd same show ?thesis
    by (auto simp: bulk_upsert_def)
qed

text \<open>
  C12: The upsert refines a map from keys to rows. For rows with their keys, on a table in which no two rows share a key: the
  statement runs, no two rows share a key afterwards, a key named by the rows has the last row given for it merged into what was there,
  and every other row is untouched. The counts are those of the keys that were new, of those whose row changed and of those
  whose row stayed as it was.
\<close>

theorem bulk_upsert_correct:
  assumes plan: "plan_upsert schema_cols pk_cols conflict_target skip_columns rows = Inr (stmt, rows')"
    and "rows \<noteq> []" and keyed: "list_all (keyed stmt) rows"
    and types: "list_all (\<lambda>c. type_of stmt c \<noteq> u ''json'' \<and> type_of stmt c \<noteq> u ''jsonb'') (key_cols stmt)"
    and inj: "key_casts_inj cast stmt" and dist: "distinct (map (\<lambda>r. map r (key_cols stmt)) t)"
  shows "\<exists>counts t'. bulk_upsert cast dflt schema_cols pk_cols conflict_target skip_columns rows t = Inr (counts, t') \<and>
    distinct (map (\<lambda>r. map r (key_cols stmt)) t') \<and>
    (\<forall>k. find_row (key_cols stmt) k t' =
       (case List.find (\<lambda>row. join_key cast stmt row = k) (rev rows) of
          None \<Rightarrow> find_row (key_cols stmt) k t
        | Some row \<Rightarrow> Some (upserted cast dflt stmt row (find_row (key_cols stmt) k t)))) \<and>
    inserted counts = card {k \<in> join_key cast stmt ` set rows. find_row (key_cols stmt) k t = None} \<and>
    updated counts = card {k \<in> join_key cast stmt ` set rows.
      \<exists>e. find_row (key_cols stmt) k t = Some e \<and> find_row (key_cols stmt) k t' \<noteq> Some e} \<and>
    unchanged counts = int (card {k \<in> join_key cast stmt ` set rows.
      find_row (key_cols stmt) k t \<noteq> None \<and> find_row (key_cols stmt) k t' = find_row (key_cols stmt) k t})"
  using bulk_upsert_refines [OF assms] .

definition sample_schema :: "column_info list" where
  "sample_schema =
     [\<lparr>column_name = u ''id'', data_type = u ''integer'', udt_name = u ''int4''\<rparr>,
      \<lparr>column_name = u ''name'', data_type = u ''character varying'', udt_name = u ''varchar''\<rparr>,
      \<lparr>column_name = u ''tags'', data_type = u ''jsonb'', udt_name = u ''jsonb''\<rparr>]"

definition sample_rows :: "nat dict_row list" where
  "sample_rows =
     [[(u ''id'', JVal 1), (u ''name'', JVal 10)], [(u ''id'', JVal 2)], [(u ''id'', JVal 1), (u ''name'', JVal 11), (u ''extra'', JNull)]]"

definition sample_stmt :: upsert_stmt where
  "sample_stmt =
     \<lparr>active = [u ''id'', u ''name''], non_pk = [u ''name''], key_cols = [u ''id''],
      pg_types = [(u ''tags'', u ''jsonb''), (u ''name'', u ''text''), (u ''id'', u ''integer'')]\<rparr>"

definition sample_cast :: "pstr \<Rightarrow> nat jval \<Rightarrow> nat jval" where
  "sample_cast t v = v"

definition sample_table :: "nat jval table_row list" where
  "sample_table = [\<lambda>c. if c = u ''id'' then Db (JVal 2) else if c = u ''name'' then Db (JVal 20) else Null]"

lemma sample_plan:
  "plan_upsert sample_schema [u ''id''] [] [] sample_rows =
     Inr (sample_stmt, [[(u ''id'', JVal 1), (u ''name'', JVal 11), (u ''extra'', JNull)], [(u ''id'', JVal 2)]])"
  by code_simp

lemma sample_ok:
  "sample_rows \<noteq> []" "list_all (keyed sample_stmt) sample_rows"
  "list_all (\<lambda>c. type_of sample_stmt c \<noteq> u ''json'' \<and> type_of sample_stmt c \<noteq> u ''jsonb'') (key_cols sample_stmt)"
  "key_casts_inj sample_cast sample_stmt" "distinct (map (\<lambda>r. map r (key_cols sample_stmt)) sample_table)"
proof -
  show "list_all (\<lambda>c. type_of sample_stmt c \<noteq> u ''json'' \<and> type_of sample_stmt c \<noteq> u ''jsonb'') (key_cols sample_stmt)" by code_simp
qed (simp_all add: sample_rows_def sample_stmt_def keyed_def key_casts_inj_def sample_cast_def sample_table_def inj_def)

theorem bulk_upsert_correct_witness:
  "\<exists>counts t'. bulk_upsert sample_cast (\<lambda>c. Null) sample_schema [u ''id''] [] [] sample_rows sample_table = Inr (counts, t') \<and>
     map_option (\<lambda>r. r (u ''name'')) (find_row [u ''id''] [Db (JVal 1)] t') = Some (Db (JVal 11)) \<and>
     map_option (\<lambda>r. r (u ''name'')) (find_row [u ''id''] [Db (JVal 2)] t') = Some (Db (JVal 20))"
proof -
  obtain counts t' where run: "bulk_upsert sample_cast (\<lambda>c. Null) sample_schema [u ''id''] [] [] sample_rows sample_table = Inr (counts, t')"
    and find: "find_row (key_cols sample_stmt) k t' =
       (case List.find (\<lambda>row. join_key sample_cast sample_stmt row = k) (rev sample_rows) of
          None \<Rightarrow> find_row (key_cols sample_stmt) k sample_table
        | Some row \<Rightarrow> Some (upserted sample_cast (\<lambda>c. Null) sample_stmt row (find_row (key_cols sample_stmt) k sample_table)))" for k
    using bulk_upsert_correct [OF sample_plan sample_ok, of "\<lambda>c. Null"] by blast
  have kc: "key_cols sample_stmt = [u ''id'']" by (simp add: sample_stmt_def)
  have rows: "List.find (\<lambda>row. join_key sample_cast sample_stmt row = [Db (JVal 1)]) (rev sample_rows) =
      Some [(u ''id'', JVal 1), (u ''name'', JVal 11), (u ''extra'', JNull)]"
    "List.find (\<lambda>row. join_key sample_cast sample_stmt row = [Db (JVal 2)]) (rev sample_rows) = Some [(u ''id'', JVal 2)]"
    by code_simp+
  have "find_row [u ''id''] [Db (JVal 1)] sample_table = None" "find_row [u ''id''] [Db (JVal 2)] sample_table = Some (hd sample_table)"
    by (simp_all add: find_row_def sample_table_def)
  then have find': "find_row [u ''id''] [Db (JVal 1)] t' =
      Some (upserted sample_cast (\<lambda>c. Null) sample_stmt [(u ''id'', JVal 1), (u ''name'', JVal 11), (u ''extra'', JNull)] None)"
    "find_row [u ''id''] [Db (JVal 2)] t' = Some (upserted sample_cast (\<lambda>c. Null) sample_stmt [(u ''id'', JVal 2)] (Some (hd sample_table)))"
    using find [of "[Db (JVal 1)]"] find [of "[Db (JVal 2)]"] unfolding kc rows by simp_all
  have "upserted sample_cast (\<lambda>c. Null) sample_stmt [(u ''id'', JVal 1), (u ''name'', JVal 11), (u ''extra'', JNull)] None (u ''name'') = Db (JVal 11)"
    "upserted sample_cast (\<lambda>c. Null) sample_stmt [(u ''id'', JVal 2)] (Some (hd sample_table)) (u ''name'') = Db (JVal 20)"
    by code_simp+
  with run find' show ?thesis by (simp del: list.map)
qed

section \<open>Repeating an upsert\<close>

lemma upserted_again:
  assumes "set (non_pk stmt) \<subseteq> set (active stmt)"
  shows "upserted cast dflt stmt row (Some (upserted cast dflt stmt row existing)) = upserted cast dflt stmt row existing"
  using assms
  by (cases existing) (auto simp: upserted_def updated_row_def new_row_def select_expr_def fun_eq_iff split: option.splits)

text \<open>
  Repeating an upsert changes nothing: run again with the same rows it inserts nothing, updates nothing and leaves every row
  as it is.
\<close>

theorem bulk_upsert_idempotent:
  assumes plan: "plan_upsert schema_cols pk_cols conflict_target skip_columns rows = Inr (stmt, rows')"
    and "rows \<noteq> []" and keyed: "list_all (keyed stmt) rows"
    and types: "list_all (\<lambda>c. type_of stmt c \<noteq> u ''json'' \<and> type_of stmt c \<noteq> u ''jsonb'') (key_cols stmt)"
    and inj: "key_casts_inj cast stmt" and dist: "distinct (map (\<lambda>r. map r (key_cols stmt)) t)"
    and run: "bulk_upsert cast dflt schema_cols pk_cols conflict_target skip_columns rows t = Inr (counts, t')"
  shows "\<exists>counts' t''. bulk_upsert cast dflt schema_cols pk_cols conflict_target skip_columns rows t' = Inr (counts', t'') \<and>
    inserted counts' = 0 \<and> updated counts' = 0 \<and> (\<forall>k. find_row (key_cols stmt) k t'' = find_row (key_cols stmt) k t')"
proof -
  let ?K = "join_key cast stmt" and ?f = "find_row (key_cols stmt)"
  note correct = bulk_upsert_refines [OF plan \<open>rows \<noteq> []\<close> keyed types inj]
  have first: "distinct (map (\<lambda>r. map r (key_cols stmt)) t')"
    "?f k t' = (case List.find (\<lambda>row. ?K row = k) (rev rows) of
        None \<Rightarrow> ?f k t | Some row \<Rightarrow> Some (upserted cast dflt stmt row (?f k t)))" for k
    using correct [OF dist, of dflt] run by auto
  obtain counts' t'' where second: "bulk_upsert cast dflt schema_cols pk_cols conflict_target skip_columns rows t' = Inr (counts', t'')"
    "inserted counts' = card {k \<in> ?K ` set rows. ?f k t' = None}"
    "updated counts' = card {k \<in> ?K ` set rows. \<exists>e. ?f k t' = Some e \<and> ?f k t'' \<noteq> Some e}"
    and find'': "?f k t'' = (case List.find (\<lambda>row. ?K row = k) (rev rows) of
        None \<Rightarrow> ?f k t' | Some row \<Rightarrow> Some (upserted cast dflt stmt row (?f k t')))" for k
    using correct [OF first(1), of dflt] by blast
  have same: "?f k t'' = ?f k t'" for k
    unfolding find'' using first(2) [of k] upserted_again [OF plan_upsert_stmt(3) [OF plan], of cast dflt]
    by (auto split: option.splits)
  have "?f k t' \<noteq> None" if "k \<in> ?K ` set rows" for k
  proof -
    have "List.find (\<lambda>row. ?K row = k) (rev rows) \<noteq> None"
      using that by (auto simp: find_None_iff)
    then show ?thesis using first(2) [of k] by auto
  qed
  then have "{k \<in> ?K ` set rows. ?f k t' = None} = {}"
    "{k \<in> ?K ` set rows. \<exists>e. ?f k t' = Some e \<and> ?f k t'' \<noteq> Some e} = {}" using same by auto
  with second same show ?thesis by (auto simp: card_eq_0_iff)
qed

theorem bulk_upsert_idempotent_witness:
  "\<exists>counts t' counts' t''.
     bulk_upsert sample_cast (\<lambda>c. Null) sample_schema [u ''id''] [] [] sample_rows sample_table = Inr (counts, t') \<and>
     bulk_upsert sample_cast (\<lambda>c. Null) sample_schema [u ''id''] [] [] sample_rows t' = Inr (counts', t'') \<and>
     inserted counts' = 0 \<and> updated counts' = 0"
proof -
  obtain counts t' where run: "bulk_upsert sample_cast (\<lambda>c. Null) sample_schema [u ''id''] [] [] sample_rows sample_table = Inr (counts, t')"
    using bulk_upsert_refines [OF sample_plan sample_ok, of "\<lambda>c. Null"] by blast
  with bulk_upsert_idempotent [OF sample_plan sample_ok run] show ?thesis by blast
qed

section \<open>Errors\<close>

definition lacks_key :: "pstr list \<Rightarrow> 'a dict_row \<Rightarrow> bool" where
  "lacks_key kc row \<longleftrightarrow> list_ex (\<lambda>c. map_of row c = None) kc"

lemma row_key_Inl: "row_key kc row = Inl e \<longleftrightarrow> e = KeyError \<and> lacks_key kc row"
  unfolding row_key_def lacks_key_def by (induction kc) (auto simp: bindr_Inl_iff split: option.splits)

lemma mapr_row_keys_Inl: "mapr (row_key kc) rows = Inl e \<longleftrightarrow> e = KeyError \<and> list_ex (lacks_key kc) rows"
proof (induction rows)
  case (Cons row rows)
  then show ?case
    using row_key_Inl [of kc row] by (cases "row_key kc row") (auto simp: bindr_Inl_iff)
qed simp

lemma present_dedupe:
  assumes "dedupe_rows rows kc = Inr rows'" and "rows \<noteq> []" and "c \<in> set kc"
  shows "c \<in> set (present_cols schema_cols rows') \<longleftrightarrow> c \<in> set (map column_name schema_cols)"
proof -
  obtain d where d: "rows' = map snd d" "\<forall>(k, row) \<in> set d. row_key kc row = Inr k \<and> row \<in> set rows"
    "\<forall>row \<in> set rows. \<exists>k. row_key kc row = Inr k \<and> k \<in> set (map fst d)"
    using dedupe_rows_spec [OF assms(1)] by blast
  obtain row where "row \<in> set rows'"
    using d(1,3) \<open>rows \<noteq> []\<close> by (cases rows; cases d) auto
  moreover have "mapr (row_key kc) rows \<noteq> Inl KeyError" "row \<in> set rows"
    using assms(1) calculation d by (auto simp: dedupe_rows_def bindr_Inr_iff)
  ultimately have "map_of row c \<noteq> None"
    using assms(3) mapr_row_keys_Inl [of kc rows KeyError] by (auto simp: list_ex_iff lacks_key_def)
  then have "c \<in> set (map fst row)" by (auto simp: map_of_eq_None_iff)
  with \<open>row \<in> set rows'\<close> show ?thesis by (auto simp: present_cols_def list_ex_iff)
qed

lemma plan_upsert_error_cases:
  assumes "rows \<noteq> []"
  shows "plan_upsert schema_cols pk_cols conflict_target skip_columns rows = Inl e \<longleftrightarrow>
    (let kc = (if conflict_target = [] then pk_cols else conflict_target)
     in if kc = [] then e = ValueError
        else if list_ex (lacks_key kc) rows then e = KeyError
        else e = ValueError \<and> \<not> set kc \<subseteq> set (map column_name schema_cols))"
proof -
  define kc where "kc = (if conflict_target = [] then pk_cols else conflict_target)"
  show ?thesis
  proof (cases "dedupe_rows rows kc")
    case (Inl e')
    then have "e' = KeyError" "list_ex (lacks_key kc) rows"
      using mapr_row_keys_Inl [of kc rows e'] by (auto simp: dedupe_rows_def bindr_Inl_iff)
    with Inl show ?thesis
      unfolding plan_upsert_def Let_def kc_def [symmetric] by auto
  next
    case (Inr rows')
    then have none: "\<not> (list_ex (lacks_key kc) rows)"
      using mapr_row_keys_Inl [of kc rows KeyError] by (auto simp: dedupe_rows_def bindr_Inr_iff)
    have "list_ex (\<lambda>c. c \<notin> set (present_cols schema_cols rows')) kc \<longleftrightarrow> \<not> set kc \<subseteq> set (map column_name schema_cols)"
      using present_dedupe [OF Inr assms] by (auto simp: list_ex_iff)
    with Inr none show ?thesis
      unfolding plan_upsert_def Let_def kc_def [symmetric] by auto
  qed
qed

text \<open>
  The errors of the planning, for every input: without a key a \<open>ValueError\<close>; when a row lacks a key column a
  \<open>KeyError\<close>, also when all rows lack it, the case the code means to report with the message about absent columns; and that \<open>ValueError\<close> exactly
  when a key column is not a column of the table.
\<close>

theorem plan_upsert_error:
  assumes "rows \<noteq> []"
  shows "plan_upsert schema_cols pk_cols conflict_target skip_columns rows = Inl e \<longleftrightarrow>
    (let kc = (if conflict_target = [] then pk_cols else conflict_target)
     in if kc = [] then e = ValueError
        else if list_ex (lacks_key kc) rows then e = KeyError
        else e = ValueError \<and> \<not> set kc \<subseteq> set (map column_name schema_cols))"
  using plan_upsert_error_cases [OF assms] .

theorem plan_upsert_error_witness:
  "plan_upsert sample_schema [u ''id''] [] [] [[(u ''name'', JVal (1::nat))]] = Inl KeyError \<and>
   plan_upsert sample_schema [u ''id''] [u ''extra''] [] [[(u ''extra'', JVal (1::nat))]] = Inl ValueError"
  using plan_upsert_error [of "[[(u ''name'', JVal (1::nat))]]" sample_schema "[u ''id'']" "[]" "[]" KeyError]
    plan_upsert_error [of "[[(u ''extra'', JVal (1::nat))]]" sample_schema "[u ''id'']" "[u ''extra'']" "[]" ValueError]
  by (simp add: lacks_key_def sample_schema_def)

end
