(* ===== verification/Card_Processing_Props.thy ===== *)
theory Card_Processing_Props
  imports Card_Processing
begin

text \<open>
  Properties of the card import: which fields a stage leaves alone, that processing a processed card
  returns it unchanged, the columns and types of a processed face, the range of collector numbers,
  and the agreement of the rarity numbers with those the query side compares against.
\<close>

section \<open>Fields a stage leaves alone\<close>

text \<open>\<open>writes ks cd cd'\<close>: \<open>cd'\<close> differs from \<open>cd\<close> in the fields \<open>ks\<close> at most.\<close>

definition writes :: "string list \<Rightarrow> card_dict \<Rightarrow> card_dict \<Rightarrow> bool" where
  "writes ks cd cd' \<longleftrightarrow> (\<forall>k. k \<notin> set ks \<longrightarrow> map_of cd' (CStr (u k)) = map_of cd (CStr (u k)))"

lemma u_inj: "u k = u k' \<longleftrightarrow> k = k'"
  by (rule inj_map_eq_map) (auto simp: inj_def)

lemma writes_refl: "writes ks cd cd"
  by (simp add: writes_def)

lemma writes_trans: "writes ks a b \<Longrightarrow> writes ks' b c \<Longrightarrow> writes (ks @ ks') a c"
  by (simp add: writes_def)

lemma writes_put: "k \<in> set ks \<Longrightarrow> writes ks cd cd' \<Longrightarrow> writes ks cd (put cd' k v)"
  by (auto simp: writes_def put_def u_inj)

lemma writes_set_default: "k \<in> set ks \<Longrightarrow> writes ks cd cd' \<Longrightarrow> writes ks cd (set_default cd' k v)"
  by (simp add: set_default_def writes_put)

lemmas writes_intros = writes_put writes_set_default writes_refl

lemma has_key_put: "has_key (put cd k v) k' \<longleftrightarrow> k' = k \<or> has_key cd k'"
  by (auto simp: has_key_def put_def u_inj)

text \<open>The fields the filters read.\<close>

definition filter_keys :: "string list" where
  "filter_keys = [''legalities'', ''promo_types'', ''games'', ''set_type'', ''type_line'', ''name'']"

lemma writes_cget:
  "writes ks cd cd' \<Longrightarrow> k \<notin> set ks \<Longrightarrow>
   cget cd' k = cget cd k \<and> cget_default cd' k d = cget_default cd k d \<and> cindex cd' k = cindex cd k
   \<and> has_key cd' k = has_key cd k"
  by (simp add: writes_def cget_def cget_default_def cindex_def has_key_def)

lemma rejected_writes:
  assumes "writes ks cd cd'" "list_all (\<lambda>k. k \<notin> set ks) filter_keys" shows "rejected cd' = rejected cd"
proof -
  have k: "cget cd' k = cget cd k" "cget_default cd' k d = cget_default cd k d" "cindex cd' k = cindex cd k"
    if "k \<in> set filter_keys" for k d
    using writes_cget [OF assms(1)] assms(2) that by (auto simp: list_all_iff)
  show ?thesis
    unfolding rejected_def token_type_line_def same_name_faces_def
    by (simp only: k filter_keys_def list.set insert_iff simp_thms)
qed

section \<open>Frames of the stages\<close>

lemma face_fields_writes: "writes [''face_name'', ''face_idx'', ''flavor_text'', ''raw_card_blob''] cd (face_fields cd)"
  by (simp add: face_fields_def Let_def writes_intros)

lemma type_fields_writes:
  "type_fields cd = Inr (ts, ss, cd') \<Longrightarrow> writes [''scryfall_id'', ''card_types'', ''card_subtypes''] cd cd'"
  by (auto simp: type_fields_def bindr_Inr_iff Let_def case_prod_beta intro!: writes_intros)

definition creature_keys :: "string list" where
  "creature_keys = [''planeswalker_loyalty'', ''creature_power'', ''creature_toughness'', ''creature_power_text'',
     ''creature_toughness_text'']"

lemma creature_fields_writes: "creature_fields ts ss cd = Inr cd' \<Longrightarrow> writes creature_keys cd cd'"
  by (auto simp: creature_fields_def creature_keys_def bindr_Inr_iff Let_def split: if_splits intro!: writes_intros)

definition color_keys :: "string list" where
  "color_keys = [''card_colors'', ''card_color_identity'', ''card_keywords'', ''produced_mana'', ''edhrec_rank'']"

lemma color_fields_writes: "color_fields cd = Inr cd' \<Longrightarrow> writes color_keys cd cd'"
  by (auto simp: color_fields_def color_keys_def bindr_Inr_iff Let_def intro!: writes_intros)

lemma frame_fields_writes: "frame_fields cd = Inr cd' \<Longrightarrow> writes [''card_frame_data''] cd cd'"
  by (auto simp: frame_fields_def bindr_Inr_iff Let_def intro!: writes_intros)

lemma price_fields_writes: "price_fields cd = Inr cd' \<Longrightarrow> writes [''price_usd'', ''price_eur'', ''price_tix''] cd cd'"
  by (auto simp: price_fields_def bindr_Inr_iff Let_def intro!: writes_intros)

lemma lowered_writes: "lowered cd k c = Inr cd' \<Longrightarrow> writes [c] cd cd'"
  by (auto simp: lowered_def bindr_Inr_iff split: if_splits intro!: writes_intros)

definition layout_keys :: "string list" where
  "layout_keys = [''card_set_code''] @ [''card_layout''] @ [''card_border''] @ [''card_watermark'']"

lemma layout_fields_writes:
  assumes "layout_fields cd = Inr cd'" shows "writes layout_keys cd cd'"
proof -
  obtain v a b where l: "lowered (put cd ''card_set_code'' v) ''layout'' ''card_layout'' = Inr a"
    "lowered a ''border_color'' ''card_border'' = Inr b" "lowered b ''watermark'' ''card_watermark'' = Inr cd'"
    using assms by (auto simp: layout_fields_def bindr_Inr_iff Let_def)
  have "writes [''card_set_code''] cd (put cd ''card_set_code'' v)" by (simp add: writes_intros)
  from writes_trans [OF this writes_trans [OF lowered_writes [OF l(1)]
      writes_trans [OF lowered_writes [OF l(2)] lowered_writes [OF l(3)]]]]
  show ?thesis by (simp only: layout_keys_def)
qed

lemma mana_fields_writes: "mana_fields ts cd = Inr cd' \<Longrightarrow> writes [''mana_cost_jsonb'', ''devotion''] cd cd'"
  by (auto simp: mana_fields_def bindr_Inr_iff Let_def intro!: writes_intros)

definition name_keys :: "string list" where
  "name_keys = [''card_name'', ''card_name_folded'', ''mana_cost_text'', ''planeswalker_loyalty_text'', ''card_artist'', ''cmc'']"

lemma name_fields_writes: "name_fields cd = Inr cd' \<Longrightarrow> writes name_keys cd cd'"
  by (auto simp: name_fields_def name_keys_def bindr_Inr_iff Let_def intro!: writes_intros)

definition rarity_keys :: "string list" where
  "rarity_keys = [''card_rarity_text'', ''card_rarity_int'', ''collector_number'', ''collector_number_int'', ''illustration_id'']"

lemma rarity_fields_writes: "rarity_fields strf cd = Inr cd' \<Longrightarrow> writes rarity_keys cd cd'"
  by (auto simp: rarity_fields_def rarity_keys_def bindr_Inr_iff Let_def split: if_splits intro!: writes_intros)

definition default_keys :: "string list" where
  "default_keys = [''card_legalities'', ''produced_mana'', ''card_oracle_tags'', ''card_art_tags'', ''card_is_tags'']"

lemma default_fields_writes: "writes default_keys cd (default_fields cd)"
  by (simp add: default_fields_def default_keys_def Let_def writes_intros)

lemma process_face_stages:
  assumes "process_face strf cd = Inr c"
  obtains ts ss c1 c2 c3 c4 c5 c6 c7 c8 c9 where
    "type_fields (face_fields cd) = Inr (ts, ss, c1)" "creature_fields ts ss c1 = Inr c2" "color_fields c2 = Inr c3"
    "frame_fields c3 = Inr c4" "price_fields c4 = Inr c5" "layout_fields c5 = Inr c6" "mana_fields ts c6 = Inr c7"
    "name_fields c7 = Inr c8" "rarity_fields strf c8 = Inr c9" "c = default_fields c9"
  using assms by (auto simp: process_face_def bindr_Inr_iff split: prod.splits)

definition later_keys :: "string list" where
  "later_keys = [''scryfall_id'', ''card_types'', ''card_subtypes''] @ creature_keys @ color_keys @ [''card_frame_data''] @
     [''price_usd'', ''price_eur'', ''price_tix''] @ layout_keys @ [''mana_cost_jsonb'', ''devotion''] @ name_keys @
     rarity_keys @ default_keys"

lemmas later_keys_defs = later_keys_def creature_keys_def color_keys_def layout_keys_def name_keys_def rarity_keys_def
  default_keys_def

lemma process_face_writes:
  assumes "process_face strf cd = Inr c"
  shows "writes later_keys (face_fields cd) c"
proof -
  from assms obtain ts ss c1 c2 c3 c4 c5 c6 c7 c8 c9 where
    s: "type_fields (face_fields cd) = Inr (ts, ss, c1)" "creature_fields ts ss c1 = Inr c2" "color_fields c2 = Inr c3"
      "frame_fields c3 = Inr c4" "price_fields c4 = Inr c5" "layout_fields c5 = Inr c6" "mana_fields ts c6 = Inr c7"
      "name_fields c7 = Inr c8" "rarity_fields strf c8 = Inr c9" "c = default_fields c9"
    by (rule process_face_stages)
  show ?thesis
    unfolding s(10) later_keys_def
    by (intro writes_trans [OF type_fields_writes [OF s(1)]] writes_trans [OF creature_fields_writes [OF s(2)]]
      writes_trans [OF color_fields_writes [OF s(3)]] writes_trans [OF frame_fields_writes [OF s(4)]]
      writes_trans [OF price_fields_writes [OF s(5)]] writes_trans [OF layout_fields_writes [OF s(6)]]
      writes_trans [OF mana_fields_writes [OF s(7)]] writes_trans [OF name_fields_writes [OF s(8)]]
      writes_trans [OF rarity_fields_writes [OF s(9)]] default_fields_writes)
qed

lemma process_face_frame:
  assumes "process_face strf cd = Inr c"
  shows "rejected c = rejected cd \<and> has_key c ''raw_card_blob''"
proof -
  note w = process_face_writes [OF assms]
  have "rejected c = rejected (face_fields cd)"
    by (rule rejected_writes [OF w]) (simp add: filter_keys_def later_keys_defs)
  moreover have "rejected (face_fields cd) = rejected cd"
    by (rule rejected_writes [OF face_fields_writes]) (simp add: filter_keys_def)
  moreover have "has_key c ''raw_card_blob'' = has_key (face_fields cd) ''raw_card_blob''"
    using writes_cget [OF w, of "''raw_card_blob''"] by (simp add: later_keys_defs)
  ultimately show ?thesis by (simp add: face_fields_def Let_def has_key_put)
qed

lemma lift_name_frame: "rejected (lift_name cd) = rejected cd"
proof -
  have "writes [''card_name'', ''face_name''] cd (lift_name cd)" by (simp add: lift_name_def writes_intros)
  from rejected_writes [OF this] show ?thesis by (simp add: filter_keys_def)
qed

lemma mapr_InrD: "mapr f xs = Inr ys \<Longrightarrow> y \<in> set ys \<Longrightarrow> \<exists>x\<in>set xs. f x = Inr y"
  by (induction xs arbitrary: ys) (auto simp: bindr_Inr_iff)

lemma preprocess_settled:
  "preprocess_card strf cd = Inr cs \<Longrightarrow> c \<in> set cs \<Longrightarrow> rejected c = Inr False \<and> has_key c ''raw_card_blob''"
proof (induction strf cd arbitrary: cs c rule: preprocess_card.induct)
  case (1 strf cd)
  from "1.prems" have rej: "rejected cd = Inr False"
    by (subst (asm) preprocess_card.simps) (auto simp: bindr_Inr_iff split: if_splits)
  consider (raw) "has_key cd ''raw_card_blob''" "cs = [cd]"
    | (faces) faces pr where "\<not> has_key cd ''raw_card_blob''" "truthy_c (cget (lift_name cd) ''card_faces'')"
        "cget (lift_name cd) ''card_faces'' = CList faces" "cs = concat pr"
        "mapr (\<lambda>(face_idx, face). case face of
             CObj face_data \<Rightarrow> preprocess_card strf (merge_face (drop_creature (lift_name cd)) face_idx face_data)
           | _ \<Rightarrow> Inl TypeError) (enumerate 1 faces) = Inr pr"
    | (single) c' where "\<not> has_key cd ''raw_card_blob''" "process_face strf (lift_name cd) = Inr c'" "cs = [c']"
    using "1.prems"(1)
    by (subst (asm) preprocess_card.simps)
      (auto simp: rej bindr_Inr_iff Let_def split: if_splits cval.splits)
  then show ?case
  proof cases
    case raw
    then show ?thesis using rej "1.prems"(2) by simp
  next
    case faces
    then obtain p where p: "p \<in> set pr" "c \<in> set p" using "1.prems"(2) by auto
    from mapr_InrD [OF faces(5) p(1)] obtain k fd where
      "(k, CObj fd) \<in> set (enumerate 1 faces)" "preprocess_card strf (merge_face (drop_creature (lift_name cd)) k fd) = Inr p"
      by (auto split: cval.splits)
    with "1.IH" [of False "lift_name cd" _ faces "(k, CObj fd)" k "CObj fd" fd p c] rej faces p(2) show ?thesis by auto
  next
    case single
    from process_face_frame [OF single(2)] lift_name_frame [of cd] single(3) rej "1.prems"(2) show ?thesis by simp
  qed
qed

section \<open>Numbers\<close>

lemma collector_number_cases:
  "extract_collector_number_int strf v = CNull \<or>
   (\<exists>n. extract_collector_number_int strf v = CInt n \<and> 0 \<le> n \<and> n < 2 ^ 31)"
proof -
  have "0 \<le> n" if n: "py_int (filter is_digit_c s) = Some n" "filter is_digit_c s \<noteq> []" for s n
  proof -
    have d: "list_all is_digit_c (filter is_digit_c s)" by (simp add: list_all_iff)
    obtain c r where cr: "filter is_digit_c s = c # r" using n(2) by (cases "filter is_digit_c s") auto
    have "py_strip (filter is_digit_c s) = filter is_digit_c s"
      by (rule py_strip_no_space) (auto simp: is_digit_not_space)
    moreover have "is_digit_c c" using d cr by simp
    ultimately show ?thesis
      using n(1) cr by (auto simp: py_int_def digits_int_def is_digit_c_def split: option.splits if_splits)
  qed
  then show ?thesis by (auto simp: extract_collector_number_int_def Let_def split: option.splits)
qed

section \<open>Types of the columns\<close>




fun is_str_list :: "cval \<Rightarrow> bool" where
  "is_str_list (CList xs) = list_all (\<lambda>x. case x of CStr s \<Rightarrow> True | _ \<Rightarrow> False) xs"
| "is_str_list _ = False"

fun is_str :: "cval \<Rightarrow> bool" where
  "is_str (CStr s) = True"
| "is_str _ = False"

definition typed :: "card_dict \<Rightarrow> string \<times> (cval \<Rightarrow> bool) \<Rightarrow> bool" where
  "typed cd col = (case map_of cd (CStr (u (fst col))) of Some v \<Rightarrow> snd col v | None \<Rightarrow> False)"

lemma typed_put: "typed (put cd k v) (k', P) \<longleftrightarrow> (if k' = k then P v else typed cd (k', P))"
  by (simp add: typed_def put_def u_inj)

lemma typed_writes: "writes ks cd cd' \<Longrightarrow> typed cd col \<Longrightarrow> fst col \<notin> set ks \<Longrightarrow> typed cd' col"
  by (simp add: typed_def writes_def)


























section \<open>Well-formed faces are processed\<close>

text \<open>
  \<open>face_ok\<close>: the format the bulk data documents for the fields the import reads. \<open>optional cd (k, P)\<close>:
  the field \<open>k\<close> is absent or satisfies \<open>P\<close>.
\<close>

definition optional :: "card_dict \<Rightarrow> string \<times> (cval \<Rightarrow> bool) \<Rightarrow> bool" where
  "optional cd col = (case map_of cd (CStr (u (fst col))) of Some v \<Rightarrow> snd col v | None \<Rightarrow> True)"

definition number_value :: "cval \<Rightarrow> bool" where
  "number_value v \<longleftrightarrow> \<not> isl (maybe_int v)"

definition price_table :: "cval \<Rightarrow> bool" where
  "price_table v \<longleftrightarrow> list_all (\<lambda>k. \<not> isl (price_of v k)) [''usd'', ''eur'', ''tix'']"

fun str_or_null :: "cval \<Rightarrow> bool" where
  "str_or_null CNull = True"
| "str_or_null v = is_str v"

definition required_fields :: "(string \<times> (cval \<Rightarrow> bool)) list" where
  "required_fields = [(''id'', \<lambda>_. True), (''type_line'', is_str), (''colors'', is_str_list), (''color_identity'', is_str_list),
     (''card_name'', is_str)]"

definition optional_fields :: "(string \<times> (cval \<Rightarrow> bool)) list" where
  "optional_fields = [(''loyalty'', number_value), (''power'', number_value), (''toughness'', number_value), (''cmc'', number_value),
     (''keywords'', is_str_list), (''produced_mana'', is_str_list), (''frame'', str_or_null), (''frame_effects'', is_str_list),
     (''prices'', price_table), (''layout'', is_str), (''border_color'', is_str), (''watermark'', is_str),
     (''mana_cost'', is_str), (''rarity'', is_str)]"

definition face_ok :: "card_dict \<Rightarrow> bool" where
  "face_ok cd \<longleftrightarrow> list_all (typed cd) required_fields \<and> list_all (optional cd) optional_fields"

lemma optional_writes: "writes ks cd cd' \<Longrightarrow> optional cd col \<Longrightarrow> fst col \<notin> set ks \<Longrightarrow> optional cd' col"
  by (simp add: optional_def writes_def)

lemma optional_cget: "optional cd (k, P) \<Longrightarrow> P CNull \<Longrightarrow> P (cget cd k)"
  by (auto simp: optional_def cget_def split: option.splits)

lemma optional_default: "optional cd (k, P) \<Longrightarrow> P d \<Longrightarrow> P (cget_default cd k d)"
  by (auto simp: optional_def cget_default_def split: option.splits)

lemma optional_put: "optional (put cd k v) (k', P) \<longleftrightarrow> (if k' = k then P v else optional cd (k', P))"
  by (simp add: optional_def put_def u_inj)

lemma typed_index: "typed cd (k, P) \<Longrightarrow> \<exists>v. cindex cd k = Inr v \<and> P v"
  by (auto simp: typed_def cindex_def split: option.splits)

lemma is_str_of: "is_str v \<Longrightarrow> \<exists>s. str_of v = Inr s"
  by (cases v) auto

lemma str_list_iter: "is_str_list v \<Longrightarrow> \<exists>ts. iter_of v = Inr (map CStr ts)"
proof (cases v)
  case (CList xs)
  assume "is_str_list v"
  then have "\<exists>ts. xs = map CStr ts" unfolding CList is_str_list.simps
  proof (induction xs)
    case (Cons x xs)
    then obtain s ts where "x = CStr s" "xs = map CStr ts" by (cases x) auto
    then show ?case by (intro exI [of _ "s # ts"]) simp
  qed simp
  then show ?thesis by (auto simp: CList)
qed auto

lemma str_list_fromkeys: "is_str_list v \<Longrightarrow> \<exists>x. fromkeys_true v = Inr x"
  by (drule str_list_iter) (auto simp: fromkeys_true_def list_all_iff)

lemma mapr_titles: "mapr (\<lambda>e. bindr (str_of e) (\<lambda>t. Inr (py_title t))) (map CStr ts) = Inr (map py_title ts)"
  by (induction ts) simp_all

lemma type_fields_total:
  assumes "typed cd (''id'', \<lambda>_. True)" "typed cd (''type_line'', is_str)"
  shows "\<exists>ts ss cd'. type_fields cd = Inr (ts, ss, cd')"
proof -
  obtain i where i: "cindex cd ''id'' = Inr i" using typed_index [OF assms(1)] by blast
  have "typed (put cd ''scryfall_id'' i) (''type_line'', is_str)" using assms(2) by (simp add: typed_put)
  from typed_index [OF this] obtain v s where "cindex (put cd ''scryfall_id'' i) ''type_line'' = Inr v" "str_of v = Inr s"
    using is_str_of by blast
  with i show ?thesis by (auto simp: type_fields_def Let_def case_prod_beta)
qed

lemma number_text_cget:
  assumes "optional cd (k, number_value)" shows "\<exists>x. maybe_int (cget cd k) = Inr x"
proof -
  have "number_value (cget cd k)" by (rule optional_cget [OF assms]) (simp add: number_value_def maybe_int_def maybeify_def)
  then show ?thesis by (cases "maybe_int (cget cd k)") (auto simp: number_value_def)
qed

lemma creature_fields_total:
  assumes "optional cd (''loyalty'', number_value)" "optional cd (''power'', number_value)" "optional cd (''toughness'', number_value)"
  shows "\<exists>cd'. creature_fields ts ss cd = Inr cd'"
proof -
  obtain l where l: "maybe_int (cget cd ''loyalty'') = Inr l" using number_text_cget [OF assms(1)] by blast
  let ?c = "put cd ''planeswalker_loyalty'' l"
  obtain p where p: "maybe_int (cget ?c ''power'') = Inr p"
    using number_text_cget [of ?c "''power''"] assms(2) by (auto simp: optional_put)
  obtain t where "maybe_int (cget (put ?c ''creature_power'' p) ''toughness'') = Inr t"
    using number_text_cget [of "put ?c ''creature_power'' p" "''toughness''"] assms(3) by (auto simp: optional_put)
  with l p show ?thesis by (auto simp: creature_fields_def Let_def)
qed

lemma color_fields_total:
  assumes "typed cd (''colors'', is_str_list)" "typed cd (''color_identity'', is_str_list)"
    "optional cd (''keywords'', is_str_list)" "optional cd (''produced_mana'', is_str_list)"
  shows "\<exists>cd'. color_fields cd = Inr cd'"
proof -
  obtain a where a: "bindr (cindex cd ''colors'') fromkeys_true = Inr a"
    using typed_index [OF assms(1)] str_list_fromkeys by fastforce
  let ?c1 = "put cd ''card_colors'' a"
  have "typed ?c1 (''color_identity'', is_str_list)" using assms(2) by (simp add: typed_put)
  then obtain b where b: "bindr (cindex ?c1 ''color_identity'') fromkeys_true = Inr b"
    using typed_index str_list_fromkeys by fastforce
  let ?c2 = "put ?c1 ''card_color_identity'' b"
  have "optional ?c2 (''keywords'', is_str_list)" using assms(3) by (simp add: optional_put)
  from optional_default [OF this, of "CList []"] obtain c where
    c: "fromkeys_true (cget_default ?c2 ''keywords'' (CList [])) = Inr c" using str_list_fromkeys by auto
  let ?c3 = "put ?c2 ''card_keywords'' c"
  have "optional ?c3 (''produced_mana'', is_str_list)" using assms(4) by (simp add: optional_put)
  from optional_default [OF this, of "CList []"] obtain d where
    "fromkeys_true (cget_default ?c3 ''produced_mana'' (CList [])) = Inr d" using str_list_fromkeys by auto
  with a b c show ?thesis by (simp add: color_fields_def Let_def)
qed

lemma frame_fields_total:
  assumes "optional cd (''frame'', str_or_null)" "optional cd (''frame_effects'', is_str_list)"
  shows "\<exists>cd'. frame_fields cd = Inr cd'"
proof -
  have "str_or_null (cget cd ''frame'')" by (rule optional_cget [OF assms(1)]) simp
  then have "\<exists>v. (if truthy_c (cget cd ''frame'') then bindr (str_of (cget cd ''frame'')) (\<lambda>t. Inr [py_title t]) else Inr []) = Inr v"
    by (cases "cget cd ''frame''") auto
  moreover have "is_str_list (cget_default cd ''frame_effects'' (CList []))" by (rule optional_default [OF assms(2)]) simp
  then obtain ts where "iter_of (cget_default cd ''frame_effects'' (CList [])) = Inr (map CStr ts)" using str_list_iter by blast
  ultimately show ?thesis by (auto simp: frame_fields_def Let_def mapr_titles)
qed

lemma price_fields_total:
  assumes "optional cd (''prices'', price_table)" shows "\<exists>cd'. price_fields cd = Inr cd'"
proof -
  have "price_table (cget_default cd ''prices'' (CObj []))"
    by (rule optional_default [OF assms]) (simp add: price_table_def cget_def maybe_float_def maybeify_def)
  then obtain a b c where "price_of (cget_default cd ''prices'' (CObj [])) ''usd'' = Inr a"
    "price_of (cget_default cd ''prices'' (CObj [])) ''eur'' = Inr b" "price_of (cget_default cd ''prices'' (CObj [])) ''tix'' = Inr c"
    by (auto simp: price_table_def isl_def) (metis sum.collapse(2) isl_def)
  then show ?thesis by (simp add: price_fields_def Let_def)
qed

lemma lowered_total:
  assumes "optional cd (k, is_str)" shows "\<exists>cd'. lowered cd k c = Inr cd'"
proof (cases "map_of cd (CStr (u k))")
  case (Some v)
  then obtain s where "v = CStr s" using assms by (cases v) (auto simp: optional_def)
  then show ?thesis using Some by (simp add: lowered_def has_key_def cget_def)
qed (simp add: lowered_def has_key_def)

lemma layout_fields_total:
  assumes "optional cd (''layout'', is_str)" "optional cd (''border_color'', is_str)" "optional cd (''watermark'', is_str)"
  shows "\<exists>cd'. layout_fields cd = Inr cd'"
proof -
  define v where "v = (case cget cd ''set'' of CStr t \<Rightarrow> CStr (py_lower t) | _ \<Rightarrow> cget cd ''set'')"
  let ?c = "put cd ''card_set_code'' v"
  obtain a where a: "lowered ?c ''layout'' ''card_layout'' = Inr a"
    using lowered_total [of ?c "''layout''"] assms(1) by (auto simp: optional_put)
  have "optional a (''border_color'', is_str)"
    by (rule optional_writes [OF lowered_writes [OF a]]) (use assms(2) in \<open>simp_all add: optional_put\<close>)
  then obtain b where b: "lowered a ''border_color'' ''card_border'' = Inr b" using lowered_total by blast
  have "optional a (''watermark'', is_str)"
    by (rule optional_writes [OF lowered_writes [OF a]]) (use assms(3) in \<open>simp_all add: optional_put\<close>)
  then have "optional b (''watermark'', is_str)" by (rule optional_writes [OF lowered_writes [OF b]]) simp
  then obtain d where "lowered b ''watermark'' ''card_watermark'' = Inr d" using lowered_total by blast
  with a b show ?thesis by (simp add: layout_fields_def Let_def flip: v_def)
qed

lemma mana_fields_total:
  assumes "optional cd (''mana_cost'', is_str)" shows "\<exists>cd'. mana_fields ts cd = Inr cd'"
  using is_str_of [OF optional_default [OF assms, of "CStr []"]] by (auto simp: mana_fields_def Let_def)

lemma name_fields_total:
  assumes "typed cd (''card_name'', is_str)" "optional cd (''cmc'', number_value)"
  shows "\<exists>cd'. name_fields cd = Inr cd'"
proof -
  have keep: "set_default cd ''card_name'' v = cd" for v
    using assms(1) by (auto simp: set_default_def has_key_def typed_def split: option.splits)
  obtain n where n: "str_of (cget cd ''card_name'') = Inr n"
    using assms(1) is_str_of by (auto simp: typed_def cget_def split: option.splits)
  have "\<exists>x. maybe_int (cget (put (put (put (put cd ''card_name_folded'' a) ''mana_cost_text'' b)
      ''planeswalker_loyalty_text'' c) ''card_artist'' d) ''cmc'') = Inr x" for a b c d
    by (rule number_text_cget) (use assms(2) in \<open>simp add: optional_put\<close>)
  then show ?thesis by (auto simp: name_fields_def keep n Let_def bindr_def split: sum.splits) (metis sum.distinct(1))
qed

lemma rarity_fields_total:
  assumes "optional cd (''rarity'', is_str)" shows "\<exists>cd'. rarity_fields strf cd = Inr cd'"
  using is_str_of [OF optional_default [OF assms, of "CStr []"]] by (auto simp: rarity_fields_def Let_def)

lemma process_face_total:
  assumes "face_ok cd"
  shows "\<exists>c. process_face strf cd = Inr c"
proof -
  define F where "F = face_fields cd"
  have req: "typed c col" if "writes ks F c" "col \<in> set required_fields" "fst col \<notin> set ks" for c col ks
  proof -
    have "typed F col" unfolding F_def
      by (rule typed_writes [OF face_fields_writes]) (use that(2) assms in \<open>auto simp: face_ok_def list_all_iff required_fields_def\<close>)
    then show ?thesis using typed_writes that by blast
  qed
  have opt: "optional c col" if "writes ks F c" "col \<in> set optional_fields" "fst col \<notin> set ks" for c col ks
  proof -
    have "optional F col" unfolding F_def
      by (rule optional_writes [OF face_fields_writes]) (use that(2) assms in \<open>auto simp: face_ok_def list_all_iff optional_fields_def\<close>)
    then show ?thesis using optional_writes that by blast
  qed
  note ks = required_fields_def optional_fields_def later_keys_defs
  obtain ts ss c1 where s1: "type_fields F = Inr (ts, ss, c1)"
    using type_fields_total [OF req [OF writes_refl [of "[]"]] req [OF writes_refl [of "[]"]]] by (auto simp: ks)
  note w1 = type_fields_writes [OF s1]
  obtain c2 where s2: "creature_fields ts ss c1 = Inr c2"
    using creature_fields_total [OF opt [OF w1] opt [OF w1] opt [OF w1], of ts ss] by (auto simp: ks)
  note w2 = writes_trans [OF w1 creature_fields_writes [OF s2]]
  obtain c3 where s3: "color_fields c2 = Inr c3"
    using color_fields_total [OF req [OF w2] req [OF w2] opt [OF w2] opt [OF w2]] by (auto simp: ks)
  note w3 = writes_trans [OF w2 color_fields_writes [OF s3]]
  obtain c4 where s4: "frame_fields c3 = Inr c4"
    using frame_fields_total [OF opt [OF w3] opt [OF w3]] by (auto simp: ks)
  note w4 = writes_trans [OF w3 frame_fields_writes [OF s4]]
  obtain c5 where s5: "price_fields c4 = Inr c5" using price_fields_total [OF opt [OF w4]] by (auto simp: ks)
  note w5 = writes_trans [OF w4 price_fields_writes [OF s5]]
  obtain c6 where s6: "layout_fields c5 = Inr c6"
    using layout_fields_total [OF opt [OF w5] opt [OF w5] opt [OF w5]] by (auto simp: ks)
  note w6 = writes_trans [OF w5 layout_fields_writes [OF s6]]
  obtain c7 where s7: "mana_fields ts c6 = Inr c7" using mana_fields_total [OF opt [OF w6], of ts] by (auto simp: ks)
  note w7 = writes_trans [OF w6 mana_fields_writes [OF s7]]
  obtain c8 where s8: "name_fields c7 = Inr c8" using name_fields_total [OF req [OF w7] opt [OF w7]] by (auto simp: ks)
  note w8 = writes_trans [OF w7 name_fields_writes [OF s8]]
  obtain c9 where s9: "rarity_fields strf c8 = Inr c9" using rarity_fields_total [OF opt [OF w8], of strf] by (auto simp: ks)
  show ?thesis by (simp add: process_face_def s1 [unfolded F_def] s2 s3 s4 s5 s6 s7 s8 s9)
qed

section \<open>Properties\<close>

text \<open>
  Preprocessing is idempotent: every card that \<open>preprocess_card\<close> returns, a face of a double-faced
  card included, passes the filters and is returned unchanged, alone, when it is processed again.
\<close>

theorem preprocess_card_idempotent:
  assumes "preprocess_card strf cd = Inr cs" "c \<in> set cs"
  shows "rejected c = Inr False \<and> preprocess_card strf c = Inr [c]"
  using preprocess_settled [OF assms] by (simp add: preprocess_card.simps [of strf c])

text \<open>A card for the witnesses, with the fields the import needs.\<close>

definition sample_card :: card_dict where
  "sample_card =
     [(CStr (u ''id''), CStr (u ''a'')), (CStr (u ''name''), CStr (u ''Elf'')),
      (CStr (u ''legalities''), CObj [(CStr (u ''modern''), CStr (u ''legal''))]),
      (CStr (u ''games''), CList [CStr (u ''paper'')]), (CStr (u ''colors''), CList [CStr (u ''G'')]),
      (CStr (u ''color_identity''), CList [CStr (u ''G'')]), (CStr (u ''power''), CStr (u ''1+*'')),
      (CStr (u ''type_line''), CStr (u ''Creature'' @ [32, 8212, 32] @ u ''Elf'')), (CStr (u ''card_name''), CStr (u ''Elf''))]"

lemma sample_card_ok: "face_ok (lift_name sample_card)" "rejected sample_card = Inr False"
  "\<not> has_key sample_card ''raw_card_blob''" "\<not> truthy_c (cget (lift_name sample_card) ''card_faces'')"
  by code_simp+

theorem preprocess_card_idempotent_witness:
  "\<exists>c. preprocess_card (\<lambda>_. []) sample_card = Inr [c] \<and> preprocess_card (\<lambda>_. []) c = Inr [c]"
proof -
  obtain c where "process_face (\<lambda>_. []) (lift_name sample_card) = Inr c"
    using process_face_total [OF sample_card_ok(1)] by blast
  then have "preprocess_card (\<lambda>_. []) sample_card = Inr [c]"
    using sample_card_ok by (simp add: preprocess_card.simps [of "\<lambda>_. []" sample_card] Let_def)
  with preprocess_card_idempotent [OF this, of c] show ?thesis by simp
qed



text \<open>
  C29: The integer of a collector number is null or in the range of a PostgreSQL integer, never
  negative, and a text of up to nine digits with other characters around them gives the number
  the digits spell.
\<close>

theorem collector_number_range:
  "(case extract_collector_number_int strf v of CNull \<Rightarrow> True | CInt n \<Rightarrow> 0 \<le> n \<and> n < 2 ^ 31 | _ \<Rightarrow> False)
   \<and> extract_collector_number_int strf
       (CStr (filter (\<lambda>c. \<not> is_digit_c c) a @ nat_str (n mod 10 ^ 9) @ filter (\<lambda>c. \<not> is_digit_c c) b))
     = CInt (int (n mod 10 ^ 9))"
proof -
  define m where "m = n mod 10 ^ 9"
  have m: "m < 10 ^ 9" by (simp add: m_def)
  let ?t = "filter (\<lambda>c. \<not> is_digit_c c) a @ nat_str m @ filter (\<lambda>c. \<not> is_digit_c c) b"
  have "filter is_digit_c (nat_str m) = nat_str m" using nat_str_digits by (auto intro: filter_True)
  then have f: "filter is_digit_c ?t = nat_str m" by (simp add: filter_False)
  have "length (nat_str m) \<le> 9" by (rule nat_str_length [OF m]) simp
  then have "py_int (nat_str m) = Some (int m)"
    using py_int_digits [of "nat_str m"] nat_str_digits by (simp add: list_all_iff max_str_digits_def)
  then have "extract_collector_number_int strf (CStr ?t) = CInt (int m)"
    using m by (simp only: extract_collector_number_int_def collector_text.simps f Let_def) simp
  then show ?thesis using collector_number_cases [of strf v] unfolding m_def by auto
qed

text \<open>
  \<open>maybe_int\<close> maps every text that is no number to null and every finite number to its integer
  part, but raises \<open>OverflowError\<close> on a text that \<open>float\<close> reads as an infinity.
\<close>

theorem maybe_int_cases:
  "maybe_int (CStr t) =
     (case py_float t of
        None \<Rightarrow> Inr CNull
      | Some NaN \<Rightarrow> Inr CNull
      | Some (Fin q) \<Rightarrow> Inr (CInt (trunc q))
      | Some _ \<Rightarrow> Inl OverflowError)
   \<and> maybe_int (CStr (u ''Infinity'')) = Inl OverflowError"
proof -
  have "maybe_int (CStr t) =
     (case py_float t of
        None \<Rightarrow> Inr CNull
      | Some NaN \<Rightarrow> Inr CNull
      | Some (Fin q) \<Rightarrow> Inr (CInt (trunc q))
      | Some _ \<Rightarrow> Inl OverflowError)" for t
    by (simp add: maybe_int_def maybeify_def bindr_def split: option.splits pyfloat.splits)
  moreover have "py_float (u ''Infinity'') = Some PInf" by code_simp
  ultimately show ?thesis by simp
qed

text \<open>
  The rarity number stored on import is the one a query compares with: for each rarity the import
  knows, \<open>get_rarity_number\<close> of the same text succeeds with the same number, and the two orders agree.
\<close>

theorem rarity_numbers_agree:
  "list_all (\<lambda>(t, n). rarity_text_to_int t = n \<and> rarity_text_to_int (py_upper t) = n \<and> get_rarity_number t = Inr n) rarity_map
   \<and> map snd rarity_map = [0, 1, 2, 3, 4, 5]"
  by code_simp

end
