(* ===== verification/Schema_Setup.thy ===== *)
theory Schema_Setup
  imports Py_Prelude
begin

text \<open>
  The start-up of a worker's database: \<open>APIResource.setup_schema\<close> of \<open>src/api/api_resource.py\<close>, which
  compares the migrations recorded in the database with those of the file system and applies what is
  missing.

  What a migration script does to the schema is PostgreSQL's: an argument \<open>exec\<close> that maps the script and
  the schema to an error or the next schema, with \<open>fresh\<close> the database without the schema. The state is
  what is committed: a script that fails leaves the state of the last commit, as the rollback does.
\<close>

section \<open>State\<close>

record migration =
  file_name :: pstr
  file_sha256 :: pstr
  file_contents :: pstr

type_synonym row = "pstr \<times> pstr"

record 's db =
  migrations :: "row list"
  schema :: 's

definition row_of :: "migration \<Rightarrow> row" where
  "row_of m = (file_name m, file_sha256 m)"

section \<open>Comparing and applying\<close>

text \<open>
  The comparison loop over \<open>zip(applied_migrations, filesystem_migrations)\<close>. The rows were fetched before
  the loop, so dropping everything does not change what is compared.
\<close>

fun compare_loop :: "'s \<Rightarrow> (row \<times> migration) list \<Rightarrow> pstr list \<Rightarrow> 's db \<Rightarrow> pstr list \<times> 's db" where
  "compare_loop fresh [] already d = (already, d)"
| "compare_loop fresh ((applied, fs) # ps) already d =
     (if applied = row_of fs then compare_loop fresh ps (already @ [snd applied]) d
      else compare_loop fresh ps [] (d\<lparr>migrations := [], schema := fresh\<rparr>))"

text \<open>The index on \<open>file_name\<close> is unique: inserting a name twice raises.\<close>

definition apply_migration :: "(pstr \<Rightarrow> 's \<Rightarrow> 's result) \<Rightarrow> migration \<Rightarrow> 's db \<Rightarrow> 's db result" where
  "apply_migration exec m d =
     bindr (exec (file_contents m) (schema d))
       (\<lambda>s. if file_name m \<in> fst ` set (migrations d) then Inl RuntimeError
            else Inr \<lparr>migrations = migrations d @ [row_of m], schema = s\<rparr>)"

fun apply_loop :: "(pstr \<Rightarrow> 's \<Rightarrow> 's result) \<Rightarrow> pstr list \<Rightarrow> migration list \<Rightarrow> 's db \<Rightarrow> unit result \<times> 's db" where
  "apply_loop exec already [] d = (Inr (), d)"
| "apply_loop exec already (m # ms) d =
     (if file_sha256 m \<in> set already then apply_loop exec already ms d
      else case apply_migration exec m d of
             Inl e \<Rightarrow> (Inl e, d)
           | Inr d \<Rightarrow> apply_loop exec already ms d)"

text \<open>
  \<open>is_set\<close> is the shared event that says the schema is set up; it is set when the loop ends without an
  exception. The result is the outcome, the event and the database.
\<close>

definition setup_schema ::
  "(pstr \<Rightarrow> 's \<Rightarrow> 's result) \<Rightarrow> 's \<Rightarrow> migration list \<Rightarrow> bool \<Rightarrow> 's db \<Rightarrow> unit result \<times> bool \<times> 's db" where
  "setup_schema exec fresh fs is_set d =
     (if is_set then (Inr (), True, d)
      else let (already, d) = compare_loop fresh (zip (migrations d) fs) [] d;
               (r, d) = apply_loop exec already fs d
           in (r, \<not> isl r, d))"

section \<open>A database at a prefix of the migrations\<close>

fun run_all :: "(pstr \<Rightarrow> 's \<Rightarrow> 's result) \<Rightarrow> migration list \<Rightarrow> 's \<Rightarrow> 's result" where
  "run_all exec [] s = Inr s"
| "run_all exec (m # ms) s = bindr (exec (file_contents m) s) (run_all exec ms)"

text \<open>
  The database has run exactly the first \<open>k\<close> migrations, in order, and has recorded them.
\<close>

definition at_prefix :: "(pstr \<Rightarrow> 's \<Rightarrow> 's result) \<Rightarrow> 's \<Rightarrow> migration list \<Rightarrow> nat \<Rightarrow> 's db \<Rightarrow> bool" where
  "at_prefix exec fresh fs k d \<longleftrightarrow>
     k \<le> length fs \<and> migrations d = map row_of (take k fs) \<and> run_all exec (take k fs) fresh = Inr (schema d)"

text \<open>File names are those of one directory, and no two scripts have the same text.\<close>

definition distinct_migrations :: "migration list \<Rightarrow> bool" where
  "distinct_migrations fs \<longleftrightarrow> distinct (map file_name fs) \<and> distinct (map file_sha256 fs)"

lemma run_all_append: "run_all exec (ms @ ns) s = bindr (run_all exec ms s) (run_all exec ns)"
proof (induction ms arbitrary: s)
  case (Cons m ms)
  then show ?case by (cases "exec (file_contents m) s") auto
qed simp

lemma compare_loop_prefix:
  "compare_loop fresh (zip (map row_of (take k fs)) fs) already d = (already @ map file_sha256 (take k fs), d)"
proof (induction k arbitrary: fs already)
  case (Suc k)
  then show ?case by (cases fs) (simp_all add: row_of_def)
qed simp

lemma distinct_take_drop: "distinct (map f fs) \<Longrightarrow> x \<in> set (drop k fs) \<Longrightarrow> f x \<notin> f ` set (take k fs)"
  by (metis append_take_drop_id disjoint_iff distinct_append image_eqI image_set map_append)

lemma apply_loop_skip:
  "file_sha256 ` set ms \<subseteq> set already \<Longrightarrow> apply_loop exec already (ms @ ns) d = apply_loop exec already ns d"
  by (induction ms) auto

lemma failed_migration_fails_all:
  assumes at: "at_prefix exec fresh fs k d" and "distinct_migrations fs" "k < length fs"
    and fail: "apply_migration exec (fs ! k) d = Inl e"
  shows "isl (run_all exec fs fresh)"
proof -
  have "fs ! k \<in> set (drop k fs)" by (metis assms(3) Cons_nth_drop_Suc list.set_intros(1))
  then have "file_name (fs ! k) \<notin> fst ` set (migrations d)"
    using at distinct_take_drop [of file_name fs "fs ! k" k] assms(2)
    by (simp add: at_prefix_def distinct_migrations_def row_of_def image_image)
  with fail have "exec (file_contents (fs ! k)) (schema d) = Inl e"
    by (auto simp: apply_migration_def bindr_Inl_iff split: if_splits)
  moreover have "fs = take k fs @ fs ! k # drop (Suc k) fs" using assms(3) by (rule id_take_nth_drop)
  then have "run_all exec fs fresh = bindr (run_all exec (take k fs) fresh) (run_all exec (fs ! k # drop (Suc k) fs))"
    by (metis run_all_append)
  ultimately show ?thesis using at by (simp add: at_prefix_def)
qed

lemma apply_loop_rest:
  assumes "at_prefix exec fresh fs k d" "distinct_migrations fs" "file_sha256 ` set (drop k fs) \<inter> set already = {}"
    and "apply_loop exec already (drop k fs) d = (r, d')"
  shows "(\<exists>j \<ge> k. at_prefix exec fresh fs j d' \<and> (r = Inr () \<longrightarrow> j = length fs)) \<and>
    (\<not> isl (run_all exec fs fresh) \<longrightarrow> r = Inr ())"
  using assms
proof (induction "length fs - k" arbitrary: k d)
  case 0
  then show ?case by (auto simp: at_prefix_def)
next
  case (Suc n)
  then have k: "k < length fs" by simp
  let ?m = "fs ! k"
  have ms: "drop k fs = ?m # drop (Suc k) fs" using k by (rule Cons_nth_drop_Suc [symmetric])
  have "file_sha256 ?m \<notin> set already" using Suc.prems(3) ms by auto
  with Suc.prems(4) ms
  have loop: "(case apply_migration exec ?m d of Inl e \<Rightarrow> (Inl e, d) | Inr d \<Rightarrow> apply_loop exec already (drop (Suc k) fs) d) = (r, d')"
    by simp
  show ?case
  proof (cases "apply_migration exec ?m d")
    case (Inl e)
    have "isl (run_all exec fs fresh)"
      by (rule failed_migration_fails_all [OF Suc.prems(1,2) k Inl])
    with Inl loop Suc.prems(1) show ?thesis by auto
  next
    case (Inr d1)
    then obtain s where s: "exec (file_contents ?m) (schema d) = Inr s"
      and d1: "d1 = \<lparr>migrations = migrations d @ [row_of ?m], schema = s\<rparr>"
      by (auto simp: apply_migration_def bindr_Inr_iff split: if_splits)
    have "at_prefix exec fresh fs (Suc k) d1"
      using Suc.prems(1) k s by (simp add: d1 at_prefix_def take_Suc_conv_app_nth run_all_append)
    moreover have "file_sha256 ` set (drop (Suc k) fs) \<inter> set already = {}"
      using Suc.prems(3) ms by auto
    moreover have "n = length fs - Suc k" using Suc.hyps(2) by simp
    moreover have "apply_loop exec already (drop (Suc k) fs) d1 = (r, d')" using loop Inr by simp
    ultimately have "(\<exists>j \<ge> Suc k. at_prefix exec fresh fs j d' \<and> (r = Inr () \<longrightarrow> j = length fs)) \<and>
        (\<not> isl (run_all exec fs fresh) \<longrightarrow> r = Inr ())"
      using Suc.hyps(1) Suc.prems(2) by blast
    then show ?thesis using Suc_leD by blast
  qed
qed


lemma at_prefix_all: "at_prefix exec fresh fs (length fs) d \<Longrightarrow> run_all exec fs fresh = Inr (schema d)"
  by (simp add: at_prefix_def)

section \<open>Properties\<close>

text \<open>
  C17: Setting up the schema keeps the database at a prefix of the migrations. From a database that
  has run and recorded the first \<open>k\<close> migrations (a new one for \<open>k = 0\<close>, or one left by a start-up that
  failed half way), the start-up ends with no migration lost or run twice: at a later prefix, at all of
  them when it reports success, and it does succeed when the scripts run one after the other on a
  new schema. The event that lets other workers skip it is set exactly on success.
\<close>
theorem setup_schema_prefix:
  assumes "at_prefix exec fresh fs k d" "distinct_migrations fs" "is_set \<longrightarrow> k = length fs"
    and "setup_schema exec fresh fs is_set d = (r, ev, d')"
  shows "(\<exists>j \<ge> k. at_prefix exec fresh fs j d' \<and> (ev \<longrightarrow> j = length fs)) \<and> (ev \<longleftrightarrow> r = Inr ()) \<and>
    (\<forall>s. run_all exec fs fresh = Inr s \<longrightarrow> r = Inr () \<and> schema d' = s)"
proof (cases is_set)
  case True
  with assms show ?thesis using at_prefix_all [of exec fresh fs d] by (auto simp: setup_schema_def)
next
  case False
  have rows: "migrations d = map row_of (take k fs)" using assms(1) by (simp add: at_prefix_def)
  let ?already = "map file_sha256 (take k fs)"
  have "apply_loop exec ?already fs d = apply_loop exec ?already (drop k fs) d"
    using apply_loop_skip [of "take k fs" ?already exec "drop k fs" d] by simp
  with assms(4) False have loop: "apply_loop exec ?already (drop k fs) d = (r, d')" and ev: "ev \<longleftrightarrow> \<not> isl r"
    by (auto simp: setup_schema_def rows compare_loop_prefix split: prod.splits)
  have "file_sha256 ` set (drop k fs) \<inter> set ?already = {}"
    using assms(2) distinct_take_drop [of file_sha256 fs _ k] by (auto simp: distinct_migrations_def)
  from apply_loop_rest [OF assms(1,2) this loop]
  obtain j where j: "k \<le> j" "at_prefix exec fresh fs j d'" "r = Inr () \<longrightarrow> j = length fs"
    "\<not> isl (run_all exec fs fresh) \<longrightarrow> r = Inr ()" by blast
  moreover have "ev \<longleftrightarrow> r = Inr ()" using ev by (cases r) auto
  ultimately show ?thesis using at_prefix_all [of exec fresh fs d'] by fastforce
qed

text \<open>Three scripts; what a schema has run is the list of their texts.\<close>

definition sample_migrations :: "migration list" where
  "sample_migrations = map (\<lambda>c. \<lparr>file_name = [c], file_sha256 = [c], file_contents = [c]\<rparr>) [1, 2, 3]"

definition record_script :: "pstr \<Rightarrow> pstr list \<Rightarrow> pstr list result" where
  "record_script c s = Inr (s @ [c])"

theorem setup_schema_prefix_witness:
  "setup_schema record_script [] sample_migrations False \<lparr>migrations = [([1], [1])], schema = [[1]]\<rparr>
     = (Inr (), True, \<lparr>migrations = [([1], [1]), ([2], [2]), ([3], [3])], schema = [[1], [2], [3]]\<rparr>) \<and>
   (\<exists>j \<ge> 1. at_prefix record_script [] sample_migrations j
      \<lparr>migrations = [([1], [1]), ([2], [2]), ([3], [3])], schema = [[1], [2], [3]]\<rparr>)"
proof -
  have run: "setup_schema record_script [] sample_migrations False \<lparr>migrations = [([1], [1])], schema = [[1]]\<rparr>
     = (Inr (), True, \<lparr>migrations = [([1], [1]), ([2], [2]), ([3], [3])], schema = [[1], [2], [3]]\<rparr>)"
    by code_simp
  have "at_prefix record_script [] sample_migrations 1 \<lparr>migrations = [([1], [1])], schema = [[1]]\<rparr>"
    "distinct_migrations sample_migrations"
    by code_simp+
  from setup_schema_prefix [OF this _ run] run show ?thesis by blast
qed

text \<open>
  When the first script has changed since it was applied and the later ones have not, the start-up
  drops the schema, runs the first script alone, skips all the others as already applied, and reports
  success: every migration but the first is missing until the next start-up. The comparison goes on
  after the drop and records again the migrations that it has just dropped.
\<close>
theorem changed_migration_skips_rest:
  assumes "distinct_migrations (m # ms)" "applied \<noteq> row_of m" "exec (file_contents m) fresh = Inr s"
    and "migrations d = applied # map row_of ms"
  shows "setup_schema exec fresh (m # ms) False d = (Inr (), True, \<lparr>migrations = [row_of m], schema = s\<rparr>)"
proof -
  let ?d = "d\<lparr>migrations := [], schema := fresh\<rparr>"
  let ?already = "map file_sha256 ms"
  have "compare_loop fresh (zip (migrations d) (m # ms)) [] d = (?already, ?d)"
    using assms(2,4) compare_loop_prefix [of fresh "length ms" ms "[]" ?d] by simp
  moreover have "file_sha256 m \<notin> set ?already"
    using assms(1) by (simp add: distinct_migrations_def)
  moreover have "apply_loop exec ?already ms d1 = (Inr (), d1)" for d1
    using apply_loop_skip [of ms ?already exec "[]" d1] by simp
  ultimately show ?thesis
    using assms(3) by (simp add: setup_schema_def apply_migration_def)
qed

theorem changed_migration_skips_rest_witness:
  "setup_schema record_script [] sample_migrations False
     \<lparr>migrations = [([1], [0]), ([2], [2]), ([3], [3])], schema = [[0], [2], [3]]\<rparr>
   = (Inr (), True, \<lparr>migrations = [([1], [1])], schema = [[1]]\<rparr>)"
  using changed_migration_skips_rest
    [of "hd sample_migrations" "tl sample_migrations" "([1], [0])" record_script "[]" "[[1]]"
      "\<lparr>migrations = [([1], [0]), ([2], [2]), ([3], [3])], schema = [[0], [2], [3]]\<rparr>"]
  by (simp add: sample_migrations_def distinct_migrations_def row_of_def record_script_def)

end
