(* ===== verification/Card_Upsert.thy ===== *)
theory Card_Upsert
  imports Bulk_Upsert Card_Processing_Props Schema_Setup
begin

text \<open>
  Loading cards into the database: \<open>_upsert_cards\<close> of \<open>src/api/api_resource.py\<close>, which composes the schema set-up, the
  preprocessing of the cards (theory \<open>Card_Processing\<close>) and the bulk upsert (theory \<open>Bulk_Upsert\<close>) in pages within one
  transaction. What the database may refuse besides (a constraint, a timeout, a lost connection) is an argument, the
  numbers of the pages it refuses.
\<close>

section \<open>The operation\<close>

definition UPSERT_PAGE_SIZE :: nat where
  "UPSERT_PAGE_SIZE = 3000"

definition CONFLICT_TARGET :: "pstr list" where
  "CONFLICT_TARGET = [u ''scryfall_id'']"

definition SKIP_COLUMNS :: "pstr list" where
  "SKIP_COLUMNS = [u ''card_oracle_tags'', u ''card_art_tags'', u ''card_is_tags'']"

text \<open>A processed card as a row of the parameter: the keys of a JSON object are texts.\<close>

fun json_entry :: "cval \<times> cval \<Rightarrow> (pstr \<times> cval jval) option" where
  "json_entry (CStr k, v) = Some (k, if v = CNull then JNull else JVal v)"
| "json_entry _ = None"

definition json_row :: "card_dict \<Rightarrow> cval dict_row" where
  "json_row cd = List.map_filter json_entry cd"

text \<open>
  What can go wrong: an exception of the preprocessing or of \<open>bulk_upsert\<close>, an error of the database, and one of the source of
  the cards, of which it matters only whether it is a \<open>ValueError\<close> or a \<open>KeyError\<close> (or a subclass).
\<close>

datatype load_error = Code_Error exn | Database_Error | Source_Error bool

fun caught :: "load_error \<Rightarrow> bool" where
  "caught (Code_Error e) = (e = ValueError \<or> e = KeyError)"
| "caught Database_Error = True"
| "caught (Source_Error b) = b"

text \<open>
  The cards as they flow through \<open>_CardStream\<close>: the number read, the processed rows, and the exception that ends the stream
  early. \<open>ending\<close> is the one of the source.
\<close>

fun card_stream :: "(cval \<Rightarrow> pstr) \<Rightarrow> card_dict list \<Rightarrow> load_error option \<Rightarrow> nat \<times> card_dict list \<times> load_error option" where
  "card_stream strf [] ending = (0, [], ending)"
| "card_stream strf (cd # cds) ending =
     (case preprocess_card strf cd of
        Inl e \<Rightarrow> (1, [], Some (Code_Error e))
      | Inr processed \<Rightarrow> (case card_stream strf cds ending of (raw, rows, e) \<Rightarrow> (Suc raw, processed @ rows, e)))"

text \<open>When the stream ends with an exception the page begun is lost.\<close>

definition stream_pages :: "nat \<Rightarrow> 'a list \<Rightarrow> load_error option \<Rightarrow> 'a list list" where
  "stream_pages n xs ending =
     (case ending of None \<Rightarrow> batched n xs | Some e \<Rightarrow> filter (\<lambda>page. length page = n) (batched n xs))"

record load_counts =
  cards_inserted :: nat
  cards_updated :: nat
  cards_sent :: nat

definition no_counts :: load_counts where
  "no_counts = \<lparr>cards_inserted = 0, cards_updated = 0, cards_sent = 0\<rparr>"

definition add_counts :: "upsert_counts \<Rightarrow> nat \<Rightarrow> load_counts \<Rightarrow> load_counts" where
  "add_counts batch n c =
     \<lparr>cards_inserted = cards_inserted c + inserted batch, cards_updated = cards_updated c + updated batch, cards_sent = cards_sent c + n\<rparr>"

fun upsert_pages ::
  "('r list \<Rightarrow> 't \<Rightarrow> upsert_error + (upsert_counts \<times> 't)) \<Rightarrow> (nat \<Rightarrow> bool) \<Rightarrow> nat \<Rightarrow> 'r list list \<Rightarrow>
   load_counts \<times> 't \<Rightarrow> load_error + (load_counts \<times> 't)" where
  "upsert_pages upsert refused i [] (c, t) = Inr (c, t)"
| "upsert_pages upsert refused i (page # pages) (c, t) =
     (if refused i then Inl Database_Error
      else case upsert page t of
             Inl (Py e) \<Rightarrow> Inl (Code_Error e)
           | Inl CardinalityViolation \<Rightarrow> Inl Database_Error
           | Inr (batch, t) \<Rightarrow> upsert_pages upsert refused (Suc i) pages (add_counts batch (length page) c, t))"

datatype load_status = Success | No_Cards_Before_Preprocessing | No_Cards_After_Preprocessing | Load_Error load_error

record load_result =
  load_status :: load_status
  result_counts :: load_counts
  cards_loaded :: nat

text \<open>
  The state: the database with its recorded migrations, whose content is the table of the cards, whether the schema has been
  set up by this process, and the cache generation.
\<close>

record 'd load_state =
  database :: "'d table_row list db"
  schema_set_up :: bool
  cache_generation :: nat

record 'd load_env =
  run_script :: "pstr \<Rightarrow> 'd table_row list \<Rightarrow> 'd table_row list result"
  migration_files :: "migration list"
  str_value :: "cval \<Rightarrow> pstr"
  cast_value :: "pstr \<Rightarrow> cval jval \<Rightarrow> 'd"
  default_value :: "pstr \<Rightarrow> 'd dbval"
  table_columns :: "column_info list"
  table_key :: "pstr list"
  refused_page :: "nat \<Rightarrow> bool"

definition upsert_page :: "'d load_env \<Rightarrow> card_dict list \<Rightarrow> 'd table_row list \<Rightarrow> upsert_error + (upsert_counts \<times> 'd table_row list)" where
  "upsert_page env page t =
     bulk_upsert (cast_value env) (default_value env) (table_columns env) (table_key env) CONFLICT_TARGET SKIP_COLUMNS (map json_row page) t"

definition load_pages ::
  "'d load_env \<Rightarrow> nat \<Rightarrow> card_dict list \<Rightarrow> load_error option \<Rightarrow> 'd table_row list \<Rightarrow> load_error + (load_counts \<times> 'd table_row list)" where
  "load_pages env page_size rows ending t =
     (if page_size = 0 then Inl (Code_Error ValueError)
      else bindr (upsert_pages (upsert_page env) (refused_page env) 0 (stream_pages page_size rows ending) (no_counts, t)) (\<lambda>r.
      case ending of None \<Rightarrow> Inr r | Some e \<Rightarrow> Inl e))"

definition upsert_cards ::
  "'d load_env \<Rightarrow> nat \<Rightarrow> card_dict list \<Rightarrow> load_error option \<Rightarrow> 'd load_state \<Rightarrow> (load_error + load_result) \<times> 'd load_state" where
  "upsert_cards env page_size cards ending s =
     (case setup_schema (run_script env) [] (migration_files env) (schema_set_up s) (database s) of
        (Inl e, is_set, d) \<Rightarrow> (Inl (Code_Error e), s\<lparr>database := d, schema_set_up := is_set\<rparr>)
      | (Inr _, is_set, d) \<Rightarrow>
          let s = s\<lparr>database := d, schema_set_up := is_set\<rparr>;
              (raw, rows, ended) = card_stream (str_value env) cards ending
          in case load_pages env page_size rows ended (schema d) of
               Inl e \<Rightarrow>
                 if caught e then (Inr \<lparr>load_status = Load_Error e, result_counts = no_counts, cards_loaded = 0\<rparr>, s)
                 else (Inl e, s)
             | Inr (c, t) \<Rightarrow>
                 let s = s\<lparr>database := d\<lparr>schema := t\<rparr>\<rparr>
                 in if cards_sent c = 0
                    then (Inr \<lparr>load_status = (if raw = 0 then No_Cards_Before_Preprocessing else No_Cards_After_Preprocessing),
                               result_counts = no_counts, cards_loaded = 0\<rparr>, s)
                    else (Inr \<lparr>load_status = Success, result_counts = c, cards_loaded = cards_inserted c + cards_updated c\<rparr>,
                          s\<lparr>cache_generation := Suc (cache_generation s)\<rparr>))"

section \<open>The specification\<close>

text \<open>
  The key of a card in the table, the row of a key, and what becomes of the row when a card is merged into it: a new row has the
  fields of the card and the defaults; in an existing one the fields of the card replace the columns, except for the key and
  the columns left alone.
\<close>

definition key_stmt :: "'d load_env \<Rightarrow> upsert_stmt" where
  "key_stmt env =
     \<lparr>active = [], non_pk = [], key_cols = CONFLICT_TARGET,
      pg_types = map (\<lambda>col. (column_name col, col_pg_type col)) (rev (table_columns env))\<rparr>"

definition card_key :: "'d load_env \<Rightarrow> card_dict \<Rightarrow> 'd dbval list" where
  "card_key env cd = join_key (cast_value env) (key_stmt env) (json_row cd)"

definition row_at :: "'d dbval list \<Rightarrow> 'd table_row list \<Rightarrow> 'd table_row option" where
  "row_at k t = find_row CONFLICT_TARGET k t"

definition names :: "'d load_env \<Rightarrow> pstr list" where
  "names env = map column_name (table_columns env)"

definition field_or :: "'d load_env \<Rightarrow> card_dict \<Rightarrow> pstr \<Rightarrow> 'd dbval \<Rightarrow> 'd dbval" where
  "field_or env cd c d =
     (case map_of (json_row cd) c of
        None \<Rightarrow> d
      | Some v \<Rightarrow> extract_value (cast_value env) (type_of (key_stmt env) c) v)"

definition merged :: "'d load_env \<Rightarrow> card_dict \<Rightarrow> 'd table_row option \<Rightarrow> 'd table_row" where
  "merged env cd existing =
     (case existing of
        None \<Rightarrow> (\<lambda>c. if c \<in> set (names env) then field_or env cd c Null else default_value env c)
      | Some e \<Rightarrow> (\<lambda>c. if c \<in> set (names env) \<and> c \<notin> set CONFLICT_TARGET \<and> c \<notin> set SKIP_COLUMNS then field_or env cd c (e c) else e c))"

definition last_with :: "'d load_env \<Rightarrow> 'd dbval list \<Rightarrow> card_dict list \<Rightarrow> card_dict option" where
  "last_with env k cds = List.find (\<lambda>cd. card_key env cd = k) (rev cds)"

definition merge_page :: "'d load_env \<Rightarrow> 'd dbval list \<Rightarrow> card_dict list \<Rightarrow> 'd table_row option \<Rightarrow> 'd table_row option" where
  "merge_page env k page old = (case last_with env k page of None \<Rightarrow> old | Some cd \<Rightarrow> Some (merged env cd old))"

text \<open>
  Cards that can be loaded: the table has the key column, of a type that is not JSON and whose conversion keeps different
  identifiers apart; every card has an identifier; a column some card lacks has no default.
\<close>

definition key_column_ok :: "'d load_env \<Rightarrow> bool" where
  "key_column_ok env \<longleftrightarrow>
     list_all (\<lambda>c. c \<in> set (names env) \<and> type_of (key_stmt env) c \<noteq> u ''json'' \<and> type_of (key_stmt env) c \<noteq> u ''jsonb'') CONFLICT_TARGET \<and>
     key_casts_inj (cast_value env) (key_stmt env)"

definition loadable_card :: "'d load_env \<Rightarrow> card_dict \<Rightarrow> bool" where
  "loadable_card env cd \<longleftrightarrow>
     keyed (key_stmt env) (json_row cd) \<and>
     list_all (\<lambda>c. map_of (json_row cd) c \<noteq> None \<or> default_value env c = Null) (names env)"

definition distinct_keys :: "'d table_row list \<Rightarrow> bool" where
  "distinct_keys t \<longleftrightarrow> distinct (map (\<lambda>r. map r CONFLICT_TARGET) t)"

section \<open>One page\<close>

lemma plan_page:
  fixes page :: "card_dict list"
  assumes "key_column_ok env" and "list_all (loadable_card env) page" and "page \<noteq> []"
  obtains stmt rows' where
    "plan_upsert (table_columns env) (table_key env) CONFLICT_TARGET SKIP_COLUMNS (map json_row page) = Inr (stmt, rows')"
    "key_cols stmt = CONFLICT_TARGET" "pg_types stmt = pg_types (key_stmt env)"
    "active stmt = present_cols (table_columns env) rows'"
    "non_pk stmt = filter (\<lambda>c. c \<notin> set CONFLICT_TARGET \<and> c \<notin> set SKIP_COLUMNS) (active stmt)"
proof (cases "plan_upsert (table_columns env) (table_key env) CONFLICT_TARGET SKIP_COLUMNS (map json_row page)")
  case (Inl e)
  have "map json_row page \<noteq> []" using assms(3) by simp
  moreover have "\<not> list_ex (lacks_key CONFLICT_TARGET) (map json_row page)"
    using assms(2) by (fastforce simp: list_all_iff list_ex_iff loadable_card_def keyed_def lacks_key_def key_stmt_def)
  moreover have "set CONFLICT_TARGET \<subseteq> set (map column_name (table_columns env))"
    using assms(1) by (auto simp: key_column_ok_def list_all_iff names_def)
  moreover have "CONFLICT_TARGET \<noteq> []" by (simp add: CONFLICT_TARGET_def)
  ultimately have False
    using Inl plan_upsert_error_cases [of "map json_row page" "table_columns env" "table_key env" CONFLICT_TARGET SKIP_COLUMNS e]
    by (simp add: Let_def)
  then show ?thesis ..
next
  case (Inr p)
  obtain stmt rows' where p: "p = (stmt, rows')" by fastforce
  have ct: "CONFLICT_TARGET \<noteq> []" by (simp add: CONFLICT_TARGET_def)
  show ?thesis
    by (rule that [OF Inr [unfolded p]])
      (use Inr p ct in \<open>auto simp: plan_upsert_def bindr_Inr_iff Let_def key_stmt_def split: if_splits\<close>)
qed

lemma join_key_fixed:
  assumes "key_cols stmt = CONFLICT_TARGET" and "pg_types stmt = pg_types (key_stmt env)"
  shows "join_key (cast_value env) stmt (json_row cd) = card_key env cd" and "type_of stmt = type_of (key_stmt env)"
    and "keyed stmt = keyed (key_stmt env)" and "key_casts_inj (cast_value env) stmt = key_casts_inj (cast_value env) (key_stmt env)"
proof -
  show ty: "type_of stmt = type_of (key_stmt env)" using assms by (simp add: type_of_def fun_eq_iff)
  have kc: "key_cols (key_stmt env) = CONFLICT_TARGET" by (simp add: key_stmt_def)
  show "join_key (cast_value env) stmt (json_row cd) = card_key env cd"
    unfolding card_key_def join_key_def join_val_def [abs_def] assms(1) kc ty ..
  show "keyed stmt = keyed (key_stmt env)"
    unfolding keyed_def [abs_def] assms(1) kc ..
  show "key_casts_inj (cast_value env) stmt = key_casts_inj (cast_value env) (key_stmt env)"
    unfolding key_casts_inj_def assms(1) kc ty ..
qed

lemma upserted_merged:
  assumes ty: "type_of stmt = type_of (key_stmt env)" and act: "active stmt = present_cols (table_columns env) rows'"
    and non: "non_pk stmt = filter (\<lambda>c. c \<notin> set CONFLICT_TARGET \<and> c \<notin> set SKIP_COLUMNS) (active stmt)"
    and row: "json_row cd \<in> set rows'" and ok: "loadable_card env cd"
  shows "upserted (cast_value env) (default_value env) stmt (json_row cd) existing = merged env cd existing"
proof -
  have sub: "set (active stmt) \<subseteq> set (names env)" by (auto simp: act present_cols_def names_def)
  have lacks: "map_of (json_row cd) c = None" if "c \<in> set (names env)" "c \<notin> set (active stmt)" for c
    using that row by (auto simp: act present_cols_def names_def list_ex_iff map_of_eq_None_iff)
  then have dflt: "default_value env c = Null" if "c \<in> set (names env)" "c \<notin> set (active stmt)" for c
    using that ok by (auto simp: loadable_card_def list_all_iff)
  show ?thesis
  proof (cases existing)
    case None
    then show ?thesis
      using sub lacks dflt
      by (auto simp: upserted_def merged_def new_row_def select_expr_def field_or_def ty fun_eq_iff split: option.splits)
  next
    case (Some e)
    then show ?thesis
      using sub lacks
      by (auto simp: upserted_def merged_def updated_row_def select_expr_def field_or_def ty non fun_eq_iff split: option.splits)
  qed
qed

lemma upsert_page_correct:
  fixes page :: "card_dict list"
  assumes key: "key_column_ok env" and page: "list_all (loadable_card env) page" "page \<noteq> []" and dist: "distinct_keys t"
  shows "\<exists>batch t'. upsert_page env page t = Inr (batch, t') \<and> distinct_keys t' \<and>
    (\<forall>k. row_at k t' = merge_page env k page (row_at k t)) \<and>
    inserted batch = card {k \<in> card_key env ` set page. row_at k t = None}"
proof -
  obtain stmt rows' where
    plan: "plan_upsert (table_columns env) (table_key env) CONFLICT_TARGET SKIP_COLUMNS (map json_row page) = Inr (stmt, rows')"
    and kc: "key_cols stmt = CONFLICT_TARGET" and pg: "pg_types stmt = pg_types (key_stmt env)"
    and act: "active stmt = present_cols (table_columns env) rows'"
    and non: "non_pk stmt = filter (\<lambda>c. c \<notin> set CONFLICT_TARGET \<and> c \<notin> set SKIP_COLUMNS) (active stmt)"
    using plan_page [OF key page] by blast
  note fixed = join_key_fixed [OF kc pg]
  have keyed: "list_all (keyed stmt) (map json_row page)"
    using page(1) by (auto simp: fixed(3) list_all_iff loadable_card_def)
  have inj: "key_casts_inj (cast_value env) stmt" using key by (simp add: fixed(4) key_column_ok_def)
  have types: "list_all (\<lambda>c. type_of stmt c \<noteq> u ''json'' \<and> type_of stmt c \<noteq> u ''jsonb'') (key_cols stmt)"
    using key by (auto simp: fixed(2) kc key_column_ok_def list_all_iff)
  obtain batch t' where run: "upsert_page env page t = Inr (batch, t')"
    and d': "distinct (map (\<lambda>r. map r (key_cols stmt)) t')"
    and find: "\<forall>k. find_row (key_cols stmt) k t' =
       (case List.find (\<lambda>row. join_key (cast_value env) stmt row = k) (rev (map json_row page)) of
          None \<Rightarrow> find_row (key_cols stmt) k t
        | Some row \<Rightarrow> Some (upserted (cast_value env) (default_value env) stmt row (find_row (key_cols stmt) k t)))"
    and ins: "inserted batch = card {k \<in> join_key (cast_value env) stmt ` set (map json_row page). find_row (key_cols stmt) k t = None}"
    using bulk_upsert_refines [OF plan _ keyed types inj, of t "default_value env"] page(2) dist
    unfolding upsert_page_def distinct_keys_def kc by auto
  have "row_at k t' = merge_page env k page (row_at k t)" for k
  proof -
    have look: "List.find (\<lambda>row. join_key (cast_value env) stmt row = k) (rev (map json_row page)) =
        map_option json_row (last_with env k page)"
      by (simp add: rev_map find_map last_with_def comp_def fixed(1))
    have "upserted (cast_value env) (default_value env) stmt (json_row cd) e = merged env cd e"
      if "last_with env k page = Some cd" for cd e
    proof (rule upserted_merged [OF fixed(2) act non])
      have "List.find (\<lambda>row. join_key (cast_value env) stmt row = k) rows' = Some (json_row cd)"
        using deduped(4) [OF plan_upsert_stmt(1) [OF plan] keyed inj, of k] look that by simp
      then show "json_row cd \<in> set rows'" by (blast dest: find_set)
      have "cd \<in> set page" using that by (auto simp: last_with_def dest: find_set)
      then show "loadable_card env cd" using page(1) by (simp add: list_all_iff)
    qed
    then show ?thesis
      using find [rule_format, of k] unfolding look kc row_at_def merge_page_def by (auto split: option.splits)
  qed
  moreover have "inserted batch = card {k \<in> card_key env ` set page. row_at k t = None}"
    unfolding ins kc row_at_def by (simp add: image_image fixed(1))
  ultimately show ?thesis using run d' by (auto simp: distinct_keys_def kc)
qed

section \<open>All pages\<close>

lemma merge_page_None: "merge_page env k page old = None \<longleftrightarrow> k \<notin> card_key env ` set page \<and> old = None"
proof -
  have "last_with env k page = None \<longleftrightarrow> k \<notin> card_key env ` set page"
    by (auto simp: last_with_def find_None_iff)
  then show ?thesis by (auto simp: merge_page_def split: option.splits)
qed

lemma upsert_pages_correct:
  fixes pages :: "card_dict list list"
  assumes key: "key_column_ok env" and "list_all (\<lambda>page. list_all (loadable_card env) page \<and> page \<noteq> []) pages"
    and "distinct_keys t" and "refused = (\<lambda>i. False)"
  shows "\<exists>c' t'. upsert_pages (upsert_page env) refused i pages (c, t) = Inr (c', t') \<and> distinct_keys t' \<and>
    (\<forall>k. row_at k t' = fold (merge_page env k) pages (row_at k t)) \<and>
    cards_sent c' = cards_sent c + length (concat pages) \<and>
    cards_inserted c' = cards_inserted c + card {k \<in> card_key env ` set (concat pages). row_at k t = None}"
  using assms(2-4)
proof (induction pages arbitrary: i c t)
  case (Cons page pages)
  obtain batch t1 where page: "upsert_page env page t = Inr (batch, t1)" "distinct_keys t1"
    and find: "\<forall>k. row_at k t1 = merge_page env k page (row_at k t)"
    and ins: "inserted batch = card {k \<in> card_key env ` set page. row_at k t = None}"
    using upsert_page_correct [OF key, of page t] Cons.prems by auto
  obtain c' t' where rest: "upsert_pages (upsert_page env) refused (Suc i) pages (add_counts batch (length page) c, t1) = Inr (c', t')"
    "distinct_keys t'" "\<forall>k. row_at k t' = fold (merge_page env k) pages (row_at k t1)"
    "cards_sent c' = cards_sent (add_counts batch (length page) c) + length (concat pages)"
    "cards_inserted c' = cards_inserted (add_counts batch (length page) c) + card {k \<in> card_key env ` set (concat pages). row_at k t1 = None}"
    using Cons.IH [of t1 "Suc i" "add_counts batch (length page) c"] Cons.prems page(2) by (auto simp del: set_concat)
  have "{k \<in> card_key env ` set (concat (page # pages)). row_at k t = None} =
      {k \<in> card_key env ` set page. row_at k t = None} \<union> {k \<in> card_key env ` set (concat pages). row_at k t1 = None}"
    using find by (auto simp: merge_page_None)
  moreover have "card \<dots> = card {k \<in> card_key env ` set page. row_at k t = None} + card {k \<in> card_key env ` set (concat pages). row_at k t1 = None}"
    using find by (intro card_Un_disjoint) (auto simp: merge_page_None)
  ultimately show ?case
    using page rest find ins Cons.prems(3) by (simp add: add_counts_def)
qed simp






section \<open>The whole load\<close>

lemma load_pages_correct:
  fixes rows :: "card_dict list"
  assumes "key_column_ok env" and "list_all (loadable_card env) rows" and "distinct_keys t" and "refused_page env = (\<lambda>i. False)"
    and "0 < page_size"
  shows "\<exists>c t'. load_pages env page_size rows None t = Inr (c, t') \<and> distinct_keys t' \<and>
    (\<forall>k. row_at k t' = fold (merge_page env k) (batched page_size rows) (row_at k t)) \<and>
    cards_sent c = length rows \<and> cards_inserted c = card {k \<in> card_key env ` set rows. row_at k t = None}"
proof -
  have "list_all (\<lambda>page. list_all (loadable_card env) page \<and> page \<noteq> []) (batched page_size rows)"
    using batched_pages [of _ page_size rows] assms(2) by (fastforce simp: list_all_iff)
  from upsert_pages_correct [OF assms(1) this assms(3) assms(4), of 0 no_counts] show ?thesis
    using assms(5) concat_batched [OF assms(5), of rows]
    by (auto simp: load_pages_def stream_pages_def no_counts_def bindr_def simp del: set_concat)
qed






section \<open>Faces\<close>

lemma cindex_put: "cindex (put cd k v) k' = (if k' = k then Inr v else cindex cd k')"
  by (simp add: cindex_def put_def u_inj)

lemma type_fields_id: "type_fields cd = Inr (ts, ss, c) \<Longrightarrow> cindex c ''scryfall_id'' = cindex cd ''id''"
  by (auto simp: type_fields_def bindr_Inr_iff Let_def case_prod_beta cindex_put)

lemma process_face_id:
  assumes "process_face strf cd = Inr c"
  shows "cindex c ''scryfall_id'' = cindex cd ''id''"
proof -
  from assms obtain ts ss c1 c2 c3 c4 c5 c6 c7 c8 c9 where
    s: "type_fields (face_fields cd) = Inr (ts, ss, c1)" "creature_fields ts ss c1 = Inr c2" "color_fields c2 = Inr c3"
      "frame_fields c3 = Inr c4" "price_fields c4 = Inr c5" "layout_fields c5 = Inr c6" "mana_fields ts c6 = Inr c7"
      "name_fields c7 = Inr c8" "rarity_fields strf c8 = Inr c9" "c = default_fields c9"
    by (rule process_face_stages)
  have "writes (creature_keys @ color_keys @ [''card_frame_data''] @ [''price_usd'', ''price_eur'', ''price_tix''] @ layout_keys @
      [''mana_cost_jsonb'', ''devotion''] @ name_keys @ rarity_keys @ default_keys) c1 c"
    unfolding s(10)
    by (intro writes_trans [OF creature_fields_writes [OF s(2)]]
      writes_trans [OF color_fields_writes [OF s(3)]] writes_trans [OF frame_fields_writes [OF s(4)]]
      writes_trans [OF price_fields_writes [OF s(5)]] writes_trans [OF layout_fields_writes [OF s(6)]]
      writes_trans [OF mana_fields_writes [OF s(7)]] writes_trans [OF name_fields_writes [OF s(8)]]
      writes_trans [OF rarity_fields_writes [OF s(9)]] default_fields_writes)
  from writes_cget [OF this, of "''scryfall_id''"] have "cindex c ''scryfall_id'' = cindex c1 ''scryfall_id''"
    by (simp add: later_keys_defs)
  moreover have "cindex c1 ''scryfall_id'' = cindex (face_fields cd) ''id''"
    using s(1) by (rule type_fields_id)
  moreover have "cindex (face_fields cd) ''id'' = cindex cd ''id''"
    using writes_cget [OF face_fields_writes, of "''id''" cd] by simp
  ultimately show ?thesis by simp
qed

lemma lift_name_writes: "writes [''card_name'', ''face_name''] cd (lift_name cd)"
  by (simp add: lift_name_def writes_intros)

lemma writes_pop: "k \<in> set ks \<Longrightarrow> writes ks cd cd' \<Longrightarrow> writes ks cd (pop cd' k)"
  unfolding writes_def pop_def map_of_filter_key by (auto simp: u_inj)

lemma drop_creature_writes:
  "writes [''creature_power'', ''creature_power_text'', ''creature_toughness'', ''creature_toughness_text''] cd (drop_creature cd)"
  by (simp add: drop_creature_def writes_pop writes_refl)

lemma dict_union_single: "dict_union a [(CStr (u k), v)] = put a k v"
  by (simp add: dict_union_def put_def)

lemma merge_face_writes: "writes [''face_idx'', ''card_faces''] (dict_union cd face) (merge_face cd i face)"
  unfolding merge_face_def dict_union_single by (simp add: writes_pop writes_put writes_refl)

lemma dict_union_keep:
  assumes "\<not> has_key b k"
  shows "cindex (dict_union a b) k = cindex a k \<and> has_key (dict_union a b) k = has_key a k"
proof -
  have "map_of (rev b) (CStr (u k)) = None" using assms by (auto simp: has_key_def map_of_eq_None_iff)
  then show ?thesis by (simp add: dict_union_def map_of_foldl_dict_set cindex_def has_key_def map_add_def)
qed

text \<open>What the faces have of the card: the fields they do not have themselves.\<close>

lemma face_keeps:
  assumes "\<not> has_key face k"
    and "k \<notin> {''face_idx'', ''card_faces'', ''card_name'', ''face_name'', ''creature_power'', ''creature_power_text'',
      ''creature_toughness'', ''creature_toughness_text''}"
  shows "cindex (merge_face (drop_creature (lift_name cd)) i face) k = cindex cd k \<and>
    has_key (merge_face (drop_creature (lift_name cd)) i face) k = has_key cd k"
  using assms(2) dict_union_keep [OF assms(1), of "drop_creature (lift_name cd)"]
    writes_cget [OF merge_face_writes [of "drop_creature (lift_name cd)" face i], of k]
    writes_cget [OF drop_creature_writes [of "lift_name cd"], of k] writes_cget [OF lift_name_writes [of cd], of k]
  by simp

text \<open>The documented format: a face has no identifier of its own and is not processed already.\<close>

definition plain_face :: "cval \<Rightarrow> bool" where
  "plain_face face \<longleftrightarrow>
     (case face of
        CObj d \<Rightarrow> \<not> has_key d ''id'' \<and> \<not> has_key d ''raw_card_blob''
      | _ \<Rightarrow> True)"

definition plain_card :: "card_dict \<Rightarrow> bool" where
  "plain_card cd \<longleftrightarrow>
     \<not> has_key cd ''raw_card_blob'' \<and> (case cget cd ''card_faces'' of CList faces \<Rightarrow> list_all plain_face faces | _ \<Rightarrow> True)"

lemma faces_share_id:
  "preprocess_card strf cd = Inr cs \<Longrightarrow> plain_card cd \<Longrightarrow> c \<in> set cs \<Longrightarrow> cindex c ''scryfall_id'' = cindex cd ''id''"
proof (induction strf cd arbitrary: cs c rule: preprocess_card.induct)
  case (1 strf cd)
  have raw: "\<not> has_key cd ''raw_card_blob''" using "1.prems"(2) by (simp add: plain_card_def)
  from "1.prems"(1,3) have rej: "rejected cd = Inr False"
    by (subst (asm) preprocess_card.simps) (auto simp: bindr_Inr_iff split: if_splits)
  consider (faces) faces pr where "truthy_c (cget (lift_name cd) ''card_faces'')"
        "cget (lift_name cd) ''card_faces'' = CList faces" "cs = concat pr"
        "mapr (\<lambda>(face_idx, face). case face of
             CObj face_data \<Rightarrow> preprocess_card strf (merge_face (drop_creature (lift_name cd)) face_idx face_data)
           | _ \<Rightarrow> Inl TypeError) (enumerate 1 faces) = Inr pr"
    | (single) c' where "process_face strf (lift_name cd) = Inr c'" "cs = [c']"
    using "1.prems"(1) raw
    by (subst (asm) preprocess_card.simps)
      (auto simp: rej bindr_Inr_iff Let_def split: if_splits cval.splits)
  then show ?case
  proof cases
    case faces
    then obtain p where p: "p \<in> set pr" "c \<in> set p" using "1.prems"(3) by auto
    from mapr_InrD [OF faces(4) p(1)] obtain k fd where
      k: "(k, CObj fd) \<in> set (enumerate 1 faces)" "preprocess_card strf (merge_face (drop_creature (lift_name cd)) k fd) = Inr p"
      by (auto split: cval.splits)
    let ?m = "merge_face (drop_creature (lift_name cd)) k fd"
    have "cget cd ''card_faces'' = CList faces"
      using faces(2) writes_cget [OF lift_name_writes [of cd], of "''card_faces''"] by simp
    moreover have "CObj fd \<in> set faces" using k(1) by (metis enumerate_eq_zip set_zip_rightD)
    ultimately have plain: "\<not> has_key fd ''id''" "\<not> has_key fd ''raw_card_blob''"
      using "1.prems"(2) by (auto simp: plain_card_def list_all_iff plain_face_def)
    have "cget ?m ''card_faces'' = CNull"
      using has_key_pop [of _ "''card_faces''"] unfolding merge_face_def cget_def has_key_def by simp
    then have "plain_card ?m" "cindex ?m ''id'' = cindex cd ''id''"
      using raw face_keeps [OF plain(1), of cd k] face_keeps [OF plain(2), of cd k] by (simp_all add: plain_card_def)
    with "1.IH" [of False "lift_name cd" _ faces "(k, CObj fd)" k "CObj fd" fd p c] rej raw faces k p(2) show ?thesis by auto
  next
    case single
    from process_face_id [OF single(1)] single(2) "1.prems"(3) writes_cget [OF lift_name_writes [of cd], of "''id''"] show ?thesis by simp
  qed
qed

lemma map_of_json_row: "map_of (json_row cd) k = map_option (\<lambda>v. if v = CNull then JNull else JVal v) (map_of cd (CStr k))"
proof (induction cd)
  case (Cons e cd)
  obtain k' v where "e = (k', v)" by fastforce
  with Cons show ?case by (cases k') (auto simp: json_row_def List.map_filter_simps)
qed (simp add: json_row_def List.map_filter_simps)

lemma id_field:
  assumes "cindex cd k = Inr v" and "v \<noteq> CNull"
  shows "map_of (json_row cd) (u k) = Some (JVal v)"
  using assms by (auto simp: map_of_json_row cindex_def split: option.splits)

lemma id_keyed: "cindex cd ''scryfall_id'' = Inr v \<Longrightarrow> v \<noteq> CNull \<Longrightarrow> keyed (key_stmt env) (json_row cd)"
  using id_field [of cd "''scryfall_id''" v] by (simp add: keyed_def key_stmt_def CONFLICT_TARGET_def)

lemma same_id_same_key:
  "cindex a ''scryfall_id'' = Inr v \<Longrightarrow> cindex b ''scryfall_id'' = Inr v \<Longrightarrow> v \<noteq> CNull \<Longrightarrow> card_key env a = card_key env b"
  using id_field [of a "''scryfall_id''" v] id_field [of b "''scryfall_id''" v]
  by (simp add: card_key_def join_key_def join_val_def key_stmt_def CONFLICT_TARGET_def)

lemma batched_one: "xs \<noteq> [] \<Longrightarrow> length xs \<le> n \<Longrightarrow> batched n xs = [xs]"
  by (subst batched.simps, subst batched.simps) (auto simp: Suc_le_eq neq_Nil_conv)

lemma last_with_all: "xs \<noteq> [] \<Longrightarrow> (\<And>x. x \<in> set xs \<Longrightarrow> card_key env x = k) \<Longrightarrow> last_with env k xs = Some (last xs)"
  by (cases xs rule: rev_cases) (simp_all add: last_with_def)

text \<open>
  C37: Of a card with several faces only the last is stored. All its processed faces have the identifier of the card, which is the key of the
  conflict: with the faces on one page the upsert keeps the row of the last one alone, so that at most one row is
  inserted although as many rows are sent as there are faces.
\<close>

theorem faces_collapse:
  assumes set_up: "setup_schema (run_script env) [] (migration_files env) (schema_set_up s) (database s) = (Inr (), is_set, d)"
    and faces: "preprocess_card (str_value env) cd = Inr rows" and "rows \<noteq> []" and "length rows \<le> page_size" and plain: "plain_card cd"
    and ident: "cindex cd ''id'' = Inr i" "i \<noteq> CNull"
    and key: "key_column_ok env" and ok: "list_all (loadable_card env) rows"
    and dist: "distinct_keys (schema d)" and acc: "refused_page env = (\<lambda>i. False)"
  shows "\<exists>c t. upsert_cards env page_size [cd] None s =
      (Inr \<lparr>load_status = Success, result_counts = c, cards_loaded = cards_inserted c + cards_updated c\<rparr>,
       \<lparr>database = d\<lparr>schema := t\<rparr>, schema_set_up = is_set, cache_generation = Suc (cache_generation s)\<rparr>) \<and>
    cards_sent c = length rows \<and> cards_inserted c \<le> 1 \<and>
    (\<forall>k. row_at k t =
       (if k = card_key env (last rows) then Some (merged env (last rows) (row_at k (schema d))) else row_at k (schema d)))"
proof -
  let ?k = "card_key env (last rows)"
  have size: "0 < page_size" using \<open>rows \<noteq> []\<close> \<open>length rows \<le> page_size\<close> by (cases rows) auto
  have keys: "card_key env x = ?k" if "x \<in> set rows" for x
    using that faces_share_id [OF faces plain] ident \<open>rows \<noteq> []\<close> by (intro same_id_same_key [of _ i]) simp_all
  obtain c t where run: "load_pages env page_size rows None (schema d) = Inr (c, t)"
    "\<forall>k. row_at k t = merge_page env k rows (row_at k (schema d))"
    "cards_sent c = length rows" "cards_inserted c = card {k \<in> card_key env ` set rows. row_at k (schema d) = None}"
    using load_pages_correct [OF key ok dist acc size] batched_one [OF \<open>rows \<noteq> []\<close> \<open>length rows \<le> page_size\<close>] by auto
  have "{k \<in> card_key env ` set rows. row_at k (schema d) = None} \<subseteq> {?k}" using keys by auto
  from card_mono [OF _ this] have "cards_inserted c \<le> 1" using run(4) by simp
  moreover have "row_at k t = (if k = ?k then Some (merged env (last rows) (row_at k (schema d))) else row_at k (schema d))" for k
  proof (cases "k = ?k")
    case True
    then show ?thesis using run(2) last_with_all [OF \<open>rows \<noteq> []\<close> keys] by (simp add: merge_page_def)
  next
    case False
    then have "last_with env k rows = None" using keys by (auto simp: last_with_def find_None_iff)
    with False show ?thesis using run(2) by (simp add: merge_page_def)
  qed
  moreover have "upsert_cards env page_size [cd] None s =
      (Inr \<lparr>load_status = Success, result_counts = c, cards_loaded = cards_inserted c + cards_updated c\<rparr>,
       \<lparr>database = d\<lparr>schema := t\<rparr>, schema_set_up = is_set, cache_generation = Suc (cache_generation s)\<rparr>)"
    using run(1,3) \<open>rows \<noteq> []\<close> by (simp add: upsert_cards_def set_up faces)
  ultimately show ?thesis using run(3) by blast
qed

section \<open>Examples\<close>

definition sample_env :: "cval jval load_env" where
  "sample_env =
     \<lparr>run_script = (\<lambda>script t. Inr t), migration_files = [], str_value = (\<lambda>v. []), cast_value = (\<lambda>t v. v), default_value = (\<lambda>c. Null),
      table_columns = [\<lparr>column_name = u ''scryfall_id'', data_type = u ''uuid'', udt_name = u ''uuid''\<rparr>,
        \<lparr>column_name = u ''face_name'', data_type = u ''text'', udt_name = u ''text''\<rparr>],
      table_key = [], refused_page = (\<lambda>i. False)\<rparr>"

definition sample_state :: "cval jval load_state" where
  "sample_state = \<lparr>database = \<lparr>migrations = [], schema = []\<rparr>, schema_set_up = True, cache_generation = 0\<rparr>"

lemma sample_env_ok:
  "key_column_ok sample_env" "refused_page sample_env = (\<lambda>i. False)" "distinct_keys (schema (database sample_state))"
  "setup_schema (run_script sample_env) [] (migration_files sample_env) (schema_set_up sample_state) (database sample_state) =
     (Inr (), True, database sample_state)"
  "keyed (key_stmt sample_env) (json_row cd) \<Longrightarrow> loadable_card sample_env cd"
proof -
  have "list_all (\<lambda>c. c \<in> set (names sample_env) \<and> type_of (key_stmt sample_env) c \<noteq> u ''json'' \<and>
      type_of (key_stmt sample_env) c \<noteq> u ''jsonb'') CONFLICT_TARGET" by code_simp
  moreover have "key_casts_inj (cast_value sample_env) (key_stmt sample_env)"
    by (simp add: key_casts_inj_def sample_env_def inj_def)
  ultimately show "key_column_ok sample_env" by (simp add: key_column_ok_def)
qed (simp_all add: sample_env_def sample_state_def distinct_keys_def setup_schema_def loadable_card_def list_all_iff)




definition sample_dfc :: card_dict where
  "sample_dfc =
     [(CStr (u ''id''), CStr (u ''a'')), (CStr (u ''name''), CStr (u ''Day // Night'')),
      (CStr (u ''legalities''), CObj [(CStr (u ''modern''), CStr (u ''legal''))]), (CStr (u ''games''), CList [CStr (u ''paper'')]),
      (CStr (u ''color_identity''), CList []), (CStr (u ''colors''), CList []),
      (CStr (u ''card_faces''), CList
         [CObj [(CStr (u ''name''), CStr (u ''Day'')), (CStr (u ''type_line''), CStr (u ''Land''))],
          CObj [(CStr (u ''name''), CStr (u ''Night'')), (CStr (u ''type_line''), CStr (u ''Land''))]])]"

definition sample_face :: "nat \<Rightarrow> string \<Rightarrow> card_dict" where
  "sample_face i n =
     merge_face (drop_creature (lift_name sample_dfc)) i [(CStr (u ''name''), CStr (u n)), (CStr (u ''type_line''), CStr (u ''Land''))]"

lemma sample_face_ok:
  "face_ok (lift_name (sample_face 1 ''Day''))" "rejected (sample_face 1 ''Day'') = Inr False"
  "\<not> has_key (sample_face 1 ''Day'') ''raw_card_blob''" "\<not> truthy_c (cget (lift_name (sample_face 1 ''Day'')) ''card_faces'')"
  "face_ok (lift_name (sample_face (Suc 1) ''Night''))" "rejected (sample_face (Suc 1) ''Night'') = Inr False"
  "\<not> has_key (sample_face (Suc 1) ''Night'') ''raw_card_blob''" "\<not> truthy_c (cget (lift_name (sample_face (Suc 1) ''Night'')) ''card_faces'')"
  by code_simp+

lemma sample_dfc_ok:
  "plain_card sample_dfc" "cindex sample_dfc ''id'' = Inr (CStr (u ''a''))" "rejected sample_dfc = Inr False"
  "\<not> has_key sample_dfc ''raw_card_blob''"
  "cget (lift_name sample_dfc) ''card_faces'' =
     CList [CObj [(CStr (u ''name''), CStr (u ''Day'')), (CStr (u ''type_line''), CStr (u ''Land''))],
            CObj [(CStr (u ''name''), CStr (u ''Night'')), (CStr (u ''type_line''), CStr (u ''Land''))]]"
  by code_simp+

lemma one_face:
  assumes "face_ok (lift_name cd)" "rejected cd = Inr False" "\<not> has_key cd ''raw_card_blob''"
    "\<not> truthy_c (cget (lift_name cd) ''card_faces'')"
  shows "\<exists>c. preprocess_card strf cd = Inr [c]"
proof -
  obtain c where "process_face strf (lift_name cd) = Inr c" using process_face_total [OF assms(1)] by blast
  then show ?thesis using assms by (simp add: preprocess_card.simps [of strf cd] Let_def)
qed

lemma sample_dfc_processed: "\<exists>a b. preprocess_card strf sample_dfc = Inr [a, b]"
proof -
  obtain a where a: "preprocess_card strf (sample_face 1 ''Day'') = Inr [a]" using one_face [OF sample_face_ok(1-4)] by blast
  obtain b where b: "preprocess_card strf (sample_face (Suc 1) ''Night'') = Inr [b]" using one_face [OF sample_face_ok(5-8)] by blast
  show ?thesis
    by (subst preprocess_card.simps)
      (simp add: sample_dfc_ok(3,4) sample_dfc_ok(5) [simplified] Let_def a [unfolded sample_face_def, simplified]
        b [unfolded sample_face_def, simplified])
qed

theorem faces_collapse_witness:
  "\<exists>c t. upsert_cards sample_env 3000 [sample_dfc] None sample_state =
      (Inr \<lparr>load_status = Success, result_counts = c, cards_loaded = cards_inserted c + cards_updated c\<rparr>,
       \<lparr>database = (database sample_state)\<lparr>schema := t\<rparr>, schema_set_up = True, cache_generation = 1\<rparr>) \<and>
     cards_sent c = 2 \<and> cards_inserted c \<le> 1"
proof -
  obtain a b where ab: "preprocess_card (str_value sample_env) sample_dfc = Inr [a, b]" using sample_dfc_processed by blast
  have ident: "cindex x ''scryfall_id'' = Inr (CStr (u ''a''))" if "x \<in> set [a, b]" for x
    using faces_share_id [OF ab sample_dfc_ok(1) that] sample_dfc_ok(2) by simp
  have ok: "list_all (loadable_card sample_env) [a, b]"
    using sample_env_ok(5) [OF id_keyed [OF ident]] by (auto simp: list_all_iff)
  have "\<exists>ct t. upsert_cards sample_env 3000 [sample_dfc] None sample_state =
      (Inr \<lparr>load_status = Success, result_counts = ct, cards_loaded = cards_inserted ct + cards_updated ct\<rparr>,
       \<lparr>database = (database sample_state)\<lparr>schema := t\<rparr>, schema_set_up = True, cache_generation = Suc (cache_generation sample_state)\<rparr>) \<and>
    cards_sent ct = length [a, b] \<and> cards_inserted ct \<le> 1"
    using faces_collapse [OF sample_env_ok(4) ab _ _ sample_dfc_ok(1,2) _ sample_env_ok(1) ok sample_env_ok(3,2), of 3000] by auto
  then show ?thesis by (simp add: sample_state_def numeral_2_eq_2)
qed

end
