(* ===== verification/Import_Machine.thy ===== *)
theory Import_Machine
  imports Py_Prelude
begin

text \<open>
  The import of the card data by several workers (\<open>src/api/api_resource.py\<close>): \<open>import_data\<close>, \<open>_run_import_under_lock\<close>,
  \<open>_import_recent\<close>, \<open>_setup_complete\<close>, \<open>_reload_engine\<close> and \<open>_trigger_background_reload_if_needed\<close>, as a step relation. The workers
  share the time of the last import with its lock, the guard of the engine reload, the cache generation and the database; each
  is a program counter with a thread that may warm the engine. What the database and the network do (how long a step
  takes, whether it fails) is left open: each step that can fail has a failing variant.

  Times are whole seconds, and the clock does not go back. A call of \<open>import_data\<close> that the decorator answers from its
  cache changes nothing and is no step.
\<close>

section \<open>The state\<close>

definition MIN_IMPORT_INTERVAL :: nat where
  "MIN_IMPORT_INTERVAL = 300"

definition IMPORT_LOCK_TIMEOUT :: nat where
  "IMPORT_LOCK_TIMEOUT = 2"

definition MIN_IMPORT_CARDS :: nat where
  "MIN_IMPORT_CARDS = 90000"

definition SETUP_COMPLETE_TTL :: nat where
  "SETUP_COMPLETE_TTL = 60 * 60"

text \<open>
  Where a worker is in \<open>import_data\<close>: entered, waiting for the lock with the timeout (since a time) or without, timed out,
  or holding the lock; there the upsert, the four backfills (those left are counted), the reload of the engine with the version of the
  data it reads and the number of cards, and the end, which records whether the reload was committed.
\<close>

datatype pc =
    Idle
  | Asked
  | Waiting nat
  | Timed_Out
  | Blocked
  | Holding
  | Upserting
  | Backfilling nat
  | Want_Reload
  | Reloading nat nat
  | Finishing bool
  | Releasing

datatype bg = Bg_Idle | Bg_Try | Bg_Loading nat nat

datatype agent = Main nat | Thread nat

datatype event = Started nat | Recorded nat

type_synonym setup_cache = "(bool \<times> nat \<times> nat) option"

record world =
  now :: nat
  last_import :: nat
  import_lock :: "nat option"
  reload_guard :: "agent option"
  pcs :: "nat \<Rightarrow> pc"
  bgs :: "nat \<Rightarrow> bg"
  setup_caches :: "nat \<Rightarrow> setup_cache"
  db :: nat
  cards :: nat
  engine :: nat
  engine_size :: nat
  generation :: nat
  events :: "event list"

definition initial_world :: "nat \<Rightarrow> nat \<Rightarrow> world" where
  "initial_world time_val num_cards =
     \<lparr>now = Suc time_val, last_import = 0, import_lock = None, reload_guard = None, pcs = (\<lambda>p. Idle), bgs = (\<lambda>p. Bg_Idle),
      setup_caches = (\<lambda>p. None), db = 0, cards = num_cards, engine = 0, engine_size = 0, generation = 0, events = []\<rparr>"

section \<open>The tests\<close>

definition import_recent :: "world \<Rightarrow> bool" where
  "import_recent w \<longleftrightarrow> last_import w \<noteq> 0 \<and> now w - last_import w < MIN_IMPORT_INTERVAL"

text \<open>\<open>_setup_complete\<close>; \<open>query\<close> is the answer of the database, or nothing when it fails.\<close>

definition setup_complete :: "nat \<Rightarrow> nat \<Rightarrow> nat option \<Rightarrow> setup_cache \<Rightarrow> bool \<times> setup_cache" where
  "setup_complete time_val current_import_time query cache =
     (let fresh = (case query of None \<Rightarrow> False | Some cards_found \<Rightarrow> MIN_IMPORT_CARDS < cards_found);
          miss = (fresh, Some (fresh, time_val + SETUP_COMPLETE_TTL, current_import_time))
      in case cache of
           None \<Rightarrow> miss
         | Some (result, expires_at, cached_import_time) \<Rightarrow>
             if time_val < expires_at \<and> current_import_time = cached_import_time then (result, cache) else miss)"

section \<open>The steps\<close>

definition go :: "nat \<Rightarrow> pc \<Rightarrow> world \<Rightarrow> world" where
  "go p c w = w\<lparr>pcs := (pcs w)(p := c)\<rparr>"

definition go_bg :: "nat \<Rightarrow> bg \<Rightarrow> world \<Rightarrow> world" where
  "go_bg p b w = w\<lparr>bgs := (bgs w)(p := b)\<rparr>"

definition record_import :: "world \<Rightarrow> world" where
  "record_import w = w\<lparr>last_import := now w, events := Recorded (now w) # events w\<rparr>"

definition clear_caches :: "world \<Rightarrow> world" where
  "clear_caches w = w\<lparr>generation := Suc (generation w)\<rparr>"

text \<open>The steps of work that has been started, for \<open>N\<close> workers; \<open>enable_engine\<close> is the setting.\<close>

inductive work_step :: "nat \<Rightarrow> bool \<Rightarrow> world \<Rightarrow> world \<Rightarrow> bool" for N enable_engine where
  fastpath: "p < N \<Longrightarrow> pcs w p = Asked \<Longrightarrow> import_recent w \<Longrightarrow> work_step N enable_engine w (go p Idle w)"
| slowpath: "p < N \<Longrightarrow> pcs w p = Asked \<Longrightarrow> \<not> import_recent w \<Longrightarrow> work_step N enable_engine w (go p (Waiting (now w)) w)"
| acquire: "p < N \<Longrightarrow> pcs w p = Waiting t \<or> pcs w p = Blocked \<Longrightarrow> import_lock w = None \<Longrightarrow>
    work_step N enable_engine w (go p Holding (w\<lparr>import_lock := Some p\<rparr>))"
| time_out: "p < N \<Longrightarrow> pcs w p = Waiting t \<Longrightarrow> import_lock w \<noteq> None \<Longrightarrow> t + IMPORT_LOCK_TIMEOUT \<le> now w \<Longrightarrow>
    work_step N enable_engine w (go p Timed_Out w)"
| skip: "p < N \<Longrightarrow> pcs w p = Timed_Out \<Longrightarrow> query \<in> {None, Some (cards w)} \<Longrightarrow>
    setup_complete (now w) (last_import w) query (setup_caches w p) = (True, c) \<Longrightarrow>
    work_step N enable_engine w (go p Idle (w\<lparr>setup_caches := (setup_caches w)(p := c)\<rparr>))"
| wait_on: "p < N \<Longrightarrow> pcs w p = Timed_Out \<Longrightarrow> query \<in> {None, Some (cards w)} \<Longrightarrow>
    setup_complete (now w) (last_import w) query (setup_caches w p) = (False, c) \<Longrightarrow>
    work_step N enable_engine w (go p Blocked (w\<lparr>setup_caches := (setup_caches w)(p := c)\<rparr>))"
| recent_under_lock: "p < N \<Longrightarrow> pcs w p = Holding \<Longrightarrow> import_recent w \<Longrightarrow> work_step N enable_engine w (go p Releasing w)"
| start: "p < N \<Longrightarrow> pcs w p = Holding \<Longrightarrow> \<not> import_recent w \<Longrightarrow>
    work_step N enable_engine w (go p Upserting (w\<lparr>events := Started (now w) # events w\<rparr>))"
| schema_fails: "p < N \<Longrightarrow> pcs w p = Holding \<Longrightarrow> \<not> import_recent w \<Longrightarrow> work_step N enable_engine w (go p Releasing w)"
| upserted: "p < N \<Longrightarrow> pcs w p = Upserting \<Longrightarrow>
    work_step N enable_engine w (go p (Backfilling 4) (record_import (clear_caches (w\<lparr>db := Suc (db w), cards := n\<rparr>))))"
| upsert_fails: "p < N \<Longrightarrow> pcs w p = Upserting \<Longrightarrow> work_step N enable_engine w (go p Releasing w)"
| backfill: "p < N \<Longrightarrow> pcs w p = Backfilling (Suc k) \<Longrightarrow> work_step N enable_engine w (go p (Backfilling k) (w\<lparr>db := Suc (db w)\<rparr>))"
| backfill_fails: "p < N \<Longrightarrow> pcs w p = Backfilling (Suc k) \<Longrightarrow> work_step N enable_engine w (go p Releasing w)"
| want_reload: "p < N \<Longrightarrow> pcs w p = Backfilling 0 \<Longrightarrow>
    work_step N enable_engine w (go p (if enable_engine then Want_Reload else Finishing False) w)"
| reload_begin: "p < N \<Longrightarrow> pcs w p = Want_Reload \<Longrightarrow> reload_guard w = None \<Longrightarrow>
    work_step N enable_engine w (go p (Reloading (db w) (cards w)) (w\<lparr>reload_guard := Some (Main p)\<rparr>))"
| reload_commit: "p < N \<Longrightarrow> pcs w p = Reloading v n \<Longrightarrow>
    work_step N enable_engine w (go p (Finishing True) (w\<lparr>engine := v, engine_size := n, reload_guard := None\<rparr>))"
| reload_skipped: "p < N \<Longrightarrow> pcs w p = Reloading v n \<Longrightarrow> work_step N enable_engine w (go p (Finishing False) (w\<lparr>reload_guard := None\<rparr>))"
| reload_fails: "p < N \<Longrightarrow> pcs w p = Reloading v n \<Longrightarrow> work_step N enable_engine w (go p Releasing (w\<lparr>reload_guard := None\<rparr>))"
| finish: "p < N \<Longrightarrow> pcs w p = Finishing b \<Longrightarrow>
    work_step N enable_engine w (go p Releasing (record_import (clear_caches (w\<lparr>setup_caches := (setup_caches w)(p := None)\<rparr>))))"
| release: "p < N \<Longrightarrow> pcs w p = Releasing \<Longrightarrow> work_step N enable_engine w (go p Idle (w\<lparr>import_lock := None\<rparr>))"
| bg_loses: "p < N \<Longrightarrow> bgs w p = Bg_Try \<Longrightarrow> reload_guard w \<noteq> None \<or> \<not> enable_engine \<Longrightarrow> work_step N enable_engine w (go_bg p Bg_Idle w)"
| bg_populated: "p < N \<Longrightarrow> bgs w p = Bg_Try \<Longrightarrow> reload_guard w = None \<Longrightarrow> engine_size w \<noteq> 0 \<Longrightarrow> work_step N enable_engine w (go_bg p Bg_Idle w)"
| bg_begin: "p < N \<Longrightarrow> bgs w p = Bg_Try \<Longrightarrow> reload_guard w = None \<Longrightarrow> engine_size w = 0 \<Longrightarrow> enable_engine \<Longrightarrow>
    work_step N enable_engine w (go_bg p (Bg_Loading (db w) (cards w)) (w\<lparr>reload_guard := Some (Thread p)\<rparr>))"
| bg_commit: "p < N \<Longrightarrow> bgs w p = Bg_Loading v n \<Longrightarrow> work_step N enable_engine w (go_bg p Bg_Idle (w\<lparr>engine := v, engine_size := n, reload_guard := None\<rparr>))"
| bg_ends: "p < N \<Longrightarrow> bgs w p = Bg_Loading v n \<Longrightarrow> work_step N enable_engine w (go_bg p Bg_Idle (w\<lparr>reload_guard := None\<rparr>))"

text \<open>What comes from outside: a call, a search that finds the engine empty, and the clock.\<close>

inductive env_step :: "nat \<Rightarrow> world \<Rightarrow> world \<Rightarrow> bool" for N where
  call: "p < N \<Longrightarrow> pcs w p = Idle \<Longrightarrow> env_step N w (go p Asked w)"
| warm: "p < N \<Longrightarrow> bgs w p = Bg_Idle \<Longrightarrow> engine_size w = 0 \<Longrightarrow> env_step N w (go_bg p Bg_Try w)"
| tick: "env_step N w (w\<lparr>now := now w + d\<rparr>)"

definition step :: "nat \<Rightarrow> bool \<Rightarrow> world \<Rightarrow> world \<Rightarrow> bool" where
  "step N enable_engine w w' \<longleftrightarrow> work_step N enable_engine w w' \<or> env_step N w w'"

definition reachable :: "nat \<Rightarrow> bool \<Rightarrow> world \<Rightarrow> bool" where
  "reachable N enable_engine w \<longleftrightarrow> (\<exists>time_val num_cards. (step N enable_engine)\<^sup>*\<^sup>* (initial_world time_val num_cards) w)"

lemmas step_defs = go_def go_bg_def record_import_def clear_caches_def

section \<open>Every started call ends\<close>

text \<open>The work a worker has left at most.\<close>

fun rank :: "pc \<Rightarrow> nat" where
  "rank Idle = 0"
| "rank Releasing = 1"
| "rank (Finishing b) = 2"
| "rank (Reloading v n) = 3"
| "rank Want_Reload = 4"
| "rank (Backfilling k) = 5 + k"
| "rank Upserting = 10"
| "rank Holding = 11"
| "rank Blocked = 12"
| "rank Timed_Out = 13"
| "rank (Waiting t) = 14"
| "rank Asked = 15"

fun bg_rank :: "bg \<Rightarrow> nat" where
  "bg_rank Bg_Idle = 0"
| "bg_rank (Bg_Loading v n) = 1"
| "bg_rank Bg_Try = 2"

definition work_left :: "nat \<Rightarrow> world \<Rightarrow> nat" where
  "work_left N w = (\<Sum>p<N. rank (pcs w p) + bg_rank (bgs w p))"

lemma sum_update:
  fixes f g :: "nat \<Rightarrow> nat"
  assumes "p < N" and "f p < g p" and "\<And>q. q \<noteq> p \<Longrightarrow> f q = g q"
  shows "(\<Sum>q<N. f q) < (\<Sum>q<N. g q)"
proof (rule sum_strict_mono_ex1)
  show "\<forall>q \<in> {..<N}. f q \<le> g q" using assms(2,3) by (metis less_imp_le order_refl)
  show "\<exists>q \<in> {..<N}. f q < g q" using assms(1,2) by blast
qed simp

lemma work_decreases: "work_step N enable_engine w w' \<Longrightarrow> work_left N w' < work_left N w"
  unfolding work_left_def
  by (erule work_step.cases; rule_tac p = p in sum_update) (auto simp: step_defs)

fun in_lock :: "pc \<Rightarrow> bool" where
  "in_lock Holding = True"
| "in_lock Upserting = True"
| "in_lock (Backfilling k) = True"
| "in_lock Want_Reload = True"
| "in_lock (Reloading v n) = True"
| "in_lock (Finishing b) = True"
| "in_lock Releasing = True"
| "in_lock _ = False"

fun reloading :: "pc \<Rightarrow> bool" where
  "reloading (Reloading v n) = True"
| "reloading _ = False"

fun loading :: "bg \<Rightarrow> bool" where
  "loading (Bg_Loading v n) = True"
| "loading _ = False"

fun main_of :: "agent option \<Rightarrow> nat option" where
  "main_of (Some (Main p)) = Some p"
| "main_of _ = None"

fun thread_of :: "agent option \<Rightarrow> nat option" where
  "thread_of (Some (Thread p)) = Some p"
| "thread_of _ = None"

text \<open>
  A resource is owned: a worker is in the section \<open>P\<close> exactly when it is the owner.
\<close>

definition owned :: "('a \<Rightarrow> bool) \<Rightarrow> (nat \<Rightarrow> 'a) \<Rightarrow> nat option \<Rightarrow> bool" where
  "owned P f l \<longleftrightarrow> (\<forall>p. P (f p) = (l = Some p))"

lemma ownedD: "owned P f l \<Longrightarrow> P (f p) \<Longrightarrow> l = Some p"
  by (simp add: owned_def)

lemma owned_unique: "owned P f l \<Longrightarrow> P (f p) \<Longrightarrow> P (f q) \<Longrightarrow> p = q"
  by (simp add: owned_def)

lemma owned_keep: "P c = P (f p) \<Longrightarrow> owned P (f(p := c)) l = owned P f l"
  unfolding owned_def by (metis fun_upd_apply)

lemma owned_take: "owned P f None \<Longrightarrow> P c \<Longrightarrow> owned P (f(p := c)) (Some p)"
  by (auto simp: owned_def)

lemma owned_release: "owned P f l \<Longrightarrow> P (f p) \<Longrightarrow> \<not> P c \<Longrightarrow> owned P (f(p := c)) None"
  by (auto simp: owned_def)

lemma owned_other:
  "owned reloading f (main_of g) \<Longrightarrow> f p = Reloading v n \<Longrightarrow> owned loading h (thread_of g) \<Longrightarrow> owned loading h None"
  "owned loading h (thread_of g) \<Longrightarrow> h p = Bg_Loading v n \<Longrightarrow> owned reloading f (main_of g) \<Longrightarrow> owned reloading f None"
  using ownedD [of reloading f "main_of g" p] ownedD [of loading h "thread_of g" p]
  by (cases g rule: main_of.cases; force)+

definition lock_inv :: "nat \<Rightarrow> world \<Rightarrow> bool" where
  "lock_inv N w \<longleftrightarrow>
     owned in_lock (pcs w) (import_lock w) \<and> owned reloading (pcs w) (main_of (reload_guard w)) \<and>
     owned loading (bgs w) (thread_of (reload_guard w)) \<and> (\<forall>p \<ge> N. pcs w p = Idle \<and> bgs w p = Bg_Idle)"

lemma lock_inv_init: "lock_inv N (initial_world t n)"
  by (simp add: lock_inv_def initial_world_def owned_def)

lemma lock_inv_work: "work_step N enable_engine w w' \<Longrightarrow> lock_inv N w \<Longrightarrow> lock_inv N w'"
  unfolding lock_inv_def
  by (erule work_step.cases) (auto simp: step_defs owned_keep intro: owned_take owned_release owned_other)

lemma lock_inv_env: "env_step N w w' \<Longrightarrow> lock_inv N w \<Longrightarrow> lock_inv N w'"
  unfolding lock_inv_def by (erule env_step.cases) (auto simp: step_defs owned_keep)

text \<open>
  The guard serializes the reloads: a reload under the import lock reads the present data, and once it is committed no
  older data can be loaded before the lock is released.
\<close>

definition data_inv :: "world \<Rightarrow> bool" where
  "data_inv w \<longleftrightarrow>
     (\<forall>p v n. pcs w p = Reloading v n \<longrightarrow> v = db w) \<and>
     (\<forall>p. pcs w p = Finishing True \<longrightarrow> engine w = db w \<and> (\<forall>q v n. bgs w q = Bg_Loading v n \<longrightarrow> v = db w))"

lemma data_inv_init: "data_inv (initial_world t n)"
  by (simp add: data_inv_def initial_world_def)

text \<open>Only the owner of the lock changes the data.\<close>

lemma alone:
  assumes "lock_inv N w" and "in_lock (pcs w p)"
  shows "q \<noteq> p \<Longrightarrow> \<not> in_lock (pcs w q)"
  using assms owned_unique unfolding lock_inv_def by metis

lemma no_loading:
  assumes "lock_inv N w" and "pcs w p = Reloading v n"
  shows "bgs w q \<noteq> Bg_Loading v' n'"
  using assms owned_other(1) [of "pcs w" "reload_guard w" p v n "bgs w"] unfolding lock_inv_def owned_def
  by (metis loading.simps(1) option.distinct(1))

lemma data_inv_work:
  assumes "work_step N enable_engine w w'" and lock: "lock_inv N w" and data: "data_inv w"
  shows "data_inv w'"
  using assms(1)
proof cases
  case (upserted p n)
  with alone [OF lock, of p] show ?thesis by (auto simp: data_inv_def step_defs) (metis in_lock.simps)+
next
  case (backfill p k)
  with alone [OF lock, of p] show ?thesis by (auto simp: data_inv_def step_defs) (metis in_lock.simps)+
next
  case (reload_begin p)
  with alone [OF lock, of p] data show ?thesis by (auto simp: data_inv_def step_defs)
next
  case (reload_commit p v n)
  with data no_loading [OF lock, of p] alone [OF lock, of p] show ?thesis
    by (auto simp: data_inv_def step_defs) (metis in_lock.simps)+
next
  case (bg_commit p v n)
  with data show ?thesis by (auto simp: data_inv_def step_defs split: if_splits) blast+
qed (use data in \<open>auto simp: data_inv_def step_defs split: if_splits\<close>)

lemma data_inv_env: "env_step N w w' \<Longrightarrow> data_inv w \<Longrightarrow> data_inv w'"
  unfolding data_inv_def by (erule env_step.cases) (auto simp: step_defs split: if_splits)

text \<open>
  The events, the newest first, are spaced: an import starts at least the interval after everything recorded before it.
\<close>

fun spaced :: "event list \<Rightarrow> bool" where
  "spaced [] = True"
| "spaced (Recorded t # es) = spaced es"
| "spaced (Started t # es) = (spaced es \<and> (\<forall>r. Recorded r \<in> set es \<longrightarrow> r + MIN_IMPORT_INTERVAL \<le> t))"

definition time_inv :: "world \<Rightarrow> bool" where
  "time_inv w \<longleftrightarrow>
     spaced (events w) \<and> 0 < now w \<and> last_import w \<le> now w \<and>
     (\<forall>r. Recorded r \<in> set (events w) \<longrightarrow> r \<le> last_import w \<and> last_import w \<noteq> 0)"

lemma time_inv_init: "time_inv (initial_world t n)"
  by (simp add: time_inv_def initial_world_def)

lemma time_inv_work: "work_step N enable_engine w w' \<Longrightarrow> time_inv w \<Longrightarrow> time_inv w'"
  by (erule work_step.cases) (fastforce simp: time_inv_def step_defs import_recent_def)+

lemma time_inv_env: "env_step N w w' \<Longrightarrow> time_inv w \<Longrightarrow> time_inv w'"
  unfolding time_inv_def by (erule env_step.cases) (auto simp: step_defs intro: le_trans)

lemma reachable_inv: "reachable N enable_engine w \<Longrightarrow> lock_inv N w \<and> data_inv w \<and> time_inv w"
  unfolding reachable_def
proof (elim exE)
  fix t n
  assume "(step N enable_engine)\<^sup>*\<^sup>* (initial_world t n) w"
  then show "lock_inv N w \<and> data_inv w \<and> time_inv w"
  proof (induction rule: rtranclp_induct)
    case base
    then show ?case by (simp add: lock_inv_init data_inv_init time_inv_init)
  next
    case (step y z)
    then show ?case
      unfolding step_def
      using lock_inv_work lock_inv_env data_inv_work data_inv_env time_inv_work time_inv_env by metis
  qed
qed

section \<open>No deadlock\<close>

definition quiescent :: "nat \<Rightarrow> world \<Rightarrow> bool" where
  "quiescent N w \<longleftrightarrow>
     (\<forall>p. pcs w p = Idle \<and> bgs w p = Bg_Idle) \<and> import_lock w = None \<and> reload_guard w = None"

definition stuck :: "nat \<Rightarrow> bool \<Rightarrow> world \<Rightarrow> bool" where
  "stuck N enable_engine w \<longleftrightarrow> (\<forall>w'. \<not> work_step N enable_engine w w')"

lemma lock_owner:
  assumes "lock_inv N w"
  shows "import_lock w = Some p \<Longrightarrow> in_lock (pcs w p) \<and> p < N" and "in_lock (pcs w p) \<Longrightarrow> p < N"
    and "reload_guard w = Some (Main p) \<Longrightarrow> (\<exists>v n. pcs w p = Reloading v n) \<and> p < N"
    and "reload_guard w = Some (Thread p) \<Longrightarrow> (\<exists>v n. bgs w p = Bg_Loading v n) \<and> p < N"
proof -
  have idle: "p < N" if "pcs w p \<noteq> Idle \<or> bgs w p \<noteq> Bg_Idle" for p
    using assms that by (meson lock_inv_def not_less)
  show "in_lock (pcs w p) \<Longrightarrow> p < N" using idle [of p] by (cases "pcs w p") auto
  show "import_lock w = Some p \<Longrightarrow> in_lock (pcs w p) \<and> p < N"
    using assms idle [of p] unfolding lock_inv_def owned_def by (metis in_lock.simps(8))
  show "reload_guard w = Some (Main p) \<Longrightarrow> (\<exists>v n. pcs w p = Reloading v n) \<and> p < N"
  proof -
    assume "reload_guard w = Some (Main p)"
    then have "reloading (pcs w p)" using assms by (simp add: lock_inv_def owned_def)
    then show ?thesis using idle [of p] by (cases "pcs w p") auto
  qed
  show "reload_guard w = Some (Thread p) \<Longrightarrow> (\<exists>v n. bgs w p = Bg_Loading v n) \<and> p < N"
  proof -
    assume "reload_guard w = Some (Thread p)"
    then have "loading (bgs w p)" using assms by (simp add: lock_inv_def owned_def)
    then show ?thesis using idle [of p] by (cases "bgs w p") auto
  qed
qed

lemma stuck_guard:
  assumes "lock_inv N w" and "stuck N enable_engine w"
  shows "reload_guard w = None"
proof (cases "reload_guard w")
  case (Some a)
  then show ?thesis
    using assms(2) lock_owner(3,4) [OF assms(1)] unfolding stuck_def
    by (cases a) (use work_step.reload_fails work_step.bg_ends in blast)+
qed simp

lemma stuck_lock:
  assumes "lock_inv N w" and "stuck N enable_engine w"
  shows "import_lock w = None"
proof (cases "import_lock w")
  case (Some p)
  then have p: "in_lock (pcs w p)" "p < N" using lock_owner(1) [OF assms(1)] by blast+
  have no: "\<not> work_step N enable_engine w w'" for w' using assms(2) by (simp add: stuck_def)
  note guard = stuck_guard [OF assms]
  show ?thesis
  proof (cases "pcs w p")
    case Holding
    with p no show ?thesis using work_step.recent_under_lock work_step.start by blast
  next
    case (Backfilling k)
    with p no show ?thesis using work_step.want_reload work_step.backfill_fails by (cases k) blast+
  next
    case Want_Reload
    with p no guard show ?thesis using work_step.reload_begin by blast
  next
    case Upserting
    with p no show ?thesis using work_step.upsert_fails by blast
  next
    case (Reloading v n)
    with p no show ?thesis using work_step.reload_fails by blast
  next
    case (Finishing b)
    with p no show ?thesis using work_step.finish by blast
  next
    case Releasing
    with p no show ?thesis using work_step.release by blast
  qed (use p in simp_all)
qed simp

lemma stuck_quiescent:
  assumes inv: "lock_inv N w" and "stuck N enable_engine w"
  shows "quiescent N w"
proof -
  have no: "\<not> work_step N enable_engine w w'" for w' using assms(2) by (simp add: stuck_def)
  note free = stuck_guard [OF assms] stuck_lock [OF assms]
  have not_locked: "\<not> in_lock (pcs w p)" for p
    using inv free by (simp add: lock_inv_def owned_def)
  have "pcs w p = Idle" if "p < N" for p
  proof (cases "pcs w p")
    case Asked
    with that no show ?thesis using work_step.fastpath work_step.slowpath by blast
  next
    case (Waiting t)
    with that no free show ?thesis using work_step.acquire by blast
  next
    case Timed_Out
    obtain r c where "setup_complete (now w) (last_import w) None (setup_caches w p) = (r, c)" by fastforce
    with Timed_Out that no show ?thesis
      using work_step.skip [of p N w None c] work_step.wait_on [of p N w None c] by (cases r) auto
  next
    case Blocked
    with that no free show ?thesis using work_step.acquire by blast
  qed (use not_locked [of p] in simp_all)
  moreover have "bgs w p = Bg_Idle" if "p < N" for p
  proof (cases "bgs w p")
    case Bg_Try
    with that no free show ?thesis
      using work_step.bg_loses work_step.bg_populated work_step.bg_begin by metis
  next
    case (Bg_Loading v n)
    with that no show ?thesis using work_step.bg_ends by blast
  qed simp
  ultimately show ?thesis
    using inv free unfolding quiescent_def lock_inv_def by (metis not_less)
qed

section \<open>Sample runs\<close>

lemma reachable_init: "reachable N enable_engine (initial_world t n)"
  unfolding reachable_def by blast

lemma reachable_work: "reachable N enable_engine w \<Longrightarrow> work_step N enable_engine w w' \<Longrightarrow> reachable N enable_engine w'"
  unfolding reachable_def step_def by (metis (mono_tags, lifting) rtranclp.rtrancl_into_rtrancl)

lemma reachable_env: "reachable N enable_engine w \<Longrightarrow> env_step N w w' \<Longrightarrow> reachable N enable_engine w'"
  unfolding reachable_def step_def by (metis (mono_tags, lifting) rtranclp.rtrancl_into_rtrancl)

text \<open>A worker that has asked, one that has upserted the cards, and one whose engine is reloaded.\<close>

definition asked_world :: world where
  "asked_world = go 0 Asked (initial_world 999 0)"

definition upserted_world :: world where
  "upserted_world =
     go 0 (Backfilling 4) (record_import (clear_caches
       ((go 0 Upserting ((go 0 Holding ((go 0 (Waiting 1000) asked_world)\<lparr>import_lock := Some 0\<rparr>))\<lparr>events := [Started 1000]\<rparr>))
         \<lparr>db := 1, cards := 95000\<rparr>)))"

definition reloaded_world :: world where
  "reloaded_world =
     go 0 (Finishing True) ((go 0 (Reloading 5 95000) (upserted_world\<lparr>db := 5, reload_guard := Some (Main 0)\<rparr>))
       \<lparr>engine := 5, engine_size := 95000, reload_guard := None\<rparr>)"

lemmas sample_defs = asked_world_def upserted_world_def reloaded_world_def initial_world_def import_recent_def step_defs

lemma asked_reachable: "reachable 2 True asked_world"
  unfolding asked_world_def by (rule reachable_env [OF reachable_init], rule env_step.call) (simp_all add: initial_world_def)

lemma upserted_reachable: "reachable 2 True upserted_world"
proof -
  let ?w1 = "go 0 (Waiting 1000) asked_world"
  let ?w2 = "go 0 Holding (?w1\<lparr>import_lock := Some 0\<rparr>)"
  let ?w3 = "go 0 Upserting (?w2\<lparr>events := [Started 1000]\<rparr>)"
  have "work_step 2 True asked_world ?w1"
    using work_step.slowpath [of 0 2 asked_world True] by (simp add: sample_defs)
  then have 1: "reachable 2 True ?w1" using asked_reachable reachable_work by blast
  have "work_step 2 True ?w1 ?w2"
    using work_step.acquire [of 0 2 ?w1 1000 True] by (simp add: sample_defs)
  then have 2: "reachable 2 True ?w2" using 1 reachable_work by blast
  have "work_step 2 True ?w2 ?w3"
    using work_step.start [of 0 2 ?w2 True] by (simp add: sample_defs)
  then have 3: "reachable 2 True ?w3" using 2 reachable_work by blast
  have "work_step 2 True ?w3 upserted_world"
    using work_step.upserted [of 0 2 ?w3 True 95000] by (simp add: sample_defs)
  then show ?thesis using 3 reachable_work by blast
qed

lemma backfills_reachable:
  assumes "reachable 2 True w" and "pcs w 0 = Backfilling k"
  shows "reachable 2 True (go 0 (Backfilling 0) (w\<lparr>db := db w + k\<rparr>))"
  using assms
proof (induction k arbitrary: w)
  case 0
  then show ?case by (simp add: go_def fun_upd_idem)
next
  case (Suc k)
  have "reachable 2 True (go 0 (Backfilling k) (w\<lparr>db := Suc (db w)\<rparr>))"
    by (rule reachable_work [OF Suc.prems(1)], rule work_step.backfill) (use Suc.prems(2) in simp_all)
  from Suc.IH [OF this] show ?case by (simp add: go_def)
qed

lemma reloaded_reachable: "reachable 2 True reloaded_world"
proof -
  let ?w0 = "go 0 (Backfilling 0) (upserted_world\<lparr>db := db upserted_world + 4\<rparr>)"
  let ?w1 = "go 0 Want_Reload ?w0"
  let ?w2 = "go 0 (Reloading 5 95000) (?w1\<lparr>reload_guard := Some (Main 0)\<rparr>)"
  have 0: "reachable 2 True ?w0"
    by (rule backfills_reachable [OF upserted_reachable]) (simp add: upserted_world_def go_def)
  have "work_step 2 True ?w0 ?w1" using work_step.want_reload [of 0 2 ?w0 True] by (simp add: go_def)
  then have 1: "reachable 2 True ?w1" using 0 reachable_work by blast
  have "work_step 2 True ?w1 ?w2" using work_step.reload_begin [of 0 2 ?w1 True] by (simp add: sample_defs)
  then have 2: "reachable 2 True ?w2" using 1 reachable_work by blast
  have "work_step 2 True ?w2 reloaded_world"
    using work_step.reload_commit [of 0 2 ?w2 5 95000 True] by (simp add: sample_defs)
  then show ?thesis using 2 reachable_work by blast
qed

section \<open>Properties\<close>

text \<open>
  C4: Every started call returns. From every reachable state, however the steps of the workers and of the warming threads are
  scheduled and whichever of them fail, there is no infinite sequence of steps of the started work; and where no step is left, every worker and
  thread is idle and the import lock and the reload guard are free: no deadlock.
\<close>

theorem import_calls_return:
  assumes "reachable N enable_engine w"
  shows "\<not> (\<exists>f. f 0 = w \<and> (\<forall>i. work_step N enable_engine (f i) (f (Suc i)))) \<and>
    (\<forall>w'. (work_step N enable_engine)\<^sup>*\<^sup>* w w' \<and> stuck N enable_engine w' \<longrightarrow> quiescent N w')"
proof (intro conjI allI impI)
  show "\<not> (\<exists>f. f 0 = w \<and> (\<forall>i. work_step N enable_engine (f i) (f (Suc i))))"
  proof
    assume "\<exists>f. f 0 = w \<and> (\<forall>i. work_step N enable_engine (f i) (f (Suc i)))"
    then obtain f where "\<And>i. work_step N enable_engine (f i) (f (Suc i))" by blast
    then have "work_left N (f (Suc i)) < work_left N (f i)" for i by (rule work_decreases)
    then show False using wf_no_infinite_down_chainE [OF wf_less, of "\<lambda>i. work_left N (f i)"] by auto
  qed
  fix w'
  assume "(work_step N enable_engine)\<^sup>*\<^sup>* w w' \<and> stuck N enable_engine w'"
  then have "(work_step N enable_engine)\<^sup>*\<^sup>* w w'" and "stuck N enable_engine w'" by blast+
  from this(1) have "lock_inv N w'"
    by (induction rule: rtranclp_induct) (use reachable_inv [OF assms] lock_inv_work in blast)+
  with \<open>stuck N enable_engine w'\<close> show "quiescent N w'" by (intro stuck_quiescent)
qed

theorem import_calls_return_witness:
  "reachable 2 True upserted_world \<and> \<not> quiescent 2 upserted_world \<and>
   \<not> (\<exists>f. f 0 = upserted_world \<and> (\<forall>i. work_step 2 True (f i) (f (Suc i))))"
proof -
  have "\<not> quiescent 2 upserted_world" by (simp add: quiescent_def upserted_world_def go_def exI [of _ 0])
  with import_calls_return [OF upserted_reachable] upserted_reachable show ?thesis by blast
qed

text \<open>
  C13: At most one worker is in the import section and at most one reloads the engine, and the imports are spaced: an import
  starts at least five minutes after every success recorded before it, whichever worker recorded it.
\<close>

theorem imports_exclusive_spaced:
  assumes "reachable N enable_engine w"
  shows "(\<forall>p q. in_lock (pcs w p) \<and> in_lock (pcs w q) \<longrightarrow> p = q) \<and>
    (\<forall>p q. reloading (pcs w p) \<longrightarrow> \<not> loading (bgs w q) \<and> (reloading (pcs w q) \<longrightarrow> p = q)) \<and>
    (\<forall>p q. loading (bgs w p) \<and> loading (bgs w q) \<longrightarrow> p = q) \<and> spaced (events w)"
proof -
  have inv: "lock_inv N w" "time_inv w" using reachable_inv [OF assms] by auto
  have "\<not> loading (bgs w q)" if "reloading (pcs w p)" for p q
    using that no_loading [OF inv(1), of p _ _ q] by (cases "pcs w p"; cases "bgs w q") auto
  with inv show ?thesis
    unfolding lock_inv_def time_inv_def using owned_unique by metis
qed

theorem imports_exclusive_spaced_witness:
  "reachable 2 True reloaded_world \<and> in_lock (pcs reloaded_world 0) \<and> spaced (events reloaded_world)"
  using imports_exclusive_spaced [OF reloaded_reachable] reloaded_reachable by (simp add: reloaded_world_def go_def)

text \<open>
  A finished import is visible everywhere: when a worker that has reloaded the engine clears the caches and records the end of
  its import, the engine holds the data that import wrote, and no thread is loading older data.
\<close>

theorem engine_fresh_when_cleared:
  assumes "reachable N enable_engine w" and "pcs w p = Finishing True"
  shows "engine w = db w \<and> (\<forall>q v n. bgs w q \<noteq> Bg_Loading v n \<or> v = db w)"
  using reachable_inv [OF assms(1)] assms(2) unfolding data_inv_def by blast

theorem engine_fresh_when_cleared_witness:
  "reachable 2 True reloaded_world \<and> pcs reloaded_world 0 = Finishing True \<and> engine reloaded_world = db reloaded_world"
proof -
  have "pcs reloaded_world 0 = Finishing True" by (simp add: reloaded_world_def go_def)
  with engine_fresh_when_cleared [OF reloaded_reachable] reloaded_reachable show ?thesis by blast
qed

text \<open>
  An import that fails after its upsert is not repeated: the success is recorded before the backfills, the tags and the engine, so a state is
  reachable in which every worker is idle, the engine does not hold the new cards, and calls are turned away as recent for the next
  five minutes.
\<close>

theorem failed_import_counts_as_recent:
  "\<exists>w. reachable 2 True w \<and> quiescent 2 w \<and> engine w \<noteq> db w \<and> import_recent w \<and> import_recent (w\<lparr>now := now w + 299\<rparr>)"
proof -
  let ?w1 = "go 0 Releasing upserted_world"
  let ?w2 = "go 0 Idle (?w1\<lparr>import_lock := None\<rparr>)"
  have "work_step 2 True upserted_world ?w1"
    using work_step.backfill_fails [of 0 2 upserted_world 3 True] by (simp add: upserted_world_def go_def)
  then have 1: "reachable 2 True ?w1" using upserted_reachable reachable_work by blast
  have "work_step 2 True ?w1 ?w2" using work_step.release [of 0 2 ?w1 True] by (simp add: go_def)
  then have "reachable 2 True ?w2" using 1 reachable_work by blast
  moreover have "quiescent 2 ?w2" "engine ?w2 \<noteq> db ?w2" "import_recent ?w2" "import_recent (?w2\<lparr>now := now ?w2 + 299\<rparr>)"
    by (simp_all add: quiescent_def sample_defs MIN_IMPORT_INTERVAL_def)
  ultimately show ?thesis by blast
qed

end
