(* ===== verification/Bulk_Fetch.thy ===== *)
theory Bulk_Fetch
  imports Py_Prelude
begin


datatype fetch_error = BulkDataFormatError | BulkDataParseError | PyError exn

section \<open>Decompression\<close>






section \<open>Which file\<close>

datatype BulkDataKey = ALL_CARDS | ART_TAGS | DEFAULT_CARDS | ORACLE_CARDS | ORACLE_TAGS | RULINGS | UNIQUE_ARTWORK

definition bulk_keys :: "(pstr \<times> BulkDataKey) list" where
  "bulk_keys =
     [(u ''all_cards'', ALL_CARDS), (u ''art_tags'', ART_TAGS), (u ''default_cards'', DEFAULT_CARDS),
      (u ''oracle_cards'', ORACLE_CARDS), (u ''oracle_tags'', ORACLE_TAGS), (u ''rulings'', RULINGS), (u ''unique_artwork'', UNIQUE_ARTWORK)]"

definition key_name :: "BulkDataKey \<Rightarrow> pstr" where
  "key_name k =
     (case k of ALL_CARDS \<Rightarrow> u ''all_cards'' | ART_TAGS \<Rightarrow> u ''art_tags'' | DEFAULT_CARDS \<Rightarrow> u ''default_cards''
      | ORACLE_CARDS \<Rightarrow> u ''oracle_cards'' | ORACLE_TAGS \<Rightarrow> u ''oracle_tags'' | RULINGS \<Rightarrow> u ''rulings'' | UNIQUE_ARTWORK \<Rightarrow> u ''unique_artwork'')"

definition DOWNLOAD_URI_FIELD :: pstr where
  "DOWNLOAD_URI_FIELD = u ''jsonl_download_uri''"

type_synonym bulk_record = "(pstr \<times> pstr) list"

definition list_bulk_data :: "bulk_record list \<Rightarrow> (fetch_error + (BulkDataKey \<times> bulk_record) list)" where
  "list_bulk_data records =
     (case mapr (\<lambda>r. case map_of r (u ''type'') of None \<Rightarrow> Inl KeyError | Some t \<Rightarrow> Inr (t, r)) records of
        Inl e \<Rightarrow> Inl (PyError e)
      | Inr typed \<Rightarrow>
          Inr (foldl (\<lambda>d (t, r). case map_of bulk_keys t of None \<Rightarrow> d | Some k \<Rightarrow> dict_set d k r) [] typed))"

definition get_download_uri_for_key :: "bulk_record list \<Rightarrow> BulkDataKey \<Rightarrow> fetch_error + pstr" where
  "get_download_uri_for_key records data_key =
     bindr (list_bulk_data records) (\<lambda>d.
     case map_of d data_key of
       None \<Rightarrow> Inl (PyError KeyError)
     | Some r \<Rightarrow> (case map_of r DOWNLOAD_URI_FIELD of None \<Rightarrow> Inl BulkDataFormatError | Some uri \<Rightarrow> Inr uri))"

definition after_last_slash :: "pstr \<Rightarrow> pstr" where
  "after_last_slash s = rev (takeWhile (\<lambda>c. c \<noteq> 47) (rev s))"

definition remove_suffix :: "pstr \<Rightarrow> pstr \<Rightarrow> pstr" where
  "remove_suffix suf s = (if suf \<noteq> [] \<and> suffix suf s then take (length s - length suf) s else s)"

definition cache_file_path_for_key :: "pstr \<Rightarrow> bulk_record list \<Rightarrow> BulkDataKey \<Rightarrow> fetch_error + pstr" where
  "cache_file_path_for_key cache_directory records data_key =
     bindr (get_download_uri_for_key records data_key) (\<lambda>download_uri.
     Inr (cache_directory @ u ''/'' @ key_name data_key @ u ''/'' @
          remove_suffix (u ''.gz'') (after_last_slash download_uri) @ u ''.zstd''))"

section \<open>Streaming\<close>

definition PARSE_COVERAGE_MIN_CHARS :: nat where
  "PARSE_COVERAGE_MIN_CHARS = 1000000"

text \<open>The threshold of 0.8, as the fraction four fifths.\<close>

definition below_threshold :: "nat \<Rightarrow> nat \<Rightarrow> bool" where
  "below_threshold parsed_chars total_chars \<longleftrightarrow> 5 * parsed_chars < 4 * total_chars"

record 'c stream_state =
  yielded :: "'c list"
  total_chars :: nat
  parsed_chars :: nat
  skipped_lines :: nat

text \<open>\<open>loads\<close> is the JSON parser: the dictionary of a line, or nothing for malformed text and for other values.\<close>

definition stream_line :: "(pstr \<Rightarrow> 'c option) \<Rightarrow> 'c stream_state \<Rightarrow> pstr \<Rightarrow> 'c stream_state" where
  "stream_line loads st raw_line =
     (let st = st\<lparr>total_chars := total_chars st + length raw_line\<rparr>;
          stripped = py_strip raw_line
      in if stripped = [] then st
         else case loads stripped of
                None \<Rightarrow> st\<lparr>skipped_lines := Suc (skipped_lines st)\<rparr>
              | Some card_val \<Rightarrow>
                  st\<lparr>yielded := yielded st @ [card_val], parsed_chars := parsed_chars st + length raw_line\<rparr>)"

definition stream_data :: "(pstr \<Rightarrow> 'c option) \<Rightarrow> pstr list \<Rightarrow> 'c list \<times> fetch_error option" where
  "stream_data loads lines =
     (let st = foldl (stream_line loads) \<lparr>yielded = [], total_chars = 0, parsed_chars = 0, skipped_lines = 0\<rparr> lines
      in (yielded st,
          if PARSE_COVERAGE_MIN_CHARS \<le> total_chars st \<and> below_threshold (parsed_chars st) (total_chars st)
          then Some BulkDataParseError else None))"

section \<open>A download is decompressed member by member\<close>


























section \<open>What is streamed\<close>

definition line_card :: "(pstr \<Rightarrow> 'c option) \<Rightarrow> pstr \<Rightarrow> 'c option" where
  "line_card loads raw_line = (if py_strip raw_line = [] then None else loads (py_strip raw_line))"

definition chars :: "pstr list \<Rightarrow> nat" where
  "chars lines = sum_list (map length lines)"

lemma stream_fold:
  "let st' = foldl (stream_line loads) st lines
   in yielded st' = yielded st @ List.map_filter (line_card loads) lines \<and>
      total_chars st' = total_chars st + chars lines \<and>
      parsed_chars st' = parsed_chars st + chars (filter (\<lambda>l. line_card loads l \<noteq> None) lines)"
proof (induction lines arbitrary: st)
  case (Cons l ls)
  have "yielded (stream_line loads st l) = yielded st @ (case line_card loads l of None \<Rightarrow> [] | Some c \<Rightarrow> [c])"
    "total_chars (stream_line loads st l) = total_chars st + length l"
    "parsed_chars (stream_line loads st l) = parsed_chars st + (if line_card loads l = None then 0 else length l)"
    by (auto simp: stream_line_def line_card_def Let_def split: option.splits)
  with Cons.IH [of "stream_line loads st l"] show ?case
    by (auto simp: Let_def chars_def List.map_filter_def split: option.splits)
qed (simp add: chars_def List.map_filter_def)

text \<open>
  The stream yields the card of every line that holds one, in order. It ends with the parse error exactly when the
  file has at least a million characters and less than four fifths of them belong to such lines; so a large file that streams to its end has
  been understood to four fifths.
\<close>

theorem stream_data_coverage:
  "stream_data loads lines =
     (List.map_filter (line_card loads) lines,
      if 1000000 \<le> chars lines \<and> 5 * chars (filter (\<lambda>l. line_card loads l \<noteq> None) lines) < 4 * chars lines
      then Some BulkDataParseError else None)"
  using stream_fold [of loads "\<lparr>yielded = [], total_chars = 0, parsed_chars = 0, skipped_lines = 0\<rparr>" lines]
  by (simp add: stream_data_def below_threshold_def PARSE_COVERAGE_MIN_CHARS_def Let_def)

end
