(* ===== verification/Bulk_Cache.thy ===== *)
theory Bulk_Cache
  imports Py_Prelude
begin

text \<open>
  The file cache of the bulk data, \<open>_ensure_cached\<close> of \<open>src/api/scryfall_bulk_data_fetcher.py\<close> and the opening of the file in
  \<open>stream_data_for_key\<close>, as a step relation: several workers share the directory of one dump. Every access to the file system is a
  step of its own: the test for the file, the listing of the directory, each removal, the creation of the temporary file,
  its completion, the renaming and the opening.
\<close>

section \<open>The directory\<close>

definition TMP_PRUNE_AGE_SECONDS :: nat where
  "TMP_PRUNE_AGE_SECONDS = 15 * 60"

text \<open>The files: the cache file, temporary files by their unique name, and files of earlier dumps.\<close>

datatype fpath = Target | Tmp nat | Earlier nat

datatype fcontent = Partial | Complete

datatype fpc =
    F_Idle
  | F_Check
  | F_List
  | F_Prune "fpath list"
  | F_Download nat
  | F_Rename nat
  | F_Ready
  | F_Reading fcontent
  | F_Missing
  | F_Failed

record dir =
  clock :: nat
  files :: "fpath \<Rightarrow> (fcontent \<times> nat) option"
  fpcs :: "nat \<Rightarrow> fpc"
  used :: "nat set"

definition initial_dir :: "nat set \<Rightarrow> nat \<Rightarrow> dir" where
  "initial_dir old time_val =
     \<lparr>clock = time_val, files = (\<lambda>f. case f of Earlier n \<Rightarrow> if n \<in> old then Some (Complete, 0) else None | _ \<Rightarrow> None),
      fpcs = (\<lambda>p. F_Idle), used = {}\<rparr>"

definition goto :: "nat \<Rightarrow> fpc \<Rightarrow> dir \<Rightarrow> dir" where
  "goto p c d = d\<lparr>fpcs := (fpcs d)(p := c)\<rparr>"

definition remove :: "fpath \<Rightarrow> dir \<Rightarrow> dir" where
  "remove f d = d\<lparr>files := (files d)(f := None)\<rparr>"

definition store :: "fpath \<Rightarrow> fcontent \<Rightarrow> dir \<Rightarrow> dir" where
  "store f c d = d\<lparr>files := (files d)(f \<mapsto> (c, clock d))\<rparr>"

text \<open>A temporary file written to within the last quarter of an hour is left alone.\<close>

definition in_flight :: "dir \<Rightarrow> fpath \<Rightarrow> bool" where
  "in_flight d f \<longleftrightarrow>
     (case f of Tmp n \<Rightarrow> (case files d f of Some (c, mtime) \<Rightarrow> clock d - mtime < TMP_PRUNE_AGE_SECONDS | None \<Rightarrow> False) | _ \<Rightarrow> False)"

inductive fetch_step :: "nat \<Rightarrow> dir \<Rightarrow> dir \<Rightarrow> bool" for N where
  call: "p < N \<Longrightarrow> fpcs d p \<in> {F_Idle, F_Reading c, F_Missing, F_Failed} \<Longrightarrow> fetch_step N d (goto p F_Check d)"
| tick: "fetch_step N d (d\<lparr>clock := clock d + n\<rparr>)"
| present: "p < N \<Longrightarrow> fpcs d p = F_Check \<Longrightarrow> files d Target \<noteq> None \<Longrightarrow> fetch_step N d (goto p F_Ready d)"
| absent: "p < N \<Longrightarrow> fpcs d p = F_Check \<Longrightarrow> files d Target = None \<Longrightarrow> fetch_step N d (goto p F_List d)"
| iterdir: "p < N \<Longrightarrow> fpcs d p = F_List \<Longrightarrow> set fs = dom (files d) \<Longrightarrow> fetch_step N d (goto p (F_Prune fs) d)"
| keep: "p < N \<Longrightarrow> fpcs d p = F_Prune (f # fs) \<Longrightarrow> files d f = None \<or> in_flight d f \<Longrightarrow> fetch_step N d (goto p (F_Prune fs) d)"
| unlink: "p < N \<Longrightarrow> fpcs d p = F_Prune (f # fs) \<Longrightarrow> files d f \<noteq> None \<Longrightarrow> \<not> in_flight d f \<Longrightarrow>
    fetch_step N d (goto p (F_Prune fs) (remove f d))"
| open_tmp: "p < N \<Longrightarrow> fpcs d p = F_Prune [] \<Longrightarrow> n \<notin> used d \<Longrightarrow>
    fetch_step N d (goto p (F_Download n) (store (Tmp n) Partial (d\<lparr>used := insert n (used d)\<rparr>)))"
| write_block: "p < N \<Longrightarrow> fpcs d p = F_Download n \<Longrightarrow> files d (Tmp n) \<noteq> None \<Longrightarrow> fetch_step N d (store (Tmp n) Partial d)"
| close_tmp: "p < N \<Longrightarrow> fpcs d p = F_Download n \<Longrightarrow> files d (Tmp n) \<noteq> None \<Longrightarrow>
    fetch_step N d (goto p (F_Rename n) (store (Tmp n) Complete d))"
| close_removed: "p < N \<Longrightarrow> fpcs d p = F_Download n \<Longrightarrow> files d (Tmp n) = None \<Longrightarrow> fetch_step N d (goto p (F_Rename n) d)"
| download_fails: "p < N \<Longrightarrow> fpcs d p = F_Download n \<Longrightarrow> fetch_step N d (goto p F_Failed (remove (Tmp n) d))"
| rename: "p < N \<Longrightarrow> fpcs d p = F_Rename n \<Longrightarrow> files d (Tmp n) = Some (c, m) \<Longrightarrow>
    fetch_step N d (goto p F_Ready ((remove (Tmp n) d)\<lparr>files := (files (remove (Tmp n) d))(Target \<mapsto> (c, m))\<rparr>))"
| rename_fails: "p < N \<Longrightarrow> fpcs d p = F_Rename n \<Longrightarrow> files d (Tmp n) = None \<Longrightarrow> fetch_step N d (goto p F_Failed d)"
| open_file: "p < N \<Longrightarrow> fpcs d p = F_Ready \<Longrightarrow> files d Target = Some (c, m) \<Longrightarrow> fetch_step N d (goto p (F_Reading c) d)"
| file_not_found: "p < N \<Longrightarrow> fpcs d p = F_Ready \<Longrightarrow> files d Target = None \<Longrightarrow> fetch_step N d (goto p F_Missing d)"

definition dir_reachable :: "nat \<Rightarrow> dir \<Rightarrow> bool" where
  "dir_reachable N d \<longleftrightarrow> (\<exists>old time_val. (fetch_step N)\<^sup>*\<^sup>* (initial_dir old time_val) d)"

lemmas dir_defs = goto_def remove_def store_def

section \<open>A file is complete or absent\<close>

fun tmp_token :: "fpc \<Rightarrow> nat option" where
  "tmp_token (F_Download n) = Some n"
| "tmp_token (F_Rename n) = Some n"
| "tmp_token _ = None"

text \<open>
  The temporary names in use are distinct, what is at the cache path is complete, and a temporary file about to be renamed is.
\<close>

definition dir_inv :: "dir \<Rightarrow> bool" where
  "dir_inv d \<longleftrightarrow>
     (\<forall>p q n. tmp_token (fpcs d p) = Some n \<and> tmp_token (fpcs d q) = Some n \<longrightarrow> p = q) \<and>
     (\<forall>p n. tmp_token (fpcs d p) = Some n \<longrightarrow> n \<in> used d) \<and>
     (\<forall>c m. files d Target = Some (c, m) \<longrightarrow> c = Complete) \<and>
     (\<forall>p n c m. fpcs d p = F_Rename n \<and> files d (Tmp n) = Some (c, m) \<longrightarrow> c = Complete) \<and>
     (\<forall>p c. fpcs d p = F_Reading c \<longrightarrow> c = Complete)"

lemma dir_inv_init: "dir_inv (initial_dir old t)"
  by (simp add: dir_inv_def initial_dir_def)

lemma dir_inv_goto:
  assumes "dir_inv d" and "tmp_token c = None \<or> tmp_token c = tmp_token (fpcs d p)"
    and "\<And>n x m. c = F_Rename n \<Longrightarrow> files d (Tmp n) = Some (x, m) \<Longrightarrow> x = Complete" and "\<And>x. c = F_Reading x \<Longrightarrow> x = Complete"
  shows "dir_inv (goto p c d)"
proof -
  have same: "files (goto p c d) = files d" "used (goto p c d) = used d" by (simp_all add: goto_def)
  have "tmp_token (fpcs d q) = Some k" if "tmp_token (fpcs (goto p c d) q) = Some k" for q k
    using assms(2) that by (cases "q = p") (auto simp: goto_def)
  moreover have "x = Complete" if "fpcs (goto p c d) q = F_Rename n" "files d (Tmp n) = Some (x, m)" for q n x m
  proof (cases "q = p")
    case True
    with that assms(3) show ?thesis by (simp add: goto_def)
  next
    case False
    with that have "fpcs d q = F_Rename n" by (simp add: goto_def)
    with that(2) assms(1) show ?thesis unfolding dir_inv_def by blast
  qed
  moreover have "x = Complete" if "fpcs (goto p c d) q = F_Reading x" for q x
  proof (cases "q = p")
    case True
    with that assms(4) show ?thesis by (simp add: goto_def)
  next
    case False
    with that have "fpcs d q = F_Reading x" by (simp add: goto_def)
    with assms(1) show ?thesis unfolding dir_inv_def by blast
  qed
  ultimately show ?thesis using assms(1) unfolding dir_inv_def same by meson
qed

lemma dir_inv_remove: "dir_inv d \<Longrightarrow> dir_inv (remove f d)"
  by (auto simp: dir_inv_def remove_def split: if_splits)

lemma dir_inv_store:
  "dir_inv d \<Longrightarrow> (\<And>p. fpcs d p = F_Rename n \<Longrightarrow> c = Complete) \<Longrightarrow> dir_inv (store (Tmp n) c d)"
  by (auto simp: dir_inv_def store_def split: if_splits)

lemma dir_inv_new:
  assumes "dir_inv d" and "n \<in> used d" and "\<And>q. tmp_token (fpcs d q) \<noteq> Some n"
  shows "dir_inv (goto p (F_Download n) d)"
proof -
  let ?d = "goto p (F_Download n) d"
  have pc: "fpcs ?d q = (if q = p then F_Download n else fpcs d q)" "files ?d = files d" "used ?d = used d" for q
    by (simp_all add: goto_def)
  have "q = r" if "tmp_token (fpcs ?d q) = Some k" "tmp_token (fpcs ?d r) = Some k" for q r k
    using that assms(1,3) unfolding pc dir_inv_def by (metis tmp_token.simps(1))
  moreover have "k \<in> used d" if "tmp_token (fpcs ?d q) = Some k" for q k
    using that assms(1,2) unfolding pc dir_inv_def by (metis option.inject tmp_token.simps(1))
  moreover have "fpcs d q = F_Rename k" if "fpcs ?d q = F_Rename k" for q k
    using that by (simp add: pc split: if_splits)
  moreover have "fpcs d q = F_Reading c" if "fpcs ?d q = F_Reading c" for q c
    using that by (simp add: pc split: if_splits)
  ultimately show ?thesis using assms(1) unfolding dir_inv_def pc(2,3) by meson
qed

lemma download_alone:
  "dir_inv d \<Longrightarrow> fpcs d p = F_Download n \<Longrightarrow> fpcs d q \<noteq> F_Rename n"
  unfolding dir_inv_def by (metis fpc.distinct(61) tmp_token.simps(1,2))

lemma dir_inv_step:
  assumes "fetch_step N d d'" and inv: "dir_inv d"
  shows "dir_inv d'"
  using assms(1)
proof cases
  case (tick n)
  with inv show ?thesis by (simp add: dir_inv_def)
next
  case (unlink p f fs)
  have "dir_inv (remove f d)" using inv by (rule dir_inv_remove)
  then show ?thesis unfolding unlink(1) by (rule dir_inv_goto) simp_all
next
  case (open_tmp p n)
  let ?d = "store (Tmp n) Partial (d\<lparr>used := insert n (used d)\<rparr>)"
  have new: "tmp_token (fpcs d q) \<noteq> Some n" for q using inv open_tmp(4) unfolding dir_inv_def by blast
  have d: "dir_inv ?d"
    by (rule dir_inv_store) (use inv new in \<open>auto simp: dir_inv_def\<close>, metis tmp_token.simps(2))
  from d show ?thesis
    unfolding open_tmp(1) by (rule dir_inv_new) (use new in \<open>simp_all add: store_def\<close>)
next
  case (write_block p n)
  with inv download_alone [OF inv write_block(3)] show ?thesis by (auto intro: dir_inv_store)
next
  case (close_tmp p n)
  have "dir_inv (store (Tmp n) Complete d)" using inv by (rule dir_inv_store) simp
  then show ?thesis unfolding close_tmp(1) by (rule dir_inv_goto) (use close_tmp in \<open>auto simp: store_def\<close>)
next
  case (download_fails p n)
  have "dir_inv (remove (Tmp n) d)" using inv by (rule dir_inv_remove)
  then show ?thesis unfolding download_fails(1) by (rule dir_inv_goto) simp_all
next
  case (rename p n c m)
  have "c = Complete" using inv rename unfolding dir_inv_def by blast
  then have "dir_inv ((remove (Tmp n) d)\<lparr>files := (files (remove (Tmp n) d))(Target \<mapsto> (c, m))\<rparr>)"
    using dir_inv_remove [OF inv, of "Tmp n"] by (auto simp: dir_inv_def split: if_splits)
  then show ?thesis unfolding rename(1) by (rule dir_inv_goto) simp_all
next
  case (open_file p c m)
  have "c = Complete" using inv open_file unfolding dir_inv_def by blast
  with inv show ?thesis unfolding open_file(1) by (intro dir_inv_goto) simp_all
qed (use inv in \<open>auto intro!: dir_inv_goto\<close>)

lemma dir_inv_reachable: "dir_reachable N d \<Longrightarrow> dir_inv d"
  unfolding dir_reachable_def
  by (elim exE, erule rtranclp_induct) (auto intro: dir_inv_init dir_inv_step)

text \<open>One worker at a time, as under the import lock.\<close>

definition alone_inv :: "dir \<Rightarrow> bool" where
  "alone_inv d \<longleftrightarrow> fpcs d 0 \<noteq> F_Missing \<and> (fpcs d 0 = F_Ready \<longrightarrow> files d Target \<noteq> None)"

lemma alone_step: "fetch_step 1 d d' \<Longrightarrow> alone_inv d \<Longrightarrow> alone_inv d'"
  by (erule fetch_step.cases) (auto simp: alone_inv_def dir_defs)

lemma alone_init: "alone_inv (initial_dir old t)"
  by (simp add: alone_inv_def initial_dir_def)

lemma alone_reachable: "dir_reachable 1 d \<Longrightarrow> alone_inv d"
  unfolding dir_reachable_def
  by (elim exE, erule rtranclp_induct) (blast intro: alone_init alone_step)+

section \<open>Properties\<close>

text \<open>
  C23: Whatever the interleaving of the workers, a worker that opens the cache file reads a complete file: no partial download is ever
  seen, though every file operation is a separate step. With a single worker at a time the file is also always there after
  \<open>_ensure_cached\<close>.
\<close>

theorem cache_file_complete:
  assumes "dir_reachable N d"
  shows "(fpcs d p = F_Reading c \<longrightarrow> c = Complete) \<and> (\<forall>x m. files d Target = Some (x, m) \<longrightarrow> x = Complete) \<and>
    (N = 1 \<longrightarrow> fpcs d 0 \<noteq> F_Missing)"
  using dir_inv_reachable [OF assms] alone_reachable [of d] assms unfolding dir_inv_def alone_inv_def by blast

lemma dir_reachable_step: "dir_reachable N d \<Longrightarrow> fetch_step N d d' \<Longrightarrow> dir_reachable N d'"
  unfolding dir_reachable_def by (meson rtranclp.rtrancl_into_rtrancl)

lemma dir_reachable_init: "dir_reachable N (initial_dir old t)"
  unfolding dir_reachable_def by blast

text \<open>Both workers have missed the file, and the second has renamed its download into place.\<close>

definition missed_dir :: dir where
  "missed_dir = goto 1 F_List (goto 1 F_Check (goto 0 F_List (goto 0 F_Check (initial_dir {} 0))))"

definition renamed_dir :: dir where
  "renamed_dir =
     \<lparr>clock = 0, files = (\<lambda>f. if f = Target then Some (Complete, 0) else None), fpcs = (\<lambda>p. F_Idle)(0 := F_List, 1 := F_Ready), used = {7}\<rparr>"

lemma initial_empty: "initial_dir {} 0 = \<lparr>clock = 0, files = Map.empty, fpcs = (\<lambda>p. F_Idle), used = {}\<rparr>"
  by (simp add: initial_dir_def fun_eq_iff split: fpath.splits)

lemmas sample_dir_defs = missed_dir_def renamed_dir_def initial_empty dir_defs

lemma missed_reachable: "dir_reachable 2 missed_dir"
proof -
  let ?d0 = "initial_dir {} 0"
  let ?d1 = "goto 0 F_Check ?d0"
  let ?d2 = "goto 0 F_List ?d1"
  let ?d3 = "goto 1 F_Check ?d2"
  have "fetch_step 2 ?d0 ?d1" using fetch_step.call [of 0 2 ?d0 Partial] by (simp add: initial_empty)
  then have 1: "dir_reachable 2 ?d1" using dir_reachable_init dir_reachable_step by blast
  have "fetch_step 2 ?d1 ?d2" using fetch_step.absent [of 0 2 ?d1] by (simp add: sample_dir_defs)
  then have 2: "dir_reachable 2 ?d2" using 1 dir_reachable_step by blast
  have "fetch_step 2 ?d2 ?d3" using fetch_step.call [of 1 2 ?d2 Partial] by (simp add: sample_dir_defs)
  then have 3: "dir_reachable 2 ?d3" using 2 dir_reachable_step by blast
  have "fetch_step 2 ?d3 missed_dir" using fetch_step.absent [of 1 2 ?d3] by (simp add: sample_dir_defs)
  then show ?thesis using 3 dir_reachable_step by blast
qed

lemma renamed_reachable: "dir_reachable 2 renamed_dir"
proof -
  let ?d1 = "goto 1 (F_Prune []) missed_dir"
  let ?d2 = "goto 1 (F_Download 7) (store (Tmp 7) Partial (?d1\<lparr>used := {7}\<rparr>))"
  let ?d3 = "goto 1 (F_Rename 7) (store (Tmp 7) Complete ?d2)"
  have "fetch_step 2 missed_dir ?d1"
    using fetch_step.iterdir [of 1 2 missed_dir "[]"] by (auto simp: sample_dir_defs dom_def split: fpath.splits)
  then have 1: "dir_reachable 2 ?d1" using missed_reachable dir_reachable_step by blast
  have "fetch_step 2 ?d1 ?d2" using fetch_step.open_tmp [of 1 2 ?d1 7] by (simp add: sample_dir_defs)
  then have 2: "dir_reachable 2 ?d2" using 1 dir_reachable_step by blast
  have "fetch_step 2 ?d2 ?d3" using fetch_step.close_tmp [of 1 2 ?d2 7] by (simp add: sample_dir_defs)
  then have 3: "dir_reachable 2 ?d3" using 2 dir_reachable_step by blast
  have "goto 1 F_Ready ((remove (Tmp 7) ?d3)\<lparr>files := (files (remove (Tmp 7) ?d3))(Target \<mapsto> (Complete, 0))\<rparr>) = renamed_dir"
    by (auto simp: sample_dir_defs fun_eq_iff split: fpath.splits)
  then have "fetch_step 2 ?d3 renamed_dir"
    using fetch_step.rename [of 1 2 ?d3 7 Complete 0] by (simp add: sample_dir_defs)
  then show ?thesis using 3 dir_reachable_step by blast
qed

theorem cache_file_complete_witness:
  "dir_reachable 2 (goto 1 (F_Reading Complete) renamed_dir) \<and> files renamed_dir Target = Some (Complete, 0)"
proof -
  have "\<exists>x. files renamed_dir Target = Some (x, 0)" by (simp add: renamed_dir_def)
  then have target: "files renamed_dir Target = Some (Complete, 0)"
    using cache_file_complete [OF renamed_reachable, of 0 Complete] by blast
  have "fetch_step 2 renamed_dir (goto 1 (F_Reading Complete) renamed_dir)"
    using fetch_step.open_file [of 1 2 renamed_dir Complete 0] target by (simp add: renamed_dir_def)
  with target show ?thesis using renamed_reachable dir_reachable_step by blast
qed

text \<open>
  Two workers at once can lose the file: one has tested for the cache file before the other renamed it into place, lists the
  directory afterwards and removes it as an old file; the other then finds no file to open.
\<close>

theorem cache_file_lost: "\<exists>d. dir_reachable 2 d \<and> fpcs d 1 = F_Missing"
proof -
  let ?d1 = "goto 0 (F_Prune [Target]) renamed_dir"
  let ?d2 = "goto 0 (F_Prune []) (remove Target ?d1)"
  let ?d3 = "goto 1 F_Missing ?d2"
  have "fetch_step 2 renamed_dir ?d1"
    using fetch_step.iterdir [of 0 2 renamed_dir "[Target]"] by (auto simp: renamed_dir_def dom_def split: if_splits)
  then have 1: "dir_reachable 2 ?d1" using renamed_reachable dir_reachable_step by blast
  have "fetch_step 2 ?d1 ?d2"
    using fetch_step.unlink [of 0 2 ?d1 Target "[]"] by (simp add: sample_dir_defs in_flight_def)
  then have 2: "dir_reachable 2 ?d2" using 1 dir_reachable_step by blast
  have "fetch_step 2 ?d2 ?d3" using fetch_step.file_not_found [of 1 2 ?d2] by (simp add: sample_dir_defs)
  then have "dir_reachable 2 ?d3" using 2 dir_reachable_step by blast
  moreover have "fpcs ?d3 1 = F_Missing" by (simp add: goto_def)
  ultimately show ?thesis by blast
qed

end
