(* ===== verification/Query_Log.thy ===== *)
theory Query_Log
  imports Py_Prelude "HOL-Library.Multiset"
begin

text \<open>
  The query log of \<open>src/api/middlewares/query_log_middleware.py\<close>: the entry made from a finished search, the bounded queue, and the background
  writer with its batches. What the database answers is an argument of each turn of the writer.
\<close>

section \<open>The entry of a search\<close>

text \<open>
  The parts of a response the middleware looks at: the durations in the inner timings (of a child that is there), the number of cards
  and the total.
\<close>

record log_media =
  execute_query :: "nat option option"
  engine_query :: "nat option option"
  fetch_results :: "nat option option"
  media_cards :: "nat option"
  media_total :: "nat option"

record log_entry =
  e_q :: "pstr option"
  e_cache_hit :: bool
  e_execute_ms :: "nat option"
  e_fetch_ms :: "nat option"
  e_total_ms :: "nat option"
  e_result_count :: "nat option"
  e_total_cards :: "nat option"
  e_had_error :: bool
  e_orderby :: "pstr option"
  e_unique_by :: "pstr option"

record log_request =
  r_path :: pstr
  r_params :: "(pstr \<times> pstr) list"
  r_cache_hit :: bool
  r_cached_count :: "nat option"
  r_cached_total :: "nat option"
  r_start :: "nat option"

definition path_stripped :: "pstr \<Rightarrow> pstr" where
  "path_stripped s = rstrip_of (\<lambda>c. c = 47) (dropWhile (\<lambda>c. c = 47) s)"

definition duration :: "nat option option \<Rightarrow> nat option" where
  "duration child = (case child of None \<Rightarrow> None | Some d \<Rightarrow> d)"

text \<open>\<open>media\<close> is nothing when the response has no dictionary; \<open>time_ms\<close> is the present time.\<close>

definition make_entry :: "log_request \<Rightarrow> log_media option \<Rightarrow> pstr \<Rightarrow> bool \<Rightarrow> nat \<Rightarrow> log_entry option" where
  "make_entry req m status req_succeeded time_ms =
     (if path_stripped (r_path req) \<noteq> u ''search'' then None
      else let total_ms = map_option (\<lambda>start. time_ms - start) (r_start req);
               had_error = (\<not> req_succeeded \<or> take 1 status = u ''4'' \<or> take 1 status = u ''5'');
               entry = (\<lambda>hit execute_ms fetch_ms result_count total_cards.
                 \<lparr>e_q = map_of (r_params req) (u ''q''), e_cache_hit = hit, e_execute_ms = execute_ms, e_fetch_ms = fetch_ms,
                  e_total_ms = total_ms, e_result_count = result_count, e_total_cards = total_cards, e_had_error = had_error,
                  e_orderby = map_of (r_params req) (u ''orderby''), e_unique_by = map_of (r_params req) (u ''unique'')\<rparr>)
           in if r_cache_hit req then Some (entry True None None (r_cached_count req) (r_cached_total req))
              else case m of
                     None \<Rightarrow> None
                   | Some md \<Rightarrow>
                       Some (entry False
                         (duration (case execute_query md of Some d \<Rightarrow> Some d | None \<Rightarrow> engine_query md))
                         (duration (fetch_results md))
                         (Some (case media_cards md of Some n \<Rightarrow> n | None \<Rightarrow> 0)) (media_total md)))"

section \<open>The writer\<close>

definition QUEUE_SIZE :: nat where
  "QUEUE_SIZE = 10000"

definition FLUSH_EVERY_N :: nat where
  "FLUSH_EVERY_N = 50"

definition FLUSH_EVERY_S :: nat where
  "FLUSH_EVERY_S = 2"

text \<open>
  \<open>committed\<close> is what the table has got and \<open>dropped\<close> what was given up, for the record.
\<close>

record 'e log_state =
  log_queue :: "'e list"
  pending :: "'e list"
  connected :: bool
  last_commit :: nat
  committed :: "'e list"
  dropped :: "'e list"

definition log_init :: "nat \<Rightarrow> 'e log_state" where
  "log_init t = \<lparr>log_queue = [], pending = [], connected = False, last_commit = t, committed = [], dropped = []\<rparr>"

text \<open>
  The answers of the database: whether the connection is still open, what connecting gives, and what the batch gives. In the case \<open>Lost\<close> the
  server has committed the batch and the answer did not arrive.
\<close>

datatype connect_answer = Connected | No_Creds | Refused
datatype batch_answer = Committed | Failed | Lost

record answer =
  still_open :: bool
  on_connect :: connect_answer
  on_batch :: batch_answer

definition flush :: "answer \<Rightarrow> nat \<Rightarrow> 'e log_state \<Rightarrow> bool \<times> 'e log_state" where
  "flush a t st =
     (if pending st = [] then (True, st)
      else case (if connected st \<and> still_open a then Connected else on_connect a) of
             No_Creds \<Rightarrow> (True, st\<lparr>connected := False, dropped := dropped st @ pending st, pending := []\<rparr>)
           | Refused \<Rightarrow> (False, st\<lparr>connected := False\<rparr>)
           | Connected \<Rightarrow>
               (case on_batch a of
                  Committed \<Rightarrow> (True, st\<lparr>connected := True, committed := committed st @ pending st, pending := [], last_commit := t\<rparr>)
                | Failed \<Rightarrow> (False, st\<lparr>connected := True\<rparr>)
                | Lost \<Rightarrow> (False, st\<lparr>connected := True, committed := committed st @ pending st\<rparr>)))"

definition reset :: "nat \<Rightarrow> 'e log_state \<Rightarrow> 'e log_state" where
  "reset t st = st\<lparr>connected := False, dropped := dropped st @ pending st, pending := [], last_commit := t\<rparr>"

definition due_for_flush :: "nat \<Rightarrow> 'e log_state \<Rightarrow> bool" where
  "due_for_flush t st \<longleftrightarrow> FLUSH_EVERY_N \<le> length (pending st) \<or> FLUSH_EVERY_S \<le> t - last_commit st"

text \<open>\<open>_write\<close>, with whether it ended without an exception.\<close>

definition write_entry :: "answer \<Rightarrow> nat \<Rightarrow> 'e \<Rightarrow> 'e log_state \<Rightarrow> bool \<times> 'e log_state" where
  "write_entry a t entry st =
     (let st = st\<lparr>pending := pending st @ [entry]\<rparr>
      in if due_for_flush t st then flush a t st else (True, st))"

text \<open>One turn of the loop that drains the queue.\<close>

definition drain_turn :: "answer \<Rightarrow> nat \<Rightarrow> 'e log_state \<Rightarrow> 'e log_state" where
  "drain_turn a t st =
     (case log_queue st of
        [] \<Rightarrow> snd (flush a t st)
      | entry # rest \<Rightarrow>
          (case write_entry a t entry (st\<lparr>log_queue := rest\<rparr>) of
             (True, st') \<Rightarrow> st'
           | (False, st') \<Rightarrow> reset t st'))"

definition put_entry :: "'e \<Rightarrow> 'e log_state \<Rightarrow> 'e log_state" where
  "put_entry entry st =
     (if length (log_queue st) < QUEUE_SIZE then st\<lparr>log_queue := log_queue st @ [entry]\<rparr>
      else st\<lparr>dropped := dropped st @ [entry]\<rparr>)"

datatype 'e log_event = Put 'e | Turn answer nat

definition log_step :: "'e log_state \<Rightarrow> 'e log_event \<Rightarrow> 'e log_state" where
  "log_step st ev = (case ev of Put entry \<Rightarrow> put_entry entry st | Turn a t \<Rightarrow> drain_turn a t st)"

definition log_run :: "'e log_state \<Rightarrow> 'e log_event list \<Rightarrow> 'e log_state" where
  "log_run st evs = foldl log_step st evs"

text \<open>
  After \<open>stop\<close>: the loop goes on while the queue has entries, and \<open>run\<close> flushes once more. The answers and times of the turns are given.
\<close>

fun drain :: "(nat \<Rightarrow> answer) \<Rightarrow> (nat \<Rightarrow> nat) \<Rightarrow> nat \<Rightarrow> nat \<Rightarrow> 'e log_state \<Rightarrow> 'e log_state option" where
  "drain a t n 0 st = (if log_queue st = [] then Some (snd (flush (a n) (t n) st)) else None)"
| "drain a t n (Suc fuel) st =
     (if log_queue st = [] then Some (snd (flush (a n) (t n) st))
      else drain a t (Suc n) fuel (drain_turn (a n) (t n) st))"

section \<open>Every entry is accounted for\<close>

fun puts :: "'e log_event list \<Rightarrow> 'e list" where
  "puts [] = []"
| "puts (Put e # evs) = e # puts evs"
| "puts (Turn a t # evs) = puts evs"

fun not_lost :: "'e log_event \<Rightarrow> bool" where
  "not_lost (Put e) = True"
| "not_lost (Turn a t) = (on_batch a \<noteq> Lost)"

definition account :: "'e log_state \<Rightarrow> 'e multiset" where
  "account st = mset (committed st) + mset (dropped st) + mset (pending st) + mset (log_queue st)"

lemma account_flush: "on_batch a \<noteq> Lost \<Longrightarrow> account (snd (flush a t st)) = account st"
  by (auto simp: flush_def account_def split: connect_answer.splits batch_answer.splits)

lemma account_flush_le: "account st \<subseteq># account (snd (flush a t st))"
  by (auto simp: flush_def account_def split: connect_answer.splits batch_answer.splits)

lemma account_reset: "account (reset t st) = account st"
  by (simp add: reset_def account_def)

lemma account_write:
  "account (snd (write_entry a t e (st\<lparr>log_queue := rest\<rparr>))) =
     account (if due_for_flush t (st\<lparr>log_queue := rest, pending := pending st @ [e]\<rparr>)
              then snd (flush a t (st\<lparr>log_queue := rest, pending := pending st @ [e]\<rparr>))
              else st\<lparr>log_queue := rest, pending := pending st @ [e]\<rparr>)"
  by (simp add: write_entry_def Let_def)

lemma account_moved: "log_queue st = e # rest \<Longrightarrow> account (st\<lparr>log_queue := rest, pending := pending st @ [e]\<rparr>) = account st"
  by (simp add: account_def)

lemma drain_turn_queue:
  "log_queue st = e # rest \<Longrightarrow> account (drain_turn a t st) = account (snd (write_entry a t e (st\<lparr>log_queue := rest\<rparr>)))"
  by (auto simp: drain_turn_def account_reset split: prod.splits bool.splits)

lemma account_turn: "on_batch a \<noteq> Lost \<Longrightarrow> account (drain_turn a t st) = account st"
  by (cases "log_queue st") (simp_all add: account_flush drain_turn_queue account_write account_moved, simp add: drain_turn_def account_flush)

lemma account_turn_le: "account st \<subseteq># account (drain_turn a t st)"
proof (cases "log_queue st")
  case Nil
  then show ?thesis by (simp add: drain_turn_def account_flush_le)
next
  case (Cons e rest)
  then show ?thesis
    using account_flush_le [of "st\<lparr>log_queue := rest, pending := pending st @ [e]\<rparr>" a t]
    by (simp add: drain_turn_queue account_write account_moved)
qed

lemma account_put: "account (put_entry e st) = add_mset e (account st)"
  by (simp add: put_entry_def account_def)

text \<open>What is on its way to the table, in the order of arrival.\<close>

definition in_order :: "'e log_state \<Rightarrow> 'e list" where
  "in_order st = committed st @ pending st @ log_queue st"

lemma subseq_middle: "subseq (a @ c) (a @ b @ c)"
  by (intro list_emb_append_mono) (auto intro: list_emb_append2)

lemma in_order_flush: "on_batch a \<noteq> Lost \<Longrightarrow> subseq (in_order (snd (flush a t st))) (in_order st)"
  by (auto simp: flush_def in_order_def subseq_middle split: connect_answer.splits batch_answer.splits)

lemma in_order_reset: "subseq (in_order (reset t st)) (in_order st)"
  by (simp add: reset_def in_order_def subseq_middle)

lemma in_order_turn:
  assumes "on_batch a \<noteq> Lost"
  shows "subseq (in_order (drain_turn a t st)) (in_order st)"
proof (cases "log_queue st")
  case Nil
  then show ?thesis using assms by (simp add: drain_turn_def in_order_flush)
next
  case (Cons e rest)
  let ?st = "st\<lparr>log_queue := rest, pending := pending st @ [e]\<rparr>"
  have moved: "in_order ?st = in_order st" by (simp add: in_order_def Cons)
  obtain b st' where w: "write_entry a t e (st\<lparr>log_queue := rest\<rparr>) = (b, st')" by fastforce
  then have "subseq (in_order st') (in_order st)"
    using in_order_flush [OF assms, of t ?st] moved by (auto simp: write_entry_def Let_def split: if_splits)
  then show ?thesis
    using Cons w subseq_order.order_trans [OF in_order_reset [of t st']] by (simp add: drain_turn_def split: bool.splits)
qed

lemma in_order_put: "subseq (in_order (put_entry e st)) (in_order st @ [e])"
  by (auto simp: put_entry_def in_order_def)

text \<open>
  C24: Every entry given to the log is accounted for: after any sequence of requests and turns of the writer, whatever the database
  answers short of losing the answer to a commit, the entries are exactly those in the table, those given up, those in the batch and those in the
  queue, none twice; and what is in the table stands in the order of the requests.
\<close>

theorem log_entries_accounted:
  assumes "list_all not_lost evs"
  shows "account (log_run (log_init t) evs) = mset (puts evs) \<and> subseq (committed (log_run (log_init t) evs)) (puts evs)"
proof -
  have "account (log_run st evs) = account st + mset (puts evs) \<and> subseq (in_order (log_run st evs)) (in_order st @ puts evs)" for st
    using assms
  proof (induction evs arbitrary: st)
    case (Cons ev evs)
    have run: "log_run st (ev # evs) = log_run (log_step st ev) evs" by (simp add: log_run_def)
    show ?case
    proof (cases ev)
      case (Put e)
      have "subseq (in_order (put_entry e st) @ puts evs) ((in_order st @ [e]) @ puts evs)"
        using in_order_put [of e st] by (simp only: subseq_append)
      with Put Cons show ?thesis
        unfolding run by (auto simp: log_step_def account_put intro: subseq_order.order_trans)
    next
      case (Turn a t)
      have "subseq (in_order (drain_turn a t st) @ puts evs) (in_order st @ puts evs)"
        using in_order_turn [of a t st] Turn Cons.prems by (simp add: subseq_append)
      moreover have "subseq (in_order (log_run (drain_turn a t st) evs)) (in_order (drain_turn a t st) @ puts evs)"
        using Cons Turn by simp
      ultimately have "subseq (in_order (log_run (drain_turn a t st) evs)) (in_order st @ puts evs)"
        using subseq_order.order_trans by blast
      with Turn Cons show ?thesis
        unfolding run by (simp add: log_step_def account_turn)
    qed
  qed (simp add: log_run_def)
  from this [of "log_init t"] have run: "account (log_run (log_init t) evs) = mset (puts evs)"
    "subseq (in_order (log_run (log_init t) evs)) (puts evs)" by (simp_all add: log_init_def account_def in_order_def)
  moreover have "subseq (committed st) (in_order st)" for st :: "'a log_state"
    unfolding in_order_def by (rule list_emb_prefix) simp
  ultimately show ?thesis using subseq_order.order_trans by blast
qed

definition good_answer :: answer where
  "good_answer = \<lparr>still_open = True, on_connect = Connected, on_batch = Committed\<rparr>"

definition refused_answer :: answer where
  "refused_answer = \<lparr>still_open = False, on_connect = Refused, on_batch = Failed\<rparr>"

theorem log_entries_accounted_witness:
  "account (log_run (log_init 0) [Put 1, Put (2::nat), Turn good_answer 5, Turn refused_answer 9, Put 3, Turn good_answer 12]) = {#1, 2, 3#} \<and>
   committed (log_run (log_init 0) [Put 1, Put (2::nat), Turn good_answer 5, Turn refused_answer 9, Put 3, Turn good_answer 12]) = [1, 3]"
proof -
  have "list_all not_lost [Put 1, Put (2::nat), Turn good_answer 5, Turn refused_answer 9, Put 3, Turn good_answer 12]"
    by (simp add: good_answer_def refused_answer_def)
  from log_entries_accounted [OF this, of 0]
  show ?thesis
    by (simp add: log_run_def log_step_def put_entry_def drain_turn_def write_entry_def flush_def reset_def due_for_flush_def
        good_answer_def refused_answer_def log_init_def QUEUE_SIZE_def FLUSH_EVERY_N_def FLUSH_EVERY_S_def)
qed

section \<open>Stopping\<close>

lemma flush_queue [simp]: "log_queue (snd (flush a t st)) = log_queue st"
  by (auto simp: flush_def split: connect_answer.splits batch_answer.splits)

lemma drain_turn_shrinks: "log_queue (drain_turn a t st) = tl (log_queue st)"
proof (cases "log_queue st")
  case (Cons e rest)
  have "log_queue (snd (write_entry a t e (st\<lparr>log_queue := rest\<rparr>))) = rest"
    by (simp add: write_entry_def Let_def)
  then show ?thesis using Cons by (auto simp: drain_turn_def reset_def split: prod.splits bool.splits)
qed (simp add: drain_turn_def)

lemma flush_good: "connected st \<longrightarrow> still_open a \<or> on_connect a = Connected \<Longrightarrow> \<not> connected st \<longrightarrow> on_connect a = Connected \<Longrightarrow>
   on_batch a = Committed \<Longrightarrow>
   fst (flush a t st) \<and> committed (snd (flush a t st)) = committed st @ pending st \<and> pending (snd (flush a t st)) = [] "
  by (auto simp: flush_def)

lemma drain_turn_good:
  assumes "on_connect a = Connected" and "on_batch a = Committed"
  shows "in_order (drain_turn a t st) = in_order st"
proof (cases "log_queue st")
  case Nil
  then show ?thesis using flush_good [of st a t] assms by (simp add: drain_turn_def in_order_def)
next
  case (Cons e rest)
  let ?st = "st\<lparr>log_queue := rest, pending := pending st @ [e]\<rparr>"
  have flush: "fst (flush a t ?st) \<and> committed (snd (flush a t ?st)) = committed st @ pending st @ [e] \<and> pending (snd (flush a t ?st)) = []"
    using flush_good [of ?st a t] assms by simp
  show ?thesis
  proof (cases "due_for_flush t ?st")
    case True
    with Cons have "drain_turn a t st = snd (flush a t ?st)"
      using flush by (cases "flush a t ?st") (simp add: drain_turn_def write_entry_def Let_def)
    with flush Cons show ?thesis by (simp add: in_order_def)
  next
    case False
    with Cons have "drain_turn a t st = ?st" by (simp add: drain_turn_def write_entry_def Let_def)
    with Cons show ?thesis by (simp add: in_order_def)
  qed
qed

text \<open>
  After \<open>stop\<close> the writer ends: as many turns as there are entries in the queue empty it, whatever the database answers. When the
  database answers well, everything in the batch and in the queue is in the table at the end, after what was there and in order.
\<close>

theorem stop_drains:
  "\<exists>st'. drain a t n (length (log_queue st)) st = Some st' \<and> log_queue st' = [] \<and>
     ((\<forall>i. on_connect (a i) = Connected \<and> on_batch (a i) = Committed) \<longrightarrow>
        committed st' = committed st @ pending st @ log_queue st \<and> pending st' = [])"
proof (induction "length (log_queue st)" arbitrary: st n)
  case 0
  then show ?case using flush_good [of st "a n" "t n"] by simp
next
  case (Suc k)
  let ?st = "drain_turn (a n) (t n) st"
  have "k = length (log_queue ?st)" using Suc.hyps(2) by (simp add: drain_turn_shrinks)
  from Suc.hyps(1) [OF this, of "Suc n"] obtain st' where
    st': "drain a t (Suc n) k ?st = Some st'" "log_queue st' = []"
    "(\<forall>i. on_connect (a i) = Connected \<and> on_batch (a i) = Committed) \<longrightarrow> committed st' = in_order ?st \<and> pending st' = []"
    using \<open>k = length (log_queue ?st)\<close> by (auto simp: in_order_def)
  have "log_queue st \<noteq> []" using Suc.hyps(2) by auto
  then have "drain a t n (length (log_queue st)) st = Some st'" using st'(1) Suc.hyps(2) [symmetric] by simp
  with st' drain_turn_good [of "a n" "t n" st] show ?case by (auto simp: in_order_def)
qed

theorem stop_drains_witness:
  "\<exists>st'. drain (\<lambda>i. good_answer) (\<lambda>i. 1) 0 2 (log_run (log_init 0) [Put 1, Put (2::nat)]) = Some st' \<and>
     log_queue st' = [] \<and> committed st' = [1, 2] \<and> pending st' = []"
proof -
  let ?st = "log_run (log_init 0) [Put 1, Put (2::nat)]"
  have st: "log_queue ?st = [1, 2]" "committed ?st = []" "pending ?st = []"
    by (simp_all add: log_run_def log_step_def put_entry_def log_init_def QUEUE_SIZE_def)
  have "length [1, 2::nat] = 2" by simp
  with stop_drains [of "\<lambda>i. good_answer" "\<lambda>i. 1" 0 ?st] show ?thesis
    unfolding st by (simp add: good_answer_def numeral_2_eq_2 del: drain.simps)
qed

end
