(* ===== verification/Response_Middleware.thy ===== *)
theory Response_Middleware
  imports Py_Prelude
begin

text \<open>
  The middleware that works on a finished response: \<open>CORSMiddleware\<close>, \<open>SecurityHeadersMiddleware\<close> and
  \<open>CompressionMiddleware\<close> with its three compressors (\<open>src/api/middlewares\<close>), in the order of
  \<open>ApiWorker.get_api\<close>. The compression libraries (\<open>brotli\<close>, \<open>gzip\<close>, \<open>zstandard\<close>) are arguments: a record of
  operations for each, relied on to be decoded by the decoder of its encoding.
\<close>

type_synonym octets = "nat list"

section \<open>Streams\<close>

text \<open>
  The body of a streamed response: an object with a \<open>read\<close> operation, or a generator, which is the blocks it
  yields and the exception it ends with, if any.
\<close>

type_synonym chunks = "octets list \<times> exn option"

datatype body_stream = File_Like octets | Generator chunks

fun has_read :: "body_stream \<Rightarrow> bool" where
  "has_read (File_Like content) = True"
| "has_read (Generator g) = False"

definition stream_content :: "body_stream \<Rightarrow> octets" where
  "stream_content stream = (case stream of File_Like content \<Rightarrow> content | Generator g \<Rightarrow> concat (fst g))"

text \<open>What \<open>for item in stream\<close> goes through: a file is iterated by its lines.\<close>

fun file_lines :: "octets \<Rightarrow> octets list" where
  "file_lines [] = []"
| "file_lines (c # s) =
     (if c = 10 then [10] # file_lines s
      else case file_lines s of [] \<Rightarrow> [[c]] | l # ls \<Rightarrow> (c # l) # ls)"

definition iterate_stream :: "body_stream \<Rightarrow> chunks" where
  "iterate_stream stream = (case stream of File_Like content \<Rightarrow> (file_lines content, None) | Generator g \<Rightarrow> g)"

definition block_size :: nat where
  "block_size = 8192"

function read_blocks :: "octets \<Rightarrow> octets list" where
  "read_blocks content = (if content = [] then [] else take block_size content # read_blocks (drop block_size content))"
  by pat_completeness auto
termination by (relation "measure length") (auto simp: block_size_def)

declare read_blocks.simps [simp del]

text \<open>\<open>wrap_file\<close> is a generator: an object without \<open>read\<close> makes its first step fail.\<close>

definition wrap_file :: "body_stream \<Rightarrow> chunks" where
  "wrap_file stream =
     (case stream of File_Like content \<Rightarrow> (read_blocks content, None) | Generator g \<Rightarrow> ([], Some AttributeError))"

section \<open>Compressors\<close>

text \<open>
  The operations of a compression library: the whole of a body at once, and the incremental object, with what opening
  it, feeding it a block and closing it writes.
\<close>

record 's codec =
  whole :: "octets \<Rightarrow> octets"
  opened :: "'s \<times> octets"
  feed :: "'s \<Rightarrow> octets \<Rightarrow> 's \<times> octets"
  finish :: "'s \<Rightarrow> octets"

fun feed_all :: "('s, 'm) codec_scheme \<Rightarrow> 's \<Rightarrow> octets list \<Rightarrow> 's \<times> octets" where
  "feed_all c s [] = (s, [])"
| "feed_all c s (b # bs) = (let (s', out) = feed c s b; (s'', out') = feed_all c s' bs in (s'', out @ out'))"

definition incremental :: "('s, 'm) codec_scheme \<Rightarrow> octets list \<Rightarrow> octets" where
  "incremental c bs = (let (s, out) = opened c; (s', out') = feed_all c s bs in out @ out' @ finish c s')"

text \<open>The documented behaviour of a compression library that the middleware relies on.\<close>

definition decoded_by :: "(octets \<Rightarrow> octets option) \<Rightarrow> ('s, 'm) codec_scheme \<Rightarrow> bool" where
  "decoded_by decode c \<longleftrightarrow>
     (\<forall>d. decode (whole c d) = Some d \<and> whole c d \<noteq> []) \<and> (\<forall>bs. decode (incremental c bs) = Some (concat bs))"

datatype encoding = Br | Gzip | Zstd

fun encoding_name :: "encoding \<Rightarrow> pstr" where
  "encoding_name Br = u ''br''"
| "encoding_name Gzip = u ''gzip''"
| "encoding_name Zstd = u ''zstd''"

fun priority :: "encoding \<Rightarrow> nat" where
  "priority Br = 20"
| "priority Gzip = 30"
| "priority Zstd = 10"

text \<open>\<open>StreamingBuffer\<close>: reading returns the contents and clears the buffer.\<close>

definition buffer_read :: "octets \<Rightarrow> octets \<times> octets" where
  "buffer_read buf = (buf, [])"

fun buffered_loop :: "('s, 'm) codec_scheme \<Rightarrow> 's \<Rightarrow> octets \<Rightarrow> octets list \<Rightarrow> octets list \<times> 's \<times> octets" where
  "buffered_loop c s buf [] = ([], s, buf)"
| "buffered_loop c s buf (item # items) =
     (let (s, out) = feed c s item;
          (data, buf) = buffer_read (buf @ out);
          (chunks, rest) = buffered_loop c s buf items
      in (if data = [] then chunks else data # chunks, rest))"

definition buffered_stream :: "('s, 'm) codec_scheme \<Rightarrow> body_stream \<Rightarrow> chunks" where
  "buffered_stream c stream =
     (let (items, err) = (if \<not> has_read stream then wrap_file stream else iterate_stream stream);
          (s, out) = opened c;
          (first, buf) = buffer_read out;
          (chunks, s, buf) = buffered_loop c s buf items
      in case err of
           Some e \<Rightarrow> ([] # first # chunks, Some e)
         | None \<Rightarrow> ([] # first # chunks @ [fst (buffer_read (buf @ finish c s))], None))"

fun brotli_loop :: "('s, 'm) codec_scheme \<Rightarrow> 's \<Rightarrow> octets list \<Rightarrow> octets list \<times> 's" where
  "brotli_loop c s [] = ([], s)"
| "brotli_loop c s (b # bs) =
     (let (s, out) = feed c s b; (chunks, s) = brotli_loop c s bs
      in (if out = [] then chunks else out # chunks, s))"

definition brotli_stream :: "('s, 'm) codec_scheme \<Rightarrow> body_stream \<Rightarrow> chunks" where
  "brotli_stream c stream =
     (let (items, err) = (if has_read stream then wrap_file stream else iterate_stream stream);
          (chunks, s) = brotli_loop c (fst (opened c)) items
      in case err of
           Some e \<Rightarrow> ([] # chunks, Some e)
         | None \<Rightarrow> let out = finish c s in ([] # chunks @ (if out = [] then [] else [out]), None))"

definition compress_stream :: "encoding \<Rightarrow> ('s, 'm) codec_scheme \<Rightarrow> body_stream \<Rightarrow> chunks" where
  "compress_stream e c stream = (case e of Br \<Rightarrow> brotli_stream c stream | _ \<Rightarrow> buffered_stream c stream)"

section \<open>Choice of a compressor\<close>

definition compressors :: "(pstr \<times> encoding) list" where
  "compressors = map (\<lambda>e. (encoding_name e, e)) [Br, Gzip, Zstd]"

definition item_name :: "pstr \<Rightarrow> pstr" where
  "item_name item = py_lower (py_strip (fst (py_partition (u '';'') item)))"

definition compressor_candidates :: "pstr \<Rightarrow> encoding list" where
  "compressor_candidates accept_encoding =
     List.map_filter (\<lambda>item. map_of compressors (item_name item)) (split_on 44 accept_encoding)"

text \<open>\<open>min\<close> with a key: the first of the least.\<close>

definition py_min_by :: "('a \<Rightarrow> nat) \<Rightarrow> 'a list \<Rightarrow> 'a option" where
  "py_min_by f xs =
     foldl (\<lambda>best x. case best of None \<Rightarrow> Some x | Some b \<Rightarrow> if f x < f b then Some x else Some b) None xs"

definition get_compressor :: "pstr \<Rightarrow> encoding option" where
  "get_compressor accept_encoding = py_min_by priority (compressor_candidates accept_encoding)"

section \<open>The middleware\<close>

type_synonym headers = "(pstr \<times> pstr) list"

record response =
  resp_complete :: bool
  resp_hdrs :: headers
  resp_stream :: "body_stream option"
  resp_body :: "octets option"
  content_length :: "nat option"


text \<open>Header names are kept in lower case; appending joins the values by a comma.\<close>

definition set_header :: "string \<Rightarrow> pstr \<Rightarrow> response \<Rightarrow> response" where
  "set_header name_val v resp = resp\<lparr>resp_hdrs := dict_set (resp_hdrs resp) (py_lower (u name_val)) v\<rparr>"

definition get_header :: "string \<Rightarrow> response \<Rightarrow> pstr option" where
  "get_header name_val resp = map_of (resp_hdrs resp) (py_lower (u name_val))"

definition append_header :: "string \<Rightarrow> pstr \<Rightarrow> response \<Rightarrow> response" where
  "append_header name_val v resp =
     set_header name_val (case get_header name_val resp of None \<Rightarrow> v | Some old \<Rightarrow> old @ u '', '' @ v) resp"

definition cors_response :: "response \<Rightarrow> response" where
  "cors_response resp = set_header ''Access-Control-Allow-Origin'' (u ''*'') resp"


definition security_headers :: "pstr \<Rightarrow> (string \<times> pstr) list" where
  "security_headers cdn_url =
     [(''Content-Security-Policy'',
        u ''default-src 'self'; '' @ u ''script-src 'self' 'unsafe-inline'; '' @
        u ''style-src 'self' 'unsafe-inline' '' @ cdn_url @ u ''; '' @
        u ''font-src 'self' '' @ cdn_url @ u ''; '' @ u ''img-src 'self' data: https:; '' @ u ''connect-src 'self'; '' @
        u ''frame-ancestors 'none'; '' @ u ''base-uri 'self'; '' @ u ''form-action 'self'' @ [39]),
      (''X-Frame-Options'', u ''DENY''),
      (''X-Content-Type-Options'', u ''nosniff''),
      (''X-XSS-Protection'', u ''1; mode=block''),
      (''Referrer-Policy'', u ''strict-origin-when-cross-origin''),
      (''Permissions-Policy'', u ''geolocation=(), microphone=(), camera=()'')]"

definition security_response :: "pstr \<Rightarrow> response \<Rightarrow> response" where
  "security_response cdn_url resp = foldl (\<lambda>resp (header, v). set_header header v resp) resp (security_headers cdn_url)"




section \<open>Streams arrive whole\<close>

lemma concat_file_lines [simp]: "concat (file_lines s) = s"
  by (induction s rule: file_lines.induct) (auto split: list.splits)

lemma concat_read_blocks [simp]: "concat (read_blocks s) = s"
  by (induction s rule: read_blocks.induct) (subst read_blocks.simps, simp)

lemma concat_skip_empty [simp]: "concat (if x = [] then xs else x # xs) = x @ concat xs"
  by simp

lemma buffered_loop_output:
  assumes "buffered_loop c s [] items = (chunks, s', buf)"
  shows "buf = [] \<and> feed_all c s items = (s', concat chunks)"
  using assms
proof (induction items arbitrary: s chunks)
  case (Cons item items)
  obtain t out where t: "feed c s item = (t, out)" by fastforce
  obtain chunks' where "buffered_loop c t [] items = (chunks', s', buf)" and "chunks = (if out = [] then chunks' else out # chunks')"
    using Cons.prems by (auto simp: t buffer_read_def split: prod.splits)
  with Cons.IH [of t chunks'] show ?case by (simp add: t)
qed simp

lemma brotli_loop_output: "brotli_loop c s items = (chunks, s') \<Longrightarrow> feed_all c s items = (s', concat chunks)"
proof (induction items arbitrary: s chunks)
  case (Cons item items)
  obtain t out where t: "feed c s item = (t, out)" by fastforce
  obtain chunks' where "brotli_loop c t items = (chunks', s')" and "chunks = (if out = [] then chunks' else out # chunks')"
    using Cons.prems by (auto simp: t split: prod.splits)
  with Cons.IH [of t chunks'] show ?case by (simp add: t)
qed simp

lemma buffered_stream_output:
  assumes "(if \<not> has_read stream then wrap_file stream else iterate_stream stream) = (items, None)"
  shows "snd (buffered_stream c stream) = None" and "concat (fst (buffered_stream c stream)) = incremental c items"
proof -
  obtain s out chunks s' buf where "opened c = (s, out)" and "buffered_loop c s [] items = (chunks, s', buf)"
    by (metis prod.exhaust)
  with buffered_loop_output [of c s items chunks s' buf] assms
  show "snd (buffered_stream c stream) = None" "concat (fst (buffered_stream c stream)) = incremental c items"
    by (simp_all add: buffered_stream_def buffer_read_def incremental_def)
qed

lemma brotli_stream_output:
  assumes "(if has_read stream then wrap_file stream else iterate_stream stream) = (items, None)" and "snd (opened c) = []"
  shows "snd (brotli_stream c stream) = None" and "concat (fst (brotli_stream c stream)) = incremental c items"
proof -
  obtain s out chunks s' where "opened c = (s, out)" and "brotli_loop c s items = (chunks, s')"
    by (metis prod.exhaust)
  with brotli_loop_output [of c s items chunks s'] assms
  show "snd (brotli_stream c stream) = None" "concat (fst (brotli_stream c stream)) = incremental c items"
    by (simp_all add: brotli_stream_def incremental_def Let_def)
qed

text \<open>
  The libraries as the middleware uses them: each output is decoded by the decoder of its encoding, and an
  incremental brotli compressor writes nothing before its first block.
\<close>

definition codecs_ok :: "(encoding \<Rightarrow> octets \<Rightarrow> octets option) \<Rightarrow> (encoding \<Rightarrow> 's codec) \<Rightarrow> bool" where
  "codecs_ok decode codecs \<longleftrightarrow> (\<forall>e. decoded_by (decode e) (codecs e)) \<and> snd (opened (codecs Br)) = []"

text \<open>A stand-in for a compression library, which stores the blocks behind a header.\<close>

definition stored_codec :: "encoding \<Rightarrow> octets codec" where
  "stored_codec e =
     (if e = Br then \<lparr>whole = (\<lambda>d. 1 # d), opened = ([1], []), feed = (\<lambda>s b. ([], s @ b)), finish = (\<lambda>s. s)\<rparr>
      else \<lparr>whole = (\<lambda>d. 1 # d), opened = ([], [1]), feed = (\<lambda>s b. ([], s @ b)), finish = (\<lambda>s. s)\<rparr>)"

definition stored_decode :: "encoding \<Rightarrow> octets \<Rightarrow> octets option" where
  "stored_decode e d = (case d of [] \<Rightarrow> None | c # s \<Rightarrow> Some s)"

lemma stored_codecs_ok: "codecs_ok stored_decode stored_codec"
proof -
  have "feed_all (stored_codec e) s (b # bs) = ([], s @ concat (b # bs))" for e s b bs
    by (induction bs arbitrary: s b) (auto simp: stored_codec_def)
  then have "incremental (stored_codec e) bs = 1 # concat bs" for e bs
    by (cases bs) (auto simp: incremental_def stored_codec_def)
  then show ?thesis
    by (auto simp: codecs_ok_def decoded_by_def stored_decode_def stored_codec_def)
qed

text \<open>
  A compressed stream decodes to the body it was made from: for brotli with every stream that does not fail
  by itself, for gzip and zstandard with every stream that has a \<open>read\<close> operation. The chunks a client gets, one after the
  other, are decoded to the content, and the stream ends without an exception.
\<close>

theorem compress_stream_decodes:
  assumes "codecs_ok decode codecs" and "e = Br \<or> has_read stream" and "snd (iterate_stream stream) = None"
  shows "snd (compress_stream e (codecs e) stream) = None \<and>
         decode e (concat (fst (compress_stream e (codecs e) stream))) = Some (stream_content stream)"
proof -
  have decode: "decode e (incremental (codecs e) items) = Some (concat items)" for items
    using assms(1) by (simp add: codecs_ok_def decoded_by_def)
  show ?thesis
  proof (cases stream)
    case (File_Like content)
    have "snd (compress_stream e (codecs e) stream) = None \<and>
        (\<exists>items. concat items = content \<and> concat (fst (compress_stream e (codecs e) stream)) = incremental (codecs e) items)"
    proof (cases "e = Br")
      case True
      with File_Like assms(1) brotli_stream_output [of stream "read_blocks content" "codecs Br"] show ?thesis
        by (auto simp: compress_stream_def codecs_ok_def wrap_file_def intro!: exI [of _ "read_blocks content"])
    next
      case False
      then have "compress_stream e (codecs e) stream = buffered_stream (codecs e) stream"
        by (simp add: compress_stream_def split: encoding.splits)
      with File_Like buffered_stream_output [of stream "file_lines content" "codecs e"] show ?thesis
        by (auto simp: iterate_stream_def intro!: exI [of _ "file_lines content"])
    qed
    with decode File_Like show ?thesis by (auto simp: stream_content_def)
  next
    case (Generator g)
    with assms brotli_stream_output [of stream "fst g" "codecs Br"] decode show ?thesis
      by (cases g) (auto simp: compress_stream_def codecs_ok_def iterate_stream_def stream_content_def)
  qed
qed

theorem compress_stream_decodes_witness:
  "snd (compress_stream Br (stored_codec Br) (Generator ([[7], [], [8, 9]], None))) = None \<and>
   stored_decode Br (concat (fst (compress_stream Br (stored_codec Br) (Generator ([[7], [], [8, 9]], None))))) = Some [7, 8, 9] \<and>
   stored_decode Gzip (concat (fst (compress_stream Gzip (stored_codec Gzip) (File_Like [7, 10, 8])))) = Some [7, 10, 8]"
  using compress_stream_decodes [OF stored_codecs_ok, of Br "Generator ([[7], [], [8, 9]], None)"]
    compress_stream_decodes [OF stored_codecs_ok, of Gzip "File_Like [7, 10, 8]"]
  by (simp add: stream_content_def iterate_stream_def)

text \<open>
  With gzip and zstandard a stream without a \<open>read\<close> operation is never delivered: whatever it yields, the
  response ends with an \<open>AttributeError\<close> after the header of the compressed file, because the test for \<open>read\<close> is the opposite of that of
  the brotli compressor.
\<close>

theorem generator_stream_fails:
  "e \<noteq> Br \<Longrightarrow> compress_stream e c (Generator g) = ([[], snd (opened c)], Some AttributeError)"
  by (cases e) (auto simp: compress_stream_def buffered_stream_def wrap_file_def buffer_read_def split: prod.splits)

theorem generator_stream_fails_witness:
  "compress_stream Gzip (stored_codec Gzip) (Generator ([[7]], None)) = ([[], [1]], Some AttributeError)"
  using generator_stream_fails [of Gzip "stored_codec Gzip" "([[7]], None)"] by (simp add: stored_codec_def)

section \<open>The chosen encoding\<close>

definition offered :: "pstr \<Rightarrow> encoding \<Rightarrow> bool" where
  "offered accept_encoding e \<longleftrightarrow> encoding_name e \<in> set (map item_name (split_on 44 accept_encoding))"

lemma map_of_compressors: "map_of compressors s = Some e \<longleftrightarrow> s = encoding_name e"
  by (cases e) (auto simp: compressors_def)

lemma set_compressor_candidates: "set (compressor_candidates accept) = {e. offered accept e}"
proof -
  have "set (List.map_filter f xs) = {y. \<exists>x \<in> set xs. f x = Some y}" for f :: "pstr \<Rightarrow> encoding option" and xs
    by (force simp: List.map_filter_def)
  then show ?thesis
    by (auto simp: compressor_candidates_def offered_def map_of_compressors image_iff) metis
qed

lemma py_min_by_from:
  fixes f :: "'a \<Rightarrow> nat"
  shows "foldl (\<lambda>best x. case best of None \<Rightarrow> Some x | Some b \<Rightarrow> if f x < f b then Some x else Some b) (Some b) xs = Some y \<Longrightarrow>
   y \<in> insert b (set xs) \<and> (\<forall>x \<in> insert b (set xs). f y \<le> f x)"
proof (induction xs arbitrary: b)
  case (Cons a xs)
  show ?case
  proof (cases "f a < f b")
    case True
    with Cons.prems Cons.IH [of a] have "y \<in> insert a (set xs)" "\<forall>x \<in> insert a (set xs). f y \<le> f x" by simp_all
    with True show ?thesis by (auto intro: order_trans [OF _ less_imp_le])
  next
    case False
    with Cons.prems Cons.IH [of b] have "y \<in> insert b (set xs)" "\<forall>x \<in> insert b (set xs). f y \<le> f x" by simp_all
    with False show ?thesis by (auto simp: not_less intro: order_trans)
  qed
qed simp

lemma py_min_by_None: "py_min_by f xs = None \<longleftrightarrow> xs = []"
proof -
  have "foldl (\<lambda>best x. case best of None \<Rightarrow> Some x | Some b \<Rightarrow> if f x < f b then Some x else Some b) (Some b) xs \<noteq> None" for b xs
    by (induction xs arbitrary: b) auto
  then show ?thesis by (cases xs) (auto simp: py_min_by_def)
qed

lemma py_min_by_Some: "py_min_by f xs = Some y \<Longrightarrow> y \<in> set xs \<and> (\<forall>x \<in> set xs. f y \<le> f x)"
  by (cases xs) (auto simp: py_min_by_def dest: py_min_by_from)

lemma priority_inj: "priority e = priority e' \<Longrightarrow> e = e'"
  by (cases e; cases e') auto

text \<open>
  The encoding chosen is one the client names, and among those the one the server prefers; nothing is compressed
  exactly when the client names none of the three.
\<close>

theorem get_compressor_best:
  "get_compressor accept = Some e \<longleftrightarrow> offered accept e \<and> (\<forall>e'. offered accept e' \<longrightarrow> priority e \<le> priority e')"
proof
  assume "get_compressor accept = Some e"
  then show "offered accept e \<and> (\<forall>e'. offered accept e' \<longrightarrow> priority e \<le> priority e')"
    using py_min_by_Some [of priority "compressor_candidates accept" e] set_compressor_candidates [of accept]
    by (auto simp: get_compressor_def)
next
  assume best: "offered accept e \<and> (\<forall>e'. offered accept e' \<longrightarrow> priority e \<le> priority e')"
  then obtain y where y: "get_compressor accept = Some y"
    using py_min_by_None [of priority "compressor_candidates accept"] set_compressor_candidates [of accept]
    by (cases "get_compressor accept") (auto simp: get_compressor_def)
  then have "offered accept y \<and> priority y \<le> priority e"
    using best py_min_by_Some [of priority "compressor_candidates accept" y] set_compressor_candidates [of accept]
    by (auto simp: get_compressor_def)
  with best y show "get_compressor accept = Some e" using priority_inj [of y e] by force
qed

theorem get_compressor_best_witness:
  "get_compressor (u ''deflate, gzip;q=1.0, BR ;q=0.5'') = Some Br"
proof -
  have "\<not> offered (u ''deflate, gzip;q=1.0, BR ;q=0.5'') Zstd" "offered (u ''deflate, gzip;q=1.0, BR ;q=0.5'') Br"
    by code_simp+
  moreover have "priority Br \<le> priority e" if "e \<noteq> Zstd" for e
    using that by (cases e) simp_all
  ultimately show ?thesis
    by (intro get_compressor_best [THEN iffD2]) metis
qed

text \<open>
  An encoding the client refuses with the weight zero is chosen as well: the weights are not read.
\<close>

lemma refused_encoding_chosen: "get_compressor (u ''gzip;q=0, identity'') = Some Gzip"
  by code_simp

section \<open>The finished response\<close>


lemma set_header_fields [simp]:
  "resp_complete (set_header h v resp) = resp_complete resp" "resp_stream (set_header h v resp) = resp_stream resp"
  "resp_body (set_header h v resp) = resp_body resp" "content_length (set_header h v resp) = content_length resp"
  by (simp_all add: set_header_def)


lemma append_header_fields [simp]:
  "resp_complete (append_header h v resp) = resp_complete resp" "resp_stream (append_header h v resp) = resp_stream resp"
  "resp_body (append_header h v resp) = resp_body resp" "content_length (append_header h v resp) = content_length resp"
  by (simp_all add: append_header_def)


lemma cors_security_fields [simp]:
  "resp_complete (security_response cdn (cors_response resp)) = resp_complete resp"
  "resp_stream (security_response cdn (cors_response resp)) = resp_stream resp"
  "resp_body (security_response cdn (cors_response resp)) = resp_body resp"
  by (simp_all add: security_response_def security_headers_def cors_response_def)











end
