(* ===== verification/Noscript_Html.thy ===== *)
theory Noscript_Html
  imports Py_Prelude
begin

text \<open>
  The search results rendered on the server: \<open>src/api/noscript_helpers.py\<close>. A card is a dictionary whose
  values are texts or null. The theorems follow a browser's tokenizer over the produced page: what the
  page has as tags does not depend on the fields the code escapes.
\<close>

section \<open>Escaping\<close>

definition MAX_ORACLE_TEXT_LENGTH :: nat where
  "MAX_ORACLE_TEXT_LENGTH = 200"

definition MAX_ALT_TEXT_LENGTH :: nat where
  "MAX_ALT_TEXT_LENGTH = 300"

definition EAGER_LOAD_COUNT :: nat where
  "EAGER_LOAD_COUNT = 4"

definition escape_html :: "pstr \<Rightarrow> pstr" where
  "escape_html txt_val =
     py_replace [34] (u ''&quot;'') (py_replace (u ''>'') (u ''&gt;'')
       (py_replace (u ''<'') (u ''&lt;'') (py_replace (u ''&'') (u ''&amp;'') txt_val)))"

section \<open>Mana symbols\<close>

definition mana_map :: "(pstr \<times> pstr) list" where
  "mana_map =
     [(u ''{R}'', u ''ms ms-r ms-cost''),
      (u ''{G}'', u ''ms ms-g ms-cost''),
      (u ''{W}'', u ''ms ms-w ms-cost''),
      (u ''{U}'', u ''ms ms-u ms-cost''),
      (u ''{B}'', u ''ms ms-b ms-cost''),
      (u ''{C}'', u ''ms ms-c ms-cost''),
      (u ''{0}'', u ''ms ms-0 ms-cost''),
      (u ''{1}'', u ''ms ms-1 ms-cost''),
      (u ''{2}'', u ''ms ms-2 ms-cost''),
      (u ''{3}'', u ''ms ms-3 ms-cost''),
      (u ''{4}'', u ''ms ms-4 ms-cost''),
      (u ''{5}'', u ''ms ms-5 ms-cost''),
      (u ''{6}'', u ''ms ms-6 ms-cost''),
      (u ''{7}'', u ''ms ms-7 ms-cost''),
      (u ''{8}'', u ''ms ms-8 ms-cost''),
      (u ''{9}'', u ''ms ms-9 ms-cost''),
      (u ''{10}'', u ''ms ms-10 ms-cost''),
      (u ''{11}'', u ''ms ms-11 ms-cost''),
      (u ''{12}'', u ''ms ms-12 ms-cost''),
      (u ''{13}'', u ''ms ms-13 ms-cost''),
      (u ''{14}'', u ''ms ms-14 ms-cost''),
      (u ''{15}'', u ''ms ms-15 ms-cost''),
      (u ''{16}'', u ''ms ms-16 ms-cost''),
      (u ''{X}'', u ''ms ms-x ms-cost''),
      (u ''{Y}'', u ''ms ms-y ms-cost''),
      (u ''{Z}'', u ''ms ms-z ms-cost''),
      (u ''{T}'', u ''ms ms-tap''),
      (u ''{Q}'', u ''ms ms-untap''),
      (u ''{E}'', u ''ms ms-energy''),
      (u ''{P}'', u ''ms ms-p ms-cost''),
      (u ''{S}'', u ''ms ms-s ms-cost''),
      (u ''{CHAOS}'', u ''ms ms-chaos''),
      (u ''{PW}'', u ''ms ms-pw''),
      ([123, 8734, 125], u ''ms ms-infinity''),
      (u ''{W/U}'', u ''ms ms-wu ms-cost''),
      (u ''{U/B}'', u ''ms ms-ub ms-cost''),
      (u ''{B/R}'', u ''ms ms-br ms-cost''),
      (u ''{R/G}'', u ''ms ms-rg ms-cost''),
      (u ''{G/W}'', u ''ms ms-gw ms-cost''),
      (u ''{W/B}'', u ''ms ms-wb ms-cost''),
      (u ''{U/R}'', u ''ms ms-ur ms-cost''),
      (u ''{B/G}'', u ''ms ms-bg ms-cost''),
      (u ''{R/W}'', u ''ms ms-rw ms-cost''),
      (u ''{G/U}'', u ''ms ms-gu ms-cost''),
      (u ''{2/W}'', u ''ms ms-2w ms-cost''),
      (u ''{2/U}'', u ''ms ms-2u ms-cost''),
      (u ''{2/B}'', u ''ms ms-2b ms-cost''),
      (u ''{2/R}'', u ''ms ms-2r ms-cost''),
      (u ''{2/G}'', u ''ms ms-2g ms-cost''),
      (u ''{W/P}'', u ''ms ms-wp ms-cost''),
      (u ''{U/P}'', u ''ms ms-up ms-cost''),
      (u ''{B/P}'', u ''ms ms-bp ms-cost''),
      (u ''{R/P}'', u ''ms ms-rp ms-cost''),
      (u ''{G/P}'', u ''ms ms-gp ms-cost''),
      (u ''{W/U/P}'', u ''ms ms-wup ms-cost''),
      (u ''{W/B/P}'', u ''ms ms-wbp ms-cost''),
      (u ''{U/B/P}'', u ''ms ms-ubp ms-cost''),
      (u ''{U/R/P}'', u ''ms ms-urp ms-cost''),
      (u ''{B/R/P}'', u ''ms ms-brp ms-cost''),
      (u ''{B/G/P}'', u ''ms ms-bgp ms-cost''),
      (u ''{R/W/P}'', u ''ms ms-rwp ms-cost''),
      (u ''{R/G/P}'', u ''ms ms-rgp ms-cost''),
      (u ''{G/W/P}'', u ''ms ms-gwp ms-cost''),
      (u ''{G/U/P}'', u ''ms ms-gup ms-cost'')]"

definition MANA_TEXT_MAP :: "(pstr \<times> pstr) list" where
  "MANA_TEXT_MAP =
     [(u ''{W}'', [9728, 65039]),
      (u ''{U}'', [128167]),
      (u ''{B}'', [128128]),
      (u ''{R}'', [128293]),
      (u ''{G}'', [127795]),
      (u ''{C}'', [9671]),
      (u ''{T}'', [8635]),
      (u ''{Q}'', [8634]),
      (u ''{E}'', [9889]),
      (u ''{P}'', [934]),
      (u ''{S}'', [10052]),
      (u ''{X}'', u ''X''),
      (u ''{Y}'', u ''Y''),
      (u ''{Z}'', u ''Z''),
      (u ''{0}'', [9450]),
      (u ''{1}'', [9312]),
      (u ''{2}'', [9313]),
      (u ''{3}'', [9314]),
      (u ''{4}'', [9315]),
      (u ''{5}'', [9316]),
      (u ''{6}'', [9317]),
      (u ''{7}'', [9318]),
      (u ''{8}'', [9319]),
      (u ''{9}'', [9320]),
      (u ''{10}'', [9321]),
      (u ''{11}'', [9322]),
      (u ''{12}'', [9323]),
      (u ''{13}'', [9324]),
      (u ''{14}'', [9325]),
      (u ''{15}'', [9326]),
      (u ''{16}'', [9327]),
      (u ''{CHAOS}'', [127744]),
      (u ''{PW}'', u ''PW''),
      ([123, 8734, 125], [9854, 65038]),
      (u ''{W/U}'', [40, 9728, 65039, 47, 128167, 41]),
      (u ''{U/B}'', [40, 128167, 47, 128128, 41]),
      (u ''{B/R}'', [40, 128128, 47, 128293, 41]),
      (u ''{R/G}'', [40, 128293, 47, 127795, 41]),
      (u ''{G/W}'', [40, 127795, 47, 9728, 65039, 41]),
      (u ''{W/B}'', [40, 9728, 65039, 47, 128128, 41]),
      (u ''{U/R}'', [40, 128167, 47, 128293, 41]),
      (u ''{B/G}'', [40, 128128, 47, 127795, 41]),
      (u ''{R/W}'', [40, 128293, 47, 9728, 65039, 41]),
      (u ''{G/U}'', [40, 127795, 47, 128167, 41]),
      (u ''{2/W}'', [40, 9313, 47, 9728, 65039, 41]),
      (u ''{2/U}'', [40, 9313, 47, 128167, 41]),
      (u ''{2/B}'', [40, 9313, 47, 128128, 41]),
      (u ''{2/R}'', [40, 9313, 47, 128293, 41]),
      (u ''{2/G}'', [40, 9313, 47, 127795, 41]),
      (u ''{W/P}'', [40, 9728, 65039, 47, 934, 41]),
      (u ''{U/P}'', [40, 128167, 47, 934, 41]),
      (u ''{B/P}'', [40, 128128, 47, 934, 41]),
      (u ''{R/P}'', [40, 128293, 47, 934, 41]),
      (u ''{G/P}'', [40, 127795, 47, 934, 41]),
      (u ''{W/U/P}'', [40, 9728, 65039, 47, 128167, 47, 934, 41]),
      (u ''{W/B/P}'', [40, 9728, 65039, 47, 128128, 47, 934, 41]),
      (u ''{U/B/P}'', [40, 128167, 47, 128128, 47, 934, 41]),
      (u ''{U/R/P}'', [40, 128167, 47, 128293, 47, 934, 41]),
      (u ''{B/R/P}'', [40, 128128, 47, 128293, 47, 934, 41]),
      (u ''{B/G/P}'', [40, 128128, 47, 127795, 47, 934, 41]),
      (u ''{R/W/P}'', [40, 128293, 47, 9728, 65039, 47, 934, 41]),
      (u ''{R/G/P}'', [40, 128293, 47, 127795, 47, 934, 41]),
      (u ''{G/W/P}'', [40, 127795, 47, 9728, 65039, 47, 934, 41]),
      (u ''{G/U/P}'', [40, 127795, 47, 128167, 47, 934, 41])]"

text \<open>
  \<open>re.sub\<close> with the pattern of a brace, one to five characters other than a closing brace, and a
  closing brace: where an opening brace stands, the only candidate ends at the next closing brace.
\<close>

fun sub_symbols :: "(pstr \<Rightarrow> pstr) \<Rightarrow> pstr \<Rightarrow> pstr" where
  "sub_symbols f [] = []"
| "sub_symbols f (c # s) =
     (let inner = takeWhile (\<lambda>c. c \<noteq> 125) s
      in if c = 123 \<and> 1 \<le> length inner \<and> length inner \<le> 5 \<and> length inner < length s
         then f (123 # inner @ [125]) @ sub_symbols f (drop (Suc (length inner)) s)
         else c # sub_symbols f s)"

definition replace_symbol :: "pstr \<Rightarrow> pstr \<Rightarrow> pstr" where
  "replace_symbol symbol_class symbol =
     (case map_of mana_map symbol of
        Some css_classes \<Rightarrow> u ''<span class='' @ [34] @ symbol_class @ u '' '' @ css_classes @ [34] @ u ''></span>''
      | None \<Rightarrow> symbol)"

definition convert_mana_symbols :: "pstr \<Rightarrow> bool \<Rightarrow> pstr" where
  "convert_mana_symbols txt_val is_modal =
     sub_symbols (replace_symbol (if is_modal then u ''modal-mana-symbol'' else u ''mana-symbol'')) txt_val"

definition convert_mana_symbols_to_text :: "pstr \<Rightarrow> pstr" where
  "convert_mana_symbols_to_text txt_val =
     sub_symbols (\<lambda>symbol. case map_of MANA_TEXT_MAP symbol of Some t \<Rightarrow> t | None \<Rightarrow> symbol) txt_val"

definition format_oracle_text :: "pstr \<Rightarrow> bool \<Rightarrow> pstr" where
  "format_oracle_text oracle_text is_modal =
     py_replace [10] (u ''<br>'') (convert_mana_symbols oracle_text is_modal)"

section \<open>Cards\<close>

type_synonym html_card = "(pstr \<times> pstr option) list"

definition card_get :: "html_card \<Rightarrow> string \<Rightarrow> pstr option" where
  "card_get card_val key = (case map_of card_val (u key) of Some v \<Rightarrow> v | None \<Rightarrow> None)"

text \<open>The text of a value that is there and not empty.\<close>

definition card_text :: "html_card \<Rightarrow> string \<Rightarrow> pstr option" where
  "card_text card_val key = (case card_get card_val key of Some (c # s) \<Rightarrow> Some (c # s) | _ \<Rightarrow> None)"

definition fmt_item :: "html_card \<Rightarrow> string \<Rightarrow> pstr result" where
  "fmt_item card_val key =
     (case map_of card_val (u key) of None \<Rightarrow> Inl KeyError | Some v \<Rightarrow> Inr (case v of None \<Rightarrow> u ''None'' | Some s \<Rightarrow> s))"

definition build_image_url :: "html_card \<Rightarrow> string \<Rightarrow> pstr result" where
  "build_image_url card_val size_val =
     (let face = (case map_of card_val (u ''face_idx'') of None \<Rightarrow> u ''1'' | Some v \<Rightarrow> (case v of None \<Rightarrow> u ''None'' | Some s \<Rightarrow> s))
      in bindr (fmt_item card_val ''set_code'') (\<lambda>set_code.
         bindr (fmt_item card_val ''collector_number'') (\<lambda>collector_number.
         Inr (u ''https://d1hot9ps2xugbc.cloudfront.net/img/'' @ set_code @ u ''/'' @ collector_number @ u ''/'' @ face @ u ''/'' @
              u size_val @ u ''.webp''))))"

definition card_name_or_unknown :: "html_card \<Rightarrow> pstr" where
  "card_name_or_unknown card_val = (case card_text card_val ''name'' of Some s \<Rightarrow> s | None \<Rightarrow> u ''Unknown Card'')"

definition build_alt_text :: "html_card \<Rightarrow> pstr" where
  "build_alt_text card_val =
     escape_html (card_name_or_unknown card_val) @
     (case card_text card_val ''mana_cost'' of
        Some m \<Rightarrow> u '' / '' @ escape_html (convert_mana_symbols_to_text m) | None \<Rightarrow> []) @
     [10, 10] @
     (case card_text card_val ''oracle_text'' of
        Some t \<Rightarrow>
          let t = convert_mana_symbols_to_text t
          in escape_html (if MAX_ALT_TEXT_LENGTH < length t then take MAX_ALT_TEXT_LENGTH t @ u ''...'' else t)
      | None \<Rightarrow> [])"

text \<open>\<open>rpartition\<close> at an opening brace: the text before the last one.\<close>

definition before_last_brace :: "pstr \<Rightarrow> pstr" where
  "before_last_brace s = (if 123 \<in> set s then rev (tl (dropWhile (\<lambda>c. c \<noteq> 123) (rev s))) else [])"

definition truncate_oracle :: "pstr \<Rightarrow> pstr" where
  "truncate_oracle s =
     (let truncated = take MAX_ORACLE_TEXT_LENGTH s
      in if count_list truncated 125 < count_list truncated 123 then before_last_brace truncated else truncated)"

definition div_html :: "string \<Rightarrow> pstr \<Rightarrow> pstr" where
  "div_html cls content = u ''<div class='' @ [34] @ u cls @ [34] @ u ''>'' @ content @ u ''</div>''"

definition oracle_html :: "html_card \<Rightarrow> pstr" where
  "oracle_html card_val =
     (case card_text card_val ''oracle_text'' of
        None \<Rightarrow> []
      | Some t \<Rightarrow>
          if MAX_ORACLE_TEXT_LENGTH < length t then div_html ''card-text'' (format_oracle_text (truncate_oracle t) False @ u ''...'')
          else div_html ''card-text'' (format_oracle_text t False))"

definition power_toughness_part :: "html_card \<Rightarrow> pstr option" where
  "power_toughness_part card_val =
     (case (card_get card_val ''power'', card_get card_val ''toughness'') of
        (Some p, Some t) \<Rightarrow> Some (div_html ''card-power-toughness'' (escape_html p @ u '' / '' @ escape_html t))
      | _ \<Rightarrow> None)"

definition set_power_html :: "html_card \<Rightarrow> pstr" where
  "set_power_html card_val =
     (let has_set = card_text card_val ''set_name'';
          set_part = div_html ''card-set'' (case has_set of Some s \<Rightarrow> escape_html s | None \<Rightarrow> []);
          power_toughness = power_toughness_part card_val
      in if has_set = None \<and> power_toughness = None then []
         else div_html ''card-set-power-row'' (set_part @ (case power_toughness of Some h \<Rightarrow> h | None \<Rightarrow> [])))"

definition attr_html :: "string \<Rightarrow> pstr \<Rightarrow> pstr" where
  "attr_html name_val v = u '' '' @ u name_val @ u ''='' @ [34] @ v @ [34]"

definition sizes_attr :: pstr where
  "sizes_attr =
     u ''(max-width: 409px) calc(100vw - 3.6em), (max-width: 749px) calc(50vw - 2.6em - 7.5px), '' @
     u ''(max-width: 1369px) calc(33.33vw - 2.27em - 10px), (max-width: 2499px) calc(25vw - 2.1em - 11.25px), '' @
     u ''calc(20vw - 2em - 12px)''"

definition img_html :: "pstr \<Rightarrow> pstr \<Rightarrow> pstr \<Rightarrow> nat \<Rightarrow> pstr" where
  "img_html src srcset alt_text index =
     (let priority_attr = (if index = 0 then attr_html ''fetchpriority'' (u ''high'') else []);
          lazy_attr = (if index < EAGER_LOAD_COUNT then [] else attr_html ''loading'' (u ''lazy''))
      in u ''<img'' @ attr_html ''class'' (u ''card-image'') @ attr_html ''src'' src @ attr_html ''srcset'' srcset @
         attr_html ''sizes'' sizes_attr @ attr_html ''alt'' alt_text @ attr_html ''title'' alt_text @
         priority_attr @ lazy_attr @ u '' />'')"

definition image_tag :: "html_card \<Rightarrow> nat \<Rightarrow> pstr result" where
  "image_tag card_val index =
     bindr (build_image_url card_val ''280'') (\<lambda>image_280.
     bindr (build_image_url card_val ''388'') (\<lambda>image_388.
     bindr (build_image_url card_val ''538'') (\<lambda>image_538.
     bindr (build_image_url card_val ''745'') (\<lambda>image_745.
     let alt_text = build_alt_text card_val;
         srcset = escape_html image_280 @ u '' 280w, '' @ escape_html image_388 @ u '' 388w, '' @
                  escape_html image_538 @ u '' 538w, '' @ escape_html image_745 @ u '' 745w''
     in Inr (img_html (escape_html image_388) srcset alt_text index)))))"

definition card_link_html :: "pstr \<Rightarrow> pstr \<Rightarrow> pstr \<Rightarrow> pstr" where
  "card_link_html set_code collector_number img_tag =
     u ''<a'' @ attr_html ''href'' (u ''/card/'' @ escape_html set_code @ u ''/'' @ escape_html collector_number) @
     attr_html ''class'' (u ''card-page-link'') @ u ''>'' @ img_tag @ u ''</a>''"

definition image_html :: "html_card \<Rightarrow> nat \<Rightarrow> pstr result" where
  "image_html card_val index =
     bindr (image_tag card_val index) (\<lambda>img_tag.
     Inr (case (card_text card_val ''set_code'', card_text card_val ''collector_number'') of
            (Some s, Some n) \<Rightarrow> card_link_html s n img_tag
          | _ \<Rightarrow> img_tag))"

definition mana_html :: "html_card \<Rightarrow> pstr" where
  "mana_html card_val =
     (case card_text card_val ''mana_cost'' of None \<Rightarrow> [] | Some m \<Rightarrow> div_html ''card-mana'' (convert_mana_symbols m False))"

definition type_html :: "html_card \<Rightarrow> pstr" where
  "type_html card_val =
     (case card_text card_val ''type_line'' of None \<Rightarrow> [] | Some t \<Rightarrow> div_html ''card-type'' (escape_html t))"

definition line :: "nat \<Rightarrow> pstr" where
  "line n = 10 # replicate n 32"

definition create_card_html :: "html_card \<Rightarrow> nat \<Rightarrow> pstr result" where
  "create_card_html card_val index =
     bindr (image_html card_val index) (\<lambda>image.
     Inr (line 13 @ u ''<div'' @ attr_html ''class'' (u ''card-item'') @ attr_html ''data-card-id'' (escape_html (nat_str index)) @ u ''>'' @
          line 17 @ image @
          line 17 @ u ''<div'' @ attr_html ''class'' (u ''card-name-mana-row'') @ u ''>'' @
          line 21 @ div_html ''card-name'' (escape_html (card_name_or_unknown card_val)) @
          line 21 @ mana_html card_val @
          line 17 @ u ''</div>'' @
          line 17 @ type_html card_val @
          line 17 @ oracle_html card_val @
          line 17 @ set_power_html card_val @
          line 13 @ u ''</div>'' @ line 9))"

definition generate_results_html :: "html_card list \<Rightarrow> pstr result" where
  "generate_results_html cards =
     bindr (mapr (\<lambda>(i, card_val). create_card_html card_val i) (enumerate 0 cards)) (\<lambda>parts. Inr (concat parts))"

definition generate_results_count_html :: "nat \<Rightarrow> pstr \<Rightarrow> pstr" where
  "generate_results_count_html total_cards query =
     u ''Found '' @ nat_str total_cards @ u '' '' @ (if total_cards = 1 then u ''card'' else u ''cards'') @ u '' matching '' @ [34] @
     escape_html query @ [34]"


section \<open>Escaped text\<close>

definition esc_char :: "nat \<Rightarrow> pstr" where
  "esc_char c =
     (if c = 38 then u ''&amp;'' else if c = 60 then u ''&lt;'' else if c = 62 then u ''&gt;''
      else if c = 34 then u ''&quot;'' else [c])"

lemma escape_html_chars: "escape_html s = concat (map esc_char s)"
  by (induction s) (simp_all add: escape_html_def py_replace_single esc_char_def)

lemma escape_html_Nil [simp]: "escape_html [] = []"
  by (simp add: escape_html_chars)

lemma escape_html_append: "escape_html (a @ b) = escape_html a @ escape_html b"
  by (simp add: escape_html_chars)

text \<open>What a browser reads for an escaped text: each of the four entities is its character.\<close>

fun unescape_html :: "pstr \<Rightarrow> pstr" where
  "unescape_html [] = []"
| "unescape_html (c # s) =
     (if prefix (u ''&amp;'') (c # s) then 38 # unescape_html (drop 4 s)
      else if prefix (u ''&lt;'') (c # s) then 60 # unescape_html (drop 3 s)
      else if prefix (u ''&gt;'') (c # s) then 62 # unescape_html (drop 3 s)
      else if prefix (u ''&quot;'') (c # s) then 34 # unescape_html (drop 5 s)
      else c # unescape_html s)"

lemma unescape_esc_char: "unescape_html (esc_char c @ s) = c # unescape_html s"
  by (simp add: esc_char_def)

definition inert :: "pstr \<Rightarrow> bool" where
  "inert s \<longleftrightarrow> (\<forall>c \<in> set s. c \<noteq> 60 \<and> c \<noteq> 62 \<and> c \<noteq> 34)"

lemma inert_simps [simp]:
  "inert []" "inert (c # s) \<longleftrightarrow> c \<noteq> 60 \<and> c \<noteq> 62 \<and> c \<noteq> 34 \<and> inert s" "inert (a @ b) \<longleftrightarrow> inert a \<and> inert b"
  by (auto simp: inert_def)

lemma inert_escape_html [simp]: "inert (escape_html s)"
  by (induction s) (auto simp: escape_html_chars esc_char_def)

lemma unescape_escape_html: "unescape_html (escape_html s) = s"
  by (induction s) (simp_all add: escape_html_chars unescape_esc_char del: unescape_html.simps(2))

lemma inert_nat_str [simp]: "inert (nat_str n)"
  using nat_str_digits by (fastforce simp: inert_def is_digit_c_def)

section \<open>The tags a browser sees\<close>

text \<open>
  The tokenizer is in the text of the page, inside a tag, or inside the quoted value of an attribute. The
  markup of a page is what it reads inside tags, without the values of the attributes.
\<close>

datatype html_mode = In_Text | In_Tag | In_Value

fun next_mode :: "html_mode \<Rightarrow> nat \<Rightarrow> html_mode" where
  "next_mode In_Text c = (if c = 60 then In_Tag else In_Text)"
| "next_mode In_Tag c = (if c = 62 then In_Text else if c = 34 then In_Value else In_Tag)"
| "next_mode In_Value c = (if c = 34 then In_Tag else In_Value)"

fun markup_from :: "html_mode \<Rightarrow> pstr \<Rightarrow> pstr \<times> html_mode" where
  "markup_from q [] = ([], q)"
| "markup_from q (c # s) =
     (let (m, q') = markup_from (next_mode q c) s
      in (if q = In_Tag \<or> next_mode q c = In_Tag then (c # m, q') else (m, q')))"

definition markup :: "pstr \<Rightarrow> pstr" where
  "markup s = fst (markup_from In_Text s)"

lemma markup_from_append:
  "markup_from q (a @ b) =
     (fst (markup_from q a) @ fst (markup_from (snd (markup_from q a)) b), snd (markup_from (snd (markup_from q a)) b))"
  by (induction a arbitrary: q) (auto simp: Let_def split: prod.splits)

lemma markup_from_inert:
  assumes "inert s" and "q \<noteq> In_Tag"
  shows "markup_from q s = ([], q)"
  using assms by (induction s) (cases q; simp)+

text \<open>A closed text leaves the tokenizer in the text of the page.\<close>

definition closed :: "pstr \<Rightarrow> bool" where
  "closed s \<longleftrightarrow> snd (markup_from In_Text s) = In_Text"

lemma closed_Nil [simp]: "closed []"
  by (simp add: closed_def)

lemma closed_append [simp]: "closed a \<Longrightarrow> closed (a @ b) \<longleftrightarrow> closed b"
  by (simp add: closed_def markup_from_append)

lemma closed_no_open: "60 \<notin> set s \<Longrightarrow> closed s"
  unfolding closed_def by (induction s) (auto simp: Let_def split: prod.splits)

lemma closed_pair: "closed s \<Longrightarrow> markup_from In_Text s = (markup s, In_Text)"
  by (simp add: closed_def markup_def prod_eq_iff)

lemma markup_inert [simp]: "inert s \<Longrightarrow> markup s = []" "inert s \<Longrightarrow> closed s"
  by (simp_all add: markup_def closed_def markup_from_inert)

lemma markup_append: "closed a \<Longrightarrow> markup (a @ b) = markup a @ markup b"
  by (simp add: markup_def closed_def markup_from_append)

lemma sub_symbols_closed:
  assumes f: "\<And>s. 60 \<notin> set s \<Longrightarrow> closed (g (f s))" and app: "\<And>a b. g (a @ b) = g a @ g b"
    and single: "\<And>c. c \<noteq> 60 \<Longrightarrow> closed (g [c])" and nil: "g [] = []"
  shows "60 \<notin> set s \<Longrightarrow> closed (g (sub_symbols f s))"
proof (induction s rule: length_induct)
  case (1 s)
  then show ?case
  proof (cases s)
    case (Cons c t)
    let ?inner = "takeWhile (\<lambda>c. c \<noteq> 125) t"
    have "60 \<notin> set (123 # ?inner @ [125])" "60 \<notin> set (drop (Suc (length ?inner)) t)" "60 \<notin> set t" "c \<noteq> 60"
      using "1.prems" Cons by (auto dest: set_takeWhileD in_set_dropD)
    moreover from this have "closed (g (sub_symbols f (drop (Suc (length ?inner)) t)))" "closed (g (sub_symbols f t))"
      using "1.IH" Cons by auto
    moreover have "g (c # sub_symbols f t) = g [c] @ g (sub_symbols f t)"
      using app [of "[c]" "sub_symbols f t"] by (simp only: append_Cons append_Nil)
    moreover have "closed (g (f (123 # ?inner @ [125])))" "c \<noteq> 60 \<Longrightarrow> closed (g [c])"
      using calculation(1) by (auto intro: f single)
    ultimately show ?thesis
      unfolding Cons sub_symbols.simps Let_def by (simp only: app closed_append split: if_split) simp
  qed (simp add: nil)
qed

lemma mana_map_inert: "map_of mana_map s = Some v \<Longrightarrow> inert v \<and> 10 \<notin> set v"
proof -
  assume "map_of mana_map s = Some v"
  then have "(s, v) \<in> set mana_map" by (rule map_of_SomeD)
  moreover have "list_all (\<lambda>(s, v). inert v \<and> 10 \<notin> set v) mana_map"
    unfolding inert_def by code_simp
  ultimately show ?thesis by (auto simp: list_all_iff)
qed

definition span_html :: "pstr \<Rightarrow> pstr" where
  "span_html cls = u ''<span class='' @ [34] @ cls @ [34] @ u ''></span>''"

lemma closed_span: "inert cls \<Longrightarrow> closed (span_html cls)"
  by (simp add: closed_def span_html_def markup_from_append markup_from_inert)

lemma closed_replace_symbol:
  "inert cls \<Longrightarrow> 60 \<notin> set s \<Longrightarrow> closed (replace_symbol cls s)"
  using closed_span [of "cls @ u '' '' @ v" for v]
  by (auto simp: replace_symbol_def span_html_def closed_no_open dest: mana_map_inert split: option.splits)

definition br_char :: "nat \<Rightarrow> pstr" where
  "br_char c = (if c = 10 then u ''<br>'' else [c])"

lemma format_oracle_text_chars: "format_oracle_text s b = concat (map br_char (convert_mana_symbols s b))"
  unfolding format_oracle_text_def py_replace_single by (simp add: br_char_def [abs_def] cong: if_cong)

lemma closed_br_char: "c \<noteq> 60 \<Longrightarrow> closed (br_char c)"
  by (simp add: br_char_def closed_def)

lemma closed_br_text: "60 \<notin> set s \<Longrightarrow> closed (concat (map br_char s))"
  by (induction s) (auto simp: closed_br_char)

lemma br_text_id: "10 \<notin> set s \<Longrightarrow> concat (map br_char s) = s"
  by (induction s) (auto simp: br_char_def)

lemma closed_br_replace_symbol:
  assumes "inert cls" and "10 \<notin> set cls" and "60 \<notin> set s"
  shows "closed (concat (map br_char (replace_symbol cls s)))"
proof (cases "map_of mana_map s")
  case None
  then show ?thesis using assms by (simp add: replace_symbol_def closed_br_text)
next
  case (Some v)
  then have "10 \<notin> set (replace_symbol cls s)"
    using assms mana_map_inert [OF Some] by (auto simp: replace_symbol_def)
  then show ?thesis using assms by (simp add: br_text_id closed_replace_symbol)
qed

lemma closed_convert_mana: "60 \<notin> set s \<Longrightarrow> closed (convert_mana_symbols s b)"
  unfolding convert_mana_symbols_def
  by (rule sub_symbols_closed [of "\<lambda>s. s"]) (simp_all add: closed_replace_symbol closed_no_open)

lemma closed_format_oracle: "60 \<notin> set s \<Longrightarrow> closed (format_oracle_text s b)"
  unfolding format_oracle_text_chars convert_mana_symbols_def
  by (rule sub_symbols_closed [of "\<lambda>s. concat (map br_char s)"]) (simp_all add: closed_br_replace_symbol closed_br_char)

section \<open>The markup of a card\<close>

lemma markup_div:
  assumes "inert (u cls)" and "closed content"
  shows "closed (div_html cls content)"
    and "markup (div_html cls content) = u ''<div class='' @ [34, 34] @ u ''>'' @ markup content @ u ''</div>''"
proof -
  obtain m where m: "markup_from In_Text content = (m, In_Text)" "markup content = m"
    using assms(2) closed_pair by blast
  then show "closed (div_html cls content)"
    and "markup (div_html cls content) = u ''<div class='' @ [34, 34] @ u ''>'' @ markup content @ u ''</div>''"
    using assms(1) unfolding m(2)
    by (simp_all add: closed_def markup_def div_html_def markup_from_append markup_from_inert)
qed

definition same_presence :: "html_card \<Rightarrow> html_card \<Rightarrow> string \<Rightarrow> bool" where
  "same_presence c c' key \<longleftrightarrow> (card_text c key = None) = (card_text c' key = None)"

text \<open>
  Two cards have the same shape when the same fields are shown and the two fields the code does not escape
  are equal; the other texts may differ.
\<close>

definition same_shape :: "html_card \<Rightarrow> html_card \<Rightarrow> bool" where
  "same_shape c c' \<longleftrightarrow>
     list_all (same_presence c c') [''set_code'', ''collector_number'', ''type_line'', ''set_name''] \<and>
     (card_get c ''power'' = None \<or> card_get c ''toughness'' = None) = (card_get c' ''power'' = None \<or> card_get c' ''toughness'' = None) \<and>
     card_text c ''mana_cost'' = card_text c' ''mana_cost'' \<and> card_text c ''oracle_text'' = card_text c' ''oracle_text''"

definition raw_fields_plain :: "html_card \<Rightarrow> bool" where
  "raw_fields_plain c \<longleftrightarrow>
     list_all (\<lambda>key. case card_text c key of None \<Rightarrow> True | Some s \<Rightarrow> 60 \<notin> set s) [''mana_cost'', ''oracle_text'']"

text \<open>The markup two parts share, with the tokenizer back in the text of the page.\<close>

definition same_markup :: "pstr \<Rightarrow> pstr \<Rightarrow> bool" where
  "same_markup a b \<longleftrightarrow> closed a \<and> closed b \<and> markup a = markup b"

lemma same_markup_append [simp]: "same_markup a a' \<Longrightarrow> same_markup b b' \<Longrightarrow> same_markup (a @ b) (a' @ b')"
  by (auto simp: same_markup_def markup_append)

lemma same_markup_refl: "closed a \<Longrightarrow> same_markup a a"
  by (simp add: same_markup_def)

lemma same_markup_inert [simp]: "inert a \<Longrightarrow> inert b \<Longrightarrow> same_markup a b"
  by (simp add: same_markup_def)

lemma same_markup_div [simp]: "inert (u cls) \<Longrightarrow> same_markup a b \<Longrightarrow> same_markup (div_html cls a) (div_html cls b)"
  by (simp add: same_markup_def markup_div)

lemma inert_line [simp]: "inert (line n)"
  by (simp add: line_def inert_def)

lemma inert_alt_text [simp]: "inert (build_alt_text c)"
  by (auto simp: build_alt_text_def Let_def split: option.splits)

lemmas presence_defs = same_shape_def same_presence_def

lemma before_last_brace_eq: "123 \<notin> set r \<Longrightarrow> before_last_brace (a @ 123 # r) = a"
  by (simp add: before_last_brace_def dropWhile_append)

lemma before_last_brace_prefix: "prefix (before_last_brace s) s"
proof (cases "123 \<in> set s")
  case True
  then obtain a r where "s = a @ 123 # r" "123 \<notin> set r" by (meson split_list_last)
  then show ?thesis by (simp add: before_last_brace_eq)
qed (simp add: before_last_brace_def)

lemma truncate_oracle_prefix: "prefix (truncate_oracle s) s"
  using prefix_order.order_trans [OF before_last_brace_prefix take_is_prefix]
  by (simp add: truncate_oracle_def Let_def take_is_prefix)

lemma notin_truncate_oracle: "x \<notin> set s \<Longrightarrow> x \<notin> set (truncate_oracle s)"
  using set_mono_prefix [OF truncate_oracle_prefix] by blast

lemma mana_html_same: "same_shape c c' \<Longrightarrow> raw_fields_plain c \<Longrightarrow> same_markup (mana_html c) (mana_html c')"
  by (auto simp: mana_html_def same_shape_def raw_fields_plain_def
      intro!: same_markup_refl markup_div closed_convert_mana split: option.splits)

lemma oracle_html_same: "same_shape c c' \<Longrightarrow> raw_fields_plain c \<Longrightarrow> same_markup (oracle_html c) (oracle_html c')"
  by (auto simp: oracle_html_def same_shape_def raw_fields_plain_def closed_format_oracle notin_truncate_oracle
      intro!: same_markup_refl markup_div split: option.splits)

lemma type_html_same: "same_shape c c' \<Longrightarrow> same_markup (type_html c) (type_html c')"
  by (auto simp: type_html_def presence_defs split: option.splits)

lemma power_toughness_same:
  "same_shape c c' \<Longrightarrow> rel_option same_markup (power_toughness_part c) (power_toughness_part c')"
  by (auto simp: power_toughness_part_def same_shape_def split: option.splits)

lemma set_power_html_same: "same_shape c c' \<Longrightarrow> same_markup (set_power_html c) (set_power_html c')"
  using power_toughness_same [of c c']
  by (cases "card_text c ''set_name''"; cases "card_text c' ''set_name''";
      cases "power_toughness_part c"; cases "power_toughness_part c'")
     (simp_all add: set_power_html_def same_shape_def same_presence_def)

lemma markup_attr:
  "inert (u n) \<Longrightarrow> inert v \<Longrightarrow> markup_from In_Tag (attr_html n v) = (attr_html n [], In_Tag)"
proof -
  assume "inert (u n)" "inert v"
  moreover have "markup_from In_Tag s = (s, In_Tag)" if "inert s" for s
    using that by (induction s) auto
  ultimately show ?thesis by (simp add: attr_html_def markup_from_append markup_from_inert)
qed

lemma inert_sizes_attr [simp]: "inert sizes_attr"
  by (simp add: sizes_attr_def)

lemma img_markup:
  assumes "inert src" "inert srcset" "inert alt"
  shows "markup_from In_Text (img_html src srcset alt i) =
    (u ''<img'' @ attr_html ''class'' [] @ attr_html ''src'' [] @ attr_html ''srcset'' [] @ attr_html ''sizes'' [] @
     attr_html ''alt'' [] @ attr_html ''title'' [] @ (if i = 0 then attr_html ''fetchpriority'' [] else []) @
     (if i < EAGER_LOAD_COUNT then [] else attr_html ''loading'' []) @ u '' />'', In_Text)"
  using assms by (simp add: img_html_def markup_from_append markup_attr)

lemma image_tag_same: "image_tag c i = Inr h \<Longrightarrow> image_tag c' i = Inr h' \<Longrightarrow> same_markup h h'"
  unfolding same_markup_def closed_def markup_def
  by (auto simp: image_tag_def bindr_Inr_iff Let_def img_markup)

lemma card_link_markup:
  "closed h \<Longrightarrow> markup_from In_Text (card_link_html s n h) =
     (u ''<a'' @ attr_html ''href'' [] @ attr_html ''class'' [] @ u ''>'' @ markup h @ u ''</a>'', In_Text)"
  by (simp add: card_link_html_def markup_from_append markup_attr closed_pair)

lemma card_link_same: "same_markup h h' \<Longrightarrow> same_markup (card_link_html s n h) (card_link_html s' n' h')"
  unfolding same_markup_def closed_def [of "card_link_html _ _ _"] markup_def [of "card_link_html _ _ _"]
  by (simp only: card_link_markup fst_conv snd_conv)

lemma image_html_same:
  assumes "same_shape c c'" and "image_html c i = Inr h" and "image_html c' i = Inr h'"
  shows "same_markup h h'"
proof -
  obtain t t' where "image_tag c i = Inr t" "image_tag c' i = Inr t'" "same_markup t t'"
    using assms image_tag_same by (fastforce simp: image_html_def bindr_Inr_iff)
  with assms show ?thesis
    by (cases "card_text c ''set_code''"; cases "card_text c' ''set_code''";
        cases "card_text c ''collector_number''"; cases "card_text c' ''collector_number''")
       (auto simp: image_html_def same_shape_def same_presence_def card_link_same)
qed

lemma div_open_markup: "closed (u ''<div'' @ attr_html ''class'' (u ''card-name-mana-row'') @ u ''>'')"
  "closed (u ''<div'' @ attr_html ''class'' (u ''card-item'') @ attr_html ''data-card-id'' (escape_html (nat_str i)) @ u ''>'')"
  "closed (u ''</div>'')"
  by (simp_all add: closed_def markup_from_append markup_attr)

lemma create_card_html_same:
  assumes "same_shape c c'" and "raw_fields_plain c" and "create_card_html c i = Inr h" and "create_card_html c' i = Inr h'"
  shows "same_markup h h'"
proof -
  obtain image image' where images: "image_html c i = Inr image" "image_html c' i = Inr image'"
    using assms(3,4) by (auto simp: create_card_html_def bindr_Inr_iff)
  have parts: "same_markup image image'" "same_markup (mana_html c) (mana_html c')" "same_markup (type_html c) (type_html c')"
    "same_markup (oracle_html c) (oracle_html c')" "same_markup (set_power_html c) (set_power_html c')"
    using assms images image_html_same mana_html_same type_html_same oracle_html_same set_power_html_same by blast+
  define opn where "opn = u ''<div'' @ attr_html ''class'' (u ''card-item'') @ attr_html ''data-card-id'' (escape_html (nat_str i)) @ u ''>''"
  define row where "row = u ''<div'' @ attr_html ''class'' (u ''card-name-mana-row'') @ u ''>''"
  define close where "close = u ''</div>''"
  have tags: "same_markup opn opn" "same_markup row row" "same_markup close close" "same_markup (line n) (line n)" for n
    unfolding opn_def row_def close_def by (auto intro!: same_markup_refl div_open_markup simp del: append.simps list.map)
  have name: "same_markup (div_html ''card-name'' (escape_html s)) (div_html ''card-name'' (escape_html s'))" for s s'
    by simp
  let ?html = "\<lambda>c image. line 13 @ opn @ line 17 @ image @ line 17 @ row @
    line 21 @ div_html ''card-name'' (escape_html (card_name_or_unknown c)) @ line 21 @ mana_html c @ line 17 @ close @
    line 17 @ type_html c @ line 17 @ oracle_html c @ line 17 @ set_power_html c @ line 13 @ close @ line 9"
  have "same_markup (?html c image) (?html c' image')"
    by (intro same_markup_append parts tags name)
  moreover have "h = ?html c image" "h' = ?html c' image'"
    using assms(3,4) images unfolding opn_def row_def close_def by (simp_all add: create_card_html_def)
  ultimately show ?thesis by simp
qed

lemma results_same:
  assumes "mapr (\<lambda>(i, c). create_card_html c i) (enumerate n cs) = Inr ps"
    and "mapr (\<lambda>(i, c). create_card_html c i) (enumerate n cs') = Inr ps'"
    and "list_all2 same_shape cs cs'" and "list_all raw_fields_plain cs"
  shows "same_markup (concat ps) (concat ps')"
  using assms(3,1,2,4)
proof (induction cs cs' arbitrary: n ps ps' rule: list_all2_induct)
  case (Cons c cs c' cs')
  obtain p qs p' qs' where split: "ps = p # qs" "ps' = p' # qs'" "create_card_html c n = Inr p" "create_card_html c' n = Inr p'"
    "mapr (\<lambda>(i, c). create_card_html c i) (enumerate (Suc n) cs) = Inr qs"
    "mapr (\<lambda>(i, c). create_card_html c i) (enumerate (Suc n) cs') = Inr qs'"
    using Cons.prems(1,2) by (auto simp: bindr_Inr_iff)
  have "same_markup p p'"
    by (rule create_card_html_same [OF Cons.hyps(1) _ split(3,4)]) (use Cons.prems(3) in simp)
  moreover have "same_markup (concat qs) (concat qs')"
    by (rule Cons.IH [OF split(5,6)]) (use Cons.prems(3) in simp)
  ultimately show ?case by (simp add: split)
qed simp

text \<open>
  C18: The tags of the rendered results do not depend on the texts the code escapes: for two lists of cards that show
  the same fields and have equal mana costs and rules texts, these without a less-than sign, the pages
  have the same markup, whatever the names, types, sets, powers, set codes and collector numbers are. So no such text can open a tag
  or leave the quoted value of an attribute.
\<close>

theorem results_markup_safe:
  assumes "generate_results_html cs = Inr h" and "generate_results_html cs' = Inr h'"
    and "list_all2 same_shape cs cs'" and "list_all raw_fields_plain cs"
  shows "markup h = markup h'"
  using assms results_same [of 0 cs _ cs'] by (auto simp: generate_results_html_def bindr_Inr_iff same_markup_def)

section \<open>Errors and the fields that are not escaped\<close>

lemma build_image_url_error:
  "build_image_url c size_val = Inl e \<longleftrightarrow>
     e = KeyError \<and> (map_of c (u ''set_code'') = None \<or> map_of c (u ''collector_number'') = None)"
  by (auto simp: build_image_url_def fmt_item_def Let_def split: option.splits simp del: list.map)

lemma create_card_html_error:
  "create_card_html c i = Inl e \<longleftrightarrow>
     e = KeyError \<and> (map_of c (u ''set_code'') = None \<or> map_of c (u ''collector_number'') = None)"
  by (auto simp: create_card_html_def image_html_def image_tag_def bindr_Inl_iff Let_def build_image_url_error simp del: list.map)

lemma results_error:
  "mapr (\<lambda>(i, c). create_card_html c i) (enumerate n cs) = Inl e \<longleftrightarrow>
     e = KeyError \<and> (\<exists>c \<in> set cs. map_of c (u ''set_code'') = None \<or> map_of c (u ''collector_number'') = None)"
proof (induction cs arbitrary: n)
  case (Cons c cs)
  then show ?case
  proof (cases "create_card_html c n")
    case (Inl e')
    then show ?thesis using create_card_html_error [of c n e'] by (auto simp del: list.map)
  next
    case (Inr h)
    then have "\<not> (map_of c (u ''set_code'') = None \<or> map_of c (u ''collector_number'') = None)"
      using create_card_html_error [of c n KeyError] by (simp del: list.map)
    with Inr Cons.IH [of "Suc n"] show ?thesis by (auto simp: bindr_Inl_iff simp del: list.map)
  qed
qed simp

text \<open>
  Rendering fails exactly when a card lacks the key of its set code or its collector number, with a \<open>KeyError\<close>.
\<close>

theorem generate_results_html_error:
  "generate_results_html cs = Inl e \<longleftrightarrow>
     e = KeyError \<and> (\<exists>c \<in> set cs. map_of c (u ''set_code'') = None \<or> map_of c (u ''collector_number'') = None)"
  unfolding generate_results_html_def by (simp add: bindr_Inl_iff results_error del: list.map)

lemma generate_results_html_total:
  "list_all (\<lambda>c. map_of c (u ''set_code'') \<noteq> None \<and> map_of c (u ''collector_number'') \<noteq> None) cs \<Longrightarrow>
   \<exists>h. generate_results_html cs = Inr h"
  by (cases "generate_results_html cs") (auto simp: list_all_iff generate_results_html_error simp del: list.map)

theorem results_markup_safe_witness:
  "\<exists>h h'. generate_results_html [[(u ''set_code'', Some (u ''lea'')), (u ''collector_number'', Some (u ''1'')), (u ''name'', Some (u ''Opt''))]] = Inr h \<and>
     generate_results_html [[(u ''set_code'', Some (34 # u ''><script>'')), (u ''collector_number'', Some (u ''<b>'')),
       (u ''name'', Some (u ''</div><script>x()</script>''))]] = Inr h' \<and>
     markup h = markup h'"
proof -
  let ?c = "[(u ''set_code'', Some (u ''lea'')), (u ''collector_number'', Some (u ''1'')), (u ''name'', Some (u ''Opt''))]"
  let ?d = "[(u ''set_code'', Some (34 # u ''><script>'')), (u ''collector_number'', Some (u ''<b>'')),
       (u ''name'', Some (u ''</div><script>x()</script>''))]"
  obtain h h' where h: "generate_results_html [?c] = Inr h" "generate_results_html [?d] = Inr h'"
    using generate_results_html_total [of "[?c]"] generate_results_html_total [of "[?d]"] by auto
  have "markup h = markup h'"
    by (rule results_markup_safe [OF h])
      (simp_all add: same_shape_def same_presence_def raw_fields_plain_def card_text_def card_get_def)
  with h show ?thesis by blast
qed

lemma sub_symbols_plain: "123 \<notin> set s \<Longrightarrow> sub_symbols f s = s"
  by (induction s) (auto simp: Let_def)

lemma sublist_skip: "sublist m x \<Longrightarrow> sublist m (y @ x)"
  by (metis sublist_append_leftI sublist_order.order_trans)

lemma create_card_html_oracle:
  assumes "create_card_html c i = Inr h"
  shows "sublist (oracle_html c) h"
proof -
  obtain image where "image_html c i = Inr image"
    using assms by (auto simp: create_card_html_def bindr_Inr_iff)
  then show ?thesis
    using assms unfolding create_card_html_def
    by (simp only: bindr_simps sum.inject) (erule subst, (rule sublist_append_rightI | rule sublist_skip)+)
qed

text \<open>
  The rules text is not escaped: a short rules text without braces or line breaks stands in the page
  character by character, its angle brackets included.
\<close>

theorem oracle_text_not_escaped:
  assumes "card_text c ''oracle_text'' = Some s" and "length s \<le> MAX_ORACLE_TEXT_LENGTH" and "123 \<notin> set s" and "10 \<notin> set s"
    and "create_card_html c i = Inr h"
  shows "sublist s h"
proof -
  have "format_oracle_text s False = s"
    using assms by (simp add: format_oracle_text_chars convert_mana_symbols_def sub_symbols_plain br_text_id)
  then have "oracle_html c = div_html ''card-text'' s"
    using assms by (simp add: oracle_html_def)
  then have "sublist s (oracle_html c)"
    unfolding div_html_def by (simp only:) (rule sublist_append_rightI | rule sublist_skip)+
  then show ?thesis
    using create_card_html_oracle [OF assms(5)] by (rule sublist_order.order_trans)
qed

theorem oracle_text_not_escaped_witness:
  "\<exists>h. create_card_html [(u ''set_code'', Some (u ''lea'')), (u ''collector_number'', Some (u ''1'')),
         (u ''oracle_text'', Some (u ''<script>alert(1)</script>''))] 0 = Inr h \<and>
       sublist (u ''<script>alert(1)</script>'') h"
proof -
  let ?c = "[(u ''set_code'', Some (u ''lea'')), (u ''collector_number'', Some (u ''1'')),
             (u ''oracle_text'', Some (u ''<script>alert(1)</script>''))]"
  obtain h where h: "create_card_html ?c 0 = Inr h"
    using create_card_html_error [of ?c 0] by (cases "create_card_html ?c 0") auto
  have "sublist (u ''<script>alert(1)</script>'') h"
    by (rule oracle_text_not_escaped [OF _ _ _ _ h]) (simp_all add: card_text_def card_get_def MAX_ORACLE_TEXT_LENGTH_def)
  with h show ?thesis by blast
qed

section \<open>Truncated rules text\<close>

text \<open>
  The state of the braces after a text that starts outside or inside a symbol, when opening and closing braces
  alternate.
\<close>

fun brace_scan :: "bool \<Rightarrow> pstr \<Rightarrow> bool option" where
  "brace_scan b [] = Some b"
| "brace_scan b (c # s) =
     (if c = 123 then (if b then None else brace_scan True s)
      else if c = 125 then (if b then brace_scan False s else None)
      else brace_scan b s)"

lemma brace_scan_append: "brace_scan b (s @ t) = Option.bind (brace_scan b s) (\<lambda>b'. brace_scan b' t)"
  by (induction b s rule: brace_scan.induct) auto

lemma brace_scan_counts:
  "brace_scan b s = Some b' \<Longrightarrow> count_list s 123 + of_bool b = count_list s 125 + (of_bool b' :: nat)"
  by (induction b s rule: brace_scan.induct) (auto split: if_splits)

lemma brace_scan_inside:
  "brace_scan True s = Some False \<Longrightarrow>
   \<exists>inner rest. s = inner @ 125 # rest \<and> 125 \<notin> set inner \<and> 123 \<notin> set inner \<and> brace_scan False rest = Some False"
proof (induction s)
  case (Cons c s)
  show ?case
  proof (cases "c = 125")
    case True
    with Cons.prems show ?thesis by (intro exI [of _ "[]"] exI [of _ s]) simp
  next
    case False
    with Cons obtain inner rest where "s = inner @ 125 # rest" "125 \<notin> set inner" "123 \<notin> set inner"
      "brace_scan False rest = Some False" "c \<noteq> 123" by (auto split: if_splits)
    with False show ?thesis by (intro exI [of _ "c # inner"] exI [of _ rest]) simp
  qed
qed simp

lemma sub_symbols_append:
  "brace_scan b s = Some False \<Longrightarrow> sub_symbols f (s @ t) = sub_symbols f s @ sub_symbols f t"
proof (induction s arbitrary: b rule: length_induct)
  case (1 s)
  show ?case
  proof (cases s)
    case (Cons c r)
    show ?thesis
    proof (cases "c = 123")
      case True
      with 1 Cons have "brace_scan True r = Some False" by (auto split: if_splits)
      then obtain inner rest where r: "r = inner @ 125 # rest" "125 \<notin> set inner" "brace_scan False rest = Some False"
        using brace_scan_inside by blast
      have take: "takeWhile (\<lambda>c. c \<noteq> 125) (inner @ 125 # w) = inner" for w
        using r(2) by (simp add: takeWhile_append takeWhile_eq_all_conv)
      have "sub_symbols f (rest @ t) = sub_symbols f rest @ sub_symbols f t"
        "sub_symbols f (r @ t) = sub_symbols f r @ sub_symbols f t"
        using "1.IH" [rule_format, of rest False] "1.IH" [rule_format, of r True] Cons r \<open>brace_scan True r = Some False\<close>
        by simp_all
      with True show ?thesis
        unfolding Cons r(1) by (simp add: take Let_def)
    next
      case False
      with 1 Cons obtain b' where "brace_scan b' r = Some False" by (auto split: if_splits)
      with 1 Cons False show ?thesis by (auto simp: Let_def)
    qed
  qed simp
qed

lemma truncate_oracle_outside:
  assumes "brace_scan False s = Some False"
  shows "brace_scan False (truncate_oracle s) = Some False"
proof -
  let ?t = "take MAX_ORACLE_TEXT_LENGTH s"
  have "brace_scan False (?t @ drop MAX_ORACLE_TEXT_LENGTH s) \<noteq> None"
    using assms by simp
  then obtain b where b: "brace_scan False ?t = Some b"
    unfolding brace_scan_append by (auto split: bind_splits)
  show ?thesis
  proof (cases b)
    case False
    then show ?thesis using b brace_scan_counts [OF b] by (simp add: truncate_oracle_def Let_def)
  next
    case True
    then have counts: "count_list ?t 125 < count_list ?t 123" using brace_scan_counts [OF b] by simp
    then have "123 \<in> set ?t" by (metis count_notin not_less_zero)
    then obtain a r where t: "?t = a @ 123 # r" "123 \<notin> set r" by (meson split_list_last)
    with b have "brace_scan False a = Some False"
      unfolding t(1) brace_scan_append by (cases "brace_scan False a") (auto split: if_splits)
    then show ?thesis using counts unfolding truncate_oracle_def Let_def t(1) by (simp add: before_last_brace_eq t(2))
  qed
qed

text \<open>
  The shortened rules text never cuts a mana symbol in half: for a text whose braces alternate, what is shown
  is the formatting of the whole text cut off somewhere, of at most two hundred characters of the text.
\<close>

theorem truncation_keeps_symbols:
  assumes "brace_scan False s = Some False"
  shows "prefix (format_oracle_text (truncate_oracle s) is_modal) (format_oracle_text s is_modal) \<and>
         prefix (truncate_oracle s) s \<and> length (truncate_oracle s) \<le> MAX_ORACLE_TEXT_LENGTH"
proof -
  obtain t where t: "s = truncate_oracle s @ t"
    using truncate_oracle_prefix by (auto simp: prefix_def)
  have "format_oracle_text (truncate_oracle s @ t) is_modal =
      format_oracle_text (truncate_oracle s) is_modal @ format_oracle_text t is_modal"
    using truncate_oracle_outside [OF assms]
    by (simp add: format_oracle_text_chars convert_mana_symbols_def sub_symbols_append)
  then have "prefix (format_oracle_text (truncate_oracle s) is_modal) (format_oracle_text s is_modal)"
    by (metis prefixI t)
  moreover have "length (truncate_oracle s) \<le> MAX_ORACLE_TEXT_LENGTH"
    using prefix_length_le [OF before_last_brace_prefix [of "take MAX_ORACLE_TEXT_LENGTH s"]]
    by (auto simp: truncate_oracle_def Let_def)
  ultimately show ?thesis using truncate_oracle_prefix by blast
qed

theorem truncation_keeps_symbols_witness:
  "prefix (format_oracle_text (truncate_oracle (replicate 198 97 @ u ''{W} b'')) False)
     (format_oracle_text (replicate 198 97 @ u ''{W} b'') False) \<and>
   truncate_oracle (replicate 198 97 @ u ''{W} b'') = replicate 198 97"
proof -
  have "brace_scan False (replicate 198 97 @ u ''{W} b'') = Some False" by code_simp
  moreover have "truncate_oracle (replicate 198 97 @ u ''{W} b'') = replicate 198 97" by code_simp
  ultimately show ?thesis using truncation_keeps_symbols [of "replicate 198 97 @ u ''{W} b''" False] by blast
qed

end
