(* ===== verification/Root_Page.thy ===== *)
theory Root_Page
  imports Search_Service Site_Name Noscript_Html
begin

text \<open>
  The pages of \<open>src/api/api_resource.py\<close>: the index page with the results of a search embedded (\<open>_root\<close>) and the page of a card
  (\<open>card\<close>). The files of \<open>static\<close>, their hashes, the minifier and the serialization of the results as JSON are arguments;
  the search is that of theory \<open>Search_Service\<close> and the HTML that of theory \<open>Noscript_Html\<close>.
\<close>

section \<open>The templates\<close>

record static_files =
  index_html :: pstr
  card_html :: pstr
  favicon_html :: pstr
  preconnects_html :: pstr
  fonts_html :: pstr
  css_html :: pstr
  footer_html :: pstr
  styles_css_hash :: "pstr option"
  app_min_js_hash :: "pstr option"
  card_js_hash :: "pstr option"

definition SITE_NAME_PLACEHOLDER :: pstr where
  "SITE_NAME_PLACEHOLDER = u ''%%%SITENAME%%%''"

definition inject_shared_fragments :: "static_files \<Rightarrow> pstr \<Rightarrow> pstr" where
  "inject_shared_fragments f html =
     (let html = py_replace (u ''<!-- FAVICON -->'') (favicon_html f) html;
          html = py_replace (u ''<!-- PRECONNECTS -->'') (preconnects_html f) html;
          html = py_replace (u ''<!-- FONTS -->'') (fonts_html f) html;
          html = py_replace (u ''<!-- CSS -->'') (css_html f) html
      in py_replace (u ''<!-- FOOTER -->'') (footer_html f) html)"

definition versioned :: "string \<Rightarrow> pstr option \<Rightarrow> pstr \<Rightarrow> pstr" where
  "versioned path hash html =
     (case hash of None \<Rightarrow> html | Some h \<Rightarrow> if h = [] then html else py_replace (u path) (u path @ u ''?v='' @ h) html)"

definition build_base_html :: "static_files \<Rightarrow> (pstr \<Rightarrow> pstr) \<Rightarrow> pstr \<Rightarrow> pstr \<Rightarrow> pstr" where
  "build_base_html f minify critical_css site_name =
     (let html = inject_shared_fragments f (index_html f);
          html = py_replace (u ''<!-- CRITICAL_CSS -->'') critical_css html;
          html = versioned ''/static/styles.css'' (styles_css_hash f) html;
          html = versioned ''/static/app.min.js'' (app_min_js_hash f) html
      in minify (py_replace SITE_NAME_PLACEHOLDER site_name html))"

definition build_card_html :: "static_files \<Rightarrow> (pstr \<Rightarrow> pstr) \<Rightarrow> pstr \<Rightarrow> pstr" where
  "build_card_html f minify critical_css =
     (let html = inject_shared_fragments f (card_html f);
          html = py_replace (u ''<!-- CRITICAL_CSS -->'') critical_css html;
          html = versioned ''/static/styles.css'' (styles_css_hash f) html;
          html = versioned ''/static/card.js'' (card_js_hash f) html
      in minify html)"

section \<open>The pages\<close>

text \<open>A page: its text and the seconds of its cache header.\<close>

record html_page =
  page_text :: pstr
  max_age :: nat

definition card_page :: "static_files \<Rightarrow> (pstr \<Rightarrow> pstr) \<Rightarrow> pstr \<Rightarrow> pstr set \<Rightarrow> pstr \<Rightarrow> html_page" where
  "card_page f minify critical_css words hostname =
     \<lparr>page_text = py_replace SITE_NAME_PLACEHOLDER (hostname_to_site_name words hostname) (build_card_html f minify critical_css),
      max_age = 3600\<rparr>"

definition RESULTS_MARK :: pstr where
  "RESULTS_MARK = u ''<!-- SERVER_SIDE_RESULTS -->''"

definition COUNT_MARK :: pstr where
  "COUNT_MARK = u ''<!-- SERVER_SIDE_RESULTS_COUNT -->''"

definition DATA_MARK :: pstr where
  "DATA_MARK = u ''<!-- SERVER_SIDE_EMBEDDED_DATA -->''"

text \<open>The texts of JSON values: \<open>as_text\<close> gives the text or nothing for null, \<open>as_nat\<close> the number of cards.\<close>

record 'j json_ops =
  as_text :: "'j \<Rightarrow> pstr option"
  as_nat :: "'j \<Rightarrow> nat"
  dumps :: "'j search_result \<Rightarrow> pstr"

definition html_cards :: "'j json_ops \<Rightarrow> 'j search_result \<Rightarrow> html_card list" where
  "html_cards js r = map (map (\<lambda>(k, v). (k, as_text js v))) (r_cards r)"

definition count_html :: "pstr \<Rightarrow> pstr" where
  "count_html c = u ''<div class='' @ [34] @ u ''results-count'' @ [34] @ u ''>'' @ c @ u ''</div>''"

definition embedded_data :: "pstr \<Rightarrow> pstr" where
  "embedded_data json =
     u ''// Server-side embedded search results'' @ [10] @ u ''      window.EMBEDDED_SEARCH_RESULTS = '' @ json @ u '';'' @ [10] @ u ''      ''"

definition embed_results :: "'j json_ops \<Rightarrow> pstr \<Rightarrow> 'j search_result \<Rightarrow> pstr \<Rightarrow> pstr result" where
  "embed_results js search_query r html =
     (let cards = html_cards js r
      in bindr (if cards = [] then Inr [] else generate_results_html cards) (\<lambda>results_html.
         let html = py_replace RESULTS_MARK results_html html;
             html = (if cards = [] then html
                     else py_replace COUNT_MARK (count_html (generate_results_count_html (as_nat js (r_total r)) search_query)) html)
         in Inr (py_replace DATA_MARK (embedded_data (dumps js r)) html)))"

fun embed_caught :: "search_error \<Rightarrow> bool" where
  "embed_caught (BadRequest t) = True"
| "embed_caught (Raised e) = (e = ValueError)"
| "embed_caught _ = False"

text \<open>The arguments of a search from the index page; an option that is not given has its default.\<close>

record root_args =
  g_q :: "pstr option"
  g_query :: "pstr option"
  g_orderby :: "CardOrdering option"
  g_direction :: "SortDirection option"
  g_unique :: "UniqueOn option"
  g_prefer :: "PreferOrder option"

definition or_else :: "'a option \<Rightarrow> 'a \<Rightarrow> 'a" where
  "or_else v d = (case v of None \<Rightarrow> d | Some x \<Rightarrow> x)"

definition root_search_args :: "root_args \<Rightarrow> pstr \<Rightarrow> search_args" where
  "root_search_args a search_query =
     \<lparr>a_direction = or_else (g_direction a) ASC, a_fields = None, a_limit = IntLimit 100, a_orderby = or_else (g_orderby a) BY_EDHREC,
      a_prefer = or_else (g_prefer a) PREFER_DEFAULT, a_query = Some search_query, a_unique = or_else (g_unique a) ON_CARD\<rparr>"

definition search_query_of :: "root_args \<Rightarrow> pstr option" where
  "search_query_of a = (case or_text (g_query a) (g_q a) of None \<Rightarrow> None | Some t \<Rightarrow> if t = [] then None else Some t)"

definition root ::
  "'j json_ops \<Rightarrow> (search_args \<Rightarrow> 's \<Rightarrow> (search_error + 'j search_result) \<times> 's) \<Rightarrow> pstr \<Rightarrow> root_args \<Rightarrow> 's \<Rightarrow>
   (search_error + html_page) \<times> 's" where
  "root js run_search html a st =
     (case search_query_of a of
        None \<Rightarrow> (Inr \<lparr>page_text = html, max_age = 3600\<rparr>, st)
      | Some search_query \<Rightarrow>
          (case run_search (root_search_args a search_query) st of
             (Inl e, st) \<Rightarrow> (if embed_caught e then Inr \<lparr>page_text = html, max_age = 3600\<rparr> else Inl e, st)
           | (Inr r, st) \<Rightarrow>
               (case embed_results js search_query r html of
                  Inl e \<Rightarrow> (if embed_caught (Raised e) then Inr \<lparr>page_text = html, max_age = 3600\<rparr> else Inl (Raised e), st)
                | Inr embedded \<Rightarrow> (Inr \<lparr>page_text = embedded, max_age = 90\<rparr>, st))))"

definition root_page ::
  "static_files \<Rightarrow> (pstr \<Rightarrow> pstr) \<Rightarrow> pstr \<Rightarrow> pstr set \<Rightarrow> 'j json_ops \<Rightarrow>
   settings \<Rightarrow> (pstr \<Rightarrow> pstr) \<Rightarrow> ('m, int, nat) cache_ops \<Rightarrow> ('c, search_key, 'j search_result) cache_ops \<Rightarrow>
   bool \<Rightarrow> int \<Rightarrow> 'j backend \<Rightarrow> pstr \<Rightarrow> root_args \<Rightarrow> ('m, 'c) search_cache \<Rightarrow> (search_error + html_page) \<times> ('m, 'c) search_cache" where
  "root_page f minify critical_css words js cfg tc outer inner setup_done gen be hostname a st =
     root js (do_search cfg tc outer inner setup_done gen be)
       (build_base_html f minify critical_css (hostname_to_site_name words hostname)) a st"

section \<open>Replacing marks\<close>

text \<open>A mark starts with the only opening bracket it has.\<close>

definition is_mark :: "pstr \<Rightarrow> bool" where
  "is_mark m \<longleftrightarrow> m \<noteq> [] \<and> hd m = 60 \<and> 60 \<notin> set (tl m)"

lemma replace_skip:
  assumes "is_mark m" and "60 \<notin> set s"
  shows "py_replace m new (s @ t) = s @ py_replace m new t"
  using assms
proof (induction s)
  case (Cons c s)
  then have "\<not> prefix m (c # s @ t)" by (cases m) (auto simp: is_mark_def)
  then have "py_replace m new (c # s @ t) = c # py_replace m new (s @ t)" by (simp add: py_replace.simps(2))
  with Cons show ?case by simp
qed simp

lemma replace_free:
  assumes "\<not> sublist m s"
  shows "py_replace m new s = s"
  using assms
proof (induction s)
  case (Cons c s)
  have "\<not> prefix m (c # s)" using Cons.prems by auto
  moreover have "\<not> sublist m s" using Cons.prems by (metis sublist_Cons_right)
  ultimately show ?case using Cons.IH by (simp add: py_replace.simps(2))
qed simp

text \<open>A piece of text that starts with an opening bracket is not cut by the replacement of a mark.\<close>

lemma replace_append:
  assumes mark: "is_mark m" and t: "t = [] \<or> hd t = 60"
  shows "py_replace m new (s @ t) = py_replace m new s @ py_replace m new t"
proof (induction s rule: length_induct)
  case (1 s)
  show ?case
  proof (cases s)
    case (Cons c s')
    have short: "length m \<le> length s" if "prefix m (s @ t)"
    proof (rule ccontr)
      assume "\<not> length m \<le> length s"
      with that obtain x where x: "m = s @ x" "x \<noteq> []" "prefix x t"
        by (metis append_Nil2 linorder_le_cases prefix_append prefix_length_le)
      then have "hd x = 60" using t by (metis hd_append2 prefix_def append_is_Nil_conv)
      then have "60 \<in> set (tl m)" using x Cons by (cases x) auto
      with mark show False by (simp add: is_mark_def)
    qed
    show ?thesis
    proof (cases "prefix m (s @ t)")
      case True
      with short have pre: "prefix m s" by (metis prefix_append prefix_length_prefix prefix_def)
      have m: "m \<noteq> []" "length m \<le> length s" using mark short True by (auto simp: is_mark_def)
      have "py_replace m new (drop (length m - 1) s' @ t) = py_replace m new (drop (length m - 1) s') @ py_replace m new t"
        using 1 Cons by (metis length_drop less_imp_diff_less length_Cons lessI)
      moreover have "drop (length m - 1) (s' @ t) = drop (length m - 1) s' @ t" using m Cons by simp
      ultimately show ?thesis using True pre m Cons by (simp add: py_replace.simps)
    next
      case False
      then have "\<not> prefix m s" by auto
      moreover have "py_replace m new (s' @ t) = py_replace m new s' @ py_replace m new t" using 1 Cons by simp
      ultimately show ?thesis using False Cons by (simp add: py_replace.simps)
    qed
  qed simp
qed

lemma replace_other_mark:
  assumes "is_mark m" and "is_mark p" and "\<not> prefix m (p @ t)"
  shows "py_replace m new (p @ t) = p @ py_replace m new t"
proof -
  obtain p' where p: "p = 60 # p'" "60 \<notin> set p'" using assms(2) by (cases p) (auto simp: is_mark_def)
  then show ?thesis using assms(1,3) replace_skip [OF assms(1) p(2)] by (simp add: py_replace.simps)
qed

lemma replace_this_mark: "is_mark m \<Longrightarrow> py_replace m new (m @ t) = new @ py_replace m new t"
  by (cases m) (simp_all add: is_mark_def py_replace.simps)

lemma marks: "is_mark RESULTS_MARK" "is_mark COUNT_MARK" "is_mark DATA_MARK"
  by (simp_all add: is_mark_def RESULTS_MARK_def COUNT_MARK_def DATA_MARK_def)

lemma marks_differ:
  "\<not> prefix RESULTS_MARK (COUNT_MARK @ t)" "\<not> prefix RESULTS_MARK (DATA_MARK @ t)" "\<not> prefix COUNT_MARK (RESULTS_MARK @ t)"
  "\<not> prefix COUNT_MARK (DATA_MARK @ t)" "\<not> prefix DATA_MARK (RESULTS_MARK @ t)" "\<not> prefix DATA_MARK (COUNT_MARK @ t)"
  by (simp_all add: RESULTS_MARK_def COUNT_MARK_def DATA_MARK_def)

section \<open>The embedded results\<close>

definition no_marks :: "pstr \<Rightarrow> bool" where
  "no_marks s \<longleftrightarrow> \<not> sublist RESULTS_MARK s \<and> \<not> sublist COUNT_MARK s \<and> \<not> sublist DATA_MARK s"

lemma no_marks_free: "no_marks s \<Longrightarrow> m \<in> {RESULTS_MARK, COUNT_MARK, DATA_MARK} \<Longrightarrow> py_replace m new s = s"
  by (auto simp: no_marks_def replace_free)

lemma mark_starts: "hd (RESULTS_MARK @ t) = 60" "hd (COUNT_MARK @ t) = 60" "hd (DATA_MARK @ t) = 60"
  by (simp_all add: RESULTS_MARK_def COUNT_MARK_def DATA_MARK_def)

lemmas mark_steps = replace_append [OF marks(1)] replace_append [OF marks(2)] replace_append [OF marks(3)]

lemma replace_results:
  assumes "no_marks a" "no_marks b" "no_marks c" "no_marks d"
  shows "py_replace RESULTS_MARK new (a @ COUNT_MARK @ b @ RESULTS_MARK @ c @ DATA_MARK @ d) = a @ COUNT_MARK @ b @ new @ c @ DATA_MARK @ d"
  using assms
  by (simp add: replace_append [OF marks(1)] mark_starts replace_other_mark [OF marks(1) marks(2) marks_differ(1)]
      replace_other_mark [OF marks(1) marks(3) marks_differ(2)] replace_this_mark [OF marks(1)] no_marks_free)

lemma replace_count:
  assumes "no_marks a" "no_marks s" "no_marks d"
  shows "py_replace COUNT_MARK new (a @ COUNT_MARK @ s @ DATA_MARK @ d) = a @ new @ s @ DATA_MARK @ d"
  using assms
  by (simp add: replace_append [OF marks(2)] mark_starts replace_other_mark [OF marks(2) marks(3) marks_differ(4)]
      replace_this_mark [OF marks(2)] no_marks_free)

lemma replace_data_mark:
  assumes "no_marks a" "no_marks s" "no_marks d"
  shows "py_replace DATA_MARK new (a @ COUNT_MARK @ s @ DATA_MARK @ d) = a @ COUNT_MARK @ s @ new @ d"
  using assms
  by (simp add: replace_append [OF marks(3)] mark_starts replace_other_mark [OF marks(3) marks(2) marks_differ(6)]
      replace_this_mark [OF marks(3)] no_marks_free)

lemma escape_no_bracket: "60 \<notin> set (escape_html s)"
  by (auto simp: escape_html_chars esc_char_def)

lemma nat_str_no_bracket: "60 \<notin> set (nat_str n)"
  using nat_str_digits [of 60 n] by (auto simp: is_digit_c_def)

text \<open>The count is escaped: its text has the tags of its element alone.\<close>

lemma replace_data_count:
  assumes "60 \<notin> set x"
  shows "py_replace DATA_MARK new (count_html x @ t) = count_html x @ py_replace DATA_MARK new t"
proof -
  have "py_replace DATA_MARK new (u ''</div>'' @ t) = u ''</div>'' @ py_replace DATA_MARK new t"
    by (simp add: py_replace.simps(2) DATA_MARK_def)
  then have close: "py_replace DATA_MARK new (x @ u ''</div>'' @ t) = x @ u ''</div>'' @ py_replace DATA_MARK new t"
    by (simp only: replace_skip [OF marks(3) assms])
  have "py_replace DATA_MARK new ((u ''<div class='' @ [34] @ u ''results-count'' @ [34] @ u ''>'') @ y) =
      (u ''<div class='' @ [34] @ u ''results-count'' @ [34] @ u ''>'') @ py_replace DATA_MARK new y" for y
    by (simp add: py_replace.simps(2) DATA_MARK_def)
  from this [of "x @ u ''</div>'' @ t"] close show ?thesis by (simp only: count_html_def append_assoc)
qed

lemma replace_data_after_count:
  assumes "no_marks a" "no_marks s" "no_marks d" "60 \<notin> set x"
  shows "py_replace DATA_MARK new (a @ count_html x @ s @ DATA_MARK @ d) = a @ count_html x @ s @ new @ d"
proof -
  have "hd (count_html x @ t) = 60" for t by (simp add: count_html_def)
  with assms show ?thesis
    by (simp add: replace_append [OF marks(3)] replace_data_count mark_starts replace_this_mark [OF marks(3)] no_marks_free)
qed

lemma embed_results_page:
  assumes tpl: "html = a @ COUNT_MARK @ b @ RESULTS_MARK @ c @ DATA_MARK @ d"
    and clean: "no_marks a" "no_marks b" "no_marks c" "no_marks d"
    and res: "(if html_cards js r = [] then Inr [] else generate_results_html (html_cards js r)) = Inr results_html"
    and inner: "no_marks (b @ results_html @ c)"
  shows "embed_results js q r html =
    Inr (a @ (if html_cards js r = [] then COUNT_MARK else count_html (generate_results_count_html (as_nat js (r_total r)) q)) @
         b @ results_html @ c @ embedded_data (dumps js r) @ d)"
proof -
  let ?n = "generate_results_count_html (as_nat js (r_total r)) q"
  have x: "60 \<notin> set ?n"
    using escape_no_bracket [of q] nat_str_no_bracket by (simp add: generate_results_count_html_def)
  have "py_replace RESULTS_MARK results_html html = a @ COUNT_MARK @ (b @ results_html @ c) @ DATA_MARK @ d"
    unfolding tpl using replace_results [OF clean] by simp
  with replace_count [OF clean(1) inner clean(4)] replace_data_mark [OF clean(1) inner clean(4)]
    replace_data_after_count [OF clean(1) inner clean(4) x] res
  show ?thesis by (simp add: embed_results_def Let_def)
qed

text \<open>
  The index page with the results of a search. When the template has its three marks once each and the search succeeds, the page is
  the template with the rendered cards, the count of the results (the mark stays when there are none) and the
  serialized results in the places of the marks, and it is cached for ninety seconds.
\<close>

theorem root_page_embeds:
  assumes tpl: "build_base_html f minify critical_css (hostname_to_site_name words hostname) =
      a @ COUNT_MARK @ b @ RESULTS_MARK @ c @ DATA_MARK @ d"
    and clean: "list_all no_marks [a, b, c, d]" and query: "search_query_of args = Some q"
    and run: "do_search cfg tc outer inner setup_done gen be (root_search_args args q) st = (Inr r, st')"
    and res: "(if html_cards js r = [] then Inr [] else generate_results_html (html_cards js r)) = Inr results_html"
    and inner: "no_marks (b @ results_html @ c)"
  shows "root_page f minify critical_css words js cfg tc outer inner setup_done gen be hostname args st =
    (Inr \<lparr>page_text = a @ (if html_cards js r = [] then COUNT_MARK
                          else count_html (generate_results_count_html (as_nat js (r_total r)) q)) @
                     b @ results_html @ c @ embedded_data (dumps js r) @ d,
          max_age = 90\<rparr>, st')"
  unfolding root_page_def root_def query
  using run embed_results_page [OF tpl _ _ _ _ res inner] clean by simp

lemma sublist_mid: "sublist x s \<Longrightarrow> sublist x (y @ s @ z)"
  unfolding sublist_def by (metis append_assoc)

text \<open>
  JSON serialization copies the characters of a text other than quotes, backslashes and control characters; a closing
  script tag consists of such characters.
\<close>

definition plain_json :: "nat \<Rightarrow> bool" where
  "plain_json c \<longleftrightarrow> 32 \<le> c \<and> c \<noteq> 34 \<and> c \<noteq> 92"

definition copies :: "'j json_ops \<Rightarrow> bool" where
  "copies js \<longleftrightarrow> (\<forall>r x. sublist x (r_query r) \<longrightarrow> list_all plain_json x \<longrightarrow> sublist x (dumps js r))"

text \<open>
  C36: The query is reflected into a script. The results embedded in the script element of the index page include the text of the query, and
  nothing escapes its brackets: whatever plain text the query has, closing and opening script tags included, is in the
  page as it is.
\<close>

theorem query_reflected:
  assumes tpl: "build_base_html f minify critical_css (hostname_to_site_name words hostname) =
      a @ COUNT_MARK @ b @ RESULTS_MARK @ c @ DATA_MARK @ d"
    and clean: "list_all no_marks [a, b, c, d]" and query: "search_query_of args = Some q"
    and run: "do_search cfg tc outer inner setup_done gen be (root_search_args args q) st = (Inr r, st')"
    and res: "(if html_cards js r = [] then Inr [] else generate_results_html (html_cards js r)) = Inr results_html"
    and inner: "no_marks (b @ results_html @ c)" and js: "copies js"
    and x: "sublist x (r_query r)" "list_all plain_json x"
  shows "\<exists>p. fst (root_page f minify critical_css words js cfg tc outer inner setup_done gen be hostname args st) = Inr p \<and>
    sublist x (page_text p)"
proof -
  have "sublist x (dumps js r)" using js x by (auto simp: copies_def)
  then have "sublist x (embedded_data (dumps js r))"
    using sublist_mid [of x "dumps js r" "u ''// Server-side embedded search results'' @ [10] @ u ''      window.EMBEDDED_SEARCH_RESULTS = ''"]
    by (simp add: embedded_data_def)
  then have "sublist x (y @ embedded_data (dumps js r) @ z)" for y z by (rule sublist_mid)
  from this [of "a @ (if html_cards js r = [] then COUNT_MARK else count_html (generate_results_count_html (as_nat js (r_total r)) q)) @
      b @ results_html @ c" d] show ?thesis
    unfolding root_page_def root_def query
    using run embed_results_page [OF tpl _ _ _ _ res inner] clean by simp
qed

text \<open>A search that is not answered from the cache has its query in its result.\<close>

lemma search_sql_query: "search_sql tc be parsed query key = Inr r \<Longrightarrow> r_query r = query"
  unfolding search_sql_def bindr_Inr_iff
  by (elim exE conjE; case_tac "run_query be (fst x) (snd x)")
    (auto simp: case_prod_beta bindr_Inr_iff split: if_splits db_error.splits option.splits)

lemma search_engine_query: "search_engine be parsed query key = Inr r \<Longrightarrow> r_query r = query"
  by (auto simp: search_engine_def split: sum.splits engine_error.splits)

lemma search_query_kept:
  assumes "search_uncached ee tc be key = Inr r"
  shows "r_query r = (case k_query key of None \<Rightarrow> [] | Some t \<Rightarrow> t)"
  using assms search_sql_query search_engine_query unfolding search_uncached_def Let_def
  by (fastforce split: sum.splits if_splits)

section \<open>Examples\<close>

definition sample_files :: static_files where
  "sample_files =
     \<lparr>index_html = u ''<p>'' @ COUNT_MARK @ u ''</p>'' @ RESULTS_MARK @ u ''<script>'' @ DATA_MARK @ u ''</script>'', card_html = [],
      favicon_html = [], preconnects_html = [], fonts_html = [], css_html = [], footer_html = [],
      styles_css_hash = None, app_min_js_hash = None, card_js_hash = None\<rparr>"

definition sample_json :: "nat json_ops" where
  "sample_json = \<lparr>as_text = (\<lambda>v. None), as_nat = (\<lambda>v. v), dumps = (\<lambda>r. [34] @ r_query r @ [34])\<rparr>"

definition empty_backend :: "nat backend" where
  "empty_backend = \<lparr>engine_size = 1, engine_query = (\<lambda>_ _ _ _ _ _ _. Inr (0, [])), run_query = (\<lambda>sql ps. Inl OtherDbError)\<rparr>"

definition tag_query :: pstr where
  "tag_query = u ''name:'' @ [34] @ u ''</script><script>'' @ [34]"

definition tag_args :: root_args where
  "tag_args = \<lparr>g_q = Some tag_query, g_query = None, g_orderby = None, g_direction = None, g_unique = None, g_prefer = None\<rparr>"

definition no_cache :: settings where
  "no_cache = \<lparr>enable_cache = False, enable_engine = True\<rparr>"

lemma sample_template:
  "build_base_html sample_files id [] (hostname_to_site_name {} []) =
     u ''<p>'' @ COUNT_MARK @ u ''</p>'' @ RESULTS_MARK @ u ''<script>'' @ DATA_MARK @ u ''</script>''"
  "list_all no_marks [u ''<p>'', u ''</p>'', u ''<script>'', u ''</script>'']" "no_marks (u ''</p>'' @ [] @ u ''<script>'')"
  by code_simp+

lemma tag_query_parses: "\<exists>n. parse_scryfall_query tag_query = Inr n"
proof -
  have "\<not> isl (parse_scryfall_query tag_query)" by code_simp
  then show ?thesis by (cases "parse_scryfall_query tag_query") auto
qed

lemma tag_search:
  "\<exists>r. do_search no_cache id (lru_ops 1) (lru_ops 1) True 0 empty_backend (root_search_args tag_args tag_query) st = (Inr r, st) \<and>
     r_query r = tag_query \<and> r_cards r = []"
proof -
  obtain n where "parse_scryfall_query tag_query = Inr n" using tag_query_parses by blast
  then show ?thesis
    by (auto simp: do_search_def no_cache_def search_key_of_def root_search_args_def validate_limit_def resolve_result_fields_def
        search_uncached_def search_engine_def empty_backend_def Let_def)
qed

lemma tag_args_query: "search_query_of tag_args = Some tag_query"
  by code_simp

theorem root_page_embeds_witness:
  "\<exists>p. fst (root_page sample_files id [] {} sample_json no_cache id (lru_ops 1) (lru_ops 1) True 0 empty_backend [] tag_args
      (gc_init (lru_ops 1))) = Inr p \<and> max_age p = 90"
proof -
  obtain r where r: "do_search no_cache id (lru_ops 1) (lru_ops 1) True 0 empty_backend (root_search_args tag_args tag_query) (gc_init (lru_ops 1)) =
      (Inr r, gc_init (lru_ops 1))" "r_cards r = []"
    using tag_search by blast
  have res: "(if html_cards sample_json r = [] then Inr [] else generate_results_html (html_cards sample_json r)) = Inr []"
    using r(2) by (simp add: html_cards_def)
  show ?thesis
    using root_page_embeds [OF sample_template(1,2) tag_args_query r(1) res sample_template(3)] by simp
qed

theorem query_reflected_witness:
  "\<exists>p. fst (root_page sample_files id [] {} sample_json no_cache id (lru_ops 1) (lru_ops 1) True 0 empty_backend [] tag_args
      (gc_init (lru_ops 1))) = Inr p \<and> sublist (u ''</script><script>'') (page_text p)"
proof -
  obtain r where r: "do_search no_cache id (lru_ops 1) (lru_ops 1) True 0 empty_backend (root_search_args tag_args tag_query) (gc_init (lru_ops 1)) =
      (Inr r, gc_init (lru_ops 1))" "r_query r = tag_query" "r_cards r = []"
    using tag_search by blast
  have res: "(if html_cards sample_json r = [] then Inr [] else generate_results_html (html_cards sample_json r)) = Inr []"
    using r(3) by (simp add: html_cards_def)
  have js: "copies sample_json" using sublist_mid [of _ _ "[34]" "[34]"] by (auto simp: copies_def sample_json_def)
  have x: "sublist (u ''</script><script>'') (r_query r)" "list_all plain_json (u ''</script><script>'')"
    unfolding r(2) by (simp add: tag_query_def sublist_mid [of _ "u ''</script><script>''" "u ''name:'' @ [34]", simplified]) code_simp
  show ?thesis
    by (rule query_reflected [OF sample_template(1,2) tag_args_query r(1) res sample_template(3) js x])
qed

end
