(* ===== verification/Run_Query.thy ===== *)
theory Run_Query
  imports Search_Service
begin

text \<open>
  \<open>APIResource._run_query\<close> of \<open>src/api/api_resource.py\<close> with its generation cache. A call reads the generation twice: when it looks the
  key up and when it stores the result, with the execution of the statement in between. The database, and the serialization
  that makes a parameter hashable, are arguments. The timings in the result are left out.
\<close>

section \<open>The operation\<close>

record 'p sql_call =
  sql_text :: pstr
  sql_params :: "(pstr \<times> 'p) list"
  sql_explain :: bool

type_synonym 'h query_key = "pstr \<times> (pstr \<times> 'h) set \<times> bool"

definition query_key_of :: "('p \<Rightarrow> 'h) \<Rightarrow> 'p sql_call \<Rightarrow> 'h query_key" where
  "query_key_of maybe_json_dump c =
     (rewrap (sql_text c), (\<lambda>(k, v). (k, maybe_json_dump v)) ` set (sql_params c), sql_explain c)"

text \<open>\<open>exec\<close> runs a statement with its parameters on the database as it is when the call gets to it.\<close>

definition run_query_call ::
  "('p \<Rightarrow> 'h) \<Rightarrow> ('m, int, nat) cache_ops \<Rightarrow> ('c, 'h query_key, 'r) cache_ops \<Rightarrow> (pstr \<Rightarrow> (pstr \<times> 'p) list \<Rightarrow> bool \<Rightarrow> db_error + 'r) \<Rightarrow>
   int \<Rightarrow> int \<Rightarrow> 'p sql_call \<Rightarrow> ('m, 'c) gc_state \<Rightarrow> (search_error + 'r) \<times> ('m, 'c) gc_state" where
  "run_query_call dump outer inner exec gen_get gen_set c st =
     (case gc_get outer inner st gen_get (query_key_of dump c) None of
        (Inl e, st) \<Rightarrow> (Inl (Raised e), st)
      | (Inr (Some cached_val), st) \<Rightarrow> (Inr cached_val, st)
      | (Inr None, st) \<Rightarrow>
          (case exec (rewrap (sql_text c)) (sql_params c) (sql_explain c) of
             Inl DatatypeMismatch \<Rightarrow> (Inl (BadRequest (u ''Invalid Search Query'')), st)
           | Inl OtherDbError \<Rightarrow> (Inl DatabaseError, st)
           | Inr result \<Rightarrow> (Inr result, gc_setitem outer inner st gen_set (query_key_of dump c) result)))"



section \<open>Without a change of generation in a call\<close>







section \<open>When the generation changes during a call\<close>

text \<open>
  C40: A change of the generation during a call breaks this. A call looks its key up at generation \<open>g\<close>, runs its statement, and
  stores the result at the generation \<open>g'\<close> the counter has by then. When an import has been committed in between, the
  result is the one before the import, and every later call with the same key at \<open>g'\<close> gets it, whatever the database now has.
\<close>

theorem query_cache_race:
  assumes "0 < n" and "exec_old (rewrap (sql_text c)) (sql_params c) (sql_explain c) = Inr old"
  shows "\<exists>st. run_query_call dump (lru_ops 1) (lru_ops n) exec_old g g' c (gc_init (lru_ops 1)) = (Inr old, st) \<and>
    fst (run_query_call dump (lru_ops 1) (lru_ops n) exec_new g' g' c st) = Inr old"
  using assms
  by (cases n) (auto simp: run_query_call_def gc_get_def gc_getitem_def gc_setitem_def gc_current_def gc_init_def lru_ops_def renew_def)

theorem query_cache_race_witness:
  "\<exists>st. run_query_call id (lru_ops 1) (lru_ops 1000) (\<lambda>q ps ex. Inr [u ''old'']) 0 1
      \<lparr>sql_text = u ''SELECT 1'', sql_params = [(u ''a'', True)], sql_explain = False\<rparr> (gc_init (lru_ops 1)) = (Inr [u ''old''], st) \<and>
    fst (run_query_call id (lru_ops 1) (lru_ops 1000) (\<lambda>q ps ex. Inr [u ''new'']) 1 1
      \<lparr>sql_text = u ''SELECT 1'', sql_params = [(u ''a'', True)], sql_explain = False\<rparr> st) = Inr [u ''old'']"
  by (rule query_cache_race) simp_all

end
