(* ===== verification/Scryfall_Import.thy ===== *)
theory Scryfall_Import
  imports Card_Upsert "HOL-Library.List_Lexorder" "HOL-Library.Multiset"
begin

text \<open>
  What \<open>src/api/api_resource.py\<close> imports by searching: the search of the Scryfall API page by page (\<open>_scryfall_search\<close>), the
  import of the cards it finds, the \<open>is:\<close> tags and the data of CubeCobra. The servers are arguments: the reply to each request. Python
  compares texts by their code points, as the lexicographic order of the library does.
\<close>

section \<open>Searching page by page\<close>

record http_error =
  err_status :: "nat option"
  err_text :: pstr

record scry_page =
  page_data :: "card_dict list option"
  has_more :: bool
  next_page :: "pstr option"

datatype scry_reply = Request_Error http_error | Malformed | Reply scry_page

datatype scry_request = First pstr | Next pstr

text \<open>
  The test for a missing page. A response is true only when its status is below 400, so that the comparison of the status never
  succeeds; the text of the error decides.
\<close>

definition NOT_FOUND :: nat where
  "NOT_FOUND = 404"

definition looks_not_found :: "http_error \<Rightarrow> bool" where
  "looks_not_found e \<longleftrightarrow>
     (case err_status e of None \<Rightarrow> False | Some s \<Rightarrow> s < 400 \<and> s = NOT_FOUND) \<or> py_in (u ''404'') (err_text e)"

definition full_query :: "pstr \<Rightarrow> pstr \<Rightarrow> pstr" where
  "full_query query unique =
     u ''('' @ query @ u '') '' @ py_join (u '' '') [u ''(f:m or f:l or f:c or f:v)'', u ''game:paper'', u ''unique:'' @ unique]"

definition page_cards :: "card_dict list \<Rightarrow> card_dict list" where
  "page_cards cards = filter (\<lambda>c. c \<noteq> []) cards"

text \<open>\<open>fetch i r\<close> is the reply to the request \<open>r\<close>, the \<open>i\<close>th of the search.\<close>

partial_function (option) scryfall_loop ::
  "(nat \<Rightarrow> scry_request \<Rightarrow> scry_reply) \<Rightarrow> nat \<Rightarrow> scry_request \<Rightarrow> card_dict list \<Rightarrow> card_dict list result option" where
  "scryfall_loop fetch i r all_cards =
     (case fetch i r of
        Request_Error e \<Rightarrow> Some (if looks_not_found e then Inr all_cards else Inl ValueError)
      | Malformed \<Rightarrow> Some (Inl ValueError)
      | Reply p \<Rightarrow>
          (case page_data p of
             None \<Rightarrow> Some (Inr all_cards)
           | Some cards \<Rightarrow>
               if \<not> has_more p then Some (Inr (all_cards @ page_cards cards))
               else case next_page p of
                      None \<Rightarrow> Some (Inr (all_cards @ page_cards cards))
                    | Some url \<Rightarrow>
                        if url = [] then Some (Inr (all_cards @ page_cards cards))
                        else scryfall_loop fetch (Suc i) (Next url) (all_cards @ page_cards cards)))"

definition scryfall_search :: "(nat \<Rightarrow> scry_request \<Rightarrow> scry_reply) \<Rightarrow> pstr \<Rightarrow> pstr \<Rightarrow> card_dict list result option" where
  "scryfall_search fetch query unique = scryfall_loop fetch 0 (First (full_query query unique)) []"

section \<open>Importing what a search finds\<close>

datatype search_import = Cards_Not_Found | Fetch_Error | Loaded load_result | Already_Exists

text \<open>
  The outcome has whether the engine is reloaded, which happens after a successful load. \<open>None\<close> stands for a search that goes on for
  ever.
\<close>

definition import_cards_by_search ::
  "'d load_env \<Rightarrow> (nat \<Rightarrow> scry_request \<Rightarrow> scry_reply) \<Rightarrow> pstr \<Rightarrow> 'd load_state \<Rightarrow> ((load_error + search_import) \<times> bool \<times> 'd load_state) option" where
  "import_cards_by_search env fetch search_query s =
     (if search_query = [] then Some (Inl (Code_Error ValueError), False, s)
      else case scryfall_search fetch search_query (u ''prints'') of
             None \<Rightarrow> None
           | Some (Inl e) \<Rightarrow> Some (Inr Fetch_Error, False, s)
           | Some (Inr cards) \<Rightarrow>
               if cards = [] then Some (Inr Cards_Not_Found, False, s)
               else case upsert_cards env UPSERT_PAGE_SIZE cards None s of
                      (Inl e, s) \<Rightarrow> Some (Inl e, False, s)
                    | (Inr res, s) \<Rightarrow> Some (Inr (Loaded res), load_status res = Success, s))"

definition import_card_by_name ::
  "'d load_env \<Rightarrow> (nat \<Rightarrow> scry_request \<Rightarrow> scry_reply) \<Rightarrow> (pstr \<Rightarrow> bool) \<Rightarrow> pstr \<Rightarrow> 'd load_state \<Rightarrow>
   ((load_error + search_import) \<times> bool \<times> 'd load_state) option" where
  "import_card_by_name env fetch known name s =
     (if name = [] then Some (Inl (Code_Error ValueError), False, s)
      else if known name then Some (Inr Already_Exists, False, s)
      else import_cards_by_search env fetch (u ''!'' @ [34] @ name @ [34]) s)"

section \<open>Tags\<close>

definition CUSTOM_IS_TAGS :: "pstr list" where
  "CUSTOM_IS_TAGS =
     [u ''historic'', u ''pathway'', u ''permanent'', u ''reprint'', u ''spell'', u ''unique'', u ''old'', u ''new'', u ''foil'',
      u ''nonfoil'', u ''datestamped'', u ''universesbeyond'', u ''booster'', u ''default'']"

definition LAND_IS_TAGS :: "pstr list" where
  "LAND_IS_TAGS =
     [u ''bikeland'', u ''bondland'', u ''bounceland'', u ''canopyland'', u ''checkland'', u ''creatureland'', u ''fastland'',
      u ''fetchland'', u ''filterland'', u ''gainland'', u ''manland'', u ''painland'', u ''scryland'', u ''shadowland'',
      u ''shockland'', u ''slowland'', u ''storageland'', u ''surveilland'', u ''tangoland'', u ''tricycleland'', u ''triland'']"

definition CARD_IS_TAGS :: "pstr list" where
  "CARD_IS_TAGS = LAND_IS_TAGS @ [u ''bear'', u ''commander'', u ''outlaw'', u ''party'', u ''reserved'', u ''vanilla'']"

record tag_row =
  t_name :: pstr
  t_id :: pstr
  t_tags :: "(pstr \<times> bool) list"

definition tag_matches :: "(tag_row \<Rightarrow> pstr) \<Rightarrow> pstr \<Rightarrow> pstr list \<Rightarrow> tag_row \<Rightarrow> bool" where
  "tag_matches key is_tag batch row \<longleftrightarrow> key row \<in> set batch \<and> map_of (t_tags row) is_tag \<noteq> Some True"

definition tag_update :: "(tag_row \<Rightarrow> pstr) \<Rightarrow> pstr \<Rightarrow> nat \<times> tag_row list \<Rightarrow> pstr list \<Rightarrow> nat \<times> tag_row list" where
  "tag_update key is_tag acc batch =
     (let (updated_count, rows) = acc
      in (updated_count + length (filter (tag_matches key is_tag batch) rows),
          map (\<lambda>row. if tag_matches key is_tag batch row then row\<lparr>t_tags := dict_set (t_tags row) is_tag True\<rparr> else row) rows))"

definition sorted_set :: "pstr list \<Rightarrow> pstr list" where
  "sorted_set xs = sort (remdups xs)"

definition add_tag_batches :: "(tag_row \<Rightarrow> pstr) \<Rightarrow> pstr \<Rightarrow> pstr list \<Rightarrow> tag_row list \<Rightarrow> nat \<times> tag_row list" where
  "add_tag_batches key is_tag keys rows = foldl (tag_update key is_tag) (0, rows) (batched 500 (sorted_set keys))"

record tag_result =
  tag_updated :: nat
  tag_found :: nat

definition text_field :: "string \<Rightarrow> card_dict \<Rightarrow> pstr result" where
  "text_field k cd = bindr (cindex cd k) str_of"

definition add_is_tag_with ::
  "string \<Rightarrow> (tag_row \<Rightarrow> pstr) \<Rightarrow> string \<Rightarrow> (nat \<Rightarrow> scry_request \<Rightarrow> scry_reply) \<Rightarrow> pstr \<Rightarrow> tag_row list \<Rightarrow> (tag_result result \<times> tag_row list) option" where
  "add_is_tag_with col key unique fetch is_tag rows =
     (case scryfall_search fetch (u ''is:'' @ is_tag) (u unique) of
        None \<Rightarrow> None
      | Some (Inl e) \<Rightarrow> Some (Inl e, rows)
      | Some (Inr cards) \<Rightarrow>
          (case mapr (text_field col) cards of
             Inl e \<Rightarrow> Some (Inl e, rows)
           | Inr keys \<Rightarrow>
               let (n, rows) = add_tag_batches key is_tag keys rows
               in Some (Inr \<lparr>tag_updated = n, tag_found = length (sorted_set keys)\<rparr>, rows)))"

definition add_is_tag_to_cards_or_printings ::
  "(nat \<Rightarrow> scry_request \<Rightarrow> scry_reply) \<Rightarrow> pstr \<Rightarrow> tag_row list \<Rightarrow> (tag_result result \<times> tag_row list) option" where
  "add_is_tag_to_cards_or_printings fetch is_tag rows =
     (if is_tag = [] then Some (Inl ValueError, rows)
      else if is_tag \<in> set CUSTOM_IS_TAGS then Some (Inr \<lparr>tag_updated = 0, tag_found = 0\<rparr>, rows)
      else if is_tag \<in> set CARD_IS_TAGS then add_is_tag_with ''name'' t_name ''cards'' fetch is_tag rows
      else add_is_tag_with ''id'' t_id ''printings'' fetch is_tag rows)"

text \<open>\<open>re.findall\<close> of \<open>is:([a-zA-Z_-]+)\<close>.\<close>

definition tag_char :: "nat \<Rightarrow> bool" where
  "tag_char c \<longleftrightarrow> 97 \<le> c \<and> c \<le> 122 \<or> 65 \<le> c \<and> c \<le> 90 \<or> c = 95 \<or> c = 45"

fun find_is_tags :: "pstr \<Rightarrow> pstr list" where
  "find_is_tags [] = []"
| "find_is_tags (c # s) =
     (let rest = drop 2 s; tag = takeWhile tag_char rest
      in if prefix (u ''is:'') (c # s) \<and> tag \<noteq> [] then tag # find_is_tags (drop (length tag) rest) else find_is_tags s)"

text \<open>The documentation page, or nothing when the request fails.\<close>

definition discover_is_tags_from_syntax :: "pstr option \<Rightarrow> pstr list result" where
  "discover_is_tags_from_syntax docs =
     (case docs of None \<Rightarrow> Inl ValueError | Some t \<Rightarrow> Inr (sorted_set (map py_lower (find_is_tags t))))"

record all_tags =
  imported :: "(pstr \<times> tag_result) list"
  failed :: "pstr list"
  tags_updated :: nat

text \<open>The loop over the tags; \<open>fetch tag\<close> has the replies to the requests for a tag.\<close>

fun tags_loop ::
  "(pstr \<Rightarrow> nat \<Rightarrow> scry_request \<Rightarrow> scry_reply) \<Rightarrow> pstr list \<Rightarrow> all_tags \<Rightarrow> tag_row list \<Rightarrow> (all_tags result \<times> tag_row list) option" where
  "tags_loop fetch [] acc rows = Some (Inr acc, rows)"
| "tags_loop fetch (t # ts) acc rows =
     (case add_is_tag_to_cards_or_printings (fetch t) t rows of
        None \<Rightarrow> None
      | Some (Inl e, rows) \<Rightarrow>
          if e = ValueError then tags_loop fetch ts (acc\<lparr>failed := failed acc @ [t]\<rparr>) rows else Some (Inl e, rows)
      | Some (Inr res, rows) \<Rightarrow>
          tags_loop fetch ts (acc\<lparr>imported := imported acc @ [(t, res)], tags_updated := tags_updated acc + tag_updated res\<rparr>) rows)"

definition import_all_is_tags ::
  "(pstr \<Rightarrow> nat \<Rightarrow> scry_request \<Rightarrow> scry_reply) \<Rightarrow> pstr option \<Rightarrow> tag_row list \<Rightarrow> (all_tags option result \<times> tag_row list) option" where
  "import_all_is_tags fetch docs rows =
     (case discover_is_tags_from_syntax docs of
        Inl e \<Rightarrow> Some (if e = ValueError then Inr None else Inl e, rows)
      | Inr [] \<Rightarrow> Some (Inr None, rows)
      | Inr ts \<Rightarrow>
          map_option (\<lambda>(r, rows). (bindr r (\<lambda>a. Inr (Some a)), rows))
            (tags_loop fetch ts \<lparr>imported = [], failed = [], tags_updated = 0\<rparr> rows))"

section \<open>CubeCobra\<close>

record 'v cube_card =
  cube_oracle_id :: "pstr option"
  cube_elo :: 'v
  cube_count :: 'v
  cube_picks :: 'v

record ('u, 'v) cube_row =
  row_oracle_id :: "'u option"
  row_cube :: "'v \<times> 'v \<times> 'v"

text \<open>One page of the data, by oracle identifier; \<open>uuid_of\<close> parses an identifier.\<close>

definition cube_page :: "(pstr \<Rightarrow> 'u option) \<Rightarrow> 'u set \<Rightarrow> 'v cube_card list \<Rightarrow> ('u \<times> 'v \<times> 'v \<times> 'v) list" where
  "cube_page uuid_of db_ids cards =
     foldl (\<lambda>d c.
       case cube_oracle_id c of
         None \<Rightarrow> d
       | Some t \<Rightarrow>
           if t = [] then d
           else case uuid_of t of
                  None \<Rightarrow> d
                | Some i \<Rightarrow> if i \<in> db_ids then dict_set d i (cube_elo c, cube_count c, cube_picks c) else d) [] cards"

definition insert_cubecobra_data :: "('u \<times> 'v \<times> 'v \<times> 'v) list \<Rightarrow> ('u, 'v) cube_row list \<Rightarrow> nat \<times> ('u, 'v) cube_row list" where
  "insert_cubecobra_data data rows =
     (let hit = (\<lambda>row. case row_oracle_id row of None \<Rightarrow> None | Some i \<Rightarrow> map_of data i)
      in (length (filter (\<lambda>row. hit row \<noteq> None) rows),
          map (\<lambda>row. case hit row of None \<Rightarrow> row | Some v \<Rightarrow> row\<lparr>row_cube := v\<rparr>) rows))"

text \<open>
  The ingestion: \<open>pages\<close> are the replies in their order, an error of the request being nothing; the loop ends with an empty page, and with
  the list when the server stops answering. The variable with the count is set by the first page: without one, using it raises.
\<close>

fun ingest_loop ::
  "(pstr \<Rightarrow> 'u option) \<Rightarrow> 'u set \<Rightarrow> 'v cube_card list option list \<Rightarrow> nat option \<Rightarrow> ('u, 'v) cube_row list \<Rightarrow>
   (bool \<times> nat option \<times> ('u, 'v) cube_row list) option" where
  "ingest_loop uuid_of db_ids [] updated_rows rows = None"
| "ingest_loop uuid_of db_ids (None # ps) updated_rows rows = Some (False, updated_rows, rows)"
| "ingest_loop uuid_of db_ids (Some cards # ps) updated_rows rows =
     (if cards = [] then Some (True, updated_rows, rows)
      else let (n, rows) = insert_cubecobra_data (cube_page uuid_of db_ids cards) rows
           in ingest_loop uuid_of db_ids ps (Some n) rows)"

datatype ingest_error = Cube_Request_Error | UnboundLocalError

definition ingest_cubecobra ::
  "(pstr \<Rightarrow> 'u option) \<Rightarrow> 'v cube_card list option list \<Rightarrow> ('u, 'v) cube_row list \<Rightarrow>
   ((ingest_error + nat) \<times> bool \<times> ('u, 'v) cube_row list) option" where
  "ingest_cubecobra uuid_of pages rows =
     (let db_ids = {i. Some i \<in> row_oracle_id ` set rows}
      in map_option (\<lambda>(ok, updated_rows, rows).
           if \<not> ok then (Inl Cube_Request_Error, False, rows)
           else case updated_rows of None \<Rightarrow> (Inl UnboundLocalError, False, rows) | Some n \<Rightarrow> (Inr n, True, rows))
         (ingest_loop uuid_of db_ids pages None rows))"

section \<open>What a search returns\<close>

text \<open>The server sends the pages \<open>ps\<close>, each with the address of the next one, and then \<open>last_reply\<close>.\<close>

fun sends :: "(nat \<Rightarrow> scry_request \<Rightarrow> scry_reply) \<Rightarrow> nat \<Rightarrow> scry_request \<Rightarrow> scry_page list \<Rightarrow> scry_reply \<Rightarrow> bool" where
  "sends fetch i r [] last_reply \<longleftrightarrow> fetch i r = last_reply"
| "sends fetch i r (p # ps) last_reply \<longleftrightarrow>
     fetch i r = Reply p \<and> page_data p \<noteq> None \<and> has_more p \<and>
     (case next_page p of None \<Rightarrow> False | Some url \<Rightarrow> url \<noteq> [] \<and> sends fetch (Suc i) (Next url) ps last_reply)"

definition cards_of :: "scry_page list \<Rightarrow> card_dict list" where
  "cards_of ps = concat (map (\<lambda>p. case page_data p of None \<Rightarrow> [] | Some cards \<Rightarrow> page_cards cards) ps)"

text \<open>A page after which the loop stops.\<close>

definition final_page :: "scry_page \<Rightarrow> bool" where
  "final_page p \<longleftrightarrow> page_data p = None \<or> \<not> has_more p \<or> next_page p = None \<or> next_page p = Some []"

lemma scryfall_loop_sends:
  "sends fetch i r ps rep \<Longrightarrow> \<exists>j r'. fetch j r' = rep \<and> scryfall_loop fetch i r acc = scryfall_loop fetch j r' (acc @ cards_of ps)"
proof (induction ps arbitrary: i r acc)
  case Nil
  then show ?case by (auto simp: cards_of_def)
next
  case (Cons p ps)
  then obtain cards url where p: "fetch i r = Reply p" "page_data p = Some cards" "has_more p" "next_page p = Some url" "url \<noteq> []"
    and rest: "sends fetch (Suc i) (Next url) ps rep"
    by (auto split: option.splits)
  have "scryfall_loop fetch i r acc = scryfall_loop fetch (Suc i) (Next url) (acc @ page_cards cards)"
    by (subst scryfall_loop.simps) (simp add: p)
  with Cons.IH [OF rest, of "acc @ page_cards cards"] p(2) show ?case by (simp add: cards_of_def)
qed

lemma scryfall_loop_final: "fetch j r = Reply p \<Longrightarrow> final_page p \<Longrightarrow> scryfall_loop fetch j r acc = Some (Inr (acc @ cards_of [p]))"
  by (subst scryfall_loop.simps) (auto simp: final_page_def cards_of_def split: option.splits)

text \<open>
  C25: The search of Scryfall ends and is complete: when the server sends some pages and then a last one, the result is the cards
  of all of them in their order, without the empty entries.
\<close>

theorem scryfall_search_complete:
  assumes "sends fetch 0 (First (full_query query unique)) ps (Reply p)" and "final_page p"
  shows "scryfall_search fetch query unique = Some (Inr (cards_of (ps @ [p])))"
  using scryfall_loop_sends [OF assms(1), of "[]"] scryfall_loop_final [OF _ assms(2)]
  by (fastforce simp: scryfall_search_def cards_of_def)

definition sample_page :: "bool \<Rightarrow> pstr \<Rightarrow> scry_page" where
  "sample_page again name =
     \<lparr>page_data = Some [[(CStr (u ''name''), CStr name), (CStr (u ''id''), CStr name)], []], has_more = again,
      next_page = (if again then Some (u ''next'') else None)\<rparr>"

definition sample_fetch :: "scry_reply \<Rightarrow> nat \<Rightarrow> scry_request \<Rightarrow> scry_reply" where
  "sample_fetch last_reply i r = (if i = 0 then Reply (sample_page True (u ''a'')) else last_reply)"

lemma sample_sends: "sends (sample_fetch rep) 0 (First q) [sample_page True (u ''a'')] rep"
  by (simp add: sample_fetch_def sample_page_def)

theorem scryfall_search_complete_witness:
  "map_option (\<lambda>r. bindr r (\<lambda>cs. mapr (text_field ''name'') cs)) (scryfall_search (sample_fetch (Reply (sample_page False (u ''b'')))) (u ''elf'') (u ''prints'')) =
     Some (Inr [u ''a'', u ''b''])"
proof -
  have cards: "mapr (text_field ''name'') (cards_of ([sample_page True (u ''a'')] @ [sample_page False (u ''b'')])) = Inr [u ''a'', u ''b'']"
    by code_simp
  have "final_page (sample_page False (u ''b''))" by (simp add: final_page_def sample_page_def)
  from scryfall_search_complete [OF sample_sends this, of "u ''elf''" "u ''prints''"] cards show ?thesis by simp
qed

text \<open>
  Errors of the search. When the server answers a request with an error, the search ends with a \<open>ValueError\<close>, unless the text of the
  error has \<open>404\<close> in it: then it returns the cards found so far as if they were all. The text of an HTTP error has the address
  of the request with the query, so that a query with these digits hides every error.
\<close>

theorem search_error_hidden:
  assumes "sends fetch 0 (First (full_query query unique)) ps (Request_Error e)"
  shows "scryfall_search fetch query unique = Some (if sublist (u ''404'') (err_text e) then Inr (cards_of ps) else Inl ValueError)"
proof -
  obtain j r where "fetch j r = Request_Error e"
    and eq: "scryfall_search fetch query unique = scryfall_loop fetch j r (cards_of ps)"
    using scryfall_loop_sends [OF assms, of "[]"] by (auto simp: scryfall_search_def)
  moreover have "looks_not_found e \<longleftrightarrow> sublist (u ''404'') (err_text e)"
    by (auto simp: looks_not_found_def NOT_FOUND_def py_in_iff split: option.splits)
  ultimately show ?thesis unfolding eq by (subst scryfall_loop.simps) simp
qed

definition server_error :: "pstr \<Rightarrow> http_error" where
  "server_error q = \<lparr>err_status = Some 500, err_text = u ''500 Server Error: for url: https://api.scryfall.com/cards/search?q='' @ q\<rparr>"

theorem search_error_hidden_witness:
  "\<exists>cs. scryfall_search (sample_fetch (Request_Error (server_error (u ''cn:404'')))) (u ''cn:404'') (u ''prints'') = Some (Inr cs) \<and> length cs = 1"
proof -
  have "sublist (u ''404'') (err_text (server_error (u ''cn:404'')))" by code_simp
  moreover have "length (cards_of [sample_page True (u ''a'')]) = 1" by code_simp
  ultimately show ?thesis using search_error_hidden [of "sample_fetch (Request_Error (server_error (u ''cn:404'')))" "u ''cn:404''" "u ''prints''", OF sample_sends]
    by simp
qed

text \<open>A server that always names a next page keeps the search from ending.\<close>

lemma endless_search:
  assumes "\<And>i r. \<exists>p cards url. fetch i r = Reply p \<and> page_data p = Some cards \<and> has_more p \<and> next_page p = Some url \<and> url \<noteq> []"
  shows "scryfall_search fetch query unique = None"
proof -
  have "f = fetch \<longrightarrow> False" if "scryfall_loop f i r acc = Some y" for f i r acc y
  proof (rule scryfall_loop.raw_induct [where P = "\<lambda>f i r acc y. f = fetch \<longrightarrow> False", OF _ that], intro impI)
    fix loop :: "(nat \<Rightarrow> scry_request \<Rightarrow> scry_reply) \<Rightarrow> nat \<Rightarrow> scry_request \<Rightarrow> card_dict list \<Rightarrow> card_dict list result option" and f i r acc y
    assume IH: "\<And>f i r acc y. loop f i r acc = Some y \<Longrightarrow> f = fetch \<longrightarrow> False" and f: "f = fetch"
      and step: "(case f i r of
          Request_Error e \<Rightarrow> Some (if looks_not_found e then Inr acc else Inl ValueError)
        | Malformed \<Rightarrow> Some (Inl ValueError)
        | Reply p \<Rightarrow> (case page_data p of None \<Rightarrow> Some (Inr acc) | Some cards \<Rightarrow>
            if \<not> has_more p then Some (Inr (acc @ page_cards cards))
            else case next_page p of None \<Rightarrow> Some (Inr (acc @ page_cards cards)) | Some url \<Rightarrow>
              if url = [] then Some (Inr (acc @ page_cards cards)) else loop f (Suc i) (Next url) (acc @ page_cards cards))) = Some y"
    obtain p cards url where "fetch i r = Reply p" "page_data p = Some cards" "has_more p" "next_page p = Some url" "url \<noteq> []"
      using assms [of i r] by blast
    with step f have "loop fetch (Suc i) (Next url) (acc @ page_cards cards) = Some y" by simp
    from IH [OF this] show False by simp
  qed
  then show ?thesis by (cases "scryfall_search fetch query unique") (auto simp: scryfall_search_def, blast)
qed

section \<open>Tagging\<close>

definition tagged :: "(tag_row \<Rightarrow> pstr) \<Rightarrow> pstr \<Rightarrow> pstr list \<Rightarrow> tag_row \<Rightarrow> tag_row" where
  "tagged key is_tag keys row = (if tag_matches key is_tag keys row then row\<lparr>t_tags := dict_set (t_tags row) is_tag True\<rparr> else row)"

text \<open>The key of a row is not changed by tags.\<close>

definition tag_key :: "(tag_row \<Rightarrow> pstr) \<Rightarrow> bool" where
  "tag_key key \<longleftrightarrow> (\<forall>row ts. key (row\<lparr>t_tags := ts\<rparr>) = key row)"

lemma tag_update_eq:
  "tag_update key t (n, rows) b = (n + length (filter (tag_matches key t b) rows), map (tagged key t b) rows)"
  by (simp add: tag_update_def tagged_def [abs_def])

lemma tag_matches_tagged:
  "tag_key key \<Longrightarrow> tag_matches key t b (tagged key t ks row) \<longleftrightarrow> tag_matches key t b row \<and> \<not> tag_matches key t ks row"
  by (auto simp: tagged_def tag_matches_def tag_key_def)

lemma tagged_tagged: "tag_key key \<Longrightarrow> tagged key t b (tagged key t ks row) = tagged key t (ks @ b) row"
  by (auto simp: tagged_def tag_matches_def tag_key_def)

lemma length_filter_split:
  "length (filter (\<lambda>x. P x \<or> Q x) xs) = length (filter P xs) + length (filter (\<lambda>x. Q x \<and> \<not> P x) xs)"
  by (induction xs) auto

lemma tag_batches:
  assumes "tag_key key"
  shows "foldl (tag_update key t) (0, rows) bs =
    (length (filter (tag_matches key t (concat bs)) rows), map (tagged key t (concat bs)) rows)"
proof (induction bs rule: rev_induct)
  case Nil
  show ?case by (simp add: tag_matches_def tagged_def map_idI)
next
  case (snoc b bs)
  have "tag_matches key t (concat bs @ b) = (\<lambda>row. tag_matches key t (concat bs) row \<or> tag_matches key t b row)"
    by (auto simp: tag_matches_def fun_eq_iff)
  then show ?case
    using assms length_filter_split [of "tag_matches key t (concat bs)" "tag_matches key t b" rows]
    by (simp add: snoc tag_update_eq tag_matches_tagged tagged_tagged filter_map comp_def)
qed

lemma set_sorted_set [simp]: "set (sorted_set xs) = set xs"
  by (simp add: sorted_set_def)

lemma add_tag_batches_spec:
  assumes "tag_key key"
  shows "add_tag_batches key t keys rows = (length (filter (tag_matches key t keys) rows), map (tagged key t keys) rows)"
proof -
  have "tag_matches key t (sorted_set keys) = tag_matches key t keys" "tagged key t (sorted_set keys) = tagged key t keys"
    by (simp_all add: fun_eq_iff tag_matches_def tagged_def)
  then show ?thesis unfolding add_tag_batches_def tag_batches [OF assms] by (simp add: concat_batched)
qed

lemma tag_keys: "tag_key t_name" "tag_key t_id"
  by (simp_all add: tag_key_def)

text \<open>
  C26: Tagging the cards or printings a search finds. When the pages arrive, exactly the rows named by them get the tag, every other row and
  every other tag of a row stay as they are, the count is the number of rows that did not have the tag, and doing
  it again changes nothing.
\<close>

theorem add_is_tag_exact:
  assumes "sends fetch 0 (First (full_query (u ''is:'' @ t) (u (if t \<in> set CARD_IS_TAGS then ''cards'' else ''printings'')))) ps (Reply p)"
    and "final_page p" and "t \<noteq> []" and "t \<notin> set CUSTOM_IS_TAGS"
    and "mapr (text_field (if t \<in> set CARD_IS_TAGS then ''name'' else ''id'')) (cards_of (ps @ [p])) = Inr keys"
  defines "key \<equiv> (if t \<in> set CARD_IS_TAGS then t_name else t_id)"
  shows "\<exists>rows'. add_is_tag_to_cards_or_printings fetch t rows =
      Some (Inr \<lparr>tag_updated = length (filter (tag_matches key t keys) rows), tag_found = card (set keys)\<rparr>, rows') \<and>
    list_all2 (\<lambda>row row'. t_name row' = t_name row \<and> t_id row' = t_id row \<and>
      map_of (t_tags row') = (if key row \<in> set keys then (map_of (t_tags row))(t \<mapsto> True) else map_of (t_tags row))) rows rows' \<and>
    add_is_tag_to_cards_or_printings fetch t rows' = Some (Inr \<lparr>tag_updated = 0, tag_found = card (set keys)\<rparr>, rows')"
proof -
  have key: "tag_key key" using tag_keys by (simp add: key_def)
  have found: "length (sorted_set keys) = card (set keys)" by (simp add: sorted_set_def length_remdups_card_conv)
  have run: "add_is_tag_to_cards_or_printings fetch t rows0 =
      Some (Inr \<lparr>tag_updated = length (filter (tag_matches key t keys) rows0), tag_found = card (set keys)\<rparr>, map (tagged key t keys) rows0)" for rows0
    using assms(3,4,5) scryfall_search_complete [OF assms(1,2)] found add_tag_batches_spec [OF key, of t keys rows0]
    by (cases "t \<in> set CARD_IS_TAGS")
      (simp_all add: add_is_tag_to_cards_or_printings_def add_is_tag_with_def key_def)
  have "filter (tag_matches key t keys) (map (tagged key t keys) rows) = []"
    using tag_matches_tagged [OF key, of t keys keys] by (auto simp: filter_empty_conv)
  moreover have "map (tagged key t keys) (map (tagged key t keys) rows) = map (tagged key t keys) rows"
    using tagged_tagged [OF key, of t keys keys] by (auto simp: tagged_def tag_matches_def)
  moreover have "list_all2 (\<lambda>row row'. t_name row' = t_name row \<and> t_id row' = t_id row \<and>
      map_of (t_tags row') = (if key row \<in> set keys then (map_of (t_tags row))(t \<mapsto> True) else map_of (t_tags row)))
      rows (map (tagged key t keys) rows)"
    by (auto simp: list_all2_conv_all_nth tagged_def tag_matches_def fun_eq_iff)
  ultimately show ?thesis using run [of rows] run [of "map (tagged key t keys) rows"] by simp
qed

definition sample_tag_rows :: "tag_row list" where
  "sample_tag_rows = [\<lparr>t_name = u ''x'', t_id = u ''a'', t_tags = []\<rparr>, \<lparr>t_name = u ''y'', t_id = u ''c'', t_tags = []\<rparr>]"

theorem add_is_tag_exact_witness:
  "\<exists>rows'. add_is_tag_to_cards_or_printings (sample_fetch (Reply (sample_page False (u ''b'')))) (u ''promo'') sample_tag_rows =
     Some (Inr \<lparr>tag_updated = 1, tag_found = 2\<rparr>, rows')"
proof -
  let ?f = "sample_fetch (Reply (sample_page False (u ''b'')))"
  have tag: "u ''promo'' \<noteq> []" "u ''promo'' \<notin> set CUSTOM_IS_TAGS" "(u ''promo'' \<in> set CARD_IS_TAGS) = False" by code_simp+
  have keys: "mapr (text_field (if u ''promo'' \<in> set CARD_IS_TAGS then ''name'' else ''id''))
      (cards_of ([sample_page True (u ''a'')] @ [sample_page False (u ''b'')])) = Inr [u ''a'', u ''b'']"
    by code_simp
  have fin: "final_page (sample_page False (u ''b''))" by (simp add: final_page_def sample_page_def)
  have one: "length (filter (tag_matches t_id (u ''promo'') [u ''a'', u ''b'']) sample_tag_rows) = 1" by code_simp
  have two: "card (set [u ''a'', u ''b'']) = 2" by simp
  from add_is_tag_exact [OF sample_sends fin tag(1,2) keys, of sample_tag_rows]
  show ?thesis unfolding tag(3) if_False one two by blast
qed

text \<open>The tags found in the documentation.\<close>

lemma find_is_tags_sound: "t \<in> set (find_is_tags s) \<Longrightarrow> t \<noteq> [] \<and> list_all tag_char t \<and> sublist (u ''is:'' @ t) s"
proof (induction s rule: find_is_tags.induct)
  case (2 c s)
  let ?rest = "drop 2 s" and ?tag = "takeWhile tag_char (drop 2 s)"
  have tail: "sublist x (c # s)" if "sublist x (drop n s)" for x n
    using that by (meson sublist_Cons_right sublist_drop sublist_order.order.trans)
  show ?case
  proof (cases "prefix (u ''is:'') (c # s) \<and> ?tag \<noteq> []")
    case True
    have "c # s = u ''is:'' @ ?tag @ dropWhile tag_char ?rest"
      using True by (cases s; cases "tl s") auto
    then have "sublist (u ''is:'' @ ?tag) (c # s)" by (metis append_assoc sublist_append_rightI)
    with True 2 tail [of _ "2 + length ?tag"] show ?thesis
      by (auto simp: Let_def list_all_iff dest: set_takeWhileD)
  next
    case False
    then have "t \<in> set (find_is_tags s)" using "2.prems" by (auto simp: Let_def)
    with "2.IH"(2) [OF refl refl] False tail [of _ 0] show ?thesis by auto
  qed
qed simp

lemma tags_loop_accounts:
  "tags_loop fetch ts acc rows = Some (Inr a, rows') \<Longrightarrow>
   mset (map fst (imported a)) + mset (failed a) = mset (map fst (imported acc)) + mset (failed acc) + mset ts \<and>
   (tags_updated acc = sum_list (map (\<lambda>i. tag_updated (snd i)) (imported acc)) \<longrightarrow>
    tags_updated a = sum_list (map (\<lambda>i. tag_updated (snd i)) (imported a)))"
proof (induction fetch ts acc rows rule: tags_loop.induct)
  case (2 fetch t ts acc rows)
  then show ?case by (fastforce split: option.splits sum.splits if_splits prod.splits)
qed simp

text \<open>
  The import of all tags accounts for every tag: each tag found in the documentation is either imported or failed, exactly once, and the
  total is the sum of the rows updated for each.
\<close>

theorem import_all_is_tags_accounts:
  assumes "import_all_is_tags fetch docs rows = Some (Inr (Some a), rows')"
  shows "\<exists>t. docs = Some t \<and> mset (map fst (imported a)) + mset (failed a) = mset (sorted_set (map py_lower (find_is_tags t))) \<and>
    tags_updated a = sum_list (map (\<lambda>i. tag_updated (snd i)) (imported a))"
proof -
  from assms obtain t where t: "docs = Some t"
    and run: "tags_loop fetch (sorted_set (map py_lower (find_is_tags t))) \<lparr>imported = [], failed = [], tags_updated = 0\<rparr> rows = Some (Inr a, rows')"
    by (auto simp: import_all_is_tags_def discover_is_tags_from_syntax_def bindr_Inr_iff split: option.splits list.splits sum.splits if_splits)
  from tags_loop_accounts [OF run] t show ?thesis by simp
qed

section \<open>CubeCobra\<close>

text \<open>The value of a row after the pages: that of the last page that has its identifier.\<close>

definition cube_value :: "(pstr \<Rightarrow> 'u option) \<Rightarrow> 'u set \<Rightarrow> ('u, 'v) cube_row \<Rightarrow> 'v cube_card list \<Rightarrow> ('v \<times> 'v \<times> 'v) option" where
  "cube_value uuid_of db_ids row cards =
     (case row_oracle_id row of None \<Rightarrow> None | Some i \<Rightarrow> map_of (cube_page uuid_of db_ids cards) i)"

definition cube_apply :: "(pstr \<Rightarrow> 'u option) \<Rightarrow> 'u set \<Rightarrow> 'v cube_card list \<Rightarrow> ('u, 'v) cube_row \<Rightarrow> ('u, 'v) cube_row" where
  "cube_apply uuid_of db_ids cards row =
     (case cube_value uuid_of db_ids row cards of None \<Rightarrow> row | Some v \<Rightarrow> row\<lparr>row_cube := v\<rparr>)"

lemma insert_cube_eq:
  "insert_cubecobra_data (cube_page uuid_of db_ids cards) rows =
     (length (filter (\<lambda>row. cube_value uuid_of db_ids row cards \<noteq> None) rows), map (cube_apply uuid_of db_ids cards) rows)"
  by (simp add: insert_cubecobra_data_def cube_apply_def [abs_def] cube_value_def)

lemma cube_value_apply: "cube_value uuid_of db_ids (cube_apply uuid_of db_ids c row) cards = cube_value uuid_of db_ids row cards"
  by (simp add: cube_value_def cube_apply_def split: option.splits)

lemma cube_value_fold: "cube_value uuid_of db_ids (fold (cube_apply uuid_of db_ids) ps row) cards = cube_value uuid_of db_ids row cards"
  by (induction ps arbitrary: row) (simp_all add: cube_value_apply)

lemma ingest_loop_pages:
  assumes "[] \<notin> set ps"
  shows "ingest_loop uuid_of db_ids (map Some ps @ rest) n rows =
    ingest_loop uuid_of db_ids rest
      (if ps = [] then n else Some (length (filter (\<lambda>row. cube_value uuid_of db_ids row (last ps) \<noteq> None) rows)))
      (map (fold (cube_apply uuid_of db_ids) ps) rows)"
  using assms
proof (induction ps arbitrary: n rows)
  case (Cons p ps)
  then show ?case
    by (auto simp: insert_cube_eq comp_def cube_value_apply filter_map)
qed (simp add: map_idI)

lemma fold_cube_apply:
  "row_oracle_id (fold (cube_apply uuid_of db_ids) ps row) = row_oracle_id row"
  "row_cube (fold (cube_apply uuid_of db_ids) ps row) =
     (case List.find (\<lambda>p. cube_value uuid_of db_ids row p \<noteq> None) (rev ps) of
        None \<Rightarrow> row_cube row | Some p \<Rightarrow> the (cube_value uuid_of db_ids row p))"
proof -
  show "row_oracle_id (fold (cube_apply uuid_of db_ids) ps row) = row_oracle_id row"
    by (induction ps arbitrary: row) (auto simp: cube_apply_def split: option.splits)
  show "row_cube (fold (cube_apply uuid_of db_ids) ps row) =
     (case List.find (\<lambda>p. cube_value uuid_of db_ids row p \<noteq> None) (rev ps) of
        None \<Rightarrow> row_cube row | Some p \<Rightarrow> the (cube_value uuid_of db_ids row p))"
  proof (induction ps rule: rev_induct)
    case (snoc p ps)
    then show ?case by (auto simp: cube_apply_def [of _ _ p] cube_value_fold split: option.splits)
  qed simp
qed

text \<open>
  The ingestion of CubeCobra data. When the pages are followed by an empty one, every row gets the values of the last page that
  has its oracle identifier and a row no page has stays as it is; but the number reported is that of the rows of the last page
  only, and without any page the code raises on the variable it never set.
\<close>

theorem ingest_cubecobra_result:
  fixes rows :: "('u, 'v) cube_row list"
  assumes "[] \<notin> set ps"
  defines "db_ids \<equiv> {i. Some i \<in> row_oracle_id ` set rows}"
  shows "\<exists>rows'. ingest_cubecobra uuid_of (map Some ps @ Some [] # rest) rows =
      Some (if ps = [] then (Inl UnboundLocalError, False, rows')
            else (Inr (length (filter (\<lambda>row. cube_value uuid_of db_ids row (last ps) \<noteq> None) rows)), True, rows')) \<and>
    list_all2 (\<lambda>row row'. row_oracle_id row' = row_oracle_id row \<and>
      row_cube row' = (case List.find (\<lambda>p. cube_value uuid_of db_ids row p \<noteq> None) (rev ps) of
        None \<Rightarrow> row_cube row | Some p \<Rightarrow> the (cube_value uuid_of db_ids row p))) rows rows'"
proof -
  have "list_all2 (\<lambda>row row'. row_oracle_id row' = row_oracle_id row \<and>
      row_cube row' = (case List.find (\<lambda>p. cube_value uuid_of db_ids row p \<noteq> None) (rev ps) of
        None \<Rightarrow> row_cube row | Some p \<Rightarrow> the (cube_value uuid_of db_ids row p))) rows (map (fold (cube_apply uuid_of db_ids) ps) rows)"
    by (simp add: list_all2_conv_all_nth fold_cube_apply)
  then show ?thesis
    using ingest_loop_pages [OF assms(1), of uuid_of db_ids "Some [] # rest" None rows]
    by (auto simp: ingest_cubecobra_def db_ids_def)
qed

definition sample_cube :: "pstr \<Rightarrow> nat \<Rightarrow> nat cube_card" where
  "sample_cube i n = \<lparr>cube_oracle_id = Some i, cube_elo = n, cube_count = n, cube_picks = n\<rparr>"

definition sample_cube_rows :: "(pstr, nat) cube_row list" where
  "sample_cube_rows = [\<lparr>row_oracle_id = Some (u ''a''), row_cube = (0, 0, 0)\<rparr>, \<lparr>row_oracle_id = Some (u ''b''), row_cube = (0, 0, 0)\<rparr>]"

theorem ingest_cubecobra_result_witness:
  "\<exists>rows'. ingest_cubecobra Some [Some [sample_cube (u ''a'') 1, sample_cube (u ''b'') 2], Some [sample_cube (u ''b'') 3], Some []] sample_cube_rows =
     Some (Inr 1, True, rows')"
proof -
  let ?ps = "[[sample_cube (u ''a'') 1, sample_cube (u ''b'') 2], [sample_cube (u ''b'') 3]]"
  have ids: "{i. Some i \<in> row_oracle_id ` set sample_cube_rows} = {u ''a'', u ''b''}" by (auto simp: sample_cube_rows_def)
  have one: "length (filter (\<lambda>row. cube_value Some {u ''a'', u ''b''} row (last ?ps) \<noteq> None) sample_cube_rows) = 1" by code_simp
  from ingest_cubecobra_result [of ?ps Some "[]" sample_cube_rows] show ?thesis unfolding ids one by auto
qed

end
