(* ===== verification/Request_Timer.thy ===== *)
theory Request_Timer
  imports Complex_Main Py_Prelude
begin

text \<open>
  The hierarchical timer of \<open>src/api/utils/timer.py\<close>. The nested dictionaries are a tree, and the references the timer keeps into
  them are paths from the root. Times are rational numbers; \<open>get_timings\<close> rounds a copy for display and \<open>reset\<close> is not used
  while a block is open, so neither is part of the model.
\<close>

section \<open>The timings\<close>

text \<open>
  A node: its metadata (count and duration; the duration in milliseconds and the frequency are computed from them) and its
  children by name.
\<close>

datatype timing = Timing (meta: "(nat \<times> rat) option") (children: "(pstr \<times> timing) list")

definition new_timing :: timing where
  "new_timing = Timing None []"

fun child :: "timing \<Rightarrow> pstr \<Rightarrow> timing" where
  "child (Timing m cs) n = (case map_of cs n of None \<Rightarrow> new_timing | Some t \<Rightarrow> t)"

text \<open>The node at a path, created on the way, changed.\<close>

fun at_path :: "(timing \<Rightarrow> timing) \<Rightarrow> pstr list \<Rightarrow> timing \<Rightarrow> timing" where
  "at_path f [] t = f t"
| "at_path f (n # ns) (Timing m cs) = Timing m (dict_set cs n (at_path f ns (child (Timing m cs) n)))"

fun meta_at :: "pstr list \<Rightarrow> timing \<Rightarrow> (nat \<times> rat) option" where
  "meta_at [] t = meta t"
| "meta_at (n # ns) t = meta_at ns (child t n)"

record timer =
  timings :: timing
  enter_times :: "rat list"
  ptrs :: "pstr list list"

definition new_timer :: timer where
  "new_timer = \<lparr>timings = new_timing, enter_times = [], ptrs = [[]]\<rparr>"

text \<open>Both stacks have their top first.\<close>

definition timer_call :: "pstr \<Rightarrow> timer \<Rightarrow> timer result" where
  "timer_call checkpoint_name tm =
     (case ptrs tm of
        [] \<Rightarrow> Inl IndexError
      | cur_ptr # rest \<Rightarrow>
          let new_ptr = cur_ptr @ [checkpoint_name]
          in Inr (tm\<lparr>timings := at_path (\<lambda>t. t) new_ptr (timings tm), ptrs := new_ptr # cur_ptr # rest\<rparr>))"

definition timer_enter :: "rat \<Rightarrow> timer \<Rightarrow> timer" where
  "timer_enter time_val tm = tm\<lparr>enter_times := time_val # enter_times tm\<rparr>"

definition add_duration :: "rat \<Rightarrow> timing \<Rightarrow> timing" where
  "add_duration d t =
     (let (n, secs) = (case meta t of None \<Rightarrow> (0, 0) | Some m \<Rightarrow> m) in Timing (Some (Suc n, d + secs)) (children t))"

text \<open>
  \<open>__exit__\<close>: the division for the frequency comes after the new count and duration are stored and before the reference
  is popped. The state is returned with the exception, for the timer lives on.
\<close>

definition timer_exit :: "rat \<Rightarrow> timer \<Rightarrow> exn option \<times> timer" where
  "timer_exit time_val tm =
     (case (enter_times tm, ptrs tm) of
        (start # starts, cur_ptr # rest) \<Rightarrow>
          let tm = tm\<lparr>enter_times := starts, timings := at_path (add_duration (time_val - start)) cur_ptr (timings tm)\<rparr>
          in if map_option snd (meta_at cur_ptr (timings tm)) = Some 0 then (Some ZeroDivisionError, tm)
             else (None, tm\<lparr>ptrs := rest\<rparr>)
      | (start # starts, []) \<Rightarrow> (Some IndexError, tm\<lparr>enter_times := starts\<rparr>)
      | ([], _) \<Rightarrow> (Some IndexError, tm))"

section \<open>Nested blocks\<close>

text \<open>A program of timed blocks: a block has a name, the time it is entered, its inner blocks and the time it is left.\<close>

datatype block = Block pstr rat "block list" rat

fun run_block :: "block \<Rightarrow> timer \<Rightarrow> timer result" and run_blocks :: "block list \<Rightarrow> timer \<Rightarrow> timer result" where
  "run_block (Block n start inner stop) tm =
     bindr (timer_call n tm) (\<lambda>tm.
     bindr (run_blocks inner (timer_enter start tm)) (\<lambda>tm.
     case timer_exit stop tm of (None, tm) \<Rightarrow> Inr tm | (Some e, tm) \<Rightarrow> Inl e))"
| "run_blocks [] tm = Inr tm"
| "run_blocks (b # bs) tm = bindr (run_block b tm) (\<lambda>tm. run_blocks bs tm)"

text \<open>What was timed: the path and the duration of each block.\<close>

fun timed :: "pstr list \<Rightarrow> block \<Rightarrow> (pstr list \<times> rat) list" and timed_all :: "pstr list \<Rightarrow> block list \<Rightarrow> (pstr list \<times> rat) list" where
  "timed p (Block n start inner stop) = timed_all (p @ [n]) inner @ [(p @ [n], stop - start)]"
| "timed_all p [] = []"
| "timed_all p (b # bs) = timed p b @ timed_all p bs"

definition summary :: "(pstr list \<times> rat) list \<Rightarrow> pstr list \<Rightarrow> (nat \<times> rat) option" where
  "summary ds p =
     (let own = filter (\<lambda>d. fst d = p) ds
      in if own = [] then None else Some (length own, sum_list (map snd own)))"

fun positive :: "block \<Rightarrow> bool" where
  "positive (Block n start inner stop) \<longleftrightarrow> start < stop \<and> list_all positive inner"

section \<open>Paths\<close>

definition meta_add :: "rat \<Rightarrow> (nat \<times> rat) option \<Rightarrow> (nat \<times> rat) option" where
  "meta_add d m = (case m of None \<Rightarrow> Some (1, d) | Some (n, secs) \<Rightarrow> Some (Suc n, d + secs))"

definition tally :: "(pstr list \<times> rat) list \<Rightarrow> (pstr list \<Rightarrow> (nat \<times> rat) option) \<Rightarrow> pstr list \<Rightarrow> (nat \<times> rat) option" where
  "tally = fold (\<lambda>(p, d) f. f(p := meta_add d (f p)))"

lemma child_new [simp]: "child new_timing n = new_timing"
  by (simp add: new_timing_def)

lemma meta_new [simp]: "meta new_timing = None"
  by (simp add: new_timing_def)

lemma meta_at_new [simp]: "meta_at p new_timing = None"
  by (induction p) simp_all

lemma child_at_path [simp]: "child (at_path f (n # ns) t) k = (if k = n then at_path f ns (child t n) else child t k)"
  by (cases t) simp

lemma meta_at_at_path:
  assumes "\<And>t. children (f t) = children t" and "\<And>t. meta (f t) = g (meta t)"
  shows "meta_at p (at_path f q t) = (if p = q then g (meta_at q t) else meta_at p t)"
  using assms
proof (induction q arbitrary: p t)
  case Nil
  show ?case
  proof (cases p)
    case (Cons n ns)
    have "child (f t) n = child t n" for n
      by (cases t; cases "f t") (use Nil.prems(1) [of t] in simp)
    then show ?thesis
      using Cons by simp
  qed (simp add: Nil.prems)
next
  case (Cons k ks)
  then show ?case
    by (cases p; cases t) simp_all
qed

lemma meta_at_create: "meta_at p (at_path (\<lambda>t. t) q t) = meta_at p t"
  using meta_at_at_path [of "\<lambda>t. t" "\<lambda>m. m"] by simp

lemma meta_at_add: "(\<lambda>p. meta_at p (at_path (add_duration d) q t)) = tally [(q, d)] (\<lambda>p. meta_at p t)"
proof
  fix p
  show "meta_at p (at_path (add_duration d) q t) = tally [(q, d)] (\<lambda>p. meta_at p t) p"
    by (subst meta_at_at_path [where g = "meta_add d"])
      (auto simp: add_duration_def meta_add_def tally_def split: option.splits prod.splits)
qed

lemma tally_append [simp]: "tally (ds @ es) f = tally es (tally ds f)"
  by (simp add: tally_def)

lemma tally_Nil [simp]: "tally [] f = f"
  by (simp add: tally_def)

text \<open>Durations recorded so far are positive.\<close>

definition positive_metas :: "(pstr list \<Rightarrow> (nat \<times> rat) option) \<Rightarrow> bool" where
  "positive_metas f \<longleftrightarrow> (\<forall>p n d. f p = Some (n, d) \<longrightarrow> 0 < d)"

lemma positive_metas_tally: "positive_metas f \<Longrightarrow> list_all (\<lambda>d. 0 < snd d) ds \<Longrightarrow> positive_metas (tally ds f)"
proof (induction ds arbitrary: f)
  case (Cons d ds)
  have "positive_metas (f(fst d := meta_add (snd d) (f (fst d))))"
    using Cons.prems by (auto simp: positive_metas_def meta_add_def split: option.splits intro: add_pos_pos)
  then show ?case
    using Cons by (simp add: tally_def case_prod_beta)
qed simp

lemma timed_positive:
  "positive b \<Longrightarrow> list_all (\<lambda>d. 0 < snd d) (timed p b)"
  "list_all positive bs \<Longrightarrow> list_all (\<lambda>d. 0 < snd d) (timed_all p bs)"
  by (induction p b and p bs rule: timed_timed_all.induct) auto

section \<open>Running blocks\<close>

definition counts :: "timer \<Rightarrow> pstr list \<Rightarrow> (nat \<times> rat) option" where
  "counts tm = (\<lambda>p. meta_at p (timings tm))"

text \<open>What a block leaves behind: the stacks as they were and the tally of what was timed.\<close>

definition leaves :: "timer \<Rightarrow> (pstr list \<times> rat) list \<Rightarrow> timer result \<Rightarrow> bool" where
  "leaves tm ds r \<longleftrightarrow>
     (\<exists>tm'. r = Inr tm' \<and> enter_times tm' = enter_times tm \<and> ptrs tm' = ptrs tm \<and> counts tm' = tally ds (counts tm))"

lemma timer_exit_ok:
  assumes "enter_times tm = start # starts" and "ptrs tm = p # rest" and "positive_metas (counts tm)" and "start < stop"
  shows "\<exists>tm'. timer_exit stop tm = (None, tm') \<and> enter_times tm' = starts \<and> ptrs tm' = rest \<and>
           counts tm' = tally [(p, stop - start)] (counts tm)"
proof -
  let ?t = "at_path (add_duration (stop - start)) p (timings tm)"
  have m: "(\<lambda>q. meta_at q ?t) = tally [(p, stop - start)] (counts tm)"
    by (simp add: meta_at_add counts_def)
  have "positive_metas (\<lambda>q. meta_at q ?t)"
    unfolding m using assms by (intro positive_metas_tally) simp_all
  then have "map_option snd (meta_at p ?t) \<noteq> Some 0"
    by (auto simp: positive_metas_def)
  then show ?thesis
    using assms(1,2) m by (simp add: timer_exit_def counts_def)
qed

lemma run_leaves:
  "positive b \<Longrightarrow> ptrs tm = p # rest \<Longrightarrow> positive_metas (counts tm) \<Longrightarrow> leaves tm (timed p b) (run_block b tm)"
  "list_all positive bs \<Longrightarrow> ptrs tm = p # rest \<Longrightarrow> positive_metas (counts tm) \<Longrightarrow> leaves tm (timed_all p bs) (run_blocks bs tm)"
proof (induction b tm and bs tm arbitrary: p rest and p rest rule: run_block_run_blocks.induct)
  case (1 n start inner stop tm)
  let ?q = "p @ [n]"
  define tm1 where "tm1 = tm\<lparr>timings := at_path (\<lambda>t. t) ?q (timings tm), ptrs := ?q # p # rest\<rparr>"
  have call: "timer_call n tm = Inr tm1"
    using 1 by (simp add: timer_call_def tm1_def Let_def)
  have c: "counts (timer_enter start tm1) = counts tm"
    by (simp add: counts_def tm1_def timer_enter_def meta_at_create)
  have pt: "ptrs (timer_enter start tm1) = ?q # p # rest"
    by (simp add: tm1_def timer_enter_def)
  obtain tm2 where r: "run_blocks inner (timer_enter start tm1) = Inr tm2"
      and e: "enter_times tm2 = start # enter_times tm" "ptrs tm2 = ?q # p # rest"
      and k: "counts tm2 = tally (timed_all ?q inner) (counts tm)"
    using "1.IH" [OF call, of ?q "p # rest"] 1 c pt by (auto simp: leaves_def timer_enter_def tm1_def)
  have "positive_metas (counts tm2)"
    unfolding k using 1 by (intro positive_metas_tally timed_positive) simp_all
  then obtain tm3 where "timer_exit stop tm2 = (None, tm3)" "enter_times tm3 = enter_times tm" "ptrs tm3 = p # rest"
      "counts tm3 = tally [(?q, stop - start)] (counts tm2)"
    using timer_exit_ok [OF e, of stop] 1 by auto
  then show ?case
    using call r k 1 by (simp add: leaves_def bindr_def)
next
  case (3 b bs tm)
  obtain tm1 where r: "run_block b tm = Inr tm1" and e: "enter_times tm1 = enter_times tm" "ptrs tm1 = p # rest"
      and k: "counts tm1 = tally (timed p b) (counts tm)"
    using 3 by (auto simp: leaves_def)
  have "positive_metas (counts tm1)"
    unfolding k using 3 by (intro positive_metas_tally timed_positive) simp_all
  then have "leaves tm1 (timed_all p bs) (run_blocks bs tm1)"
    using 3 r e by simp
  then show ?case
    using r e k 3 by (simp add: leaves_def bindr_def)
qed (simp_all add: leaves_def)

lemma tally_summary: "tally ds (\<lambda>p. None) = summary ds"
proof (induction ds rule: rev_induct)
  case (snoc d ds)
  show ?case
    by (rule ext) (cases d, auto simp: snoc.IH, auto simp: tally_def summary_def meta_add_def Let_def)
qed (simp add: summary_def tally_def)

text \<open>
  Blocks that each take some time leave the timer with the stacks it started with, and every path then has the number of
  blocks timed under it and the sum of their durations, however the blocks are nested and repeated.
\<close>

theorem timer_sums:
  assumes "list_all positive bs"
  shows "\<exists>tm. run_blocks bs new_timer = Inr tm \<and> enter_times tm = [] \<and> ptrs tm = [[]] \<and>
           (\<forall>p. meta_at p (timings tm) = summary (timed_all [] bs) p)"
proof -
  have c: "counts new_timer = (\<lambda>p. None)"
    by (simp add: counts_def new_timer_def)
  have "leaves new_timer (timed_all [] bs) (run_blocks bs new_timer)"
    by (rule run_leaves(2) [OF assms]) (simp_all add: new_timer_def positive_metas_def counts_def)
  then show ?thesis
    by (auto simp: leaves_def c tally_summary new_timer_def counts_def fun_eq_iff)
qed

lemma timer_sums_witness:
  "\<exists>tm. run_blocks [Block [97] 0 [Block [98] 1 [] 2, Block [98] 3 [] 5] 6, Block [97] 7 [] 8] new_timer = Inr tm \<and>
     meta_at [[97]] (timings tm) = Some (2, 7) \<and> meta_at [[97], [98]] (timings tm) = Some (2, 3)"
  using timer_sums [of "[Block [97] 0 [Block [98] 1 [] 2, Block [98] 3 [] 5] 6, Block [97] 7 [] 8]"]
  by (fastforce simp: summary_def)

text \<open>
  A block that takes no measurable time raises \<open>ZeroDivisionError\<close> on leaving, and the reference to its node stays on the
  stack: later blocks are then filed under it.
\<close>

theorem instant_block_fails:
  "\<exists>tm. bindr (timer_call n new_timer) (\<lambda>tm. Inr (timer_exit t (timer_enter t tm))) = Inr (Some ZeroDivisionError, tm) \<and>
     ptrs tm = [[n], []]"
proof -
  have "meta_at [n] (at_path (add_duration 0) [n] (at_path (\<lambda>t. t) [n] new_timing)) = Some (1, 0)"
    by (simp add: add_duration_def)
  then show ?thesis
    by (simp add: timer_call_def timer_enter_def timer_exit_def new_timer_def Let_def)
qed

end
