(* ===== verification/Query_Sampler.thy ===== *)
theory Query_Sampler
  imports Complex_Main Search_Service "HOL-Library.List_Lexorder"
begin

text \<open>
  The generator of queries of \<open>src/client/query_sampler.py\<close>, which load tests and benchmarks draw from: its tables, the universe of
  values it reads from a corpus or from built-in tables, and the drawing of predicates, queries and result parameters. Floating-point
  numbers are rational numbers here, so that their arithmetic is exact. The random source is an argument with an explicit state; what is computed
  from it (\<open>choices\<close>, \<open>choice\<close>, \<open>randint\<close>) is modelled as Python's \<open>random\<close> computes it.
\<close>

section \<open>Tables\<close>

definition MODES :: "string list" where
  "MODES = [''realistic'', ''uniform'']"

definition NUMERIC_COLUMNS :: "(string \<times> string) list" where
  "NUMERIC_COLUMNS =
     [(''usd'', ''price_usd''), (''eur'', ''price_eur''), (''tix'', ''price_tix''), (''cn'', ''collector_number_int''),
      (''released'', ''released_at''), (''pow'', ''creature_power''), (''tou'', ''creature_toughness''), (''cmc'', ''cmc''),
      (''loyalty'', ''planeswalker_loyalty'')]"

definition RANGE_OPS :: "string list" where
  "RANGE_OPS =
     [''<'', ''<='', ''>'', ''>='', '':'']"

definition NUMERIC_OPS :: "string list" where
  "NUMERIC_OPS =
     [''<'', ''<='', ''>'', ''>='', ''='']"

definition BOUNDED_FRACTION :: rat where
  "BOUNDED_FRACTION = 1 / 4"

definition YEAR_FRACTION :: rat where
  "YEAR_FRACTION = 3 / 5"

definition MIN_NUMERIC_THRESHOLD :: int where
  "MIN_NUMERIC_THRESHOLD = 0"

definition REALISTIC_FAMILY_WEIGHTS :: "(string \<times> rat) list" where
  "REALISTIC_FAMILY_WEIGHTS =
     [(''name'', 20), (''oracle'', 18), (''type'', 14), (''legality'', 8), (''identity'', 6), (''color'', 6), (''set'', 5),
      (''rarity'', 4), (''keyword'', 4), (''pow'', 7 / 2), (''tou'', 3), (''cmc'', 3), (''released'', 3), (''usd'', 5 / 2),
      (''tag'', 3 / 2), (''artist'', 3 / 2), (''arith'', 3 / 2), (''produces'', 3 / 2), (''loyalty'', 1), (''eur'', 1),
      (''tix'', 1), (''cn'', 1 / 2), (''border'', 1 / 2), (''frame'', 1 / 2), (''watermark'', 1 / 2), (''devotion'', 1 / 2),
      (''flavor'', 1 / 2)]"

definition REALISTIC_UNIQUE_WEIGHTS :: "(string \<times> rat) list" where
  "REALISTIC_UNIQUE_WEIGHTS =
     [(''card'', 75), (''printing'', 20), (''artwork'', 5)]"

definition ENGINE_ORDERBYS :: "string set" where
  "ENGINE_ORDERBYS = {''cmc'', ''cubecobra'', ''edhrec'', ''name'', ''power'', ''rarity'', ''toughness'', ''usd''}"

definition REALISTIC_ORDERBY_WEIGHTS :: "(string \<times> rat) list" where
  "REALISTIC_ORDERBY_WEIGHTS =
     [(''edhrec'', 40), (''name'', 15), (''cmc'', 10), (''usd'', 10), (''rarity'', 8), (''power'', 6), (''toughness'', 5),
      (''cubecobra'', 6)]"

definition REALISTIC_PREFER_WEIGHTS :: "(string \<times> rat) list" where
  "REALISTIC_PREFER_WEIGHTS =
     [(''default'', 85), (''newest'', 6), (''oldest'', 4), (''usd_low'', 3), (''usd_high'', 2)]"

definition REALISTIC_DIRECTION_WEIGHTS :: "(string \<times> rat) list" where
  "REALISTIC_DIRECTION_WEIGHTS =
     [(''asc'', 85), (''desc'', 15)]"

definition REALISTIC_OFFSET_WEIGHTS :: "(int \<times> rat) list" where
  "REALISTIC_OFFSET_WEIGHTS =
     [(0, 90), (100, 7), (700, 3)]"

definition PREDICATE_COUNT_WEIGHTS :: "(nat \<times> rat) list" where
  "PREDICATE_COUNT_WEIGHTS =
     [(1, 45), (2, 40), (3, 15)]"

definition STATIC_VALUES :: "(string \<times> string list) list" where
  "STATIC_VALUES =
     [(''tag'',
        [''is:bear'', ''is:colorshifted'', ''is:dfc'', ''is:flip'', ''is:historic'', ''is:leveler'', ''is:manland'',
         ''is:mdfc'', ''is:meld'', ''is:new'', ''is:old'', ''is:outlaw'', ''is:party'', ''is:permanent'', ''is:split'',
         ''is:transform'', ''is:vanilla'']),
      (''devotion'',
        [''devotion:w'', ''devotion:u'', ''devotion:b'', ''devotion:r'', ''devotion:g'', ''devotion:www'', ''devotion:uuu'',
         ''devotion:rrr'']),
      (''arith'',
        [''power+toughness<6'', ''power+toughness>8'', ''cmc+1<pow'', ''pow>=tou'', ''cmc>=power'', ''toughness>power''])]"

definition VOCAB_PREFIXES :: "(string \<times> string) list" where
  "VOCAB_PREFIXES =
     [(''oracle'', ''o''), (''flavor'', ''ft''), (''keyword'', ''keyword''), (''artist'', ''a''), (''set'', ''set''),
      (''type'', ''t''), (''color'', ''c''), (''identity'', ''id''), (''legality'', ''f''), (''produces'', ''produces''),
      (''border'', ''border''), (''frame'', ''frame''), (''watermark'', ''watermark'')]"

definition RARITIES :: "string list" where
  "RARITIES =
     [''common'', ''uncommon'', ''rare'', ''mythic'', ''special'', ''bonus'']"

definition RARITY_OPS :: "string list" where
  "RARITY_OPS =
     ['':'', ''>='', ''<='']"

text \<open>\<open>BARE_VALUE_RE.match\<close>: the end of the pattern also matches before a final line break.\<close>

definition lower_alnum :: "nat \<Rightarrow> bool" where
  "lower_alnum c \<longleftrightarrow> 97 \<le> c \<and> c \<le> 122 \<or> 48 \<le> c \<and> c \<le> 57"

definition bare_value :: "pstr \<Rightarrow> bool" where
  "bare_value v =
     (let w = if v \<noteq> [] \<and> last v = 10 then butlast v else v in w \<noteq> [] \<and> list_all lower_alnum w)"

definition MIN_QUERY_WORD_LEN :: nat where
  "MIN_QUERY_WORD_LEN = 4"

definition MIN_WORD_ROWS :: nat where
  "MIN_WORD_ROWS = 30"

definition MAX_VOCAB :: nat where
  "MAX_VOCAB = 4000"

definition NAME_PREFIX_LEN :: "nat \<times> nat" where
  "NAME_PREFIX_LEN = (2, 6)"

definition NAME_PREFIX_FRACTION :: rat where
  "NAME_PREFIX_FRACTION = 1 / 2"

text \<open>The maximal runs of the characters of a class, and \<open>WORD_RE.findall\<close>: those of small letters that are long enough.\<close>

function runs :: "(nat \<Rightarrow> bool) \<Rightarrow> pstr \<Rightarrow> pstr list" where
  "runs p s =
     (case dropWhile (\<lambda>c. \<not> p c) s of
        [] \<Rightarrow> []
      | c # r \<Rightarrow> (c # takeWhile p r) # runs p (dropWhile p r))"
  by pat_completeness auto
termination
proof (relation "measure (\<lambda>(p, s). length s)", goal_cases)
  case (2 p s c r)
  have "length (dropWhile p r) \<le> length r" by (rule length_dropWhile_le)
  also have "length r < length (dropWhile (\<lambda>c. \<not> p c) s)" by (simp add: 2)
  also have "\<dots> \<le> length s" by (rule length_dropWhile_le)
  finally show ?case by simp
qed simp

declare runs.simps [simp del]

definition words_of :: "pstr \<Rightarrow> pstr list" where
  "words_of s = filter (\<lambda>w. MIN_QUERY_WORD_LEN \<le> length w) (runs (\<lambda>c. 97 \<le> c \<and> c \<le> 122) s)"

definition is_queryable_keyword :: "pstr \<Rightarrow> bool" where
  "is_queryable_keyword keyword \<longleftrightarrow> keyword = py_title keyword"

definition STRUCTURES :: "(string \<times> rat \<times> string) list" where
  "STRUCTURES =
     [(''single'', 23, ''{0}''), (''and2'', 18, ''{0} {1}''), (''and3'', 12, ''{0} {1} {2}''),
      (''and4'', 6, ''{0} {1} {2} {3}''), (''or2'', 9, ''{0} or {1}''), (''or3'', 4, ''{0} or {1} or {2}''),
      (''paren-or'', 9, ''({0} {1}) or ({2} {3})''), (''and-of-ors'', 3, ''({0} or {1}) ({2} or {3})''),
      (''and-or'', 7, ''{0} ({1} or {2})''), (''neg-and'', 4, ''-{0} {1}''), (''neg-or'', 2, ''{0} -({1} or {2})''),
      (''regex'', 1, ''{0} {1}'')]"

definition REGEX_FRAGMENTS :: "string list" where
  "REGEX_FRAGMENTS =
     [''name:/^gob/'', ''o:/draw .* cards?/'', ''name:/dragon$/'', ''o:/^flying$/'', ''name:/^[aeiou]/'', ''o:/sacrifice a/'']"

definition REGEX_ANCHOR_FRACTION :: rat where
  "REGEX_ANCHOR_FRACTION = 1 / 2"

definition MAX_FAMILY_DRAWS :: nat where
  "MAX_FAMILY_DRAWS = 8"

definition RANGE_FAMILIES :: "string set" where
  "RANGE_FAMILIES = {''cn'', ''eur'', ''released'', ''tix'', ''usd''}"

definition CARD_NUMERIC_FAMILIES :: "string set" where
  "CARD_NUMERIC_FAMILIES = {''cmc'', ''loyalty'', ''pow'', ''tou''}"

section \<open>Shapes\<close>

record shape =
  sh_families :: "string set option"
  sh_predicates :: "int option"
  sh_unique :: "string set option"
  sh_orderby :: "string set option"
  sh_structures :: "string set option"
  sh_bounded :: "bool option"

definition known_only :: "string set option \<Rightarrow> string list \<Rightarrow> bool" where
  "known_only value known = (case value of None \<Rightarrow> True | Some s \<Rightarrow> s \<subseteq> set known)"

text \<open>\<open>__post_init__\<close>: the shape, or the error that rejects it.\<close>

definition make_shape :: "shape \<Rightarrow> shape result" where
  "make_shape sh =
     (if \<not> known_only (sh_families sh) (map fst REALISTIC_FAMILY_WEIGHTS) then Inl ValueError
      else if \<not> known_only (sh_unique sh) (map fst REALISTIC_UNIQUE_WEIGHTS) then Inl ValueError
      else if \<not> known_only (sh_orderby sh) (map fst REALISTIC_ORDERBY_WEIGHTS) then Inl ValueError
      else if \<not> known_only (sh_structures sh) (map fst STRUCTURES) then Inl ValueError
      else case sh_predicates sh of
             None \<Rightarrow> Inr sh
           | Some n \<Rightarrow> if n < 1 then Inl ValueError else Inr sh)"

definition ANY_SHAPE :: shape where
  "ANY_SHAPE =
     \<lparr>sh_families = None, sh_predicates = None, sh_unique = None, sh_orderby = None, sh_structures = None, sh_bounded = None\<rparr>"

section \<open>Dates\<close>

text \<open>The proleptic Gregorian calendar as \<open>datetime\<close> computes it.\<close>

definition leap_year :: "nat \<Rightarrow> bool" where
  "leap_year y \<longleftrightarrow> y mod 4 = 0 \<and> (y mod 100 \<noteq> 0 \<or> y mod 400 = 0)"

definition days_before_year :: "nat \<Rightarrow> nat" where
  "days_before_year y = (let y = y - 1 in y * 365 + y div 4 - y div 100 + y div 400)"

definition month_starts :: "nat list" where
  "month_starts = [0, 31, 59, 90, 120, 151, 181, 212, 243, 273, 304, 334]"

definition days_before_month :: "bool \<Rightarrow> nat \<Rightarrow> nat" where
  "days_before_month leap m = month_starts ! (m - 1) + (if leap \<and> 2 < m then 1 else 0)"

definition toordinal :: "nat \<Rightarrow> nat \<Rightarrow> nat \<Rightarrow> nat" where
  "toordinal y m d = days_before_year y + days_before_month (leap_year y) m + d"

definition MAXORDINAL :: nat where
  "MAXORDINAL = 3652059"

definition ord2ymd :: "nat \<Rightarrow> nat \<times> nat \<times> nat" where
  "ord2ymd ordinal =
     (let n = ordinal - 1;
          n400 = n div 146097; n = n mod 146097;
          n100 = n div 36524; n = n mod 36524;
          n4 = n div 1461; n = n mod 1461;
          n1 = n div 365; n = n mod 365;
          year = n400 * 400 + 1 + n100 * 100 + n4 * 4 + n1
      in if n1 = 4 \<or> n100 = 4 then (year - 1, 12, 31)
         else let leap = (n1 = 3 \<and> (n4 \<noteq> 24 \<or> n100 = 3));
                  month = (n + 50) div 32;
                  month = (if n < days_before_month leap month then month - 1 else month)
              in (year, month, n - days_before_month leap month + 1))"

definition zero_pad :: "nat \<Rightarrow> nat \<Rightarrow> pstr" where
  "zero_pad k n = replicate (k - length (nat_str n)) (ch CHR ''0'') @ nat_str n"

definition isoformat :: "nat \<times> nat \<times> nat \<Rightarrow> pstr" where
  "isoformat d = (case d of (y, m, d) \<Rightarrow> zero_pad 4 y @ u ''-'' @ zero_pad 2 m @ u ''-'' @ zero_pad 2 d)"

section \<open>Built-in values\<close>

definition FALLBACK_DECILES :: "(string \<times> rat list) list" where
  "FALLBACK_DECILES =
     [(''price_usd'', [1 / 100, 11 / 100, 4 / 25, 11 / 50, 27 / 100, 33 / 100, 11 / 25, 23 / 25, 239 / 100, 663 / 100, 257101 / 50]),
      (''price_eur'', [1 / 50, 7 / 100, 1 / 10, 3 / 20, 1 / 5, 27 / 100, 21 / 50, 37 / 50, 167 / 100, 129 / 25, 1548757 / 50]),
      (''price_tix'', [1 / 100, 1 / 50, 1 / 50, 3 / 100, 3 / 100, 3 / 100, 1 / 25, 3 / 50, 9 / 50, 83 / 100, 24553 / 50]),
      (''collector_number_int'', [0, 23, 50, 80, 113, 148, 190, 236, 298, 426, 202617]),
      (''creature_power'', [0, 1, 1, 2, 2, 2, 3, 3, 4, 5, 20]),
      (''creature_toughness'', [0, 1, 1, 2, 2, 3, 3, 4, 4, 5, 30]),
      (''cmc'', [0, 0, 1, 2, 2, 3, 3, 4, 5, 6, 16]),
      (''planeswalker_loyalty'', [0, 3, 3, 4, 4, 4, 4, 5, 5, 5, 7]),
      (''released_at'',
        map (\<lambda>(y, m, d). of_nat (toordinal y m d))
          [(1993, 8, 5), (1999, 10, 4), (2007, 7, 13), (2014, 5, 2), (2018, 4, 6), (2020, 8, 7), (2022, 4, 12),
           (2023, 4, 21), (2024, 3, 8), (2025, 2, 14), (2026, 11, 13)])]"

definition FALLBACK_VOCAB :: "(string \<times> string list) list" where
  "FALLBACK_VOCAB =
     [(''name'',
        [''bolt'', ''angel'', ''dragon'', ''counter'', ''force'', ''fire'', ''dark'', ''ancient'', ''storm'', ''path'',
         ''bo'', ''an'', ''dr'', ''fi'']),
      (''oracle'',
        [''flying'', ''haste'', ''trample'', ''deathtouch'', ''lifelink'', ''vigilance'', ''draw'', ''counter'',
         ''destroy'', ''exile'', ''token'', ''sacrifice'']),
      (''flavor'',
        [''death'', ''fire'', ''light'', ''darkness'', ''power'', ''ancient'']),
      (''keyword'',
        [''deathtouch'', ''defender'', ''enchant'', ''equip'', ''flash'', ''flying'', ''haste'', ''hexproof'',
         ''indestructible'', ''lifelink'', ''menace'', ''protection'', ''prowess'', ''reach'', ''trample'', ''vigilance'',
         ''ward'', ''scry'', ''mill'', ''cycling'', ''flashback'', ''kicker'', ''landfall'', ''infect'', ''exalted'',
         ''cascade'', ''storm'', ''delve'']),
      (''type'',
        [''creature'', ''instant'', ''sorcery'', ''enchantment'', ''artifact'', ''planeswalker'', ''land'', ''dragon'',
         ''wizard'', ''goblin'', ''zombie'', ''elf'', ''equipment'', ''aura'']),
      (''set'',
        [''m21'', ''znr'', ''khm'', ''stx'', ''mid'', ''neo'', ''snc'', ''dmu'', ''bro'', ''mom'', ''ltr'', ''woe'',
         ''mkm'', ''otj'']),
      (''artist'',
        [''tedin'', ''rahn'', ''avon'', ''burns'', ''thomas'', ''foglio'', ''walker'', ''staples'', ''daarken'', ''paquette'']),
      (''color'',
        [''g'', ''w'', ''b'', ''r'', ''u'', ''gu'', ''uw'', ''gw'', ''bu'', ''br'', ''rw'', ''wub'']),
      (''identity'',
        [''g'', ''w'', ''b'', ''r'', ''u'', ''bu'', ''br'', ''uw'', ''gw'', ''gu'', ''rw'', ''brg'']),
      (''legality'',
        [''commander'', ''vintage'', ''legacy'', ''modern'', ''pioneer'', ''standard'', ''pauper'', ''duel'', ''historic'',
         ''timeless'']),
      (''produces'',
        [''g'', ''r'', ''b'', ''u'', ''w'', ''c'']),
      (''border'',
        [''black'', ''borderless'', ''white'', ''gold'', ''yellow'']),
      (''frame'',
        [''2015'', ''2003'', ''1997'', ''legendary'', ''inverted'', ''1993'', ''extendedart'', ''showcase'']),
      (''watermark'',
        [''wotc'', ''set'', ''phyrexian'', ''mirran'', ''golgari'', ''selesnya'', ''dimir'', ''izzet''])]"


section \<open>Drawing\<close>

text \<open>A drawing step: a value and the next state of the random source, or an exception.\<close>

type_synonym ('g, 'a) draw = "'g \<Rightarrow> ('a \<times> 'g) result"

definition retd :: "'a \<Rightarrow> ('g, 'a) draw" where
  "retd x g = Inr (x, g)"

definition liftd :: "'a result \<Rightarrow> ('g, 'a) draw" where
  "liftd r g = bindr r (\<lambda>x. Inr (x, g))"

definition bindd :: "('g, 'a) draw \<Rightarrow> ('a \<Rightarrow> ('g, 'b) draw) \<Rightarrow> ('g, 'b) draw" where
  "bindd m f g = bindr (m g) (\<lambda>(x, g). f x g)"

fun mapd :: "('a \<Rightarrow> ('g, 'b) draw) \<Rightarrow> 'a list \<Rightarrow> ('g, 'b list) draw" where
  "mapd f [] = retd []"
| "mapd f (x # xs) = bindd (f x) (\<lambda>y. bindd (mapd f xs) (\<lambda>ys. retd (y # ys)))"

record 'g rng =
  rng_random :: "'g \<Rightarrow> rat \<times> 'g"
  rng_below :: "nat \<Rightarrow> 'g \<Rightarrow> nat \<times> 'g"

type_synonym 'a table = "'a list \<times> rat list"

fun accumulate :: "rat \<Rightarrow> rat list \<Rightarrow> rat list" where
  "accumulate a [] = []"
| "accumulate a (w # ws) = (a + w) # accumulate (a + w) ws"

text \<open>\<open>bisect\<close> finds the first of the cumulative weights above the drawn point, the last one excepted.\<close>

definition pick_at :: "rat \<Rightarrow> 'a table \<Rightarrow> 'a" where
  "pick_at p t = fst t ! length (takeWhile (\<lambda>c. c \<le> p * sum_list (snd t)) (butlast (accumulate 0 (snd t))))"

definition choices :: "'g rng \<Rightarrow> 'a table \<Rightarrow> ('g, 'a) draw" where
  "choices r t g =
     (if length (snd t) \<noteq> length (fst t) then Inl ValueError
      else if fst t = [] then Inl IndexError
      else if sum_list (snd t) \<le> 0 then Inl ValueError
      else let (p, g) = rng_random r g in Inr (pick_at p t, g))"

definition choice :: "'g rng \<Rightarrow> 'a list \<Rightarrow> ('g, 'a) draw" where
  "choice r xs g = (if xs = [] then Inl IndexError else let (i, g) = rng_below r (length xs) g in Inr (xs ! i, g))"

definition randint :: "'g rng \<Rightarrow> nat \<times> nat \<Rightarrow> ('g, nat) draw" where
  "randint r ab g = (let (i, g) = rng_below r (snd ab - fst ab + 1) g in Inr (fst ab + i, g))"

definition randomd :: "'g rng \<Rightarrow> ('g, rat) draw" where
  "randomd r g = Inr (rng_random r g)"

section \<open>The universe of values\<close>

record sampler =
  s_realistic :: bool
  s_sorted :: "(string \<times> rat list) list"
  s_interpolated :: "string set"
  s_missing_numeric :: "string set"
  s_vocab :: "(string \<times> pstr table) list"
  s_rarities :: "pstr list"
  s_families :: "string table"
  s_uniques :: "string table"
  s_orderbys :: "string table"
  s_prefers :: "string table"
  s_directions :: "string table"
  s_offsets :: "int table"
  s_structure_names :: "string table"
  s_predicate_counts :: "nat table"

definition weights :: "bool \<Rightarrow> ('a \<times> rat) list \<Rightarrow> 'a table" where
  "weights realistic t = (map fst t, if realistic then map snd t else map (\<lambda>_. 1) t)"

type_synonym counter = "(pstr \<times> nat) list"

definition bump :: "counter \<Rightarrow> pstr \<Rightarrow> counter" where
  "bump c w = dict_set c w (case map_of c w of None \<Rightarrow> 1 | Some n \<Rightarrow> n + 1)"

text \<open>\<open>most_common\<close> sorts by falling count and keeps the order of insertion among equals.\<close>

definition most_common :: "counter \<Rightarrow> counter" where
  "most_common c = sort_key (\<lambda>(w, n). - int n) c"

definition make_vocab :: "bool \<Rightarrow> counter \<Rightarrow> nat \<Rightarrow> nat option \<Rightarrow> pstr table" where
  "make_vocab realistic counts least cap =
     (let common = (case cap of None \<Rightarrow> most_common counts | Some k \<Rightarrow> take k (most_common counts));
          items = filter (\<lambda>(w, n). least \<le> n) common
      in if items = [] then ([u ''the''], [1])
         else (map fst items, if realistic then map (\<lambda>(w, n). of_nat n) items else map (\<lambda>_. 1) items))"

definition lookup_key :: "('k \<times> 'v) list \<Rightarrow> 'k \<Rightarrow> 'v result" where
  "lookup_key d k = (case map_of d k of None \<Rightarrow> Inl KeyError | Some v \<Rightarrow> Inr v)"

text \<open>
  A row of the corpus by column: texts, the values of lists and the keys of maps, the legalities, the numbers (a date as its ordinal)
  and the rarity.
\<close>

record corpus_row =
  cr_text :: "string \<Rightarrow> pstr option"
  cr_keys :: "string \<Rightarrow> pstr list"
  cr_legalities :: "(pstr \<times> pstr) list"
  cr_number :: "string \<Rightarrow> rat option"
  cr_rarity :: "int option"

type_synonym counters = "string \<Rightarrow> counter"

definition update_counter :: "string \<Rightarrow> pstr list \<Rightarrow> counters \<Rightarrow> counters" where
  "update_counter family ws cs = cs(family := foldl bump (cs family) ws)"

definition text_or_empty :: "corpus_row \<Rightarrow> string \<Rightarrow> pstr" where
  "text_or_empty row column = (case cr_text row column of None \<Rightarrow> [] | Some t \<Rightarrow> t)"

definition count_text :: "corpus_row \<Rightarrow> string \<times> string \<Rightarrow> counters \<Rightarrow> counters" where
  "count_text row fc cs =
     (let v = text_or_empty row (snd fc) in if v = [] then cs else update_counter (fst fc) [py_lower v] cs)"

definition count_artist :: "corpus_row \<Rightarrow> counters \<Rightarrow> counters result" where
  "count_artist row cs =
     (let artist = text_or_empty row ''card_artist''
      in if artist = [] then Inr cs
         else let ws = py_split (py_lower artist)
              in if ws = [] then Inl IndexError else Inr (update_counter ''artist'' [last ws] cs))"

definition count_combo :: "corpus_row \<Rightarrow> string \<times> string \<Rightarrow> counters \<Rightarrow> counters" where
  "count_combo row fc cs =
     (let combo = py_lower (concat (sort (cr_keys row (snd fc))))
      in if combo = [] then cs else update_counter (fst fc) [combo] cs)"

definition count_keys :: "corpus_row \<Rightarrow> string \<times> string \<Rightarrow> counters \<Rightarrow> counters" where
  "count_keys row fc cs = update_counter (fst fc) (map py_lower (cr_keys row (snd fc))) cs"

text \<open>The words of a text are counted once in a row; a set has no order of its own, and that of the first occurrences stands for it.\<close>

definition count_words :: "corpus_row \<Rightarrow> string \<times> string \<Rightarrow> counters \<Rightarrow> counters" where
  "count_words row fc cs =
     update_counter (fst fc) (rev (remdups (rev (words_of (py_lower (text_or_empty row (snd fc))))))) cs"

definition count_row :: "corpus_row \<Rightarrow> counters \<Rightarrow> counters result" where
  "count_row row cs =
     (let cs = fold (count_text row)
            [(''name'', ''card_name''), (''set'', ''card_set_code''), (''border'', ''card_border''), (''watermark'', ''card_watermark'')] cs
      in bindr (count_artist row cs) (\<lambda>cs.
           let cs = fold (count_keys row) [(''type'', ''card_types''), (''type'', ''card_subtypes'')] cs;
               cs = fold (count_combo row) [(''color'', ''card_colors''), (''identity'', ''card_color_identity'')] cs;
               cs = fold (count_keys row) [(''produces'', ''produced_mana''), (''frame'', ''card_frame_data'')] cs;
               cs = update_counter ''keyword'' (map py_lower (filter is_queryable_keyword (cr_keys row ''card_keywords''))) cs;
               cs = update_counter ''legality''
                      (map (\<lambda>(fmt, status). py_lower fmt) (filter (\<lambda>(fmt, status). status = u ''legal'') (cr_legalities row))) cs
           in Inr (fold (count_words row) [(''oracle'', ''oracle_text''), (''flavor'', ''flavor_text'')] cs)))"

fun count_rows :: "corpus_row list \<Rightarrow> counters \<Rightarrow> counters result" where
  "count_rows [] cs = Inr cs"
| "count_rows (row # rows) cs = bindr (count_row row cs) (count_rows rows)"

definition column_values :: "corpus_row list \<Rightarrow> (string \<times> rat list) list" where
  "column_values rows =
     filter (\<lambda>(c, vs). vs \<noteq> [])
       (map (\<lambda>c. (c, sort (List.map_filter (\<lambda>row. cr_number row c) rows))) (map snd NUMERIC_COLUMNS))"

definition fallback_table :: "string \<Rightarrow> pstr table result" where
  "fallback_table family = bindr (lookup_key FALLBACK_VOCAB family) (\<lambda>vs. Inr (map (\<lambda>v. u v) vs, map (\<lambda>_. 1) vs))"

definition family_vocab :: "bool \<Rightarrow> counters \<Rightarrow> string \<Rightarrow> pstr table result" where
  "family_vocab realistic cs family =
     (if cs family = [] then fallback_table family
      else if family \<in> {''oracle'', ''flavor''} then Inr (make_vocab realistic (cs family) MIN_WORD_ROWS (Some MAX_VOCAB))
      else Inr (make_vocab realistic (cs family) 1 None))"

text \<open>A negative rarity counts from the end of the tuple, as Python's index does.\<close>

definition rarity_name :: "int \<Rightarrow> pstr result" where
  "rarity_name r =
     (let n = int (length RARITIES); i = (if r < 0 then r + n else r)
      in if i < 0 \<or> n \<le> i then Inl IndexError else Inr (u (RARITIES ! nat i)))"

definition corpus_rarities :: "corpus_row list \<Rightarrow> pstr list result" where
  "corpus_rarities rows =
     bindr (mapr rarity_name (filter (\<lambda>r. r < int (length RARITIES)) (sort (remdups (List.map_filter cr_rarity rows)))))
       (\<lambda>rs. Inr (if rs = [] then map (\<lambda>v. u v) RARITIES else rs))"

record universe =
  v_sorted :: "(string \<times> rat list) list"
  v_interpolated :: "string set"
  v_missing :: "string set"
  v_vocab :: "(string \<times> pstr table) list"
  v_rarities :: "pstr list"

definition load_fallbacks :: universe where
  "load_fallbacks =
     \<lparr>v_sorted = FALLBACK_DECILES, v_interpolated = set (map fst FALLBACK_DECILES), v_missing = {},
      v_vocab = map (\<lambda>(fam, vs). (fam, map (\<lambda>v. u v) vs, map (\<lambda>_. 1) vs)) FALLBACK_VOCAB, v_rarities = map (\<lambda>v. u v) RARITIES\<rparr>"

definition read_corpus :: "bool \<Rightarrow> corpus_row list \<Rightarrow> universe result" where
  "read_corpus realistic rows =
     bindr (count_rows rows (\<lambda>_. [])) (\<lambda>cs.
       let cols = column_values rows;
           missing = set (map fst (filter (\<lambda>(f, col). col \<notin> fst ` set cols) NUMERIC_COLUMNS))
       in bindr (mapr (\<lambda>family. bindr (family_vocab realistic cs family) (\<lambda>t. Inr (family, t))) (map fst VOCAB_PREFIXES @ [''name'']))
            (\<lambda>vocab. bindr (corpus_rarities rows) (\<lambda>rarities.
               Inr \<lparr>v_sorted = cols, v_interpolated = {}, v_missing = missing, v_vocab = vocab, v_rarities = rarities\<rparr>)))"

definition make_sampler :: "corpus_row list option \<Rightarrow> string \<Rightarrow> sampler result" where
  "make_sampler corpus mode =
     (if mode \<notin> set MODES then Inl ValueError
      else let realistic = (mode = ''realistic'')
           in bindr (case corpus of None \<Rightarrow> Inr load_fallbacks | Some rows \<Rightarrow> read_corpus realistic rows) (\<lambda>v.
                let families = weights realistic (filter (\<lambda>(k, w). k \<notin> v_missing v) REALISTIC_FAMILY_WEIGHTS)
                in if fst families = [] then Inl ValueError
                   else Inr \<lparr>s_realistic = realistic, s_sorted = v_sorted v, s_interpolated = v_interpolated v,
                          s_missing_numeric = v_missing v, s_vocab = v_vocab v, s_rarities = v_rarities v, s_families = families,
                          s_uniques = weights realistic REALISTIC_UNIQUE_WEIGHTS, s_orderbys = weights realistic REALISTIC_ORDERBY_WEIGHTS,
                          s_prefers = weights realistic REALISTIC_PREFER_WEIGHTS,
                          s_directions = weights realistic REALISTIC_DIRECTION_WEIGHTS,
                          s_offsets = weights realistic REALISTIC_OFFSET_WEIGHTS,
                          s_structure_names = weights realistic (map (\<lambda>(n, w, t). (n, w)) STRUCTURES),
                          s_predicate_counts = (map fst PREDICATE_COUNT_WEIGHTS, map snd PREDICATE_COUNT_WEIGHTS)\<rparr>))"

section \<open>Values\<close>

definition pick_value :: "'g rng \<Rightarrow> sampler \<Rightarrow> string \<Rightarrow> ('g, pstr) draw" where
  "pick_value r s family = bindd (liftd (lookup_key (s_vocab s) family)) (choices r)"

definition py_trunc :: "rat \<Rightarrow> int" where
  "py_trunc x = (if x < 0 then - \<lfloor>- x\<rfloor> else \<lfloor>x\<rfloor>)"

definition py_item :: "'a list \<Rightarrow> int \<Rightarrow> 'a result" where
  "py_item xs i =
     (let i = (if i < 0 then i + int (length xs) else i)
      in if i < 0 \<or> int (length xs) \<le> i then Inl IndexError else Inr (xs ! nat i))"

definition quantile :: "sampler \<Rightarrow> string \<Rightarrow> rat \<Rightarrow> rat result" where
  "quantile s column p =
     bindr (lookup_key (s_sorted s) column) (\<lambda>values.
       if column \<notin> s_interpolated s then py_item values (min (py_trunc (p * of_nat (length values))) (int (length values) - 1))
       else let span = int (length values) - 1;
                lo = min (py_trunc (p * of_int span)) (span - 1)
            in bindr (py_item values lo) (\<lambda>a. bindr (py_item values (lo + 1)) (\<lambda>b.
                 Inr (a + (b - a) * (p * of_int span - of_int lo)))))"

text \<open>Two decimals, a tie going to the even one.\<close>

definition half_even :: "rat \<Rightarrow> int" where
  "half_even x =
     (let f = \<lfloor>x\<rfloor>; d = x - of_int f
      in if d < 1 / 2 then f else if 1 / 2 < d then f + 1 else if even f then f else f + 1)"

definition fixed2 :: "rat \<Rightarrow> pstr" where
  "fixed2 x =
     (let n = nat (half_even (\<bar>x\<bar> * 100))
      in (if x < 0 then u ''-'' else []) @ nat_str (n div 100) @ u ''.'' @ zero_pad 2 (n mod 100))"

definition render :: "string \<Rightarrow> rat \<Rightarrow> pstr result" where
  "render fld raw =
     (if fld \<in> {''usd'', ''eur'', ''tix''} then Inr (fixed2 raw)
      else if fld = ''released'' then
        (let n = py_trunc raw in if n < 1 \<or> int MAXORDINAL < n then Inl ValueError else Inr (isoformat (ord2ymd (nat n))))
      else Inr (int_str (max MIN_NUMERIC_THRESHOLD (py_trunc raw))))"

definition threshold :: "sampler \<Rightarrow> string \<Rightarrow> string \<Rightarrow> bool \<Rightarrow> rat \<Rightarrow> pstr result" where
  "threshold s fld column as_year p =
     bindr (quantile s column p) (\<lambda>raw. bindr (render fld raw) (\<lambda>t. Inr (if as_year then take 4 t else t)))"

definition field_name :: "string \<Rightarrow> bool \<Rightarrow> pstr" where
  "field_name fld as_year = (if fld = ''released'' then if as_year then u ''year'' else u ''date'' else u fld)"

definition numeric_predicate :: "'g rng \<Rightarrow> sampler \<Rightarrow> string \<Rightarrow> shape \<Rightarrow> ('g, pstr) draw" where
  "numeric_predicate r s fld sh =
     bindd (liftd (lookup_key NUMERIC_COLUMNS fld)) (\<lambda>column.
     bindd (if fld = ''released'' then bindd (randomd r) (\<lambda>p. retd (p < YEAR_FRACTION)) else retd False) (\<lambda>as_year.
     bindd (case sh_bounded sh of None \<Rightarrow> bindd (randomd r) (\<lambda>p. retd (p < BOUNDED_FRACTION)) | Some b \<Rightarrow> retd b) (\<lambda>bounded.
       let name = field_name fld as_year
       in if bounded then
            bindd (randomd r) (\<lambda>p. bindd (randomd r) (\<lambda>q.
            bindd (liftd (threshold s fld column as_year (min p q))) (\<lambda>lo.
            bindd (liftd (threshold s fld column as_year (max p q))) (\<lambda>hi.
              retd (name @ u ''>='' @ lo @ u '' '' @ name @ u ''<='' @ hi)))))
          else
            bindd (choice r (if fld \<in> {''pow'', ''tou'', ''cmc'', ''loyalty''} then NUMERIC_OPS else RANGE_OPS)) (\<lambda>op.
            bindd (randomd r) (\<lambda>p.
            bindd (liftd (threshold s fld column as_year p)) (\<lambda>t.
              retd (name @ u op @ t)))))))"

definition quote :: "pstr \<Rightarrow> pstr" where
  "quote value = (if bare_value value then value else [34] @ value @ [34])"

definition name_word :: "'g rng \<Rightarrow> pstr \<Rightarrow> ('g, pstr) draw" where
  "name_word r name =
     (let words = runs lower_alnum name
      in bindd (choice r (if words = [] then [u ''a''] else words)) (\<lambda>word.
         bindd (randomd r) (\<lambda>p.
           if p < NAME_PREFIX_FRACTION then bindd (randint r NAME_PREFIX_LEN) (\<lambda>n. retd (take n word)) else retd word)))"

definition predicate :: "'g rng \<Rightarrow> sampler \<Rightarrow> string \<Rightarrow> shape \<Rightarrow> ('g, pstr) draw" where
  "predicate r s family sh =
     (case map_of STATIC_VALUES family of
        Some vs \<Rightarrow> bindd (choice r vs) (\<lambda>v. retd (u v))
      | None \<Rightarrow>
          if family \<in> fst ` set NUMERIC_COLUMNS then numeric_predicate r s family sh
          else if family = ''rarity'' then
            bindd (choice r RARITY_OPS) (\<lambda>op. bindd (choice r (s_rarities s)) (\<lambda>v. retd (u ''r'' @ u op @ v)))
          else if family = ''name'' then
            bindd (pick_value r s ''name'') (\<lambda>name. bindd (name_word r name) (\<lambda>word. retd (u ''name:'' @ word)))
          else
            bindd (liftd (lookup_key VOCAB_PREFIXES family)) (\<lambda>pre.
            bindd (pick_value r s family) (\<lambda>v. retd (u pre @ u '':'' @ quote v))))"

section \<open>Queries\<close>

definition restrict :: "'a table \<Rightarrow> 'a set option \<Rightarrow> 'a table" where
  "restrict t allowed =
     (case allowed of
        None \<Rightarrow> t
      | Some al \<Rightarrow>
          let kept = filter (\<lambda>(k, w). k \<in> al) (zip (fst t) (snd t)) in (map fst kept, map snd kept))"

fun draw_loop :: "'g rng \<Rightarrow> string table \<Rightarrow> nat \<Rightarrow> nat \<Rightarrow> string list \<Rightarrow> ('g, string list) draw" where
  "draw_loop r t n 0 drawn = retd drawn"
| "draw_loop r t n (Suc k) drawn =
     (if length drawn = n \<or> length drawn = length (fst t) then retd drawn
      else bindd (choices r t) (\<lambda>family. draw_loop r t n k (if family \<in> set drawn then drawn else drawn @ [family])))"

definition draw_families :: "'g rng \<Rightarrow> sampler \<Rightarrow> nat \<Rightarrow> shape \<Rightarrow> ('g, string list) draw" where
  "draw_families r s n sh =
     draw_loop r (restrict (s_families s) (sh_families sh)) n (n * MAX_FAMILY_DRAWS) []"

definition query :: "'g rng \<Rightarrow> sampler \<Rightarrow> shape \<Rightarrow> ('g, pstr) draw" where
  "query r s sh =
     bindd (case sh_predicates sh of Some n \<Rightarrow> retd (nat n) | None \<Rightarrow> choices r (s_predicate_counts s)) (\<lambda>n.
     bindd (draw_families r s n sh) (\<lambda>fams.
     bindd (mapd (\<lambda>f. predicate r s f sh) fams) (\<lambda>parts. retd (py_join (u '' '') parts))))"

text \<open>\<open>str.format\<close> with numbered places of one digit.\<close>

fun py_format :: "string \<Rightarrow> pstr list \<Rightarrow> pstr result" where
  "py_format (a # b # c # s) parts =
     (if a = CHR ''{'' \<and> c = CHR ''}'' then
        (if of_char b - 48 < length parts then bindr (py_format s parts) (\<lambda>t. Inr (parts ! (of_char b - 48) @ t)) else Inl IndexError)
      else bindr (py_format (b # c # s) parts) (\<lambda>t. Inr (ch a # t)))"
| "py_format s parts = Inr (u s)"

definition template_arity :: "string \<Rightarrow> nat" where
  "template_arity t = length (filter (\<lambda>c. c = CHR ''{'') t)"

fun and_template :: "nat \<Rightarrow> string" where
  "and_template 0 = []"
| "and_template (Suc n) = (if n = 0 then [] else and_template n @ '' '') @ [CHR ''{'', char_of (48 + n), CHR ''}'']"

record structured =
  sq_query :: pstr
  sq_structure :: pstr
  sq_families :: pstr

text \<open>The two branches of \<open>structured_query\<close>: a regular expression, alone or with one predicate, and a template.\<close>

definition regex_query :: "'g rng \<Rightarrow> sampler \<Rightarrow> shape \<Rightarrow> string \<Rightarrow> ('g, structured) draw" where
  "regex_query r s sh structure =
     bindd (choice r REGEX_FRAGMENTS) (\<lambda>fragment.
     bindd (randomd r) (\<lambda>p.
     bindd (if p < REGEX_ANCHOR_FRACTION then draw_families r s 1 sh else retd []) (\<lambda>fams.
     bindd (mapd (\<lambda>f. predicate r s f sh) fams) (\<lambda>parts.
       retd \<lparr>sq_query = py_join (u '' '') (u fragment # parts), sq_structure = u structure,
             sq_families = py_join (u ''+'') (u ''regex'' # map (\<lambda>f. u f) fams)\<rparr>))))"

definition template_query :: "'g rng \<Rightarrow> sampler \<Rightarrow> shape \<Rightarrow> string \<Rightarrow> string \<Rightarrow> ('g, structured) draw" where
  "template_query r s sh structure template =
     bindd (draw_families r s (template_arity template) sh) (\<lambda>fams.
     bindd (mapd (\<lambda>f. predicate r s f sh) fams) (\<lambda>parts.
       let short = length parts < template_arity template;
           structure = (if short then u ''and'' @ nat_str (length parts) else u structure);
           template = (if short then and_template (length parts) else template)
       in bindd (liftd (py_format template parts)) (\<lambda>q.
            retd \<lparr>sq_query = q, sq_structure = structure, sq_families = py_join (u ''+'') (sort (map (\<lambda>f. u f) fams))\<rparr>)))"

definition structured_query :: "'g rng \<Rightarrow> sampler \<Rightarrow> shape \<Rightarrow> ('g, structured) draw" where
  "structured_query r s sh =
     bindd (choices r (restrict (s_structure_names s) (sh_structures sh))) (\<lambda>structure.
     bindd (liftd (lookup_key STRUCTURES structure)) (\<lambda>(w, template).
       if structure = ''regex'' then regex_query r s sh structure else template_query r s sh structure template))"

record result_params =
  p_unique :: string
  p_orderby :: string
  p_prefer :: string
  p_direction :: string
  p_offset :: int

definition unique :: "'g rng \<Rightarrow> sampler \<Rightarrow> shape \<Rightarrow> ('g, string) draw" where
  "unique r s sh = choices r (restrict (s_uniques s) (sh_unique sh))"

definition orderby :: "'g rng \<Rightarrow> sampler \<Rightarrow> shape \<Rightarrow> ('g, string) draw" where
  "orderby r s sh = choices r (restrict (s_orderbys s) (sh_orderby sh))"

definition draw_params :: "'g rng \<Rightarrow> sampler \<Rightarrow> shape \<Rightarrow> ('g, result_params) draw" where
  "draw_params r s sh =
     bindd (unique r s sh) (\<lambda>un. bindd (orderby r s sh) (\<lambda>ob. bindd (choices r (s_prefers s)) (\<lambda>pf.
     bindd (choices r (s_directions s)) (\<lambda>dir. bindd (choices r (s_offsets s)) (\<lambda>off.
       retd \<lparr>p_unique = un, p_orderby = ob, p_prefer = pf, p_direction = dir, p_offset = off\<rparr>)))))"

end
