(* ===== verification/Query_Sampler_Props.thy ===== *)
theory Query_Sampler_Props
  imports Query_Sampler
begin

text \<open>
  What the generator of queries guarantees. A small calculus for drawing steps (\<open>draws m P\<close>: from every state of the random source the step
  returns, with a value that satisfies \<open>P\<close>) carries the proofs.
\<close>

section \<open>The calculus\<close>

definition draws :: "('g, 'a) draw \<Rightarrow> ('a \<Rightarrow> bool) \<Rightarrow> bool" where
  "draws m P \<longleftrightarrow> (\<forall>g. \<exists>x g'. m g = Inr (x, g') \<and> P x)"

named_theorems draw_rules

lemma draws_ret [draw_rules]: "P x \<Longrightarrow> draws (retd x) P"
  by (simp add: draws_def retd_def)

lemma draws_lift [draw_rules]: "r = Inr x \<Longrightarrow> P x \<Longrightarrow> draws (liftd r) P"
  by (simp add: draws_def liftd_def)

lemma draws_bind [draw_rules]: "draws m P \<Longrightarrow> (\<And>x. P x \<Longrightarrow> draws (f x) Q) \<Longrightarrow> draws (bindd m f) Q"
  unfolding draws_def bindd_def by (metis bindr_simps(2) case_prod_conv)

lemma draws_weaken: "draws m P \<Longrightarrow> (\<And>x. P x \<Longrightarrow> Q x) \<Longrightarrow> draws m Q"
  unfolding draws_def by blast

lemma draws_mapd: "(\<And>x. x \<in> set xs \<Longrightarrow> draws (f x) (P x)) \<Longrightarrow> draws (mapd f xs) (list_all2 P xs)"
proof (induction xs)
  case (Cons x xs)
  then show ?case
    by (auto intro!: draws_bind [of "f x" "P x"] draws_bind [of "mapd f xs" "list_all2 P xs"] draws_ret)
qed (simp add: draws_ret)

lemma draws_result: "draws m P \<Longrightarrow> m g = Inr (x, g') \<Longrightarrow> P x"
  unfolding draws_def by (metis Inr_inject prod.inject)

section \<open>Choices\<close>

definition rng_ok :: "'g rng \<Rightarrow> bool" where
  "rng_ok r \<longleftrightarrow> (\<forall>g. 0 \<le> fst (rng_random r g) \<and> fst (rng_random r g) < 1) \<and> (\<forall>n g. 0 < n \<longrightarrow> fst (rng_below r n g) < n)"

definition wf_table :: "'a table \<Rightarrow> bool" where
  "wf_table t \<longleftrightarrow> fst t \<noteq> [] \<and> length (snd t) = length (fst t) \<and> list_all (\<lambda>w. 0 < w) (snd t)"

lemma length_accumulate [simp]: "length (accumulate a ws) = length ws"
  by (induction ws arbitrary: a) auto

lemma pick_at_in: "wf_table t \<Longrightarrow> pick_at p t \<in> set (fst t)"
proof -
  assume t: "wf_table t"
  have "length (takeWhile Q (butlast (accumulate 0 (snd t)))) \<le> length (snd t) - 1" for Q
    by (rule order_trans [OF length_takeWhile_le]) simp
  with t show ?thesis
    unfolding pick_at_def wf_table_def by (intro nth_mem) (metis diff_less le_less_trans length_greater_0_conv less_one)
qed

lemma sum_list_pos: "ws \<noteq> [] \<Longrightarrow> list_all (\<lambda>w. 0 < w) ws \<Longrightarrow> 0 < sum_list (ws :: rat list)"
proof (induction ws)
  case (Cons w ws)
  then show ?case by (cases "ws = []") auto
qed simp

lemma wf_table_sum: "wf_table t \<Longrightarrow> 0 < sum_list (snd t)"
  unfolding wf_table_def by (metis length_0_conv sum_list_pos)

lemma draws_choices [draw_rules]: "wf_table t \<Longrightarrow> draws (choices r t) (\<lambda>x. x \<in> set (fst t))"
  using wf_table_sum [of t] pick_at_in [of t]
  by (fastforce simp: draws_def choices_def wf_table_def split: prod.splits)

lemma draws_choice [draw_rules]: "rng_ok r \<Longrightarrow> xs \<noteq> [] \<Longrightarrow> draws (choice r xs) (\<lambda>x. x \<in> set xs)"
proof -
  assume r: "rng_ok r" and xs: "xs \<noteq> []"
  have "\<exists>x g'. choice r xs g = Inr (x, g') \<and> x \<in> set xs" for g
  proof (cases "rng_below r (length xs) g")
    case (Pair i g')
    with r xs have "i < length xs" unfolding rng_ok_def by (metis fst_conv length_greater_0_conv)
    with Pair xs show ?thesis by (auto simp: choice_def)
  qed
  then show ?thesis by (simp add: draws_def)
qed

lemma draws_random [draw_rules]: "rng_ok r \<Longrightarrow> draws (randomd r) (\<lambda>p. 0 \<le> p \<and> p < 1)"
  unfolding draws_def randomd_def rng_ok_def by (metis prod.collapse)

lemma draws_randint [draw_rules]: "rng_ok r \<Longrightarrow> fst ab \<le> snd ab \<Longrightarrow> draws (randint r ab) (\<lambda>n. fst ab \<le> n \<and> n \<le> snd ab)"
proof -
  assume r: "rng_ok r" and ab: "fst ab \<le> snd ab"
  have "\<exists>x g'. randint r ab g = Inr (x, g') \<and> fst ab \<le> x \<and> x \<le> snd ab" for g
  proof (cases "rng_below r (snd ab - fst ab + 1) g")
    case (Pair i g')
    with r have "i < snd ab - fst ab + 1" unfolding rng_ok_def by (metis add_gr_0 fst_conv less_one)
    with Pair ab show ?thesis by (auto simp: randint_def)
  qed
  then show ?thesis by (simp add: draws_def)
qed

text \<open>Every key of a table can be drawn: the cumulative weights rise, and some point lies in the interval of the key.\<close>

lemma accumulate_rising: "list_all (\<lambda>w. 0 < w) ws \<Longrightarrow> \<forall>c \<in> set (accumulate a ws). a < c"
  by (induction ws arbitrary: a) fastforce+

lemma takeWhile_accumulate:
  "list_all (\<lambda>w. 0 < w) ws \<Longrightarrow> i < length ws \<Longrightarrow>
   length (takeWhile (\<lambda>c. c \<le> a + sum_list (take i ws)) (butlast (accumulate a ws))) = i"
proof (induction ws arbitrary: a i)
  case (Cons w ws)
  show ?case
  proof (cases i)
    case 0
    with Cons.prems show ?thesis by (cases ws) auto
  next
    case (Suc j)
    then have ne: "accumulate (a + w) ws \<noteq> []" using Cons.prems by (cases ws) auto
    have "0 \<le> sum_list (take j ws)"
      using Cons.prems by (intro sum_list_nonneg) (auto simp: list_all_iff dest!: in_set_takeD)
    moreover have "length (takeWhile (\<lambda>c. c \<le> (a + w) + sum_list (take j ws)) (butlast (accumulate (a + w) ws))) = j"
      using Cons Suc by simp
    ultimately show ?thesis using Suc ne by (simp add: add.assoc)
  qed
qed simp

definition drawable :: "'a table \<Rightarrow> 'a \<Rightarrow> bool" where
  "drawable t k \<longleftrightarrow> (\<exists>p. 0 \<le> p \<and> p < 1 \<and> pick_at p t = k)"

lemma drawable_iff: "wf_table t \<Longrightarrow> drawable t k \<longleftrightarrow> k \<in> set (fst t)"
proof
  assume t: "wf_table t" and "k \<in> set (fst t)"
  then obtain i where i: "i < length (fst t)" "fst t ! i = k" by (auto simp: in_set_conv_nth)
  let ?ws = "snd t" let ?p = "sum_list (take i ?ws) / sum_list ?ws"
  have ws: "list_all (\<lambda>w. 0 < w) ?ws" "i < length ?ws" using t i by (auto simp: wf_table_def)
  have pos: "0 < sum_list ?ws" by (rule wf_table_sum [OF t])
  have "0 < sum_list (drop i ?ws)"
    using ws by (intro sum_list_pos) (auto simp: list_all_iff dest: in_set_dropD)
  moreover have "sum_list ?ws = sum_list (take i ?ws) + sum_list (drop i ?ws)"
    by (metis append_take_drop_id sum_list_append)
  ultimately have "sum_list (take i ?ws) < sum_list ?ws" by simp
  moreover have "0 \<le> sum_list (take i ?ws)"
    using ws by (intro sum_list_nonneg) (auto simp: list_all_iff dest!: in_set_takeD)
  moreover have "pick_at ?p t = k"
    using takeWhile_accumulate [OF ws, of 0] pos i by (simp add: pick_at_def)
  ultimately show "drawable t k" using pos unfolding drawable_def by (intro exI [of _ ?p]) auto
qed (auto simp: drawable_def pick_at_in)

section \<open>The invariant of a sampler\<close>

definition vocab_families :: "string list" where
  "vocab_families = map fst VOCAB_PREFIXES @ [''name'']"

definition wf_column :: "bool \<Rightarrow> rat list \<Rightarrow> bool" where
  "wf_column interpolated vs \<longleftrightarrow> vs \<noteq> [] \<and> sorted vs \<and> (interpolated \<longrightarrow> 2 \<le> length vs)"

definition valid_date :: "rat \<Rightarrow> bool" where
  "valid_date x \<longleftrightarrow> 1 \<le> x \<and> x \<le> of_nat MAXORDINAL"

definition wf_universe :: "universe \<Rightarrow> bool" where
  "wf_universe v \<longleftrightarrow>
     (\<forall>c vs. map_of (v_sorted v) c = Some vs \<longrightarrow> wf_column (c \<in> v_interpolated v) vs) \<and>
     (\<forall>vs. map_of (v_sorted v) ''released_at'' = Some vs \<longrightarrow> list_all valid_date vs) \<and>
     (\<forall>(f, c) \<in> set NUMERIC_COLUMNS. f \<notin> v_missing v \<longrightarrow> map_of (v_sorted v) c \<noteq> None) \<and>
     v_missing v \<subseteq> fst ` set NUMERIC_COLUMNS \<and>
     (\<forall>f \<in> set vocab_families. \<exists>t. map_of (v_vocab v) f = Some t \<and> wf_table t) \<and>
     v_rarities v \<noteq> []"

lemma wf_weights: "t \<noteq> [] \<Longrightarrow> list_all (\<lambda>(k, w). 0 < w) t \<Longrightarrow> wf_table (weights b t)"
  by (auto simp: wf_table_def weights_def list_all_iff)

lemma most_common_set: "set (most_common c) = set c"
  by (simp add: most_common_def)

lemma wf_make_vocab: "0 < n \<Longrightarrow> wf_table (make_vocab b c n cap)"
  by (auto simp: make_vocab_def wf_table_def Let_def list_all_iff split: if_splits)

lemma fallback_tables: "f \<in> set vocab_families \<Longrightarrow> \<exists>t. fallback_table f = Inr t \<and> wf_table t"
proof -
  have "list_all (\<lambda>f. case map_of FALLBACK_VOCAB f of None \<Rightarrow> False | Some vs \<Rightarrow> vs \<noteq> []) vocab_families"
    by (simp add: vocab_families_def VOCAB_PREFIXES_def FALLBACK_VOCAB_def)
  moreover assume "f \<in> set vocab_families"
  ultimately show ?thesis
    by (fastforce simp: list_all_iff fallback_table_def lookup_key_def wf_table_def split: option.splits)
qed

lemma fallback_columns: "(c, vs) \<in> set FALLBACK_DECILES \<Longrightarrow> wf_column True vs \<and> (c = ''released_at'' \<longrightarrow> list_all valid_date vs)"
proof -
  have "list_all (\<lambda>(c, vs). wf_column True vs \<and> (c = ''released_at'' \<longrightarrow> list_all valid_date vs)) FALLBACK_DECILES"
    by (simp add: FALLBACK_DECILES_def wf_column_def valid_date_def MAXORDINAL_def toordinal_def days_before_year_def
      days_before_month_def month_starts_def leap_year_def)
  moreover assume "(c, vs) \<in> set FALLBACK_DECILES"
  ultimately show ?thesis by (auto simp: list_all_iff)
qed

lemma load_fallbacks_wf: "wf_universe load_fallbacks"
proof -
  have cols: "wf_column (c \<in> v_interpolated load_fallbacks) vs" if "map_of (v_sorted load_fallbacks) c = Some vs" for c vs
    using map_of_SomeD [OF that] fallback_columns [of c vs] by (auto simp: load_fallbacks_def wf_column_def)
  have dates: "list_all valid_date vs" if "map_of (v_sorted load_fallbacks) ''released_at'' = Some vs" for vs
    using map_of_SomeD [OF that] fallback_columns [of "''released_at''" vs] by (simp add: load_fallbacks_def)
  have "\<forall>(f, c) \<in> set NUMERIC_COLUMNS. map_of FALLBACK_DECILES c \<noteq> None"
    by (simp add: NUMERIC_COLUMNS_def FALLBACK_DECILES_def)
  moreover have "\<exists>t. map_of (v_vocab load_fallbacks) f = Some t \<and> wf_table t" if "f \<in> set vocab_families" for f
    using fallback_tables [OF that]
    by (auto simp: fallback_table_def lookup_key_def load_fallbacks_def bindr_Inr_iff map_of_map split: option.splits)
  ultimately show ?thesis
    using cols dates by (auto simp: wf_universe_def load_fallbacks_def RARITIES_def)
qed

text \<open>The dates of a corpus are ordinals of dates.\<close>

definition valid_dates :: "corpus_row list \<Rightarrow> bool" where
  "valid_dates rows \<longleftrightarrow> (\<forall>row \<in> set rows. \<forall>x. cr_number row ''released_at'' = Some x \<longrightarrow> valid_date x)"

lemma column_values_wf:
  "map_of (column_values rows) c = Some vs \<Longrightarrow>
   wf_column False vs \<and> vs = sort (List.map_filter (\<lambda>row. cr_number row c) rows)"
  by (drule map_of_SomeD) (auto simp: column_values_def wf_column_def)

lemma mapr_family: "mapr (\<lambda>f. bindr (g f) (\<lambda>t. Inr (f, t))) fs = Inr ps \<Longrightarrow> f \<in> set fs \<Longrightarrow> \<exists>t. map_of ps f = Some t \<and> g f = Inr t"
  by (induction fs arbitrary: ps) (auto simp: bindr_Inr_iff)

lemma family_vocab_wf: "f \<in> set vocab_families \<Longrightarrow> family_vocab b cs f = Inr t \<Longrightarrow> wf_table t"
  using fallback_tables [of f] wf_make_vocab by (auto simp: family_vocab_def MIN_WORD_ROWS_def split: if_splits)

lemma read_corpus_wf:
  assumes "read_corpus b rows = Inr v" and "valid_dates rows"
  shows "wf_universe v"
proof -
  from assms(1) obtain cs where
    voc: "mapr (\<lambda>f. bindr (family_vocab b cs f) (\<lambda>t. Inr (f, t))) vocab_families = Inr (v_vocab v)"
    and rar: "corpus_rarities rows = Inr (v_rarities v)"
    and v: "v_sorted v = column_values rows" "v_interpolated v = {}"
      "v_missing v = set (map fst (filter (\<lambda>(f, col). col \<notin> fst ` set (column_values rows)) NUMERIC_COLUMNS))"
    by (auto simp: read_corpus_def bindr_Inr_iff Let_def vocab_families_def)
  have dates: "list_all valid_date vs" if "map_of (column_values rows) ''released_at'' = Some vs" for vs
    using column_values_wf [OF that] assms(2)
    by (auto simp: list_all_iff valid_dates_def map_filter_def)
  have "\<exists>t. map_of (v_vocab v) f = Some t \<and> wf_table t" if "f \<in> set vocab_families" for f
    using mapr_family [OF voc that] family_vocab_wf [OF that] by blast
  moreover have "v_rarities v \<noteq> []"
    using rar by (auto simp: corpus_rarities_def bindr_Inr_iff RARITIES_def split: if_splits)
  moreover have "\<forall>(f, c) \<in> set NUMERIC_COLUMNS. f \<notin> v_missing v \<longrightarrow> map_of (v_sorted v) c \<noteq> None"
    by (force simp: v map_of_eq_None_iff)
  ultimately show ?thesis
    using column_values_wf dates by (auto simp: wf_universe_def v)
qed

definition valid_corpus :: "corpus_row list option \<Rightarrow> bool" where
  "valid_corpus corpus = (case corpus of None \<Rightarrow> True | Some rows \<Rightarrow> valid_dates rows)"

definition sampler_universe :: "sampler \<Rightarrow> universe" where
  "sampler_universe s =
     \<lparr>v_sorted = s_sorted s, v_interpolated = s_interpolated s, v_missing = s_missing_numeric s, v_vocab = s_vocab s,
      v_rarities = s_rarities s\<rparr>"

definition kept_families :: "sampler \<Rightarrow> (string \<times> rat) list" where
  "kept_families s = filter (\<lambda>(k, w). k \<notin> s_missing_numeric s) REALISTIC_FAMILY_WEIGHTS"

text \<open>What every sampler has: a well-formed universe and the tables of its mode.\<close>

definition wf_sampler :: "sampler \<Rightarrow> bool" where
  "wf_sampler s \<longleftrightarrow>
     wf_universe (sampler_universe s) \<and>
     s_families s = weights (s_realistic s) (kept_families s) \<and>
     s_uniques s = weights (s_realistic s) REALISTIC_UNIQUE_WEIGHTS \<and>
     s_orderbys s = weights (s_realistic s) REALISTIC_ORDERBY_WEIGHTS \<and>
     s_prefers s = weights (s_realistic s) REALISTIC_PREFER_WEIGHTS \<and>
     s_directions s = weights (s_realistic s) REALISTIC_DIRECTION_WEIGHTS \<and>
     s_offsets s = weights (s_realistic s) REALISTIC_OFFSET_WEIGHTS \<and>
     s_structure_names s = weights (s_realistic s) (map (\<lambda>(n, w, t). (n, w)) STRUCTURES) \<and>
     s_predicate_counts s = weights True PREDICATE_COUNT_WEIGHTS"

lemma make_sampler_wf:
  assumes "make_sampler corpus mode = Inr s" and "valid_corpus corpus"
  shows "wf_sampler s \<and> s_realistic s = (mode = ''realistic'')"
proof -
  let ?v = "case corpus of None \<Rightarrow> Inr load_fallbacks | Some rows \<Rightarrow> read_corpus (mode = ''realistic'') rows"
  from assms(1) obtain v where v: "?v = Inr v" and s: "sampler_universe s = v" "s_realistic s = (mode = ''realistic'')"
    and rest: "wf_universe (sampler_universe s) \<Longrightarrow> wf_sampler s"
    by (auto simp: make_sampler_def bindr_Inr_iff Let_def sampler_universe_def wf_sampler_def kept_families_def weights_def [of True]
      split: if_splits)
  have "wf_universe v"
    using v assms(2) load_fallbacks_wf by (auto simp: valid_corpus_def split: option.splits intro: read_corpus_wf)
  with s rest show ?thesis by simp
qed

lemmas weight_tables = REALISTIC_FAMILY_WEIGHTS_def REALISTIC_UNIQUE_WEIGHTS_def REALISTIC_ORDERBY_WEIGHTS_def
  REALISTIC_PREFER_WEIGHTS_def REALISTIC_DIRECTION_WEIGHTS_def REALISTIC_OFFSET_WEIGHTS_def STRUCTURES_def PREDICATE_COUNT_WEIGHTS_def

lemma kept_nonempty: "wf_sampler s \<Longrightarrow> kept_families s \<noteq> []"
proof -
  assume "wf_sampler s"
  then have "s_missing_numeric s \<subseteq> fst ` set NUMERIC_COLUMNS" by (simp add: wf_sampler_def wf_universe_def sampler_universe_def)
  then have "''name'' \<notin> s_missing_numeric s" by (auto simp: NUMERIC_COLUMNS_def)
  then show ?thesis by (simp add: kept_families_def REALISTIC_FAMILY_WEIGHTS_def)
qed

lemma wf_tables:
  assumes "wf_sampler s"
  shows "wf_table (s_families s)" "wf_table (s_uniques s)" "wf_table (s_orderbys s)" "wf_table (s_prefers s)"
    "wf_table (s_directions s)" "wf_table (s_offsets s)" "wf_table (s_structure_names s)" "wf_table (s_predicate_counts s)"
proof -
  have "list_all (\<lambda>(k, w). 0 < w) REALISTIC_FAMILY_WEIGHTS" by (simp add: REALISTIC_FAMILY_WEIGHTS_def)
  then have "list_all (\<lambda>(k, w). 0 < w) (kept_families s)" by (auto simp: kept_families_def list_all_iff)
  with assms kept_nonempty [OF assms] show "wf_table (s_families s)" by (simp add: wf_sampler_def wf_weights)
qed (use assms in \<open>simp_all add: wf_sampler_def wf_weights weight_tables\<close>)

section \<open>Quantiles\<close>

definition interpolate :: "rat list \<Rightarrow> rat \<Rightarrow> rat" where
  "interpolate vs x = (let k = nat \<lfloor>x\<rfloor> in vs ! k + (vs ! Suc k - vs ! k) * (x - of_nat k))"

definition quantile_value :: "bool \<Rightarrow> rat list \<Rightarrow> rat \<Rightarrow> rat" where
  "quantile_value interpolated vs p =
     (if interpolated then interpolate vs (p * of_nat (length vs - 1)) else vs ! nat \<lfloor>p * of_nat (length vs)\<rfloor>)"

lemma floor_index:
  assumes "0 \<le> p" "p < (1 :: rat)" "0 < n"
  shows "0 \<le> \<lfloor>p * of_nat n\<rfloor>" "nat \<lfloor>p * of_nat n\<rfloor> < n" "\<lfloor>p * of_nat n\<rfloor> \<le> int n - 1"
proof -
  show "0 \<le> \<lfloor>p * of_nat n\<rfloor>" using assms by simp
  have "p * of_nat n < of_nat n" using assms by simp
  then have "\<lfloor>p * of_nat n\<rfloor> < int n" by (simp add: floor_less_iff)
  then show "nat \<lfloor>p * of_nat n\<rfloor> < n" "\<lfloor>p * of_nat n\<rfloor> \<le> int n - 1" using \<open>0 \<le> \<lfloor>p * of_nat n\<rfloor>\<close> by linarith+
qed

lemma py_item_nat: "0 \<le> i \<Longrightarrow> nat i < length xs \<Longrightarrow> py_item xs i = Inr (xs ! nat i)"
  by (simp add: py_item_def Let_def)

lemma py_item_nat_Suc: "0 \<le> i \<Longrightarrow> Suc (nat i) < length xs \<Longrightarrow> py_item xs (i + 1) = Inr (xs ! Suc (nat i))"
  using py_item_nat [of "i + 1" xs] by (simp add: Suc_nat_eq_nat_zadd1 add.commute)

lemma quantile_eq:
  assumes vs: "map_of (s_sorted s) c = Some vs" and wf: "wf_column (c \<in> s_interpolated s) vs" and p: "0 \<le> p" "p < 1"
  shows "quantile s c p = Inr (quantile_value (c \<in> s_interpolated s) vs p)"
proof (cases "c \<in> s_interpolated s")
  case False
  have n: "0 < length vs" using wf by (simp add: wf_column_def)
  note i = floor_index [OF p n]
  have "\<not> p * of_nat (length vs) < 0" using p by (simp add: not_less)
  with i False vs show ?thesis
    by (auto simp: quantile_def lookup_key_def quantile_value_def py_trunc_def py_item_def Let_def)
next
  case True
  then obtain m where m: "length vs = Suc m" "0 < m" using wf by (cases "length vs") (auto simp: wf_column_def)
  note i = floor_index [OF p m(2)]
  let ?k = "\<lfloor>p * of_nat m\<rfloor>"
  have nonneg: "\<not> p * of_nat m < 0" using p by (simp add: not_less)
  have k: "nat ?k < length vs" "Suc (nat ?k) < length vs" using i(2) m by linarith+
  note items = py_item_nat [OF i(1) k(1)] py_item_nat_Suc [OF i(1) k(2)]
  have lo: "min ?k (int m - 1) = ?k" using i(3) by simp
  show ?thesis
    using True nonneg i(1)
    by (simp add: quantile_def lookup_key_def vs Let_def quantile_value_def interpolate_def py_trunc_def m(1) lo items)
qed

lemma interpolate_between:
  assumes "sorted vs" "0 \<le> x" "Suc (nat \<lfloor>x\<rfloor>) < length vs"
  shows "vs ! nat \<lfloor>x\<rfloor> \<le> interpolate vs x \<and> interpolate vs x \<le> vs ! Suc (nat \<lfloor>x\<rfloor>)"
proof -
  let ?a = "vs ! nat \<lfloor>x\<rfloor>" and ?b = "vs ! Suc (nat \<lfloor>x\<rfloor>)" and ?d = "x - of_nat (nat \<lfloor>x\<rfloor>)"
  have ab: "?a \<le> ?b" using assms by (simp add: sorted_nth_mono)
  have "of_nat (nat \<lfloor>x\<rfloor>) = (of_int \<lfloor>x\<rfloor> :: rat)" using assms(2) by simp
  then have d: "0 \<le> ?d" "?d \<le> 1" by linarith+
  have "0 \<le> (?b - ?a) * ?d" using ab d by simp
  moreover have "(?b - ?a) * ?d \<le> ?b - ?a" using ab d by (intro mult_left_le) auto
  ultimately show ?thesis by (simp add: interpolate_def Let_def)
qed

lemma interpolate_mono:
  assumes "sorted vs" "0 \<le> x" "x \<le> y" "Suc (nat \<lfloor>y\<rfloor>) < length vs"
  shows "interpolate vs x \<le> interpolate vs y"
proof (cases "nat \<lfloor>x\<rfloor> = nat \<lfloor>y\<rfloor>")
  case True
  have "vs ! nat \<lfloor>y\<rfloor> \<le> vs ! Suc (nat \<lfloor>y\<rfloor>)" using assms by (simp add: sorted_nth_mono)
  then show ?thesis using True assms(3) by (simp add: interpolate_def Let_def mult_left_mono)
next
  case False
  have "nat \<lfloor>x\<rfloor> \<le> nat \<lfloor>y\<rfloor>" using assms by (intro nat_mono floor_mono)
  with False have lt: "Suc (nat \<lfloor>x\<rfloor>) \<le> nat \<lfloor>y\<rfloor>" by simp
  have "interpolate vs x \<le> vs ! Suc (nat \<lfloor>x\<rfloor>)" using interpolate_between [of vs x] assms lt by simp
  also have "\<dots> \<le> vs ! nat \<lfloor>y\<rfloor>" using assms lt by (intro sorted_nth_mono) auto
  also have "\<dots> \<le> interpolate vs y" using interpolate_between [of vs y] assms by simp
  finally show ?thesis .
qed

lemma quantile_value_mono:
  assumes wf: "wf_column b vs" and p: "0 \<le> p" "p \<le> q" "q < 1"
  shows "quantile_value b vs p \<le> quantile_value b vs q"
proof (cases b)
  case True
  then have n: "0 < length vs - 1" using wf by (auto simp: wf_column_def)
  have "0 \<le> q" using p by simp
  note i = floor_index(2) [OF \<open>0 \<le> q\<close> p(3) n]
  show ?thesis
    using True wf p i by (auto simp: quantile_value_def wf_column_def intro!: interpolate_mono mult_right_mono)
next
  case False
  have n: "0 < length vs" using wf by (auto simp: wf_column_def)
  have "0 \<le> q" using p by simp
  note i = floor_index(2) [OF \<open>0 \<le> q\<close> p(3) n]
  have "nat \<lfloor>p * of_nat (length vs)\<rfloor> \<le> nat \<lfloor>q * of_nat (length vs)\<rfloor>"
    using p by (intro nat_mono floor_mono mult_right_mono) auto
  with False wf i show ?thesis by (auto simp: quantile_value_def wf_column_def intro!: sorted_nth_mono)
qed

lemma quantile_value_between:
  assumes wf: "wf_column b vs" and p: "0 \<le> p" "p < 1"
  shows "\<exists>x \<in> set vs. \<exists>y \<in> set vs. x \<le> quantile_value b vs p \<and> quantile_value b vs p \<le> y"
proof (cases b)
  case True
  then obtain m where m: "length vs = Suc m" "0 < m" using wf by (cases "length vs") (auto simp: wf_column_def)
  let ?k = "nat \<lfloor>p * of_nat m\<rfloor>"
  have k: "Suc ?k < length vs" using floor_index(2) [OF p m(2)] m by linarith
  then have "vs ! ?k \<in> set vs" "vs ! Suc ?k \<in> set vs" by auto
  moreover have "vs ! ?k \<le> quantile_value b vs p \<and> quantile_value b vs p \<le> vs ! Suc ?k"
    using interpolate_between [of vs "p * of_nat m"] k wf p(1) m True by (simp add: quantile_value_def wf_column_def)
  ultimately show ?thesis by blast
next
  case False
  have n: "0 < length vs" using wf by (auto simp: wf_column_def)
  with floor_index(2) [OF p n] False show ?thesis by (auto simp: quantile_value_def)
qed

section \<open>Predicates\<close>

lemma wf_samplerD:
  assumes "wf_sampler s"
  shows "map_of (s_sorted s) c = Some vs \<Longrightarrow> wf_column (c \<in> s_interpolated s) vs"
    and "map_of (s_sorted s) ''released_at'' = Some vs \<Longrightarrow> list_all valid_date vs"
    and "(f, c) \<in> set NUMERIC_COLUMNS \<Longrightarrow> f \<notin> s_missing_numeric s \<Longrightarrow> \<exists>vs. map_of (s_sorted s) c = Some vs"
    and "f \<in> set vocab_families \<Longrightarrow> \<exists>t. map_of (s_vocab s) f = Some t \<and> wf_table t"
    and "s_rarities s \<noteq> []"
  using assms by (auto simp: wf_sampler_def wf_universe_def sampler_universe_def)

text \<open>A field whose column the sampler has.\<close>

definition numeric_field :: "sampler \<Rightarrow> string \<Rightarrow> string \<Rightarrow> bool" where
  "numeric_field s f c \<longleftrightarrow> (f, c) \<in> set NUMERIC_COLUMNS \<and> f \<notin> s_missing_numeric s"

lemma numeric_columns: "(f, c) \<in> set NUMERIC_COLUMNS \<Longrightarrow> lookup_key NUMERIC_COLUMNS f = Inr c \<and> (f = ''released'' \<longrightarrow> c = ''released_at'')"
proof -
  have "list_all (\<lambda>(f, c). map_of NUMERIC_COLUMNS f = Some c \<and> (f = ''released'' \<longrightarrow> c = ''released_at'')) NUMERIC_COLUMNS"
    by (simp add: NUMERIC_COLUMNS_def)
  moreover assume "(f, c) \<in> set NUMERIC_COLUMNS"
  ultimately show ?thesis by (auto simp: list_all_iff lookup_key_def)
qed

lemma render_date: "valid_date x \<Longrightarrow> \<exists>t. render ''released'' x = Inr t"
proof -
  assume x: "valid_date x"
  then have "\<not> x < 0" "1 \<le> \<lfloor>x\<rfloor>" by (auto simp: valid_date_def le_floor_iff)
  moreover have "of_int \<lfloor>x\<rfloor> \<le> (of_nat MAXORDINAL :: rat)" using x order_trans [OF of_int_floor_le] by (auto simp: valid_date_def)
  then have "\<lfloor>x\<rfloor> \<le> int MAXORDINAL" by (metis of_int_le_iff of_int_of_nat_eq)
  ultimately show ?thesis by (auto simp: render_def py_trunc_def Let_def)
qed

lemma threshold_eq:
  assumes s: "wf_sampler s" and f: "numeric_field s f c" and p: "0 \<le> p" "p < 1"
  shows "\<exists>x t. quantile s c p = Inr x \<and> render f x = Inr t \<and> threshold s f c y p = Inr (if y then take 4 t else t)"
proof -
  from f obtain vs where vs: "map_of (s_sorted s) c = Some vs" using wf_samplerD(3) [OF s] by (auto simp: numeric_field_def)
  note wf = wf_samplerD(1) [OF s vs]
  let ?x = "quantile_value (c \<in> s_interpolated s) vs p"
  have x: "quantile s c p = Inr ?x" by (rule quantile_eq [OF vs wf p])
  have "\<exists>t. render f ?x = Inr t"
  proof (cases "f = ''released''")
    case True
    then have "list_all valid_date vs" using f vs numeric_columns wf_samplerD(2) [OF s] by (auto simp: numeric_field_def)
    then have "valid_date ?x"
      using quantile_value_between [OF wf p] unfolding list_all_iff valid_date_def by (meson order_trans)
    with True show ?thesis using render_date by simp
  next
    case False
    then show ?thesis by (simp add: render_def)
  qed
  with x show ?thesis by (auto simp: threshold_def)
qed

text \<open>The texts of the two sides of a range: renderings of two quantiles in their order.\<close>

definition range_text :: "sampler \<Rightarrow> string \<Rightarrow> string \<Rightarrow> pstr \<Rightarrow> bool" where
  "range_text s f c t \<longleftrightarrow>
     (\<exists>p q a b lo hi y. 0 \<le> p \<and> p \<le> q \<and> q < 1 \<and> quantile s c p = Inr a \<and> quantile s c q = Inr b \<and> a \<le> b \<and>
        render f a = Inr lo \<and> render f b = Inr hi \<and>
        t = field_name f y @ u ''>='' @ (if y then take 4 lo else lo) @ u '' '' @ field_name f y @ u ''<='' @ (if y then take 4 hi else hi))"

lemma quantile_mono:
  assumes s: "wf_sampler s" and f: "numeric_field s f c" and p: "0 \<le> p" "p \<le> q" "q < 1"
    and "quantile s c p = Inr a" "quantile s c q = Inr b"
  shows "a \<le> b"
proof -
  from f obtain vs where vs: "map_of (s_sorted s) c = Some vs" using wf_samplerD(3) [OF s] by (auto simp: numeric_field_def)
  note wf = wf_samplerD(1) [OF s vs]
  have "p < 1" "0 \<le> q" using p by simp_all
  then show ?thesis
    using quantile_value_mono [OF wf p] quantile_eq [OF vs wf] assms(6,7) p by (metis Inr_inject)
qed

lemma range_textI:
  assumes s: "wf_sampler s" and f: "numeric_field s f c" and pq: "0 \<le> p" "p < 1" "0 \<le> q" "q < 1"
  shows "\<exists>lo hi. threshold s f c y (min p q) = Inr lo \<and> threshold s f c y (max p q) = Inr hi \<and>
    range_text s f c (field_name f y @ u ''>='' @ lo @ u '' '' @ field_name f y @ u ''<='' @ hi)"
proof -
  let ?p = "min p q" and ?q = "max p q"
  have pq: "0 \<le> ?p" "?p \<le> ?q" "?q < 1" "?p < 1" "0 \<le> ?q" using pq by auto
  obtain a lo where lo: "quantile s c ?p = Inr a" "render f a = Inr lo" "threshold s f c y ?p = Inr (if y then take 4 lo else lo)"
    using threshold_eq [OF s f pq(1,4)] by blast
  obtain b hi where hi: "quantile s c ?q = Inr b" "render f b = Inr hi" "threshold s f c y ?q = Inr (if y then take 4 hi else hi)"
    using threshold_eq [OF s f pq(5,3)] by blast
  have "a \<le> b" by (rule quantile_mono [OF s f pq(1,2,3) lo(1) hi(1)])
  with lo hi pq show ?thesis unfolding range_text_def by blast
qed

lemma draws_numeric:
  assumes r: "rng_ok r" and s: "wf_sampler s" and f: "numeric_field s f c"
  shows "draws (numeric_predicate r s f sh) (\<lambda>t. sh_bounded sh = Some True \<longrightarrow> range_text s f c t)"
proof -
  have col: "lookup_key NUMERIC_COLUMNS f = Inr c" using f numeric_columns by (simp add: numeric_field_def)
  have year: "draws (if f = ''released'' then bindd (randomd r) (\<lambda>p. retd (p < YEAR_FRACTION)) else retd False) (\<lambda>_. True)"
    by (auto intro: draws_bind [OF draws_random [OF r]] draws_ret)
  have bnd: "draws (case sh_bounded sh of None \<Rightarrow> bindd (randomd r) (\<lambda>p. retd (p < BOUNDED_FRACTION)) | Some b \<Rightarrow> retd b)
      (\<lambda>b. sh_bounded sh = Some True \<longrightarrow> b)"
    by (auto split: option.split intro!: draws_bind [OF draws_random [OF r]] draws_ret)
  have ops: "NUMERIC_OPS \<noteq> []" "RANGE_OPS \<noteq> []" by (simp_all add: NUMERIC_OPS_def RANGE_OPS_def)
  have two: "draws (bindd (randomd r) (\<lambda>p. bindd (randomd r) (\<lambda>q.
            bindd (liftd (threshold s f c y (min p q))) (\<lambda>lo. bindd (liftd (threshold s f c y (max p q))) (\<lambda>hi.
              retd (field_name f y @ u ''>='' @ lo @ u '' '' @ field_name f y @ u ''<='' @ hi)))))) (range_text s f c)" for y
  proof (intro draws_bind [OF draws_random [OF r]])
    fix p q :: rat
    assume "0 \<le> p \<and> p < 1" "0 \<le> q \<and> q < 1"
    then obtain lo hi where "threshold s f c y (min p q) = Inr lo" "threshold s f c y (max p q) = Inr hi"
      "range_text s f c (field_name f y @ u ''>='' @ lo @ u '' '' @ field_name f y @ u ''<='' @ hi)"
      using range_textI [OF s f] by blast
    then show "draws (bindd (liftd (threshold s f c y (min p q))) (\<lambda>lo. bindd (liftd (threshold s f c y (max p q))) (\<lambda>hi.
              retd (field_name f y @ u ''>='' @ lo @ u '' '' @ field_name f y @ u ''<='' @ hi)))) (range_text s f c)"
      by (simp add: draws_def bindd_def liftd_def retd_def)
  qed
  have one: "draws (bindd (choice r (if f \<in> {''pow'', ''tou'', ''cmc'', ''loyalty''} then NUMERIC_OPS else RANGE_OPS)) (\<lambda>op.
            bindd (randomd r) (\<lambda>p. bindd (liftd (threshold s f c y p)) (\<lambda>t. retd (field_name f y @ u op @ t))))) (\<lambda>_. True)" for y
  proof (intro draws_bind [OF draws_choice [OF r]] draws_bind [OF draws_random [OF r]])
    fix p :: rat and op
    assume "0 \<le> p \<and> p < 1"
    then obtain t where "threshold s f c y p = Inr t" using threshold_eq [OF s f] by blast
    then show "draws (bindd (liftd (threshold s f c y p)) (\<lambda>t. retd (field_name f y @ u op @ t))) (\<lambda>_. True)"
      by (simp add: draws_def bindd_def liftd_def retd_def)
  qed (use ops in auto)
  have post: "draws m (\<lambda>t. sh_bounded sh = Some True \<longrightarrow> range_text s f c t)" if "draws m (range_text s f c)" for m :: "('a, pstr) draw"
    using that by (rule draws_weaken) simp
  have post': "draws m (\<lambda>t. sh_bounded sh = Some True \<longrightarrow> range_text s f c t)" if "draws m (\<lambda>_. True)" "sh_bounded sh \<noteq> Some True"
    for m :: "('a, pstr) draw"
    using that(1) by (rule draws_weaken) (simp add: that(2))
  show ?thesis
    unfolding numeric_predicate_def Let_def
  proof (rule draws_bind [OF draws_lift [OF col, of "\<lambda>x. x = c"]], simp, rule draws_bind [OF year], rule draws_bind [OF bnd])
    fix c' y b
    assume "c' = c" "sh_bounded sh = Some True \<longrightarrow> b"
    then show "draws (if b then bindd (randomd r) (\<lambda>p. bindd (randomd r) (\<lambda>q.
            bindd (liftd (threshold s f c' y (min p q))) (\<lambda>lo. bindd (liftd (threshold s f c' y (max p q))) (\<lambda>hi.
              retd (field_name f y @ u ''>='' @ lo @ u '' '' @ field_name f y @ u ''<='' @ hi)))))
          else bindd (choice r (if f \<in> {''pow'', ''tou'', ''cmc'', ''loyalty''} then NUMERIC_OPS else RANGE_OPS)) (\<lambda>op.
            bindd (randomd r) (\<lambda>p. bindd (liftd (threshold s f c' y p)) (\<lambda>t. retd (field_name f y @ u op @ t)))))
        (\<lambda>t. sh_bounded sh = Some True \<longrightarrow> range_text s f c t)"
      using post [OF two [of y]] post' [OF one [of y]] by (cases b) (simp_all only: if_True if_False simp_thms)
  qed
qed

lemma draws_pick: "wf_sampler s \<Longrightarrow> f \<in> set vocab_families \<Longrightarrow> draws (pick_value r s f) (\<lambda>_. True)"
proof -
  assume "wf_sampler s" "f \<in> set vocab_families"
  then obtain t where t: "map_of (s_vocab s) f = Some t" "wf_table t" using wf_samplerD(4) by blast
  then show ?thesis unfolding pick_value_def
    by (intro draws_bind [OF draws_lift [of _ t "\<lambda>x. x = t"]]) (auto simp: lookup_key_def intro: draws_weaken [OF draws_choices])
qed

lemma draws_name_word: "rng_ok r \<Longrightarrow> draws (name_word r name) (\<lambda>_. True)"
  unfolding name_word_def Let_def
  by (intro draws_bind [OF draws_choice] draws_bind [OF draws_random])
    (auto simp: NAME_PREFIX_LEN_def intro: draws_bind [OF draws_randint] draws_ret)

text \<open>Every family of the table is drawn in one of the five ways.\<close>

lemma family_kinds:
  "f \<in> fst ` set REALISTIC_FAMILY_WEIGHTS \<Longrightarrow>
   (\<exists>vs. map_of STATIC_VALUES f = Some vs \<and> vs \<noteq> []) \<or> f \<in> fst ` set NUMERIC_COLUMNS \<or> f = ''rarity'' \<or> f = ''name'' \<or>
   (\<exists>pre. lookup_key VOCAB_PREFIXES f = Inr pre \<and> f \<in> set vocab_families)"
proof -
  have "list_all (\<lambda>(f, w). (case map_of STATIC_VALUES f of None \<Rightarrow> False | Some vs \<Rightarrow> vs \<noteq> []) \<or> f \<in> fst ` set NUMERIC_COLUMNS \<or>
      f = ''rarity'' \<or> f = ''name'' \<or> map_of VOCAB_PREFIXES f \<noteq> None) REALISTIC_FAMILY_WEIGHTS"
    by (simp add: REALISTIC_FAMILY_WEIGHTS_def STATIC_VALUES_def NUMERIC_COLUMNS_def VOCAB_PREFIXES_def)
  moreover assume "f \<in> fst ` set REALISTIC_FAMILY_WEIGHTS"
  ultimately have "(case map_of STATIC_VALUES f of None \<Rightarrow> False | Some vs \<Rightarrow> vs \<noteq> []) \<or> f \<in> fst ` set NUMERIC_COLUMNS \<or>
      f = ''rarity'' \<or> f = ''name'' \<or> map_of VOCAB_PREFIXES f \<noteq> None"
    unfolding list_all_iff by (elim imageE) auto
  moreover have "f \<in> set vocab_families" if "map_of VOCAB_PREFIXES f = Some pre" for pre
    using map_of_SomeD [OF that] by (force simp: vocab_families_def)
  ultimately show ?thesis by (cases "map_of STATIC_VALUES f"; cases "map_of VOCAB_PREFIXES f") (simp_all add: lookup_key_def)
qed

lemma kept_family: "f \<in> fst ` set (kept_families s) \<longleftrightarrow> f \<in> fst ` set REALISTIC_FAMILY_WEIGHTS \<and> f \<notin> s_missing_numeric s"
  by (force simp: kept_families_def)

lemma draws_predicate:
  assumes r: "rng_ok r" and s: "wf_sampler s" and f: "f \<in> fst ` set (kept_families s)"
  shows "draws (predicate r s f sh) (\<lambda>_. True)"
proof (cases "map_of STATIC_VALUES f")
  case (Some vs)
  have "list_all (\<lambda>(f, vs). vs \<noteq> []) STATIC_VALUES" by (simp add: STATIC_VALUES_def)
  then have "vs \<noteq> []" using map_of_SomeD [OF Some] by (auto simp: list_all_iff)
  with Some r show ?thesis by (auto simp: predicate_def intro: draws_bind [OF draws_choice] draws_ret)
next
  case None
  consider "f \<in> fst ` set NUMERIC_COLUMNS" | "f \<notin> fst ` set NUMERIC_COLUMNS" "f = ''rarity''" |
    "f \<notin> fst ` set NUMERIC_COLUMNS" "f = ''name''" |
    pre where "f \<notin> fst ` set NUMERIC_COLUMNS" "f \<noteq> ''rarity''" "f \<noteq> ''name''" "lookup_key VOCAB_PREFIXES f = Inr pre" "f \<in> set vocab_families"
    using family_kinds [of f] f [unfolded kept_family] None by (metis option.distinct(1))
  then show ?thesis
  proof cases
    case 1
    then obtain c where "numeric_field s f c" using f by (auto simp: numeric_field_def kept_family)
    with 1 None r s show ?thesis by (auto simp: predicate_def intro: draws_weaken [OF draws_numeric])
  next
    case 2
    have "RARITY_OPS \<noteq> []" by (simp add: RARITY_OPS_def)
    with 2 None show ?thesis
      using wf_samplerD(5) [OF s] r by (auto simp: predicate_def intro!: draws_bind [OF draws_choice] draws_ret)
  next
    case 3
    have "''name'' \<in> set vocab_families" by (simp add: vocab_families_def)
    with 3 None show ?thesis
      using draws_pick [OF s] draws_name_word [OF r] by (auto simp: predicate_def intro!: draws_bind [OF draws_pick] draws_bind [OF draws_name_word] draws_ret s r)
  next
    case 4
    with None show ?thesis
      by (auto simp: predicate_def intro!: draws_bind [OF draws_lift [of _ pre "\<lambda>_. True"]] draws_bind [OF draws_pick] draws_ret s)
  qed
qed

section \<open>Queries\<close>

definition allowed :: "'a set option \<Rightarrow> 'a \<Rightarrow> bool" where
  "allowed al k = (case al of None \<Rightarrow> True | Some a \<Rightarrow> k \<in> a)"

lemma restrict_keys: "wf_table t \<Longrightarrow> set (fst (restrict t al)) = {k \<in> set (fst t). allowed al k}"
proof -
  assume "wf_table t"
  then have keys: "set (fst t) = fst ` set (zip (fst t) (snd t))" by (metis list.set_map map_fst_zip wf_table_def)
  have "fst ` {x \<in> A. case x of (k, w) \<Rightarrow> k \<in> a} = {k \<in> fst ` A. k \<in> a}" for A :: "('a \<times> rat) set" and a by force
  then show ?thesis by (cases al) (simp_all add: restrict_def allowed_def keys [symmetric] Let_def)
qed

lemma restrict_wf: "wf_table t \<Longrightarrow> fst (restrict t al) \<noteq> [] \<Longrightarrow> wf_table (restrict t al)"
  by (auto simp: restrict_def wf_table_def list_all_iff Let_def split: option.splits dest: set_zip_rightD)

definition fam_ok :: "string table \<Rightarrow> nat \<Rightarrow> string list \<Rightarrow> bool" where
  "fam_ok t n fams \<longleftrightarrow> distinct fams \<and> set fams \<subseteq> set (fst t) \<and> length fams \<le> n"

lemma draws_loop:
  "fst t = [] \<or> wf_table t \<Longrightarrow> fam_ok t n drawn \<Longrightarrow> draws (draw_loop r t n k drawn) (fam_ok t n)"
proof (induction k arbitrary: drawn)
  case 0
  then show ?case by (simp add: draws_ret)
next
  case (Suc k)
  show ?case
  proof (cases "length drawn = n \<or> length drawn = length (fst t)")
    case True
    with Suc.prems show ?thesis by (simp add: draws_ret)
  next
    case False
    then have "wf_table t" "length drawn < n" using Suc.prems by (auto simp: fam_ok_def)
    moreover from this have "fam_ok t n (if x \<in> set drawn then drawn else drawn @ [x])" if "x \<in> set (fst t)" for x
      using Suc.prems that by (auto simp: fam_ok_def)
    ultimately show ?thesis using False by (auto intro!: draws_bind [OF draws_choices] Suc.IH)
  qed
qed

lemma draws_families:
  assumes "wf_sampler s"
  shows "draws (draw_families r s n sh) (fam_ok (restrict (s_families s) (sh_families sh)) n)"
  unfolding draw_families_def
  using restrict_wf [OF wf_tables(1) [OF assms]] by (intro draws_loop) (auto simp: fam_ok_def)

definition possible :: "'g rng \<Rightarrow> sampler \<Rightarrow> shape \<Rightarrow> string \<Rightarrow> pstr \<Rightarrow> bool" where
  "possible r s sh f t \<longleftrightarrow> (\<exists>g g'. predicate r s f sh g = Inr (t, g'))"

lemma draws_parts:
  assumes r: "rng_ok r" and s: "wf_sampler s" and ok: "fam_ok (restrict (s_families s) (sh_families sh)) n fams"
  shows "draws (mapd (\<lambda>f. predicate r s f sh) fams) (list_all2 (possible r s sh) fams)"
proof (rule draws_mapd)
  fix f assume "f \<in> set fams"
  then have "f \<in> set (fst (s_families s))" using ok restrict_keys [OF wf_tables(1) [OF s]] by (auto simp: fam_ok_def)
  then have "f \<in> fst ` set (kept_families s)" using s by (simp add: wf_sampler_def weights_def)
  from draws_predicate [OF r s this, of sh] show "draws (predicate r s f sh) (possible r s sh f)"
    unfolding draws_def possible_def by blast
qed

lemma counts_table: "wf_sampler s \<Longrightarrow> set (fst (s_predicate_counts s)) = {1, 2, 3}"
  by (auto simp: wf_sampler_def weights_def PREDICATE_COUNT_WEIGHTS_def)

text \<open>
  A query of the sampler is a conjunction of predicates from distinct families. From every state of the random source \<open>query\<close> returns
  predicates joined by blanks, one for each of at most three families, or as many as the shape asks for, all of them different, offered by the
  sampler and allowed by the shape; each predicate is one that its family can give.
\<close>

theorem sampled_query_families:
  assumes "rng_ok r" and "make_sampler corpus mode = Inr s" and "valid_corpus corpus"
  shows "draws (query r s sh) (\<lambda>q. \<exists>fams parts. q = py_join (u '' '') parts \<and> list_all2 (possible r s sh) fams parts \<and> distinct fams \<and>
    (\<forall>f \<in> set fams. f \<in> set (fst (s_families s)) \<and> allowed (sh_families sh) f) \<and>
    length fams \<le> (case sh_predicates sh of None \<Rightarrow> 3 | Some n \<Rightarrow> nat n))"
proof -
  note s = make_sampler_wf [OF assms(2,3), THEN conjunct1]
  let ?max = "case sh_predicates sh of None \<Rightarrow> 3 | Some n \<Rightarrow> nat n"
  have three: "draws (choices r (s_predicate_counts s)) (\<lambda>n. n \<le> 3)"
    by (rule draws_weaken [OF draws_choices [OF wf_tables(8) [OF s]]]) (auto simp: counts_table [OF s])
  have n: "draws (case sh_predicates sh of Some n \<Rightarrow> retd (nat n) | None \<Rightarrow> choices r (s_predicate_counts s)) (\<lambda>n. n \<le> ?max)"
    using three by (auto split: option.split intro: draws_ret)
  show ?thesis
    unfolding query_def
    by (intro draws_bind [OF n] draws_bind [OF draws_families [OF s]] draws_bind [OF draws_parts [OF assms(1) s]] draws_ret)
      (assumption, auto simp: fam_ok_def restrict_keys [OF wf_tables(1) [OF s]] subset_iff intro: order_trans)
qed

section \<open>Structured queries and parameters\<close>














text \<open>
  A range has its sides in order. When the shape asks for two-sided bounds, a predicate on a numeric field the sampler has is
  \<open>f>=a f<=b\<close>, with \<open>a\<close> and \<open>b\<close> the texts of two quantiles of the column, the first not above the second.
\<close>

theorem bounded_range_ordered:
  assumes "rng_ok r" and "make_sampler corpus mode = Inr s" and "valid_corpus corpus" and "numeric_field s f c"
    and "sh_bounded sh = Some True"
  shows "draws (numeric_predicate r s f sh) (range_text s f c)"
  using draws_weaken [OF draws_numeric [OF assms(1) make_sampler_wf [OF assms(2,3), THEN conjunct1] assms(4)]] assms(5) by blast

section \<open>The two modes\<close>

lemma read_corpus_parts:
  assumes "read_corpus b rows = Inr v"
  shows "\<exists>cs. count_rows rows (\<lambda>_. []) = Inr cs \<and> v_sorted v = column_values rows \<and>
    v_missing v = set (map fst (filter (\<lambda>(f, col). col \<notin> fst ` set (column_values rows)) NUMERIC_COLUMNS)) \<and>
    corpus_rarities rows = Inr (v_rarities v) \<and>
    (\<forall>f \<in> set vocab_families. \<exists>t. map_of (v_vocab v) f = Some t \<and> family_vocab b cs f = Inr t)"
proof -
  from assms obtain cs where parts: "count_rows rows (\<lambda>_. []) = Inr cs"
    "corpus_rarities rows = Inr (v_rarities v)" "v_sorted v = column_values rows"
    "v_missing v = set (map fst (filter (\<lambda>(f, col). col \<notin> fst ` set (column_values rows)) NUMERIC_COLUMNS))"
    and voc: "mapr (\<lambda>f. bindr (family_vocab b cs f) (\<lambda>t. Inr (f, t))) vocab_families = Inr (v_vocab v)"
    by (auto simp: read_corpus_def bindr_Inr_iff Let_def vocab_families_def)
  have "\<exists>t. map_of (v_vocab v) f = Some t \<and> family_vocab b cs f = Inr t" if "f \<in> set vocab_families" for f
    by (rule mapr_family [OF voc that])
  then show ?thesis by (intro exI [of _ cs] conjI ballI parts)
qed

lemma family_vocab_keys: "family_vocab True cs f = Inr t \<Longrightarrow> family_vocab False cs f = Inr t' \<Longrightarrow> fst t = fst t'"
  by (auto simp: family_vocab_def make_vocab_def Let_def split: if_splits)

definition same_values :: "universe \<Rightarrow> universe \<Rightarrow> bool" where
  "same_values v w \<longleftrightarrow>
     v_sorted v = v_sorted w \<and> v_missing v = v_missing w \<and> v_rarities v = v_rarities w \<and>
     (\<forall>f \<in> set vocab_families. \<forall>t t'. map_of (v_vocab v) f = Some t \<longrightarrow> map_of (v_vocab w) f = Some t' \<longrightarrow> fst t = fst t')"

lemma read_corpus_same:
  assumes "read_corpus True rows = Inr v" "read_corpus False rows = Inr w"
  shows "same_values v w"
proof -
  obtain cs where v: "count_rows rows (\<lambda>_. []) = Inr cs" "v_sorted v = column_values rows" "corpus_rarities rows = Inr (v_rarities v)"
      "v_missing v = set (map fst (filter (\<lambda>(f, col). col \<notin> fst ` set (column_values rows)) NUMERIC_COLUMNS))"
      "\<And>f. f \<in> set vocab_families \<Longrightarrow> \<exists>t. map_of (v_vocab v) f = Some t \<and> family_vocab True cs f = Inr t"
    using read_corpus_parts [OF assms(1)] by blast
  moreover have "v_sorted w = column_values rows" "corpus_rarities rows = Inr (v_rarities w)"
      "v_missing w = set (map fst (filter (\<lambda>(f, col). col \<notin> fst ` set (column_values rows)) NUMERIC_COLUMNS))"
      "\<And>f. f \<in> set vocab_families \<Longrightarrow> \<exists>t. map_of (v_vocab w) f = Some t \<and> family_vocab False cs f = Inr t"
    using read_corpus_parts [OF assms(2)] v(1) by auto
  ultimately show ?thesis
    unfolding same_values_def by (fastforce dest: family_vocab_keys)
qed

lemma make_sampler_universe:
  assumes "make_sampler corpus mode = Inr s"
  shows "(case corpus of None \<Rightarrow> Inr load_fallbacks | Some rows \<Rightarrow> read_corpus (mode = ''realistic'') rows) = Inr (sampler_universe s)"
  using assms by (auto simp: make_sampler_def bindr_Inr_iff Let_def sampler_universe_def split: if_splits)

text \<open>
  C31: The two modes differ in their weights only, never in what can be drawn. Over the same corpus, or over the built-in values, a family, a value of a
  vocabulary, a structure and an ordering can be drawn in the one mode if and only if they can be drawn in the other, and the columns of numbers, from which
  thresholds are taken, and the rarities are equal.
\<close>

theorem modes_same_universe:
  assumes "make_sampler corpus ''realistic'' = Inr s" and "make_sampler corpus ''uniform'' = Inr s'" and "valid_corpus corpus"
  shows "(\<forall>f. drawable (s_families s) f = drawable (s_families s') f) \<and>
    (\<forall>f \<in> set vocab_families. \<exists>t t'. map_of (s_vocab s) f = Some t \<and> map_of (s_vocab s') f = Some t' \<and> (\<forall>x. drawable t x = drawable t' x)) \<and>
    (\<forall>k. drawable (s_structure_names s) k = drawable (s_structure_names s') k) \<and>
    (\<forall>k. drawable (s_orderbys s) k = drawable (s_orderbys s') k) \<and>
    s_sorted s = s_sorted s' \<and> s_rarities s = s_rarities s'"
proof -
  note s = make_sampler_wf [OF assms(1,3), THEN conjunct1] and s' = make_sampler_wf [OF assms(2,3), THEN conjunct1]
  have same: "same_values (sampler_universe s) (sampler_universe s')"
    using make_sampler_universe [OF assms(1)] make_sampler_universe [OF assms(2)] read_corpus_same
    by (auto simp: same_values_def split: option.splits)
  then have eq: "s_sorted s = s_sorted s'" "s_rarities s = s_rarities s'" "kept_families s = kept_families s'"
    by (simp_all add: same_values_def sampler_universe_def kept_families_def)
  have keys: "fst (s_families s) = fst (s_families s')" "fst (s_structure_names s) = fst (s_structure_names s')"
    "fst (s_orderbys s) = fst (s_orderbys s')"
    using s s' eq(3) by (simp_all add: wf_sampler_def weights_def)
  have "\<exists>t t'. map_of (s_vocab s) f = Some t \<and> map_of (s_vocab s') f = Some t' \<and> (\<forall>x. drawable t x = drawable t' x)"
    if "f \<in> set vocab_families" for f
    using wf_samplerD(4) [OF s that] wf_samplerD(4) [OF s' that] same that drawable_iff
    unfolding same_values_def sampler_universe_def by (metis universe.select_convs(4))
  then show ?thesis by (simp add: drawable_iff wf_tables [OF s] wf_tables [OF s'] keys eq)
qed

section \<open>Agreement with the parser and the service\<close>

definition tag_values :: "pstr list" where
  "tag_values = (case map_of STATIC_VALUES ''tag'' of None \<Rightarrow> [] | Some vs \<Rightarrow> map (\<lambda>v. u v) vs)"

text \<open>
  The tables the client keeps because it ships without the service agree with the service: the tags are those the rewriter
  expands, and the numeric fields are those with a range index and those without.
\<close>

lemma static_tables_agree:
  "set tag_values = {u ''is:'' @ v | v. (u ''is'', v) \<in> set derived_keys} \<and>
   RANGE_FAMILIES \<union> CARD_NUMERIC_FAMILIES = fst ` set NUMERIC_COLUMNS \<and> RANGE_FAMILIES \<inter> CARD_NUMERIC_FAMILIES = {}"
proof -
  have "set tag_values = set (map (\<lambda>(k, v). u ''is:'' @ v) (filter (\<lambda>(k, v). k = u ''is'') derived_keys))"
  proof (rule set_eqI)
    have "list_all (\<lambda>t. t \<in> set (map (\<lambda>(k, v). u ''is:'' @ v) (filter (\<lambda>(k, v). k = u ''is'') derived_keys))) tag_values"
      "list_all (\<lambda>t. t \<in> set tag_values) (map (\<lambda>(k, v). u ''is:'' @ v) (filter (\<lambda>(k, v). k = u ''is'') derived_keys))"
      by code_simp+
    then show "x \<in> set tag_values \<longleftrightarrow> x \<in> set (map (\<lambda>(k, v). u ''is:'' @ v) (filter (\<lambda>(k, v). k = u ''is'') derived_keys))" for x
      unfolding list_all_iff by blast
  qed
  moreover have "RANGE_FAMILIES \<union> CARD_NUMERIC_FAMILIES = fst ` set NUMERIC_COLUMNS" "RANGE_FAMILIES \<inter> CARD_NUMERIC_FAMILIES = {}"
    by (auto simp: RANGE_FAMILIES_def CARD_NUMERIC_FAMILIES_def NUMERIC_COLUMNS_def)
  ultimately show ?thesis by force
qed

lemma lower_title: "title_c (lower_c c) = title_c c" "py_isalpha_c (lower_c c) = py_isalpha_c c" "py_isspace_c (lower_c c) = py_isspace_c c"
  by (auto simp: title_c_def lower_c_def upper_c_def is_upper_c_def py_isalpha_c_def py_isspace_c_def)

lemma title_lower: "py_title_from b (py_lower s) = py_title_from b s"
  by (induction b s rule: py_title_from.induct) (auto simp: lower_title py_lower_def)

lemma strip_lower: "py_strip (py_lower s) = py_lower (py_strip s)"
  by (simp add: py_strip_def py_lstrip_def rstrip_of_def py_lower_def dropWhile_map rev_map comp_def lower_title)

text \<open>
  The filter of keywords is exact. Cards store a keyword as Scryfall writes it, and a search for it looks up one key; for a keyword without
  blanks around it, the key that a search for its lower-case form looks up is the stored one if and only if
  \<open>is_queryable_keyword\<close> accepts the keyword.
\<close>

theorem queryable_keyword_iff:
  assumes "py_strip k = k"
  shows "is_queryable_keyword k \<longleftrightarrow> get_keywords_comparison_object (py_lower k) = true_dict [k]"
  using assms
  by (auto simp: is_queryable_keyword_def get_keywords_comparison_object_def strip_lower py_title_def title_lower true_dict_def dict_fromkeys_def)

theorem queryable_keyword_iff_witness:
  "py_strip (u ''First strike'') = u ''First strike'' \<and>
   (is_queryable_keyword (u ''First strike'') \<longleftrightarrow> get_keywords_comparison_object (py_lower (u ''First strike'')) = true_dict [u ''First strike'']) \<and>
   \<not> is_queryable_keyword (u ''First strike'')"
proof -
  have a: "py_strip (u ''First strike'') = u ''First strike''" by code_simp
  have "\<not> is_queryable_keyword (u ''First strike'')" by code_simp
  with a queryable_keyword_iff [OF a] show ?thesis by blast
qed

section \<open>Quoting\<close>













text \<open>A value with a quote in it is not escaped, and the predicate is rejected.\<close>

lemma quote_not_escaped: "tokenize (u ''a:'' @ quote (u ''x'' @ [34])) = Inl (LexError 5)"
  by code_simp

text \<open>A shape with an empty set is accepted, and drawing with it raises.\<close>

lemma empty_shape_fails:
  "make_shape (ANY_SHAPE\<lparr>sh_unique := Some {}\<rparr>) = Inr (ANY_SHAPE\<lparr>sh_unique := Some {}\<rparr>) \<and>
   unique r s (ANY_SHAPE\<lparr>sh_unique := Some {}\<rparr>) g = Inl IndexError"
  by (simp add: make_shape_def ANY_SHAPE_def known_only_def unique_def restrict_def choices_def)

section \<open>Witnesses\<close>

definition sample_rng :: "nat rng" where
  "sample_rng = \<lparr>rng_random = (\<lambda>g. (of_nat (g mod 10) / 10, Suc g)), rng_below = (\<lambda>n g. (g mod n, Suc g))\<rparr>"

lemma sample_rng_ok: "rng_ok sample_rng"
proof -
  have "of_nat (g mod 10) < (10 :: rat)" for g :: nat by (metis mod_less_divisor of_nat_less_iff of_nat_numeral zero_less_numeral)
  then show ?thesis by (auto simp: rng_ok_def sample_rng_def)
qed

lemma fallback_sampler: "mode \<in> set MODES \<Longrightarrow> \<exists>s. make_sampler None mode = Inr s \<and> s_missing_numeric s = {}"
  by (simp add: make_sampler_def load_fallbacks_def weights_def REALISTIC_FAMILY_WEIGHTS_def Let_def)


theorem sampled_query_families_witness:
  "\<exists>s. make_sampler None ''uniform'' = Inr s \<and>
    draws (query sample_rng s ANY_SHAPE) (\<lambda>q. \<exists>fams parts. q = py_join (u '' '') parts \<and>
      list_all2 (possible sample_rng s ANY_SHAPE) fams parts \<and> distinct fams \<and>
      (\<forall>f \<in> set fams. f \<in> set (fst (s_families s)) \<and> allowed (sh_families ANY_SHAPE) f) \<and>
      length fams \<le> (case sh_predicates ANY_SHAPE of None \<Rightarrow> 3 | Some n \<Rightarrow> nat n))"
  using fallback_sampler [of "''uniform''"] sampled_query_families [OF sample_rng_ok, of None "''uniform''" _ ANY_SHAPE]
  by (auto simp: MODES_def valid_corpus_def)


theorem bounded_range_ordered_witness:
  "\<exists>s. make_sampler None ''uniform'' = Inr s \<and>
    draws (numeric_predicate sample_rng s ''usd'' (ANY_SHAPE\<lparr>sh_bounded := Some True\<rparr>)) (range_text s ''usd'' ''price_usd'')"
  using fallback_sampler [of "''uniform''"]
    bounded_range_ordered [OF sample_rng_ok, of None "''uniform''" _ "''usd''" "''price_usd''" "ANY_SHAPE\<lparr>sh_bounded := Some True\<rparr>"]
  by (auto simp: MODES_def valid_corpus_def numeric_field_def NUMERIC_COLUMNS_def)

theorem modes_same_universe_witness:
  "\<exists>s s'. make_sampler None ''realistic'' = Inr s \<and> make_sampler None ''uniform'' = Inr s' \<and>
    (\<forall>f. drawable (s_families s) f = drawable (s_families s') f)"
  using fallback_sampler [of "''uniform''"] fallback_sampler [of "''realistic''"] modes_same_universe [of None]
  by (fastforce simp: MODES_def valid_corpus_def)

end
