(* ===== verification/Static_Files.thy ===== *)
theory Static_Files
  imports Response_Cache "HOL-Library.List_Lexorder"
begin

text \<open>
  The handlers of \<open>src/api/api_resource.py\<close> that serve files, and the catalogue of types and keywords. What reading a file gives, and the
  counts of the engine, are arguments.
\<close>

section \<open>Files\<close>

datatype file_read = Contents pstr | FileNotFoundError | PermissionError | OSError pstr

record static_response =
  st_status :: pstr
  st_text :: pstr
  st_type :: pstr
  st_headers :: headers

definition cache_control :: "nat \<Rightarrow> pstr" where
  "cache_control seconds = u ''public, max-age='' @ nat_str seconds"

definition set_cache_header :: "nat \<Rightarrow> static_response \<Rightarrow> static_response" where
  "set_cache_header seconds resp = resp\<lparr>st_headers := dict_set (st_headers resp) (u ''cache-control'') (cache_control seconds)\<rparr>"

definition serve_static_file :: "(pstr \<Rightarrow> file_read) \<Rightarrow> pstr \<Rightarrow> static_response \<Rightarrow> static_response" where
  "serve_static_file read filename resp =
     (case read filename of
        Contents t \<Rightarrow> resp\<lparr>st_text := t\<rparr>
      | FileNotFoundError \<Rightarrow> resp\<lparr>st_status := u ''404 Not Found'', st_text := u ''File not found: '' @ filename\<rparr>
      | PermissionError \<Rightarrow> resp\<lparr>st_status := u ''403 Forbidden'', st_text := u ''Permission denied: '' @ filename\<rparr>
      | OSError e \<Rightarrow> resp\<lparr>st_status := u ''500 Internal Server Error'', st_text := u ''Error reading file '' @ filename @ u '': '' @ e\<rparr>)"

text \<open>A handler for a text file: no response object, nothing to do; a duration of the cache header, if it sets one.\<close>

definition text_handler ::
  "(pstr \<Rightarrow> file_read) \<Rightarrow> string \<Rightarrow> string \<Rightarrow> nat option \<Rightarrow> static_response option \<Rightarrow> static_response option" where
  "text_handler read filename content_type duration resp =
     map_option (\<lambda>resp.
       let resp = (serve_static_file read (u filename) resp)\<lparr>st_type := u content_type\<rparr>
       in case duration of None \<Rightarrow> resp | Some d \<Rightarrow> set_cache_header d resp) resp"

definition styles_css :: "(pstr \<Rightarrow> file_read) \<Rightarrow> static_response option \<Rightarrow> static_response option" where
  "styles_css read = text_handler read ''styles.css'' ''text/css'' (Some (30 * 86400))"

definition app_js :: "(pstr \<Rightarrow> file_read) \<Rightarrow> static_response option \<Rightarrow> static_response option" where
  "app_js read = text_handler read ''app.js'' ''application/javascript'' (Some 3600)"

definition app_min_js :: "(pstr \<Rightarrow> file_read) \<Rightarrow> static_response option \<Rightarrow> static_response option" where
  "app_min_js read = text_handler read ''app.min.js'' ''application/javascript'' (Some (30 * 86400))"

definition robots_txt :: "(pstr \<Rightarrow> file_read) \<Rightarrow> static_response option \<Rightarrow> static_response option" where
  "robots_txt read = text_handler read ''robots.txt'' ''text/plain'' None"

definition card_js :: "(pstr \<Rightarrow> file_read) \<Rightarrow> static_response option \<Rightarrow> static_response option" where
  "card_js read = text_handler read ''card.js'' ''application/javascript'' (Some 3600)"

text \<open>This handler does not test for a missing response object, and fails on it.\<close>

definition prefer_score_tuner :: "(pstr \<Rightarrow> file_read) \<Rightarrow> static_response option \<Rightarrow> static_response result" where
  "prefer_score_tuner read resp =
     (case resp of
        None \<Rightarrow> Inl AttributeError
      | Some resp \<Rightarrow> Inr ((serve_static_file read (u ''prefer_score_tuner.html'') resp)\<lparr>st_type := u ''text/html''\<rparr>))"

text \<open>The handlers of binary files do not catch the errors of reading; they state the length.\<close>

definition data_handler ::
  "(pstr \<Rightarrow> file_read) \<Rightarrow> string \<Rightarrow> string \<Rightarrow> nat \<Rightarrow> static_response option \<Rightarrow> file_read + static_response option" where
  "data_handler read filename content_type duration resp =
     (case resp of
        None \<Rightarrow> Inr None
      | Some resp \<Rightarrow>
          (case read (u filename) of
             Contents t \<Rightarrow>
               Inr (Some (set_cache_header duration
                 (resp\<lparr>st_text := t, st_type := u content_type,
                       st_headers := dict_set (st_headers resp) (u ''content-length'') (nat_str (length t))\<rparr>)))
           | e \<Rightarrow> Inl e))"

definition favicon_ico :: "(pstr \<Rightarrow> file_read) \<Rightarrow> static_response option \<Rightarrow> file_read + static_response option" where
  "favicon_ico read = data_handler read ''favicon.ico'' ''image/vnd.microsoft.icon'' (7 * 86400)"

definition social_preview_webp :: "(pstr \<Rightarrow> file_read) \<Rightarrow> static_response option \<Rightarrow> file_read + static_response option" where
  "social_preview_webp read = data_handler read ''social-preview.webp'' ''image/webp'' (30 * 86400)"

section \<open>The catalogue\<close>

record catalog =
  cat_types :: "(pstr \<times> int) list"
  cat_keywords :: "(pstr \<times> int) list"

datatype catalog_error = ServiceUnavailable

definition with_tribal :: "(pstr \<times> int) list \<Rightarrow> (pstr \<times> int) list" where
  "with_tribal type_counts =
     (let kindred_count = (case map_of type_counts (u ''Kindred'') of None \<Rightarrow> 0 | Some n \<Rightarrow> n)
      in if kindred_count \<noteq> 0 then dict_set type_counts (u ''Tribal'') kindred_count else type_counts)"

definition keyword_catalog :: "(pstr \<times> int) list \<Rightarrow> (pstr \<times> int) list" where
  "keyword_catalog keyword_counts = foldl (\<lambda>d (keyword, n). dict_set d keyword n) [] (map (\<lambda>(k, n). (py_lower k, n)) keyword_counts)"

definition get_catalog ::
  "nat \<Rightarrow> (pstr \<times> int) list \<Rightarrow> (pstr \<times> int) list \<Rightarrow> static_response option \<Rightarrow> catalog_error + catalog \<times> static_response option" where
  "get_catalog engine_size type_counts keyword_counts resp =
     (if engine_size = 0 then Inl ServiceUnavailable
      else Inr (\<lparr>cat_types = sort_key fst (with_tribal type_counts), cat_keywords = sort_key fst (keyword_catalog keyword_counts)\<rparr>,
             map_option (set_cache_header 3600) resp))"

section \<open>Properties\<close>

text \<open>
  The handlers of text files. When the file is read, the response has its text, its type and its cache header. When it is not, the response has an
  error status and still the cache header of the file, so that browsers and proxies keep the error for as long as the file.
\<close>

theorem static_error_cached:
  assumes "(handler, filename, content_type, seconds) \<in>
    {(styles_css, ''styles.css'', ''text/css'', 2592000), (app_js, ''app.js'', ''application/javascript'', 3600),
     (app_min_js, ''app.min.js'', ''application/javascript'', 2592000), (card_js, ''card.js'', ''application/javascript'', 3600)}"
  shows "\<exists>resp'. handler read (Some resp) = Some resp' \<and> st_type resp' = u content_type \<and>
    map_of (st_headers resp') (u ''cache-control'') = Some (cache_control seconds) \<and>
    (case read (u filename) of
       Contents t \<Rightarrow> st_text resp' = t \<and> st_status resp' = st_status resp
     | FileNotFoundError \<Rightarrow> st_status resp' = u ''404 Not Found''
     | PermissionError \<Rightarrow> st_status resp' = u ''403 Forbidden''
     | OSError e \<Rightarrow> st_status resp' = u ''500 Internal Server Error'')"
  using assms
  by (auto simp: styles_css_def app_js_def app_min_js_def card_js_def text_handler_def serve_static_file_def set_cache_header_def Let_def
      split: file_read.split)

theorem static_error_cached_witness:
  "\<exists>resp'. styles_css (\<lambda>_. FileNotFoundError) (Some \<lparr>st_status = u ''200 OK'', st_text = [], st_type = [], st_headers = []\<rparr>) = Some resp' \<and>
    st_status resp' = u ''404 Not Found'' \<and> map_of (st_headers resp') (u ''cache-control'') = Some (cache_control 2592000)"
  using static_error_cached [of styles_css "''styles.css''" "''text/css''" 2592000 "\<lambda>_. FileNotFoundError"
      "\<lparr>st_status = u ''200 OK'', st_text = [], st_type = [], st_headers = []\<rparr>"]
  by auto

lemma sort_key_fst:
  fixes d :: "(pstr \<times> int) list"
  assumes "distinct (map fst d)"
  shows "sorted_wrt (<) (map fst (sort_key fst d)) \<and> map_of (sort_key fst d) = map_of d"
proof -
  have keys: "distinct (map fst (sort_key fst d))"
    using assms by (metis distinct_map distinct_sort inj_on_cong set_sort)
  then have "sorted_wrt (<) (map fst (sort_key fst d))" by (simp add: strict_sorted_iff)
  moreover have "map_of (sort_key fst d) = map_of d"
    using assms keys by (intro map_of_inject_set [THEN iffD2]) simp_all
  ultimately show ?thesis by blast
qed

text \<open>
  The catalogue. Once the engine is loaded, both dictionaries come in strictly rising order of their keys, whatever order the engine gives them in.
  The types are those of the engine, with the count of Kindred also under its old name; the keywords are the lower-case forms of the engine's, each with the
  count of one of them.
\<close>

theorem catalog_correct:
  assumes "engine_size \<noteq> 0" and "distinct (map fst types)"
  shows "\<exists>c. get_catalog engine_size types keywords resp = Inr (c, map_option (set_cache_header 3600) resp) \<and>
    sorted_wrt (<) (map fst (cat_types c)) \<and> sorted_wrt (<) (map fst (cat_keywords c)) \<and>
    map_of (cat_types c) =
      (case map_of types (u ''Kindred'') of
         None \<Rightarrow> map_of types | Some n \<Rightarrow> if n = 0 then map_of types else (map_of types)(u ''Tribal'' \<mapsto> n)) \<and>
    (\<forall>k n. map_of (cat_keywords c) k = Some n \<longrightarrow> (\<exists>k'. py_lower k' = k \<and> (k', n) \<in> set keywords)) \<and>
    fst ` set (cat_keywords c) = py_lower ` fst ` set keywords"
proof -
  have t: "distinct (map fst (with_tribal types))" using assms(2) by (simp add: with_tribal_def Let_def distinct_keys_dict_set)
  have k: "distinct (map fst (keyword_catalog keywords))" unfolding keyword_catalog_def by (rule distinct_foldl_dict_set) simp
  have m: "map_of (keyword_catalog keywords) = map_of (rev (map (\<lambda>(k, n). (py_lower k, n)) keywords))"
    by (simp add: keyword_catalog_def map_of_foldl_dict_set)
  have "map_of (with_tribal types) = (case map_of types (u ''Kindred'') of
         None \<Rightarrow> map_of types | Some n \<Rightarrow> if n = 0 then map_of types else (map_of types)(u ''Tribal'' \<mapsto> n))"
    by (auto simp: with_tribal_def Let_def split: option.split)
  moreover have "\<exists>k'. py_lower k' = k \<and> (k', n) \<in> set keywords" if "map_of (keyword_catalog keywords) k = Some n" for k n
    using map_of_SomeD [OF that [unfolded m]] by auto
  moreover have "fst ` set (keyword_catalog keywords) = py_lower ` fst ` set keywords"
  proof -
    have "dom (map_of (keyword_catalog keywords)) = dom (map_of (rev (map (\<lambda>(k, n). (py_lower k, n)) keywords)))" by (simp only: m)
    then show ?thesis by (simp only: dom_map_of_conv_image_fst set_rev set_map image_image case_prod_beta fst_conv)
  qed
  ultimately show ?thesis
    using assms(1) sort_key_fst [OF t] sort_key_fst [OF k] by (auto simp: get_catalog_def)
qed

theorem catalog_correct_witness:
  "\<exists>c. get_catalog 5 [(u ''Kindred'', 3), (u ''Elf'', 2)] [(u ''Flying'', 4)] None = Inr (c, None) \<and> map_of (cat_types c) (u ''Tribal'') = Some 3 \<and>
    fst ` set (cat_keywords c) = {u ''flying''}"
proof -
  have "distinct (map fst [(u ''Kindred'', 3 :: int), (u ''Elf'', 2)])" by simp
  from catalog_correct [OF _ this, of 5 "[(u ''Flying'', 4)]" None] show ?thesis
    by (auto simp: py_lower_def lower_c_def is_upper_c_def)
qed

end
