(* ===== verification/Db_Files.thy ===== *)
theory Db_Files
  imports Schema_Setup "HOL-Library.List_Lexorder"
begin

text \<open>
  The files of \<open>src/api/utils/db_utils.py\<close>: the migrations read from the file system, which \<open>setup_schema\<close> applies, and the queries read by
  name. The tree of directories, the contents of the files and the hash are arguments.
\<close>

section \<open>Migrations\<close>

definition is_sql :: "pstr \<Rightarrow> bool" where
  "is_sql name \<longleftrightarrow> suffix (u ''.sql'') (py_lower name)"

definition read_migration :: "(pstr \<Rightarrow> pstr \<Rightarrow> pstr) \<Rightarrow> (pstr \<Rightarrow> pstr) \<Rightarrow> pstr \<Rightarrow> pstr \<Rightarrow> migration" where
  "read_migration read sha256 dirname name =
     (let contents = py_strip (read dirname name)
      in \<lparr>file_name = name, file_sha256 = sha256 contents, file_contents = contents\<rparr>)"

text \<open>\<open>walk\<close> gives the directories with their files; the files of a directory are sorted by name.\<close>

definition get_migrations :: "(pstr \<times> pstr list) list \<Rightarrow> (pstr \<Rightarrow> pstr \<Rightarrow> pstr) \<Rightarrow> (pstr \<Rightarrow> pstr) \<Rightarrow> migration list" where
  "get_migrations walk read sha256 =
     concat (map (\<lambda>(dirname, child_files). map (read_migration read sha256 dirname) (filter is_sql (sort child_files))) walk)"

section \<open>Queries\<close>

text \<open>\<open>Path(f).name\<close>: the last component, when empty components and single dots are left out.\<close>

definition path_name :: "pstr \<Rightarrow> pstr" where
  "path_name f = (let parts = filter (\<lambda>p. p \<noteq> [] \<and> p \<noteq> u ''.'') (split_on 47 f) in if parts = [] then [] else last parts)"

definition sql_path :: "pstr \<Rightarrow> pstr \<Rightarrow> pstr" where
  "sql_path sql_dir filename = sql_dir @ u ''/'' @ filename @ u ''.sql''"

definition read_sql :: "pstr \<Rightarrow> (pstr \<Rightarrow> pstr) \<Rightarrow> pstr \<Rightarrow> pstr result" where
  "read_sql sql_dir read filename =
     (if filename \<in> {[], u ''.'', u ''..''} \<or> path_name filename \<noteq> filename then Inl ValueError
      else Inr (py_strip (read (sql_path sql_dir filename))))"

section \<open>Properties\<close>

text \<open>
  The migrations of a database directory without subdirectories are its scripts in the order of their names, with distinct names and, when no two scripts have
  the same text and the hash keeps texts apart, distinct hashes, as \<open>setup_schema\<close> needs them.
\<close>

theorem migrations_of_directory:
  assumes "distinct names" and "inj sha256" and "inj_on (\<lambda>n. py_strip (read dirname n)) (set (filter is_sql names))"
  shows "distinct_migrations (get_migrations [(dirname, names)] read sha256) \<and>
    sorted_wrt (<) (map file_name (get_migrations [(dirname, names)] read sha256)) \<and>
    file_name ` set (get_migrations [(dirname, names)] read sha256) = {n \<in> set names. is_sql n}"
proof -
  let ?ns = "filter is_sql (sort names)"
  have ms: "get_migrations [(dirname, names)] read sha256 = map (read_migration read sha256 dirname) ?ns" by (simp add: get_migrations_def)
  have names: "map file_name (map (read_migration read sha256 dirname) ?ns) = ?ns"
    by (simp add: read_migration_def Let_def comp_def)
  have "inj_on (\<lambda>n. sha256 (py_strip (read dirname n))) (set ?ns)"
    using comp_inj_on [OF assms(3) inj_on_subset [OF assms(2) subset_UNIV]] by (simp add: comp_def)
  then have "distinct (map file_sha256 (map (read_migration read sha256 dirname) ?ns))"
    using assms(1) by (simp add: distinct_map read_migration_def Let_def comp_def)
  moreover have "sorted_wrt (<) ?ns" using assms(1) by (simp add: strict_sorted_iff sorted_filter [of id, simplified])
  moreover have "file_name ` set (map (read_migration read sha256 dirname) ?ns) = set ?ns"
    using names by (metis list.set_map)
  ultimately show ?thesis using assms(1) unfolding ms distinct_migrations_def names by simp
qed

theorem migrations_of_directory_witness:
  "map file_name (get_migrations [(u ''db'', [u ''2.sql'', u ''readme'', u ''1.SQL''])] (\<lambda>d n. n) id) = [u ''1.SQL'', u ''2.sql''] \<and>
   distinct_migrations (get_migrations [(u ''db'', [u ''2.sql'', u ''readme'', u ''1.SQL''])] (\<lambda>d n. n) id)"
proof -
  have "inj_on (\<lambda>n. py_strip n) (set (filter is_sql [u ''2.sql'', u ''readme'', u ''1.SQL'']))"
  proof -
    have ns: "filter is_sql [u ''2.sql'', u ''readme'', u ''1.SQL''] = [u ''2.sql'', u ''1.SQL'']" by code_simp
    have "py_strip (u ''2.sql'') \<noteq> py_strip (u ''1.SQL'')" by code_simp
    then show ?thesis unfolding ns inj_on_def by (metis empty_iff empty_set list.set(2) insert_iff)
  qed
  then have "distinct_migrations (get_migrations [(u ''db'', [u ''2.sql'', u ''readme'', u ''1.SQL''])] (\<lambda>d n. n) id)"
    using migrations_of_directory [of "[u ''2.sql'', u ''readme'', u ''1.SQL'']" id "\<lambda>d n. n" "u ''db''"] by simp
  moreover have "map file_name (get_migrations [(u ''db'', [u ''2.sql'', u ''readme'', u ''1.SQL''])] (\<lambda>d n. n) id) = [u ''1.SQL'', u ''2.sql'']"
    by code_simp
  ultimately show ?thesis by blast
qed

lemma split_on_part: "p \<in> set (split_on d s) \<Longrightarrow> d \<notin> set p"
proof (induction s arbitrary: p)
  case (Cons c s)
  obtain w ws where w: "split_on d s = w # ws" by (cases "split_on d s") auto
  with Cons.IH [of w] Cons.IH [of p] Cons.prems show ?case by (auto split: if_splits)
qed simp

lemma split_on_free: "d \<notin> set s \<Longrightarrow> split_on d s = [s]"
  by (induction s) auto

lemma path_name_part: "path_name f = [] \<or> 47 \<notin> set (path_name f)"
proof (cases "filter (\<lambda>p. p \<noteq> [] \<and> p \<noteq> u ''.'') (split_on 47 f) = []")
  case False
  then have "last (filter (\<lambda>p. p \<noteq> [] \<and> p \<noteq> u ''.'') (split_on 47 f)) \<in> set (split_on 47 f)" by (metis (no_types) filter_is_subset last_in_set subset_iff)
  with False split_on_part show ?thesis by (auto simp: path_name_def Let_def)
qed (simp add: path_name_def)

text \<open>
  A query is read from the directory of queries only: \<open>read_sql\<close> accepts a name exactly when it is not empty, not a dot or two dots and has no slash; the
  file it reads is then the file of that name in the directory, and every other name is rejected.
\<close>

theorem read_sql_contained:
  "read_sql sql_dir read filename =
     (if filename \<noteq> [] \<and> filename \<noteq> u ''.'' \<and> filename \<noteq> u ''..'' \<and> 47 \<notin> set filename
      then Inr (py_strip (read (sql_path sql_dir filename))) else Inl ValueError)"
proof (cases "filename \<in> {[], u ''.'', u ''..''}")
  case False
  have "path_name filename = filename \<longleftrightarrow> 47 \<notin> set filename"
    using path_name_part [of filename] split_on_free [of 47 filename] False by (auto simp: path_name_def)
  with False show ?thesis by (auto simp: read_sql_def)
qed (auto simp: read_sql_def)

end
