(* ===== verification/Spec2Isabelle.thy ===== *)
theory Spec2Isabelle
  imports Search_Props Gen_Cache Tag_Import Http_Dispatch Site_Name Card_Upsert Import_Machine Bulk_Fetch Bulk_Cache
    Query_Log Response_Middleware Root_Page Run_Query Scryfall_Import Request_Timer Query_Sampler_Props
    Static_Files Db_Files
begin

text \<open>
  A verification library for Sylvan Librarian, a self-hosted search engine for Magic cards.

  \<^bold>\<open>The program.\<close> A worker process of the web service (\<open>src/api\<close>) receives a request. The response cache
  (\<open>middlewares/caching_middleware.py\<close>) may answer it; otherwise \<open>APIResource._handle\<close> (\<open>api_resource.py\<close>)
  resolves its path to a route (\<open>utils/routing.py\<close>), binds its parameters to the typed arguments of a handler
  (\<open>utils/param_binding.py\<close>) and calls it. The main handler is \<open>search\<close>: a Scryfall-like query string is lexed and
  parsed (\<open>parsing/hand_parser.py\<close>), rewritten (\<open>parsing/rewrite.py\<close>) and compiled to SQL with bound
  parameters (\<open>parsing/nodes.py\<close>, \<open>parsing/card_query_nodes.py\<close>) or to JSON for an engine in Rust; results are
  cached for each generation of the data (\<open>utils/generation_cache.py\<close>), and the cache shared by the workers is
  a generational cache with a cuckoo filter, whose design is \<open>src/shared_cache/sketch.py\<close>. At start-up a worker
  migrates the database (\<open>setup_schema\<close>) and imports the cards, one worker at a time (\<open>import_data\<close>): the dump is
  downloaded into a cache directory (\<open>scryfall_bulk_data_fetcher.py\<close>), its objects become rows (\<open>card_processing.py\<close>), which
  are upserted in pages (\<open>_upsert_cards\<close>, \<open>db/bulk_upsert.py\<close>), tags are synchronized (\<open>tag_import.py\<close>) and the engine
  is reloaded. On the way out a response passes the compression, the security headers and the query log
  (\<open>middlewares\<close>); browsers without scripts get the results as HTML (\<open>noscript_helpers.py\<close>).

  \<^bold>\<open>How it is modelled.\<close> Functions are HOL functions; Python exceptions are values of \<open>exn\<close> in the sum type
  \<open>'a result\<close>; strings are lists of code points (Latin-1 for the character classes and case mappings); dicts
  are association lists in insertion order; objects that are shared and mutated live in explicit stores. Code
  of other packages is an argument with named assumptions: PostgreSQL, the engine, mapping objects
  (the contract \<open>sound_cache\<close>), \<open>orjson.dumps\<close> (injective), hash functions, the compression libraries (a codec with
  its decoder), the dictionary file.

  \<^item> \<open>Py_Prelude\<close>: results, strings, dicts and the lemmas all theories share.
  \<^item> \<open>Db_Info\<close>: the field tables of \<open>parsing/db_info.py\<close>.
  \<^item> \<open>Nodes\<close>: the query tree of \<open>parsing/nodes.py\<close>, its three-valued meaning, and flattening, which keeps the meaning and
    yields a canonical form.
  \<^item> \<open>Hand_Lexer\<close>, \<open>Hand_Parser\<close>: lexer and recursive-descent parser. The parser's functions recurse on the remaining
    tokens, with fuel bounded by their number; \<open>Parser_Contracts\<close> and \<open>Hand_Parser_Safe\<close> show that this fuel
    suffices on every input, so that parsing returns a well-formed tree or one of two exceptions.
  \<^item> \<open>Query_Context\<close>, \<open>Param_Names\<close>: bound parameters; a parameter's name encodes its value, so that
    registering one never rebinds another.
  \<^item> \<open>Card_Values\<close>, \<open>Card_Values_Props\<close>: colour masks, mana costs, devotion, LIKE patterns, with the meaning of
    each.
  \<^item> \<open>Card_Sql\<close>, \<open>Sql_Safe\<close>, \<open>Sql_Props\<close>: SQL generation. The locale \<open>sql_store\<close> states what a growing set of
    parameters promises; in its interpretation every generated text is free of user text.
  \<^item> \<open>Card_Json\<close>, \<open>Node_Text\<close>: serialization for the engine, explanations.
  \<^item> \<open>Rewrite\<close>, \<open>Rewrite_Table\<close>, \<open>Rewrite_Props\<close>, \<open>Parsing_F\<close>: derived predicates, literal regular expressions,
    balancing of partial queries, and the parsing entry point.
  \<^item> \<open>Search_Service\<close>, \<open>Search_Props\<close>: the search endpoint: its statement, its errors, the columnar shape of its
    replies, and the transparency of its cache.
  \<^item> \<open>Http_Dispatch\<close>: parameter binding, the route table, path resolution and dispatch.
  \<^item> \<open>Response_Cache\<close>: the generation cache, which refines one mapping for each generation, and the response
    cache, a step relation of interleaved requests with the invariant that every entry comes from a
    storable response of an equal request.
  \<^item> \<open>Cuckoo\<close>, \<open>Gen_Cache\<close>: the cuckoo filter, and the generational cache with its \<open>get\<close> and \<open>set\<close> split at
    their lock blocks and interleaved by a step relation.
  \<^item> \<open>Tag_Import\<close>: ancestor closure and synchronization of tags.
  \<^item> \<open>Card_Processing\<close>, \<open>Card_Processing_Props\<close>: from Scryfall objects to rows.
  \<^item> \<open>Schema_Setup\<close>: migrations as states at a prefix of the list of scripts.
  \<^item> \<open>Site_Name\<close>: the site name derived from the host, and the word splitting it uses.
  \<^item> \<open>Bulk_Upsert\<close>: planning and meaning of the upsert statement, which refines a map from keys to rows.
  \<^item> \<open>Card_Upsert\<close>: the load of a stream of cards, composed of the schema set-up, the card processing and the bulk upsert;
    its result does not depend on the page size, a failed load changes nothing, and of a card with several
    faces only the last is kept.
  \<^item> \<open>Import_Machine\<close>: the import as a step relation of several workers with their locks, the reload of the engine and
    the threads that warm it: exclusion, the interval between imports, freshness of the engine, and that
    every call returns.
  \<^item> \<open>Bulk_Fetch\<close>, \<open>Bulk_Cache\<close>: decompression and streaming of a dump, and the cache directory shared by the workers.
  \<^item> \<open>Query_Log\<close>: the entries of the log and their writer, with an account of every entry.
  \<^item> \<open>Response_Middleware\<close>: compression, security and CORS headers.
  \<^item> \<open>Noscript_Html\<close>: the results as HTML; a scanner for tags shows which fields cannot change the markup.
  \<^item> \<open>Root_Page\<close>: the root page, a template with marks that the results replace.
  \<^item> \<open>Run_Query\<close>: the execution of a statement with its generation cache, transparent while the generation does not change within
    a call.
  \<^item> \<open>Scryfall_Import\<close>: what is imported by searching Scryfall page by page, the \<open>is:\<close> tags, and the data of CubeCobra.
  \<^item> \<open>Request_Timer\<close>: the timer of nested blocks over exact times.
  \<^item> \<open>Static_Files\<close>: the handlers of static files and the catalogue. \<open>Db_Files\<close>: the migrations and queries read from files.
  \<^item> \<open>Query_Sampler\<close>, \<open>Query_Sampler_Props\<close>: the generator of queries of the client: it never fails, its two modes draw the same
    things, and what it writes is read back by the lexer.

  \<^bold>\<open>Bounds and fuel.\<close> The parser's fuel and the recursion of flattening, of the ancestor walk and of word splitting are
  shown to suffice or terminate; the kick loop of the cuckoo filter is bounded as in the code; the
  decompression loop has the length of a block as its bound, which is shown to be enough. Python's recursion
  limit and memory are not modelled.

  \<^bold>\<open>Not modelled.\<close> The engine and the shared cache in Rust, which are not Python; the former parser (\<open>parsing/pyparsing_based.py\<close>) and the
  former parameter conversion, which the service does not call; HTTP sessions, connection pools, logging, processes and signals, which
  are calls of libraries; the statements of the backfills, whose effects are PostgreSQL's; the extraction of critical CSS; the rounding of
  floats; benchmarks, plots, font subsetting and the other one-off scripts.
\<close>

end
